(* ===== verification/Roole_Prelude.thy ===== *)
theory Roole_Prelude
  imports Main "HOL-Library.Word"
begin

unbundle bit_operations_syntax

text \<open>
  Shared vocabulary of the development: machine integer types, the result codes of
  include/roole/common.h, the outcome type of C functions that may read or write outside an
  array, and the list functions that model the loops every component repeats (find the first
  entry, shift an array down, fill a fixed array). Their lemmas are the automation the
  component theories rest on.
\<close>

section \<open>Types of the C code\<close>

type_synonym u8 = "8 word"
type_synonym u16 = "16 word"
type_synonym u32 = "32 word"
type_synonym u64 = "64 word"
type_synonym bytes = "u8 list"

type_synonym node_id = u16
type_synonym execution_id = u64
type_synonym rule_id = u32

text \<open>\<open>result_status_t\<close> of include/roole/common.h.\<close>

datatype result_status =
    RESULT_OK
  | RESULT_ERR_NOMEM
  | RESULT_ERR_INVALID
  | RESULT_ERR_NOTFOUND
  | RESULT_ERR_TIMEOUT
  | RESULT_ERR_NETWORK
  | RESULT_ERR_EXISTS
  | RESULT_ERR_FULL
  | RESULT_ERR_EMPTY

text \<open>
  What a C function that is not total can do instead of returning a value: return an error
  code, or touch memory outside the array it works on (undefined behaviour).
\<close>

datatype c_error = Returns_minus_one | Out_of_bounds

named_theorems wf_intros \<open>preservation lemmas of well-formedness invariants\<close>
named_theorems frame_simps \<open>equations for the fields an operation leaves alone\<close>

lemma unat_word_of_nat:
  "n < 2 ^ LENGTH('a) \<Longrightarrow> unat (word_of_nat n :: 'a::len word) = n"
  by (simp add: unat_of_nat take_bit_nat_eq_self)

text \<open>A step that is taken when the one before it gave a value.\<close>

fun and_then :: "'e + 'a \<Rightarrow> ('a \<Rightarrow> 'e + 'b) \<Rightarrow> 'e + 'b" where
  "and_then (Inl e) f = Inl e"
| "and_then (Inr x) f = f x"

lemma and_then_Inr_iff: "and_then r f = Inr y \<longleftrightarrow> (\<exists>x. r = Inr x \<and> f x = Inr y)"
  by (cases r) auto

section \<open>Array loops\<close>

text \<open>
  The loop \<^verbatim>\<open>for (i = 0; i < count; i++) if (P(a[i])) { ...; break; }\<close>: the index of the
  first entry that satisfies \<open>P\<close>, if any.
\<close>

fun find_index :: "('a \<Rightarrow> bool) \<Rightarrow> 'a list \<Rightarrow> nat option" where
  "find_index P [] = None"
| "find_index P (x # xs) = (if P x then Some 0 else map_option Suc (find_index P xs))"

lemma find_index_SomeD:
  "find_index P xs = Some i \<Longrightarrow> i < length xs \<and> P (xs ! i) \<and> (\<forall>j<i. \<not> P (xs ! j))"
proof (induction xs arbitrary: i)
  case Nil
  then show ?case by simp
next
  case (Cons x xs)
  show ?case
  proof (cases "P x")
    case True
    with Cons.prems show ?thesis by simp
  next
    case False
    with Cons.prems obtain k where k: "find_index P xs = Some k" "i = Suc k"
      by auto
    from Cons.IH [OF k(1)] False k(2) show ?thesis
      by (auto simp: nth_Cons split: nat.splits)
  qed
qed

lemma find_index_less [dest]: "find_index P xs = Some i \<Longrightarrow> i < length xs"
  by (simp add: find_index_SomeD)

lemma find_index_holds: "find_index P xs = Some i \<Longrightarrow> P (xs ! i)"
  by (simp add: find_index_SomeD)

lemma find_index_first: "find_index P xs = Some i \<Longrightarrow> j < i \<Longrightarrow> \<not> P (xs ! j)"
  by (simp add: find_index_SomeD)

lemma find_index_None_iff: "find_index P xs = None \<longleftrightarrow> (\<forall>x \<in> set xs. \<not> P x)"
  by (induction xs) auto

lemma find_index_Some_ex: "(\<exists>i. find_index P xs = Some i) \<longleftrightarrow> (\<exists>x \<in> set xs. P x)"
  using find_index_None_iff [of P xs] by (metis not_None_eq)

lemma find_index_intro:
  "i < length xs \<Longrightarrow> P (xs ! i) \<Longrightarrow> (\<And>j. j < i \<Longrightarrow> \<not> P (xs ! j)) \<Longrightarrow> find_index P xs = Some i"
proof (induction xs arbitrary: i)
  case Nil
  then show ?case by simp
next
  case (Cons x xs)
  show ?case
  proof (cases i)
    case 0
    with Cons.prems show ?thesis by simp
  next
    case (Suc k)
    have "\<not> P x" using Cons.prems(3) [of 0] Suc by simp
    moreover have "find_index P xs = Some k"
    proof (rule Cons.IH)
      show "\<not> P (xs ! j)" if "j < k" for j using Cons.prems(3) [of "Suc j"] Suc that by simp
    qed (use Cons.prems Suc in auto)
    ultimately show ?thesis using Suc by simp
  qed
qed

lemma find_index_unique_key:
  "distinct (map f xs) \<Longrightarrow> i < length xs \<Longrightarrow> find_index (\<lambda>x. f x = f (xs ! i)) xs = Some i"
  by (rule find_index_intro) (auto simp: distinct_conv_nth)

text \<open>The \<open>memmove\<close> that closes the gap of a removed array entry.\<close>

definition remove_at :: "nat \<Rightarrow> 'a list \<Rightarrow> 'a list" where
  "remove_at i xs = take i xs @ drop (Suc i) xs"

lemma length_remove_at [simp]: "i < length xs \<Longrightarrow> length (remove_at i xs) = length xs - 1"
  by (simp add: remove_at_def)

lemma set_remove_at: "set (remove_at i xs) \<subseteq> set xs"
  by (auto simp: remove_at_def dest: in_set_takeD in_set_dropD)

lemma remove_at_split: "remove_at (length us) (us @ x # vs) = us @ vs"
  by (simp add: remove_at_def)

lemma map_remove_at: "map f (remove_at i xs) = remove_at i (map f xs)"
  by (simp add: remove_at_def take_map drop_map)

lemma distinct_remove_at: "distinct xs \<Longrightarrow> distinct (remove_at i xs)"
  using set_take_disj_set_drop_if_distinct [of xs i "Suc i"]
  by (auto simp: remove_at_def distinct_append)

lemma set_remove_at_distinct:
  assumes "distinct xs" "i < length xs"
  shows "set (remove_at i xs) = set xs - {xs ! i}"
proof -
  have xs: "xs = take i xs @ xs ! i # drop (Suc i) xs"
    using assms(2) by (rule id_take_nth_drop)
  then have "distinct (take i xs @ xs ! i # drop (Suc i) xs)" using assms(1) by simp
  then have "xs ! i \<notin> set (take i xs) \<union> set (drop (Suc i) xs)" by simp
  moreover have "set xs = insert (xs ! i) (set (take i xs) \<union> set (drop (Suc i) xs))"
    by (subst xs) simp
  ultimately show ?thesis by (simp add: remove_at_def)
qed

text \<open>Updating one entry without touching its key.\<close>

lemma map_update_same: "i < length xs \<Longrightarrow> f y = f (xs ! i) \<Longrightarrow> map f (xs[i := y]) = map f xs"
  by (simp add: map_update list_update_same_conv)

lemma set_update_subsetI2: "set (xs[i := y]) \<subseteq> insert y (set xs)"
  by (rule set_update_subset_insert)

section \<open>Lookup by key\<close>

text \<open>The first entry with a given key: the record a C lookup loop returns.\<close>

definition first_with :: "('r \<Rightarrow> 'k) \<Rightarrow> 'k \<Rightarrow> 'r list \<Rightarrow> 'r option" where
  "first_with key k rs = map_option ((!) rs) (find_index (\<lambda>r. key r = k) rs)"

lemma first_with_Nil [simp]: "first_with key k [] = None"
  by (simp add: first_with_def)

lemma first_with_Cons [simp]:
  "first_with key k (r # rs) = (if key r = k then Some r else first_with key k rs)"
  by (cases "find_index (\<lambda>r. key r = k) rs") (auto simp: first_with_def)

lemma first_with_append:
  "first_with key k (rs @ ss) =
     (case first_with key k rs of None \<Rightarrow> first_with key k ss | Some r \<Rightarrow> Some r)"
  by (induction rs) auto

lemma first_with_None_iff: "first_with key k rs = None \<longleftrightarrow> k \<notin> key ` set rs"
  by (induction rs) auto

lemma first_with_Some_mem: "first_with key k rs = Some r \<Longrightarrow> r \<in> set rs \<and> key r = k"
  by (induction rs) (auto split: if_splits)

lemma first_with_distinct:
  "distinct (map key rs) \<Longrightarrow> r \<in> set rs \<Longrightarrow> first_with key (key r) rs = Some r"
  by (induction rs) force+

lemma first_with_update:
  "i < length rs \<Longrightarrow> key r = key (rs ! i) \<Longrightarrow> distinct (map key rs) \<Longrightarrow>
   first_with key k (rs[i := r]) = (if k = key r then Some r else first_with key k rs)"
proof (induction rs arbitrary: i)
  case Nil
  then show ?case by simp
next
  case (Cons x rs)
  show ?case
  proof (cases i)
    case 0
    with Cons.prems show ?thesis by auto
  next
    case (Suc j)
    with Cons.prems have "key r \<noteq> key x" by (metis Suc_less_eq distinct.simps(2) length_Cons list.simps(9) nth_Cons_Suc nth_map nth_mem length_map)
    with Cons Suc show ?thesis by auto
  qed
qed

lemma first_with_remove_at:
  "i < length rs \<Longrightarrow> distinct (map key rs) \<Longrightarrow>
   first_with key k (remove_at i rs) = (if k = key (rs ! i) then None else first_with key k rs)"
proof -
  assume i: "i < length rs" and d: "distinct (map key rs)"
  have split: "rs = take i rs @ rs ! i # drop (Suc i) rs" using i by (rule id_take_nth_drop)
  have d': "distinct (map key (take i rs) @ key (rs ! i) # map key (drop (Suc i) rs))"
    using d by (subst (asm) split) simp
  have eq: "first_with key k rs = first_with key k (take i rs @ rs ! i # drop (Suc i) rs)"
    using split by simp
  show ?thesis
    unfolding remove_at_def eq
    using d' by (auto simp: first_with_append first_with_None_iff split: option.splits)
      (metis first_with_Some_mem image_eqI)+
qed

end
