(* ===== verification/Roole_Common.thy ===== *)
theory Roole_Common
  imports Roole_Prelude
begin

text \<open>
  src/core/common.c: C strings and the hash utilities. A \<^verbatim>\<open>char *\<close> is modelled by the
  string it denotes (the characters before the terminating NUL), a \<^verbatim>\<open>char[n]\<close> destination
  by the string it holds afterwards. Allocation wrappers and clock reads are not functions of
  the program's data: a clock read is an argument \<open>now\<close> of the operation that makes it.
\<close>

text \<open>Two limits of include/roole/config.h that the wire format uses as well.\<close>

definition MAX_CONFIG_ROUTERS :: nat where "MAX_CONFIG_ROUTERS = 16"
definition MAX_CONFIG_STRING :: nat where "MAX_CONFIG_STRING = 256"

lemmas config_limits = MAX_CONFIG_ROUTERS_def MAX_CONFIG_STRING_def

section \<open>C strings\<close>

abbreviation NUL :: char where "NUL \<equiv> CHR 0x00"

definition c_string :: "string \<Rightarrow> bool" where
  "c_string s \<longleftrightarrow> NUL \<notin> set s"

definition char_at :: "string \<Rightarrow> nat \<Rightarrow> char" where
  "char_at s i = (if i < length s then s ! i else NUL)"

text \<open>The copy loop of \<open>safe_strncpy\<close>: at most \<open>n\<close> characters, stopping at the NUL.\<close>

fun copy_chars :: "nat \<Rightarrow> string \<Rightarrow> string" where
  "copy_chars 0 s = []"
| "copy_chars (Suc n) [] = []"
| "copy_chars (Suc n) (c # s) = (if c = NUL then [] else c # copy_chars n s)"

definition safe_strncpy :: "string \<Rightarrow> string option \<Rightarrow> nat \<Rightarrow> string \<times> int" where
  "safe_strncpy dst src dst_size =
     (if dst_size = 0 then (dst, -1)
      else case src of
        None \<Rightarrow> ([], 0)
      | Some s \<Rightarrow>
          let d = copy_chars (dst_size - 1) s
          in (d, if char_at s (length d) = NUL then 0 else -1))"

abbreviation strcpy_to :: "nat \<Rightarrow> string \<Rightarrow> string" where
  "strcpy_to n s \<equiv> fst (safe_strncpy [] (Some s) n)"

lemma copy_chars_length: "length (copy_chars n s) \<le> n"
  by (induction n s rule: copy_chars.induct) auto

lemma copy_chars_c_string [simp]: "c_string (copy_chars n s)"
  by (induction n s rule: copy_chars.induct) (auto simp: c_string_def)

lemma copy_chars_take: "c_string s \<Longrightarrow> copy_chars n s = take n s"
  by (induction n s rule: copy_chars.induct) (auto simp: c_string_def)

lemma strcpy_to_eq: "0 < n \<Longrightarrow> c_string s \<Longrightarrow> strcpy_to n s = take (n - 1) s"
  by (simp add: safe_strncpy_def Let_def copy_chars_take)

lemma strcpy_to_short [simp]: "c_string s \<Longrightarrow> length s < n \<Longrightarrow> strcpy_to n s = s"
  by (subst strcpy_to_eq) auto

lemma strcpy_to_length: "0 < n \<Longrightarrow> length (strcpy_to n s) < n"
  using copy_chars_length [of "n - 1" s] by (simp add: safe_strncpy_def Let_def)

lemma strcpy_to_c_string [simp]: "c_string (strcpy_to n s)"
  by (simp add: safe_strncpy_def Let_def c_string_def [of "[]"])

text \<open>\<open>safe_strncpy\<close> never writes more than the destination holds (terminator included),
  always leaves a terminated string that is a prefix of the source, and returns 0 exactly when
  nothing was cut off.\<close>

theorem safe_strncpy_correct:
  assumes "0 < dst_size" and "c_string s"
  shows "length (fst (safe_strncpy dst (Some s) dst_size)) < dst_size
    \<and> fst (safe_strncpy dst (Some s) dst_size) = take (dst_size - 1) s
    \<and> (snd (safe_strncpy dst (Some s) dst_size) = 0 \<longleftrightarrow> length s < dst_size)"
proof -
  have d: "copy_chars (dst_size - 1) s = take (dst_size - 1) s"
    using assms(2) by (rule copy_chars_take)
  have "s ! i \<noteq> NUL" if "i < length s" for i
    using assms(2) that by (metis c_string_def nth_mem)
  then have "char_at s (min (length s) (dst_size - 1)) = NUL \<longleftrightarrow> length s < dst_size"
    using assms(1) by (auto simp: char_at_def min_def)
  then show ?thesis
    using assms(1) d by (simp add: safe_strncpy_def Let_def)
qed

theorem safe_strncpy_correct_witness:
  "fst (safe_strncpy [] (Some ''10.0.0.1'') 4) = ''10.''
   \<and> snd (safe_strncpy [] (Some ''10.0.0.1'') 4) \<noteq> 0"
  using safe_strncpy_correct [of 4 "''10.0.0.1''" "[]"] by (simp add: c_string_def)

section \<open>Hash utilities\<close>

definition hash_u32 :: "u32 \<Rightarrow> u32" where
  "hash_u32 x =
     (let x = x XOR drop_bit 16 x;
          x = x * 0x85ebca6b;
          x = x XOR drop_bit 13 x;
          x = x * 0xc2b2ae35
      in x XOR drop_bit 16 x)"

definition hash_u64 :: "u64 \<Rightarrow> u64" where
  "hash_u64 x =
     (let x = x XOR drop_bit 33 x;
          x = x * 0xff51afd7ed558ccd;
          x = x XOR drop_bit 33 x;
          x = x * 0xc4ceb9fe1a85ec53
      in x XOR drop_bit 33 x)"

text \<open>\<^verbatim>\<open>int c = *str++\<close> reads a signed \<^verbatim>\<open>char\<close>: bytes from 128 on are sign extended.\<close>

fun hash_string_from :: "u32 \<Rightarrow> string \<Rightarrow> u32" where
  "hash_string_from h [] = h"
| "hash_string_from h (c # s) =
     (if c = NUL then h
      else hash_string_from ((push_bit 5 h + h) + scast (of_char c :: u8)) s)"

definition hash_string :: "string option \<Rightarrow> u32" where
  "hash_string str = (case str of None \<Rightarrow> 0 | Some s \<Rightarrow> hash_string_from 5381 s)"

lemma xorshift_undo:
  fixes x :: "'a::len word"
  assumes "LENGTH('a) \<le> 3 * n"
  shows "(x XOR drop_bit n x) XOR drop_bit n (x XOR drop_bit n x)
           XOR drop_bit (n + n) (x XOR drop_bit n x) = x"
proof (rule bit_word_eqI)
  fix i assume "i < LENGTH('a)"
  have "\<not> bit x (n + (n + (n + i)))"
    using assms bit_imp_le_length [of x "n + (n + (n + i))"] by auto
  then show "bit ((x XOR drop_bit n x) XOR drop_bit n (x XOR drop_bit n x)
               XOR drop_bit (n + n) (x XOR drop_bit n x)) i = bit x i"
    by (auto simp: bit_simps ac_simps)
qed

lemma inj_xorshift:
  fixes x y :: "'a::len word"
  assumes "LENGTH('a) \<le> 3 * n" and "x XOR drop_bit n x = y XOR drop_bit n y"
  shows "x = y"
  using xorshift_undo [OF assms(1), of x] xorshift_undo [OF assms(1), of y] assms(2) by simp

lemma inj_times_unit:
  fixes x y a b :: "'a::len word"
  assumes "a * b = 1" and "x * a = y * a"
  shows "x = y"
proof -
  have "x = x * a * b" using assms(1) by (simp add: mult.assoc)
  also have "\<dots> = y" using assms by (simp add: mult.assoc)
  finally show ?thesis .
qed

text \<open>the two integer hashes are injective: distinct keys never share a full hash value, since
  every mixing step (xor-shift, multiplication by an odd constant) is invertible.\<close>

theorem integer_hashes_injective: "inj hash_u32 \<and> inj hash_u64"
proof
  have m1: "(0x85ebca6b :: u32) * 0xA5CB9243 = 1" by simp
  have m2: "(0xc2b2ae35 :: u32) * 0x7ED1B41D = 1" by simp
  show "inj hash_u32"
    by (rule injI) (auto simp: hash_u32_def Let_def
        dest!: inj_xorshift [rotated] inj_times_unit [OF m1] inj_times_unit [OF m2])
  have m3: "(0xff51afd7ed558ccd :: u64) * 0x4F74430C22A54005 = 1" by simp
  have m4: "(0xc4ceb9fe1a85ec53 :: u64) * 0x9CB4B2F8129337DB = 1" by simp
  show "inj hash_u64"
    by (rule injI) (auto simp: hash_u64_def Let_def
        dest!: inj_xorshift [rotated] inj_times_unit [OF m3] inj_times_unit [OF m4])
qed

section \<open>Decimal numbers\<close>

text \<open>What \<open>%u\<close> prints.\<close>

definition digit_char :: "nat \<Rightarrow> char" where
  "digit_char d = char_of (48 + d)"

fun utoa :: "nat \<Rightarrow> string" where
  "utoa n = (if n < 10 then [digit_char n] else utoa (n div 10) @ [digit_char (n mod 10)])"

declare utoa.simps [simp del]

lemma of_char_digit: "d < 10 \<Longrightarrow> (of_char (digit_char d) :: nat) = 48 + d"
  by (simp add: digit_char_def of_char_of)

lemma digit_char_not_NUL: "d < 10 \<Longrightarrow> digit_char d \<noteq> NUL"
  using of_char_digit [of d] by (auto simp del: of_char_of)

lemma c_string_utoa: "c_string (utoa n)"
proof (induction n rule: utoa.induct)
  case (1 n)
  then show ?case
    using digit_char_not_NUL [of n] digit_char_not_NUL [of "n mod 10"]
    by (subst utoa.simps) (auto simp: c_string_def)
qed

lemma utoa_length:
  "n < 10 ^ k \<Longrightarrow> 0 < k \<Longrightarrow> length (utoa n) \<le> k"
proof (induction k arbitrary: n)
  case 0
  then show ?case by simp
next
  case (Suc k)
  show ?case
  proof (cases "n < 10")
    case True
    then show ?thesis by (simp add: utoa.simps [of n])
  next
    case False
    then have "0 < k" using Suc.prems by (cases k) auto
    moreover have "n div 10 < 10 ^ k" using Suc.prems by (simp add: div_less_iff_less_mult mult.commute)
    ultimately have "length (utoa (n div 10)) \<le> k" by (rule Suc.IH [rotated])
    with False show ?thesis by (simp add: utoa.simps [of n])
  qed
qed

end
