(* ===== verification/Wire.thy ===== *)
theory Wire
  imports Roole_Common
begin

text \<open>
  Byte order helpers. src/cluster/gossip_protocol.c writes integers in network byte order
  (\<open>htons\<close>, \<open>htobe64\<close> and a \<open>memcpy\<close>), src/dag/dag_catalog.c and src/core/rpc.c do the same with
  \<open>htonl\<close>; a few RPC payloads copy an integer as the host stores it, which is little endian on
  the platforms the build targets. A buffer is the list of its bytes; \<^verbatim>\<open>buffer + offset\<close> is
  \<open>drop offset buffer\<close>. The locale \<open>codec\<close> is the contract of every fixed-width encoder and its
  reader, with the lemma about arrays of encoded elements that the serialisers share.
\<close>

section \<open>Big and little endian integers\<close>

fun be_bytes :: "nat \<Rightarrow> 'a::len word \<Rightarrow> bytes" where
  "be_bytes 0 v = []"
| "be_bytes (Suc n) v = ucast (drop_bit (8 * n) v) # be_bytes n v"

fun be_value :: "'a::len word \<Rightarrow> bytes \<Rightarrow> 'a word" where
  "be_value acc [] = acc"
| "be_value acc (b # bs) = be_value (push_bit 8 acc OR ucast b) bs"

lemma length_be_bytes [simp]: "length (be_bytes n v) = n"
  by (induction n) auto

lemma be_value_be_bytes:
  "be_value acc (be_bytes n v) = push_bit (8 * n) acc OR take_bit (8 * n) v"
proof (induction n arbitrary: acc)
  case 0
  then show ?case by simp
next
  case (Suc n)
  have "push_bit (8 * n) (push_bit 8 acc OR ucast (ucast (drop_bit (8 * n) v) :: u8))
          OR take_bit (8 * n) v = push_bit (8 * Suc n) acc OR take_bit (8 * Suc n) v"
    by (rule bit_word_eqI) (auto simp: bit_simps algebra_simps)
  then show ?case by (simp add: Suc.IH)
qed

lemma be_value_be_bytes_full:
  fixes v :: "'a::len word"
  shows "LENGTH('a) \<le> 8 * n \<Longrightarrow> be_value 0 (be_bytes n v) = v"
  by (simp add: be_value_be_bytes take_bit_word_eq_self)

definition write_u16_net :: "u16 \<Rightarrow> bytes" where "write_u16_net value = be_bytes 2 value"
definition write_u64_net :: "u64 \<Rightarrow> bytes" where "write_u64_net value = be_bytes 8 value"
definition write_u32_net :: "u32 \<Rightarrow> bytes" where "write_u32_net value = be_bytes 4 value"

definition read_u16_net :: "bytes \<Rightarrow> u16" where "read_u16_net buffer = be_value 0 (take 2 buffer)"
definition read_u64_net :: "bytes \<Rightarrow> u64" where "read_u64_net buffer = be_value 0 (take 8 buffer)"
definition read_u32_net :: "bytes \<Rightarrow> u32" where "read_u32_net buffer = be_value 0 (take 4 buffer)"

definition host_u16 :: "u16 \<Rightarrow> bytes" where "host_u16 v = rev (be_bytes 2 v)"
definition host_u32 :: "u32 \<Rightarrow> bytes" where "host_u32 v = rev (be_bytes 4 v)"
definition host_u64 :: "u64 \<Rightarrow> bytes" where "host_u64 v = rev (be_bytes 8 v)"

definition load_u16 :: "bytes \<Rightarrow> u16" where "load_u16 buffer = be_value 0 (rev (take 2 buffer))"
definition load_u32 :: "bytes \<Rightarrow> u32" where "load_u32 buffer = be_value 0 (rev (take 4 buffer))"
definition load_u64 :: "bytes \<Rightarrow> u64" where "load_u64 buffer = be_value 0 (rev (take 8 buffer))"

lemmas write_net_defs = write_u16_net_def write_u32_net_def write_u64_net_def
lemmas read_net_defs = read_u16_net_def read_u32_net_def read_u64_net_def
lemmas host_defs = host_u16_def host_u32_def host_u64_def
lemmas load_defs = load_u16_def load_u32_def load_u64_def

lemma length_write_net [simp]:
  "length (write_u16_net a) = 2" "length (write_u32_net b) = 4" "length (write_u64_net c) = 8"
  "length (host_u16 a) = 2" "length (host_u32 b) = 4" "length (host_u64 c) = 8"
  by (simp_all add: write_net_defs host_defs)

lemma read_write_net [simp]:
  "read_u16_net (write_u16_net a @ rest) = a"
  "read_u32_net (write_u32_net b @ rest) = b"
  "read_u64_net (write_u64_net c @ rest) = c"
  "load_u16 (host_u16 a @ rest) = a"
  "load_u32 (host_u32 b @ rest) = b"
  "load_u64 (host_u64 c @ rest) = c"
  by (simp_all add: write_net_defs read_net_defs host_defs load_defs be_value_be_bytes_full)

section \<open>Arrays of fixed-width items\<close>

text \<open>
  The write loop of the serialisers: append the next item while it fits in \<open>bufsz\<close> bytes; the
  result is the buffer written and, if an item did not fit, the index at which the loop broke.
  The read loop takes up to \<open>n\<close> items and stops at the first that is not there in full.
\<close>

fun write_items :: "('a \<Rightarrow> bytes) \<Rightarrow> nat \<Rightarrow> nat \<Rightarrow> nat \<Rightarrow> 'a list \<Rightarrow> bytes \<Rightarrow> bytes \<times> nat option" where
  "write_items enc width bufsz i [] out = (out, None)"
| "write_items enc width bufsz i (x # xs) out =
     (if bufsz < length out + width then (out, Some i)
      else write_items enc width bufsz (Suc i) xs (out @ enc x))"

fun read_items :: "(bytes \<Rightarrow> 'a) \<Rightarrow> nat \<Rightarrow> nat \<Rightarrow> bytes \<Rightarrow> 'a list" where
  "read_items dec width 0 bs = []"
| "read_items dec width (Suc n) bs =
     (if length bs < width then []
      else dec bs # read_items dec width n (drop width bs))"

lemma length_read_items: "length (read_items dec width n bs) \<le> n"
  by (induction n arbitrary: bs) auto

lemma length_read_items_eq:
  "0 < width \<Longrightarrow> length (read_items dec width n bs) = min n (length bs div width)"
proof (induction n arbitrary: bs)
  case 0
  then show ?case by simp
next
  case (Suc n)
  then show ?case by (auto simp: div_if [of "length bs" width])
qed

section \<open>Fixed-width codecs\<close>

text \<open>
  \<open>enc\<close> produces exactly \<open>width\<close> bytes for the values in \<open>ok\<close>, and \<open>dec\<close> reads them back
  from a buffer that starts with them, whatever follows.
\<close>

locale codec =
  fixes enc :: "'a \<Rightarrow> bytes" and dec :: "bytes \<Rightarrow> 'a" and width :: nat and ok :: "'a \<Rightarrow> bool"
  assumes enc_width: "ok x \<Longrightarrow> length (enc x) = width"
    and dec_enc: "ok x \<Longrightarrow> dec (enc x @ rest) = x"
begin

lemma concat_width: "list_all ok xs \<Longrightarrow> length (concat (map enc xs)) = width * length xs"
  by (induction xs) (auto simp: enc_width)

lemma dec_nth:
  "list_all ok xs \<Longrightarrow> i < length xs \<Longrightarrow> dec (drop (width * i) (concat (map enc xs) @ rest)) = xs ! i"
proof (induction xs arbitrary: i)
  case Nil
  then show ?case by simp
next
  case (Cons x xs)
  then show ?case by (cases i) (auto simp: enc_width dec_enc)
qed

lemma read_items_concat:
  "list_all ok xs \<Longrightarrow> read_items dec width (length xs) (concat (map enc xs) @ rest) = xs"
  by (induction xs) (simp_all add: enc_width dec_enc)

lemma write_items_fit:
  "list_all ok xs \<Longrightarrow> length out + width * length xs \<le> bufsz \<Longrightarrow>
   write_items enc width bufsz i xs out = (out @ concat (map enc xs), None)"
proof (induction xs arbitrary: i out)
  case Nil
  then show ?case by simp
next
  case (Cons x xs)
  then show ?case by (simp add: enc_width)
qed

lemma write_items_break:
  assumes "0 < width"
  shows "list_all ok xs \<Longrightarrow> length out \<le> bufsz \<Longrightarrow> bufsz < length out + width * length xs \<Longrightarrow>
   write_items enc width bufsz i xs out =
     (out @ concat (map enc (take ((bufsz - length out) div width) xs)),
      Some (i + (bufsz - length out) div width))"
proof (induction xs arbitrary: i out)
  case Nil
  then show ?case by simp
next
  case (Cons x xs)
  show ?case
  proof (cases "bufsz < length out + width")
    case True
    with Cons.prems have "(bufsz - length out) div width = 0" by (intro div_less) simp
    with True show ?thesis by simp
  next
    case False
    with Cons.prems have "(bufsz - length out) div width = Suc ((bufsz - (length out + width)) div width)"
      using assms by (subst div_if) (simp add: diff_diff_eq)
    moreover have "write_items enc width bufsz (Suc i) xs (out @ enc x) =
        ((out @ enc x) @ concat (map enc (take ((bufsz - length (out @ enc x)) div width) xs)),
         Some (Suc i + (bufsz - length (out @ enc x)) div width))"
      using Cons.prems False by (intro Cons.IH) (auto simp: enc_width)
    ultimately show ?thesis using False Cons.prems by (simp add: enc_width)
  qed
qed

lemma enc_inj: "ok x \<Longrightarrow> ok y \<Longrightarrow> enc x = enc y \<Longrightarrow> x = y"
  using dec_enc [of x "[]"] dec_enc [of y "[]"] by simp

end

interpretation u16_net: codec write_u16_net read_u16_net 2 "\<lambda>_. True"
  by unfold_locales simp_all

interpretation u32_net: codec write_u32_net read_u32_net 4 "\<lambda>_. True"
  by unfold_locales simp_all

interpretation u64_net: codec write_u64_net read_u64_net 8 "\<lambda>_. True"
  by unfold_locales simp_all

section \<open>Characters and bytes\<close>

definition byte_of :: "char \<Rightarrow> u8" where "byte_of c = word_of_nat (of_char c)"
definition char_of_byte :: "u8 \<Rightarrow> char" where "char_of_byte b = char_of (unat b)"

lemma char_of_byte_of [simp]: "char_of_byte (byte_of c) = c"
  by (simp add: char_of_byte_def byte_of_def unat_of_nat of_char_mod_256)

lemma byte_of_char_of [simp]: "byte_of (char_of_byte b) = b"
proof -
  have "unat b < 2 ^ 8" using unsigned_less [of b, where 'a = nat] by simp
  then show ?thesis by (simp add: char_of_byte_def byte_of_def)
qed

lemma byte_of_eq_0 [simp]: "byte_of c = 0 \<longleftrightarrow> c = NUL"
proof -
  have "byte_of NUL = 0" by (simp add: byte_of_def)
  then show ?thesis by (metis char_of_byte_of)
qed

lemma char_of_byte_eq_NUL [simp]: "char_of_byte b = NUL \<longleftrightarrow> b = 0"
  by (metis byte_of_char_of byte_of_eq_0)

lemma NUL_eq_char_of_byte [simp]: "NUL = char_of_byte b \<longleftrightarrow> b = 0"
  by (metis char_of_byte_eq_NUL)

text \<open>A NUL padded field of \<open>n\<close> bytes: \<open>memset\<close> to 0, then \<open>strncpy\<close> of at most \<open>n - 1\<close> characters.\<close>

definition put_padded :: "nat \<Rightarrow> string \<Rightarrow> bytes" where
  "put_padded n s =
     (let t = map byte_of (copy_chars (n - 1) s) in t @ replicate (n - length t) 0)"

text \<open>The string a C reader sees in a byte field: the bytes before the first NUL.\<close>

definition get_string :: "bytes \<Rightarrow> string" where
  "get_string bs = map char_of_byte (takeWhile (\<lambda>b. b \<noteq> 0) bs)"

lemma length_put_padded [simp]: "0 < n \<Longrightarrow> length (put_padded n s) = n"
  using copy_chars_length [of "n - 1" s] by (simp add: put_padded_def Let_def)

lemma get_string_bytes [simp]: "c_string s \<Longrightarrow> get_string (map byte_of s) = s"
  by (induction s) (auto simp: get_string_def c_string_def)

lemma get_string_padded:
  assumes "c_string s"
  shows "get_string (map byte_of s @ replicate (Suc k) 0 @ rest) = s"
proof -
  have "takeWhile (\<lambda>b. b \<noteq> 0) (map byte_of s @ 0 # replicate k 0 @ rest) = map byte_of s"
    using assms by (subst takeWhile_append2) (auto simp: c_string_def)
  then show ?thesis by (simp add: get_string_def comp_def)
qed

lemma get_put_padded:
  assumes "c_string s" "length s < n"
  shows "get_string (put_padded n s @ rest) = s"
proof -
  have "n - length s = Suc (n - 1 - length s)" using assms(2) by simp
  then show ?thesis
    using assms get_string_padded [of s "n - 1 - length s" rest]
    by (simp add: put_padded_def copy_chars_take)
qed

lemma get_string_c_string [simp]: "c_string (get_string bs)"
  by (auto simp: c_string_def get_string_def dest: set_takeWhileD)

end
