(* ===== verification/Tables.thy ===== *)
theory Tables
  imports Roole_Prelude
begin

text \<open>
  The contract shared by the three bounded arrays of keyed records: the cluster view
  (src/cluster/membership.c), the peer pool (src/node/peer_pool.c) and the DAG catalog
  (src/dag/dag_catalog.c). Each keeps its records in an array prefix of \<open>count\<close> entries, looks a
  record up by a linear search for its key, appends a new record while there is room and removes
  one by shifting the rest down. What the three disagree on is what adding an existing key does,
  so the contract only says that it keeps the keys. The locale derives what the clients rely on:
  keys stay distinct, the array never outgrows its capacity, and an operation on one key never
  changes what is stored under another, for one operation and for any sequence of them.
\<close>

definition table_ok :: "('r \<Rightarrow> 'k) \<Rightarrow> 'r list \<Rightarrow> nat \<Rightarrow> bool" where
  "table_ok key rs cap \<longleftrightarrow> distinct (map key rs) \<and> length rs \<le> cap"

datatype ('k, 'r) table_op = Put 'r | Del 'k

fun op_key :: "('r \<Rightarrow> 'k) \<Rightarrow> ('k, 'r) table_op \<Rightarrow> 'k" where
  "op_key key (Put r) = key r"
| "op_key key (Del k) = k"

fun table_step ::
  "('t \<Rightarrow> 'r \<Rightarrow> result_status \<times> 't) \<Rightarrow> ('t \<Rightarrow> 'k \<Rightarrow> result_status \<times> 't) \<Rightarrow>
   't \<Rightarrow> ('k, 'r) table_op \<Rightarrow> 't" where
  "table_step put del t (Put r) = snd (put t r)"
| "table_step put del t (Del k) = snd (del t k)"

locale keyed_table =
  fixes rows :: "'t \<Rightarrow> 'r list"
    and capacity :: "'t \<Rightarrow> nat"
    and key :: "'r \<Rightarrow> 'k"
    and put :: "'t \<Rightarrow> 'r \<Rightarrow> result_status \<times> 't"
    and del :: "'t \<Rightarrow> 'k \<Rightarrow> result_status \<times> 't"
  assumes put_capacity: "capacity (snd (put t r)) = capacity t"
    and del_capacity: "capacity (snd (del t k)) = capacity t"
    and put_new: "key r \<notin> key ` set (rows t) \<Longrightarrow> length (rows t) < capacity t \<Longrightarrow>
      fst (put t r) = RESULT_OK \<and> map key (rows (snd (put t r))) = map key (rows t) @ [key r]"
    and put_full: "key r \<notin> key ` set (rows t) \<Longrightarrow> capacity t \<le> length (rows t) \<Longrightarrow>
      put t r = (RESULT_ERR_FULL, t)"
    and put_old: "key r \<in> key ` set (rows t) \<Longrightarrow>
      map key (rows (snd (put t r))) = map key (rows t)"
    and put_other: "distinct (map key (rows t)) \<Longrightarrow> k \<noteq> key r \<Longrightarrow>
      first_with key k (rows (snd (put t r))) = first_with key k (rows t)"
    and del_hit: "distinct (map key (rows t)) \<Longrightarrow> k \<in> key ` set (rows t) \<Longrightarrow>
      fst (del t k) = RESULT_OK \<and> (\<exists>i<length (rows t). key (rows t ! i) = k \<and>
        rows (snd (del t k)) = remove_at i (rows t))"
    and del_miss: "k \<notin> key ` set (rows t) \<Longrightarrow> del t k = (RESULT_ERR_NOTFOUND, t)"
begin

lemma put_ok:
  assumes "table_ok key (rows t) (capacity t)"
  shows "table_ok key (rows (snd (put t r))) (capacity (snd (put t r)))"
proof (cases "key r \<in> key ` set (rows t)")
  case True
  from put_old [OF True] have "length (rows (snd (put t r))) = length (rows t)"
    by (metis length_map)
  with assms put_old [OF True] show ?thesis by (simp add: table_ok_def put_capacity)
next
  case new: False
  show ?thesis
  proof (cases "length (rows t) < capacity t")
    case True
    from put_new [OF new True] have k: "map key (rows (snd (put t r))) = map key (rows t) @ [key r]"
      by simp
    then have "length (rows (snd (put t r))) = Suc (length (rows t))"
      by (metis length_append_singleton length_map)
    with assms new k True show ?thesis by (simp add: table_ok_def put_capacity)
  next
    case False
    with assms new show ?thesis by (simp add: put_full)
  qed
qed

lemma del_ok:
  assumes ok: "table_ok key (rows t) (capacity t)"
  shows "table_ok key (rows (snd (del t k))) (capacity (snd (del t k)))"
proof (cases "k \<in> key ` set (rows t)")
  case True
  with ok obtain i where "i < length (rows t)" "rows (snd (del t k)) = remove_at i (rows t)"
    using del_hit [of t k] by (auto simp: table_ok_def)
  with ok show ?thesis
    by (auto simp: table_ok_def del_capacity map_remove_at distinct_remove_at)
next
  case False
  with ok show ?thesis by (simp add: del_miss)
qed

lemma lookup_del:
  assumes "table_ok key (rows t) (capacity t)"
  shows "first_with key k' (rows (snd (del t k))) =
    (if k' = k then None else first_with key k' (rows t))"
proof (cases "k \<in> key ` set (rows t)")
  case True
  with assms obtain i where i: "i < length (rows t)" "key (rows t ! i) = k"
      "rows (snd (del t k)) = remove_at i (rows t)"
    using del_hit [of t k] by (auto simp: table_ok_def)
  with assms show ?thesis by (simp add: first_with_remove_at table_ok_def)
next
  case False
  then have "first_with key k (rows t) = None" by (simp add: first_with_None_iff)
  with False show ?thesis by (simp add: del_miss)
qed

lemma put_present:
  assumes "table_ok key (rows t) (capacity t)"
  shows "first_with key (key r) (rows (snd (put t r))) \<noteq> None \<longleftrightarrow>
    key r \<in> key ` set (rows t) \<or> length (rows t) < capacity t"
proof -
  have "key r \<in> key ` set (rows (snd (put t r))) \<longleftrightarrow>
      key r \<in> key ` set (rows t) \<or> length (rows t) < capacity t"
    using put_old [of r t] put_new [of r t] put_full [of r t]
    by (cases "key r \<in> key ` set (rows t)"; cases "length (rows t) < capacity t")
      (simp_all flip: set_map)
  then show ?thesis by (simp add: first_with_None_iff)
qed

lemma step_ok:
  "table_ok key (rows t) (capacity t) \<Longrightarrow>
   table_ok key (rows (table_step put del t p)) (capacity (table_step put del t p))"
  by (cases p) (simp_all add: put_ok del_ok)

lemma run_ok:
  "table_ok key (rows t) (capacity t) \<Longrightarrow>
   table_ok key (rows (foldl (table_step put del) t ps)) (capacity (foldl (table_step put del) t ps))"
  by (induction ps arbitrary: t) (simp_all add: step_ok)

lemma run_other:
  assumes "table_ok key (rows t) (capacity t)" and "\<And>p. p \<in> set ps \<Longrightarrow> op_key key p \<noteq> k"
  shows "first_with key k (rows (foldl (table_step put del) t ps)) = first_with key k (rows t)"
  using assms
proof (induction ps arbitrary: t)
  case Nil
  then show ?case by simp
next
  case (Cons p ps)
  have "op_key key p \<noteq> k" using Cons.prems(2) [of p] by simp
  then have "first_with key k (rows (table_step put del t p)) = first_with key k (rows t)"
    using Cons.prems(1)
    by (cases p) (simp_all add: put_other lookup_del, auto simp: table_ok_def put_other)
  moreover have "first_with key k (rows (foldl (table_step put del) (table_step put del t p) ps))
      = first_with key k (rows (table_step put del t p))"
    using Cons.prems by (intro Cons.IH step_ok) auto
  ultimately show ?case by simp
qed

end

text \<open>
  The list functions share one loop: \<^verbatim>\<open>for (i = 0; i < count && found < max_count; i++)
  if (P(a[i])) out[found++] = a[i].id\<close>.
\<close>

fun collect_upto :: "('a \<Rightarrow> bool) \<Rightarrow> nat \<Rightarrow> 'a list \<Rightarrow> 'a list" where
  "collect_upto P n [] = []"
| "collect_upto P n (x # xs) =
     (if n = 0 then []
      else if P x then x # collect_upto P (n - 1) xs
      else collect_upto P n xs)"

lemma collect_upto_eq: "collect_upto P n xs = take n (filter P xs)"
proof (induction xs arbitrary: n)
  case Nil
  then show ?case by simp
next
  case (Cons x xs)
  then show ?case by (cases n) auto
qed

lemma length_collect_upto: "length (collect_upto P n xs) \<le> n"
  by (simp add: collect_upto_eq)

end
