(* ===== verification/Cluster_View.thy ===== *)
theory Cluster_View
  imports Roole_Common Tables
begin

text \<open>
  The cluster view of src/cluster/membership.c: the array of members every subsystem of a node
  shares. A member's status and type come from the wire as raw bytes that the code casts to the
  enum without a check, so both enums carry a constructor for the other byte values. The capacity
  is the allocated length of the array; \<open>count\<close> is the length of the list. Each operation is one
  critical section of the view's lock, hence one atomic step; the clock read it makes is the
  argument \<open>now\<close>.
\<close>

section \<open>Node types and statuses\<close>

datatype node_type = NODE_TYPE_UNKNOWN | NODE_TYPE_ROUTER | NODE_TYPE_WORKER | Node_type_other u8

datatype node_status =
  NODE_STATUS_ALIVE | NODE_STATUS_SUSPECT | NODE_STATUS_DEAD | Node_status_other u8

definition node_type_of_byte :: "u8 \<Rightarrow> node_type" where
  "node_type_of_byte b =
     (if b = 0 then NODE_TYPE_UNKNOWN else if b = 1 then NODE_TYPE_ROUTER
      else if b = 2 then NODE_TYPE_WORKER else Node_type_other b)"

fun node_type_byte :: "node_type \<Rightarrow> u8" where
  "node_type_byte NODE_TYPE_UNKNOWN = 0"
| "node_type_byte NODE_TYPE_ROUTER = 1"
| "node_type_byte NODE_TYPE_WORKER = 2"
| "node_type_byte (Node_type_other b) = b"

definition node_status_of_byte :: "u8 \<Rightarrow> node_status" where
  "node_status_of_byte b =
     (if b = 0 then NODE_STATUS_ALIVE else if b = 1 then NODE_STATUS_SUSPECT
      else if b = 2 then NODE_STATUS_DEAD else Node_status_other b)"

fun node_status_byte :: "node_status \<Rightarrow> u8" where
  "node_status_byte NODE_STATUS_ALIVE = 0"
| "node_status_byte NODE_STATUS_SUSPECT = 1"
| "node_status_byte NODE_STATUS_DEAD = 2"
| "node_status_byte (Node_status_other b) = b"

lemma node_status_of_to [simp]:
  "node_status_of_byte (node_status_byte (node_status_of_byte b)) = node_status_of_byte b"
  by (simp add: node_status_of_byte_def)

lemma node_type_of_to [simp]:
  "node_type_of_byte (node_type_byte (node_type_of_byte b)) = node_type_of_byte b"
  by (simp add: node_type_of_byte_def)

text \<open>The values the code can hold: the named ones and the casts of other bytes.\<close>

definition status_canonical :: "node_status \<Rightarrow> bool" where
  "status_canonical s \<longleftrightarrow> node_status_of_byte (node_status_byte s) = s"

definition type_canonical :: "node_type \<Rightarrow> bool" where
  "type_canonical t \<longleftrightarrow> node_type_of_byte (node_type_byte t) = t"

section \<open>Members and the view\<close>

record cluster_member =
  m_node_id :: node_id
  m_node_type :: node_type
  m_ip_address :: string
  m_gossip_port :: u16
  m_data_port :: u16
  m_status :: node_status
  m_last_seen_ms :: u64
  m_incarnation :: u64

record cluster_view =
  members :: "cluster_member list"
  view_capacity :: nat

definition MAX_IP_LEN :: nat where "MAX_IP_LEN = 16"
definition MAX_CLUSTER_NODES :: nat where "MAX_CLUSTER_NODES = 512"

definition cluster_view_init :: "nat \<Rightarrow> bool \<Rightarrow> bool \<Rightarrow> result_status \<times> cluster_view option" where
  "cluster_view_init capacity calloc_ok lock_ok =
     (if capacity = 0 then (RESULT_ERR_INVALID, None)
      else if \<not> calloc_ok then (RESULT_ERR_NOMEM, None)
      else if \<not> lock_ok then (RESULT_ERR_INVALID, None)
      else (RESULT_OK, Some \<lparr>members = [], view_capacity = capacity\<rparr>))"

definition cluster_view_destroy :: "cluster_view \<Rightarrow> cluster_view" where
  "cluster_view_destroy view = view\<lparr>members := [], view_capacity := 0\<rparr>"

definition member_index :: "cluster_view \<Rightarrow> node_id \<Rightarrow> nat option" where
  "member_index view node_id = find_index (\<lambda>m. m_node_id m = node_id) (members view)"

definition cluster_view_add ::
  "u64 \<Rightarrow> cluster_view \<Rightarrow> cluster_member \<Rightarrow> result_status \<times> cluster_view" where
  "cluster_view_add now view member =
     (case member_index view (m_node_id member) of
        Some i \<Rightarrow>
          let old = members view ! i in
          if m_status member = NODE_STATUS_ALIVE \<and> m_status old = NODE_STATUS_DEAD then
            (RESULT_OK, view\<lparr>members := (members view)[i :=
               member\<lparr>m_last_seen_ms := now, m_incarnation := m_incarnation member + 1\<rparr>]\<rparr>)
          else if m_incarnation old \<le> m_incarnation member then
            (RESULT_OK, view\<lparr>members := (members view)[i := member\<lparr>m_last_seen_ms := now\<rparr>]\<rparr>)
          else (RESULT_OK, view)
      | None \<Rightarrow>
          if view_capacity view \<le> length (members view) then (RESULT_ERR_FULL, view)
          else (RESULT_OK, view\<lparr>members := members view @ [member\<lparr>m_last_seen_ms := now\<rparr>]\<rparr>))"

definition cluster_view_update_status ::
  "u64 \<Rightarrow> cluster_view \<Rightarrow> node_id \<Rightarrow> node_status \<Rightarrow> u64 \<Rightarrow> result_status \<times> cluster_view" where
  "cluster_view_update_status now view node_id status incarnation =
     (case member_index view node_id of
        Some i \<Rightarrow>
          let m = members view ! i in
          if m_incarnation m \<le> incarnation then
            (let m' = m\<lparr>m_status := status, m_incarnation := incarnation\<rparr>;
                 m'' = (if status = NODE_STATUS_ALIVE then m'\<lparr>m_last_seen_ms := now\<rparr>
                        else if status = NODE_STATUS_SUSPECT \<and> m_status m = NODE_STATUS_ALIVE
                        then m'\<lparr>m_last_seen_ms := now\<rparr>
                        else m')
             in (RESULT_OK, view\<lparr>members := (members view)[i := m'']\<rparr>))
          else (RESULT_OK, view)
      | None \<Rightarrow> (RESULT_ERR_NOTFOUND, view))"

definition cluster_view_remove :: "cluster_view \<Rightarrow> node_id \<Rightarrow> result_status \<times> cluster_view" where
  "cluster_view_remove view node_id =
     (case member_index view node_id of
        Some i \<Rightarrow> (RESULT_OK, view\<lparr>members := remove_at i (members view)\<rparr>)
      | None \<Rightarrow> (RESULT_ERR_NOTFOUND, view))"

definition cluster_view_get :: "cluster_view \<Rightarrow> node_id \<Rightarrow> cluster_member option" where
  "cluster_view_get view node_id = map_option ((!) (members view)) (member_index view node_id)"

definition cluster_view_list_by_type :: "cluster_view \<Rightarrow> node_type \<Rightarrow> nat \<Rightarrow> node_id list" where
  "cluster_view_list_by_type view type max_count =
     (if max_count = 0 then []
      else map m_node_id (collect_upto (\<lambda>m. m_node_type m = type) max_count (members view)))"

definition cluster_view_list_alive :: "cluster_view \<Rightarrow> node_type \<Rightarrow> nat \<Rightarrow> node_id list" where
  "cluster_view_list_alive view type max_count =
     (if max_count = 0 then []
      else map m_node_id (collect_upto
        (\<lambda>m. m_node_type m = type \<and> m_status m = NODE_STATUS_ALIVE) max_count (members view)))"

text \<open>\<open>membership_get_members\<close> copies the first \<open>max_count\<close> members out.\<close>

definition membership_get_members :: "cluster_view \<Rightarrow> nat \<Rightarrow> cluster_member list" where
  "membership_get_members view max_count = take (min (length (members view)) max_count) (members view)"

section \<open>The view is a keyed table\<close>

abbreviation view_ok :: "cluster_view \<Rightarrow> bool" where
  "view_ok view \<equiv> table_ok m_node_id (members view) (view_capacity view)"

lemma member_index_SomeD:
  "member_index view k = Some i \<Longrightarrow> i < length (members view) \<and> m_node_id (members view ! i) = k"
  unfolding member_index_def by (auto dest: find_index_SomeD)

lemma member_index_None_iff: "member_index view k = None \<longleftrightarrow> k \<notin> m_node_id ` set (members view)"
  by (auto simp: member_index_def find_index_None_iff)

lemma member_index_Some_iff:
  "distinct (map m_node_id (members view)) \<Longrightarrow>
   member_index view k = Some i \<longleftrightarrow> i < length (members view) \<and> m_node_id (members view ! i) = k"
  using find_index_unique_key [of m_node_id "members view" i] member_index_SomeD [of view k i]
  by (auto simp: member_index_def)

lemma get_eq_first_with: "cluster_view_get view k = first_with m_node_id k (members view)"
  by (simp add: cluster_view_get_def first_with_def member_index_def)

lemma get_SomeD: "cluster_view_get view k = Some m \<Longrightarrow> m \<in> set (members view) \<and> m_node_id m = k"
  by (auto simp: get_eq_first_with dest: first_with_Some_mem)

lemma get_None_iff: "cluster_view_get view k = None \<longleftrightarrow> k \<notin> m_node_id ` set (members view)"
  by (simp add: get_eq_first_with first_with_None_iff)

text \<open>Writing back a member with the same id at the index of that id.\<close>

lemma set_member_keys:
  "member_index view k = Some i \<Longrightarrow> m_node_id m = k \<Longrightarrow>
   map m_node_id ((members view)[i := m]) = map m_node_id (members view)"
  by (auto dest!: member_index_SomeD intro: map_update_same)

lemma set_member_get:
  "member_index view k = Some i \<Longrightarrow> m_node_id m = k \<Longrightarrow> distinct (map m_node_id (members view)) \<Longrightarrow>
   first_with m_node_id k' ((members view)[i := m]) =
     (if k' = k then Some m else first_with m_node_id k' (members view))"
  by (auto dest!: member_index_SomeD simp: first_with_update)

text \<open>What an add leaves in the slot of a member that was already there.\<close>

definition merged_member :: "u64 \<Rightarrow> cluster_member \<Rightarrow> cluster_member \<Rightarrow> cluster_member" where
  "merged_member now old r =
     (if m_status r = NODE_STATUS_ALIVE \<and> m_status old = NODE_STATUS_DEAD
      then r\<lparr>m_last_seen_ms := now, m_incarnation := m_incarnation r + 1\<rparr>
      else if m_incarnation old \<le> m_incarnation r then r\<lparr>m_last_seen_ms := now\<rparr>
      else old)"

lemma add_old:
  "member_index view (m_node_id r) = Some i \<Longrightarrow>
   cluster_view_add now view r =
     (RESULT_OK, view\<lparr>members := (members view)[i := merged_member now (members view ! i) r]\<rparr>)"
  by (simp add: cluster_view_add_def merged_member_def Let_def)

lemma merged_member_id [simp]:
  "m_node_id old = m_node_id r \<Longrightarrow> m_node_id (merged_member now old r) = m_node_id r"
  by (simp add: merged_member_def)

lemma add_old_keys:
  "member_index view (m_node_id r) = Some i \<Longrightarrow>
   map m_node_id (members (snd (cluster_view_add now view r))) = map m_node_id (members view)"
  using member_index_SomeD [of view "m_node_id r" i]
  by (simp add: add_old set_member_keys)

lemma add_old_lookup:
  "member_index view (m_node_id r) = Some i \<Longrightarrow> distinct (map m_node_id (members view)) \<Longrightarrow>
   first_with m_node_id k (members (snd (cluster_view_add now view r))) =
     (if k = m_node_id r then Some (merged_member now (members view ! i) r)
      else first_with m_node_id k (members view))"
  using member_index_SomeD [of view "m_node_id r" i]
  by (simp add: add_old set_member_get)

interpretation view_table: keyed_table members view_capacity m_node_id
  "cluster_view_add now" cluster_view_remove
proof unfold_locales
  fix t :: cluster_view and r :: cluster_member and k :: node_id
  show "view_capacity (snd (cluster_view_add now t r)) = view_capacity t"
    by (simp add: cluster_view_add_def Let_def split: option.split)
  show "view_capacity (snd (cluster_view_remove t k)) = view_capacity t"
    by (simp add: cluster_view_remove_def split: option.split)
  show "fst (cluster_view_add now t r) = RESULT_OK \<and>
      map m_node_id (members (snd (cluster_view_add now t r))) = map m_node_id (members t) @ [m_node_id r]"
    if "m_node_id r \<notin> m_node_id ` set (members t)" "length (members t) < view_capacity t"
    using that by (simp add: cluster_view_add_def flip: member_index_None_iff)
  show "cluster_view_add now t r = (RESULT_ERR_FULL, t)"
    if "m_node_id r \<notin> m_node_id ` set (members t)" "view_capacity t \<le> length (members t)"
    using that by (simp add: cluster_view_add_def flip: member_index_None_iff)
  show "map m_node_id (members (snd (cluster_view_add now t r))) = map m_node_id (members t)"
    if "m_node_id r \<in> m_node_id ` set (members t)"
    using that member_index_None_iff [of t "m_node_id r"]
    by (cases "member_index t (m_node_id r)") (simp_all add: add_old_keys)
  show "first_with m_node_id k (members (snd (cluster_view_add now t r))) =
      first_with m_node_id k (members t)"
    if "distinct (map m_node_id (members t))" "k \<noteq> m_node_id r"
  proof (cases "member_index t (m_node_id r)")
    case None
    with that show ?thesis by (simp add: cluster_view_add_def first_with_append split: option.split)
  next
    case (Some i)
    with that show ?thesis by (simp add: add_old_lookup)
  qed
  show "fst (cluster_view_remove t k) = RESULT_OK \<and> (\<exists>i<length (members t).
      m_node_id (members t ! i) = k \<and> members (snd (cluster_view_remove t k)) = remove_at i (members t))"
    if "distinct (map m_node_id (members t))" "k \<in> m_node_id ` set (members t)"
    using that member_index_None_iff [of t k]
    by (auto simp: cluster_view_remove_def dest!: member_index_SomeD split: option.split)
  show "cluster_view_remove t k = (RESULT_ERR_NOTFOUND, t)"
    if "k \<notin> m_node_id ` set (members t)"
    using that by (simp add: cluster_view_remove_def flip: member_index_None_iff)
qed

section \<open>What each operation does to every node's entry\<close>

text \<open>The entry \<open>update_status\<close> leaves for the node it is called on.\<close>

definition updated_member :: "u64 \<Rightarrow> node_status \<Rightarrow> u64 \<Rightarrow> cluster_member \<Rightarrow> cluster_member" where
  "updated_member now st inc m =
     (if m_incarnation m \<le> inc
      then m\<lparr>m_status := st, m_incarnation := inc,
        m_last_seen_ms := (if st = NODE_STATUS_ALIVE
             \<or> st = NODE_STATUS_SUSPECT \<and> m_status m = NODE_STATUS_ALIVE
           then now else m_last_seen_ms m)\<rparr>
      else m)"

lemma updated_member_id [simp]: "m_node_id (updated_member now st inc m) = m_node_id m"
  by (simp add: updated_member_def)

lemma updated_member_incarnation: "m_incarnation m \<le> m_incarnation (updated_member now st inc m)"
  by (simp add: updated_member_def)

lemma update_status_hit:
  assumes "member_index view k = Some i"
  shows "cluster_view_update_status now view k st inc =
    (RESULT_OK, view\<lparr>members := (members view)[i := updated_member now st inc (members view ! i)]\<rparr>)"
proof -
  have "members view ! i = m\<lparr>m_status := st, m_incarnation := inc, m_last_seen_ms := m_last_seen_ms m\<rparr>"
    if "m = members view ! i" "m_status m = st" "m_incarnation m = inc" for m
    using that by (cases m) auto
  with assms show ?thesis
    by (auto simp: cluster_view_update_status_def updated_member_def Let_def)
qed

lemma update_status_keys:
  "map m_node_id (members (snd (cluster_view_update_status now view k st inc))) =
     map m_node_id (members view)"
proof (cases "member_index view k")
  case None
  then show ?thesis by (simp add: cluster_view_update_status_def)
next
  case (Some i)
  with member_index_SomeD [OF Some] show ?thesis
    by (simp add: update_status_hit set_member_keys)
qed

lemma update_status_capacity:
  "view_capacity (snd (cluster_view_update_status now view k st inc)) = view_capacity view"
  by (simp add: cluster_view_update_status_def Let_def split: option.split)

lemma update_status_ok [wf_intros]:
  "view_ok view \<Longrightarrow> view_ok (snd (cluster_view_update_status now view k st inc))"
  by (metis table_ok_def length_map update_status_capacity update_status_keys)

lemma add_ok [wf_intros]: "view_ok view \<Longrightarrow> view_ok (snd (cluster_view_add now view r))"
  by (rule view_table.put_ok)

lemma remove_ok [wf_intros]: "view_ok view \<Longrightarrow> view_ok (snd (cluster_view_remove view k))"
  by (rule view_table.del_ok)

lemma update_status_get:
  assumes "view_ok view"
  shows "cluster_view_get (snd (cluster_view_update_status now view k st inc)) j =
    (if j = k then map_option (updated_member now st inc) (cluster_view_get view k)
     else cluster_view_get view j)"
proof (cases "member_index view k")
  case None
  then show ?thesis by (simp add: cluster_view_update_status_def cluster_view_get_def)
next
  case (Some i)
  with assms member_index_SomeD [OF Some] show ?thesis
    by (auto simp: update_status_hit get_eq_first_with set_member_get table_ok_def)
      (simp add: cluster_view_get_def flip: get_eq_first_with)
qed

lemma add_get:
  assumes "view_ok view"
  shows "cluster_view_get (snd (cluster_view_add now view r)) j =
    (if j \<noteq> m_node_id r then cluster_view_get view j
     else case cluster_view_get view j of
       Some old \<Rightarrow> Some (merged_member now old r)
     | None \<Rightarrow> if length (members view) < view_capacity view
               then Some (r\<lparr>m_last_seen_ms := now\<rparr>) else None)"
proof (cases "member_index view (m_node_id r)")
  case None
  moreover from this have "cluster_view_get view (m_node_id r) = None"
    by (simp add: cluster_view_get_def)
  ultimately show ?thesis
    by (auto simp: cluster_view_add_def get_eq_first_with first_with_append split: option.split)
next
  case (Some i)
  with assms have "cluster_view_get view (m_node_id r) = Some (members view ! i)"
    by (simp add: cluster_view_get_def)
  with assms Some show ?thesis
    by (auto simp: get_eq_first_with add_old_lookup table_ok_def)
qed

lemma remove_get:
  "view_ok view \<Longrightarrow> cluster_view_get (snd (cluster_view_remove view k)) j =
     (if j = k then None else cluster_view_get view j)"
  unfolding get_eq_first_with by (rule view_table.lookup_del)

section \<open>Properties\<close>

datatype view_op =
    View_add u64 cluster_member
  | View_update u64 node_id node_status u64
  | View_remove node_id

fun view_apply :: "cluster_view \<Rightarrow> view_op \<Rightarrow> cluster_view" where
  "view_apply view (View_add now m) = snd (cluster_view_add now view m)"
| "view_apply view (View_update now k st inc) = snd (cluster_view_update_status now view k st inc)"
| "view_apply view (View_remove k) = snd (cluster_view_remove view k)"

lemma view_apply_ok: "view_ok view \<Longrightarrow> view_ok (view_apply view p)"
  by (cases p) (simp_all add: update_status_ok add_ok remove_ok)

lemma view_run_ok: "view_ok view \<Longrightarrow> view_ok (foldl view_apply view ps)"
  by (induction ps arbitrary: view) (simp_all add: view_apply_ok)

lemma view_apply_capacity: "view_capacity (view_apply view p) = view_capacity view"
  by (cases p) (simp_all add: view_table.put_capacity view_table.del_capacity update_status_capacity)

lemma view_run_capacity: "view_capacity (foldl view_apply view ps) = view_capacity view"
  by (induction ps arbitrary: view) (simp_all add: view_apply_capacity)

text \<open>From a freshly initialised view, whatever sequence of adds, status updates and removals
  runs, no node id occurs twice and the members never outgrow the allocated array, so the writes
  \<^verbatim>\<open>view->members[view->count]\<close> stay inside it.\<close>

theorem cluster_view_always_well_formed:
  assumes "cluster_view_init capacity calloc_ok lock_ok = (RESULT_OK, Some view)"
  shows "distinct (map m_node_id (members (foldl view_apply view ops)))
    \<and> length (members (foldl view_apply view ops)) \<le> capacity"
proof -
  have "view_ok view" and "view_capacity view = capacity"
    using assms by (auto simp: cluster_view_init_def table_ok_def split: if_splits)
  with view_run_ok [of view ops] show ?thesis by (simp add: table_ok_def view_run_capacity)
qed

definition sample_member :: cluster_member where
  "sample_member = \<lparr>m_node_id = 7, m_node_type = NODE_TYPE_WORKER, m_ip_address = ''10.0.0.7'',
     m_gossip_port = 7000, m_data_port = 7001, m_status = NODE_STATUS_ALIVE,
     m_last_seen_ms = 0, m_incarnation = 0\<rparr>"

theorem cluster_view_always_well_formed_witness:
  "length (members (foldl view_apply \<lparr>members = [], view_capacity = 1\<rparr>
     [View_add 5 sample_member, View_add 6 (sample_member\<lparr>m_node_id := 8\<rparr>)])) \<le> 1"
  using cluster_view_always_well_formed [of 1 True True "\<lparr>members = [], view_capacity = 1\<rparr>"
      "[View_add 5 sample_member, View_add 6 (sample_member\<lparr>m_node_id := 8\<rparr>)]"]
  by (simp add: cluster_view_init_def del: foldl_Cons)

text \<open>\<open>cluster_view_update_status\<close> on a known node takes the new status and incarnation when
  the incarnation is at least the stored one, refreshing the last-seen time exactly for an ALIVE
  update or an ALIVE to SUSPECT transition; a smaller incarnation changes nothing; an unknown node
  is reported; and no other node's entry ever changes.\<close>

theorem update_status_spec:
  assumes "view_ok view" and "cluster_view_update_status now view k st inc = (rc, view')"
  shows "rc = (if cluster_view_get view k = None then RESULT_ERR_NOTFOUND else RESULT_OK)
    \<and> (\<forall>j. cluster_view_get view' j =
         (if j = k then map_option (updated_member now st inc) (cluster_view_get view k)
          else cluster_view_get view j))"
proof -
  have "rc = (if cluster_view_get view k = None then RESULT_ERR_NOTFOUND else RESULT_OK)"
    using assms(2)
  proof (cases "member_index view k")
    case None
    with assms(2) show ?thesis by (simp add: cluster_view_update_status_def cluster_view_get_def)
  next
    case (Some i)
    with assms(2) show ?thesis by (simp add: update_status_hit cluster_view_get_def)
  qed
  with update_status_get [OF assms(1), of now k st inc] assms(2) show ?thesis by simp
qed

theorem update_status_spec_witness:
  "cluster_view_get (snd (cluster_view_update_status 9 \<lparr>members = [sample_member], view_capacity = 4\<rparr>
     7 NODE_STATUS_SUSPECT 3)) 7
   = Some (sample_member\<lparr>m_status := NODE_STATUS_SUSPECT, m_incarnation := 3, m_last_seen_ms := 9\<rparr>)"
  using update_status_spec [of "\<lparr>members = [sample_member], view_capacity = 4\<rparr>" 9 7
      NODE_STATUS_SUSPECT 3]
  by (cases "cluster_view_update_status 9 \<lparr>members = [sample_member], view_capacity = 4\<rparr> 7
      NODE_STATUS_SUSPECT 3")
    (simp add: table_ok_def get_eq_first_with sample_member_def updated_member_def)

text \<open>Under status updates a node's incarnation number never goes down, whatever the order in
  which (possibly stale) updates arrive.\<close>

theorem update_status_incarnation_monotone:
  assumes "view_ok view" and "cluster_view_get view j = Some m"
  shows "\<exists>m'. cluster_view_get (snd (cluster_view_update_status now view k st inc)) j = Some m'
    \<and> m_incarnation m \<le> m_incarnation m'"
  using assms updated_member_incarnation [of m now st inc]
  by (cases "j = k") (simp_all add: update_status_get)

theorem update_status_incarnation_monotone_witness:
  "\<exists>m'. cluster_view_get (snd (cluster_view_update_status 9
      \<lparr>members = [sample_member], view_capacity = 4\<rparr> 7 NODE_STATUS_DEAD 0)) 7 = Some m'
    \<and> m_incarnation sample_member \<le> m_incarnation m'"
  by (rule update_status_incarnation_monotone)
    (simp_all add: table_ok_def get_eq_first_with sample_member_def)

text \<open>\<open>cluster_view_add\<close> appends an unknown node while there is room (and reports a full view
  otherwise), merges a known one, and leaves every other node alone. Merging an ALIVE record into
  a DEAD entry takes the record with its incarnation plus one, whatever the stored incarnation was;
  otherwise the record is taken only when its incarnation is not smaller.\<close>

theorem cluster_view_add_spec:
  assumes "view_ok view" and "cluster_view_add now view r = (rc, view')"
  shows "rc = (if cluster_view_get view (m_node_id r) = None
               \<and> view_capacity view \<le> length (members view)
             then RESULT_ERR_FULL else RESULT_OK)
    \<and> (\<forall>j. cluster_view_get view' j =
         (if j \<noteq> m_node_id r then cluster_view_get view j
          else case cluster_view_get view j of
            Some old \<Rightarrow> Some (merged_member now old r)
          | None \<Rightarrow> if rc = RESULT_OK then Some (r\<lparr>m_last_seen_ms := now\<rparr>) else None))"
proof -
  have "rc = (if cluster_view_get view (m_node_id r) = None
               \<and> view_capacity view \<le> length (members view)
             then RESULT_ERR_FULL else RESULT_OK)"
    using assms(2)
    by (cases "member_index view (m_node_id r)")
      (auto simp: cluster_view_add_def cluster_view_get_def Let_def split: if_splits)
  with add_get [OF assms(1), of now r] assms(2) show ?thesis
    by (auto split: option.split)
qed

theorem cluster_view_add_spec_witness:
  "cluster_view_get (snd (cluster_view_add 9
      \<lparr>members = [sample_member\<lparr>m_status := NODE_STATUS_DEAD, m_incarnation := 40\<rparr>],
        view_capacity = 4\<rparr> sample_member)) 7
   = Some (sample_member\<lparr>m_last_seen_ms := 9, m_incarnation := 1\<rparr>)"
  using cluster_view_add_spec [of "\<lparr>members = [sample_member\<lparr>m_status := NODE_STATUS_DEAD,
      m_incarnation := 40\<rparr>], view_capacity = 4\<rparr>" 9 sample_member]
  by (cases "cluster_view_add 9 \<lparr>members = [sample_member\<lparr>m_status := NODE_STATUS_DEAD,
      m_incarnation := 40\<rparr>], view_capacity = 4\<rparr> sample_member")
    (simp add: table_ok_def get_eq_first_with sample_member_def merged_member_def)

text \<open>\<open>cluster_view_list_alive\<close> returns at most \<open>max_count\<close> ids, without repetition, all of
  members of the asked type that are ALIVE, and all of those when the limit is not reached.\<close>

theorem cluster_view_list_alive_spec:
  assumes "view_ok view"
  shows "length (cluster_view_list_alive view type max_count) \<le> max_count
    \<and> distinct (cluster_view_list_alive view type max_count)
    \<and> (\<forall>k \<in> set (cluster_view_list_alive view type max_count).
         \<exists>m. cluster_view_get view k = Some m \<and> m_node_type m = type \<and> m_status m = NODE_STATUS_ALIVE)
    \<and> (length (cluster_view_list_alive view type max_count) < max_count \<longrightarrow>
        set (cluster_view_list_alive view type max_count) =
          {m_node_id m | m. m \<in> set (members view) \<and> m_node_type m = type
             \<and> m_status m = NODE_STATUS_ALIVE})"
proof -
  let ?P = "\<lambda>m. m_node_type m = type \<and> m_status m = NODE_STATUS_ALIVE"
  have eq: "cluster_view_list_alive view type max_count =
      take max_count (map m_node_id (filter ?P (members view)))"
    by (simp add: cluster_view_list_alive_def collect_upto_eq take_map)
  have d: "distinct (map m_node_id (members view))" using assms by (simp add: table_ok_def)
  then have "distinct (map m_node_id (filter ?P (members view)))" by (rule distinct_map_filter)
  moreover have "\<exists>m. cluster_view_get view k = Some m \<and> ?P m"
    if "k \<in> set (take max_count (map m_node_id (filter ?P (members view))))" for k
    using that d by (auto dest!: in_set_takeD simp: get_eq_first_with first_with_distinct)
  ultimately show ?thesis unfolding eq by (auto simp: image_def)
qed

theorem cluster_view_list_alive_spec_witness:
  "set (cluster_view_list_alive \<lparr>members = [sample_member], view_capacity = 4\<rparr> NODE_TYPE_WORKER 5)
    = {7}"
  using cluster_view_list_alive_spec [of "\<lparr>members = [sample_member], view_capacity = 4\<rparr>"
      NODE_TYPE_WORKER 5]
  by (simp add: table_ok_def sample_member_def cluster_view_list_alive_def)

end
