(* ===== verification/Gossip_Protocol.thy ===== *)
theory Gossip_Protocol
  imports Wire Cluster_View
begin

text \<open>
  src/cluster/gossip_protocol.c: the byte format of gossip messages and of the bootstrap response.
  A serialiser gets the size of the buffer it writes to and returns the bytes it produced, or -1,
  or shows that it writes outside the buffer; the fixed-size arrays of the C structs are lists of
  that length. The message types stay bytes, as in the struct (\<open>uint8_t msg_type\<close>).
\<close>

section \<open>Messages\<close>

definition GOSSIP_MSG_PING :: u8 where "GOSSIP_MSG_PING = 1"
definition GOSSIP_MSG_ACK :: u8 where "GOSSIP_MSG_ACK = 2"
definition GOSSIP_MSG_PING_REQ :: u8 where "GOSSIP_MSG_PING_REQ = 3"
definition GOSSIP_MSG_SUSPECT :: u8 where "GOSSIP_MSG_SUSPECT = 4"
definition GOSSIP_MSG_ALIVE :: u8 where "GOSSIP_MSG_ALIVE = 5"
definition GOSSIP_MSG_DEAD :: u8 where "GOSSIP_MSG_DEAD = 6"
definition GOSSIP_MSG_JOIN :: u8 where "GOSSIP_MSG_JOIN = 7"
definition GOSSIP_MSG_LEAVE :: u8 where "GOSSIP_MSG_LEAVE = 8"
definition GOSSIP_MSG_WORKER_JOIN :: u8 where "GOSSIP_MSG_WORKER_JOIN = 9"
definition GOSSIP_MSG_JOIN_RESPONSE :: u8 where "GOSSIP_MSG_JOIN_RESPONSE = 10"

lemmas gossip_msg_defs =
  GOSSIP_MSG_PING_def GOSSIP_MSG_ACK_def GOSSIP_MSG_PING_REQ_def GOSSIP_MSG_SUSPECT_def
  GOSSIP_MSG_ALIVE_def GOSSIP_MSG_DEAD_def GOSSIP_MSG_JOIN_def GOSSIP_MSG_LEAVE_def
  GOSSIP_MSG_WORKER_JOIN_def GOSSIP_MSG_JOIN_RESPONSE_def

definition GOSSIP_MAX_PAYLOAD_SIZE :: nat where "GOSSIP_MAX_PAYLOAD_SIZE = 1400"
definition GOSSIP_MAX_PIGGYBACK_UPDATES :: nat where "GOSSIP_MAX_PIGGYBACK_UPDATES = 10"
definition MEMBER_UPDATE_SIZE :: nat where "MEMBER_UPDATE_SIZE = 40"

lemmas gossip_size_defs =
  GOSSIP_MAX_PAYLOAD_SIZE_def GOSSIP_MAX_PIGGYBACK_UPDATES_def MEMBER_UPDATE_SIZE_def

record gossip_member_update =
  u_node_id :: node_id
  u_node_type :: node_type
  u_ip_address :: string
  u_gossip_port :: u16
  u_data_port :: u16
  u_status :: node_status
  u_incarnation :: u64
  u_timestamp_ms :: u64

definition zero_update :: gossip_member_update where
  "zero_update = \<lparr>u_node_id = 0, u_node_type = NODE_TYPE_UNKNOWN, u_ip_address = [],
     u_gossip_port = 0, u_data_port = 0, u_status = NODE_STATUS_ALIVE,
     u_incarnation = 0, u_timestamp_ms = 0\<rparr>"

record gossip_message =
  version :: u8
  msg_type :: u8
  flags :: u16
  sender_id :: node_id
  sequence_num :: u64
  num_updates :: u8
  updates :: "gossip_member_update list"

section \<open>Member updates\<close>

definition gossip_serialize_member_update :: "gossip_member_update \<Rightarrow> bytes" where
  "gossip_serialize_member_update update =
     write_u16_net (u_node_id update)
     @ [node_type_byte (u_node_type update)]
     @ [node_status_byte (u_status update)]
     @ put_padded 16 (u_ip_address update)
     @ write_u16_net (u_gossip_port update)
     @ write_u16_net (u_data_port update)
     @ write_u64_net (u_incarnation update)
     @ write_u64_net (u_timestamp_ms update)"

definition gossip_deserialize_member_update :: "bytes \<Rightarrow> gossip_member_update" where
  "gossip_deserialize_member_update buffer =
     \<lparr>u_node_id = read_u16_net buffer,
      u_node_type = node_type_of_byte (buffer ! 2),
      u_ip_address = get_string (take 15 (drop 4 buffer)),
      u_gossip_port = read_u16_net (drop 20 buffer),
      u_data_port = read_u16_net (drop 22 buffer),
      u_status = node_status_of_byte (buffer ! 3),
      u_incarnation = read_u64_net (drop 24 buffer),
      u_timestamp_ms = read_u64_net (drop 32 buffer)\<rparr>"

text \<open>The updates a node can hold: enum values that survive the cast, an address that fits.\<close>

definition update_ok :: "gossip_member_update \<Rightarrow> bool" where
  "update_ok u \<longleftrightarrow> type_canonical (u_node_type u) \<and> status_canonical (u_status u)
     \<and> c_string (u_ip_address u) \<and> length (u_ip_address u) < MAX_IP_LEN"

lemma length_serialize_member_update [simp]:
  "length (gossip_serialize_member_update u) = MEMBER_UPDATE_SIZE"
  by (simp add: gossip_serialize_member_update_def MEMBER_UPDATE_SIZE_def)

lemma get_string_take_padded:
  assumes "c_string s" "length s < 16"
  shows "get_string (take 15 (put_padded 16 s @ rest)) = s"
proof -
  have "take 15 (put_padded 16 s @ rest) = map byte_of s @ replicate (15 - length s) 0"
    using assms by (simp add: put_padded_def copy_chars_take min_def)
  moreover have "get_string (map byte_of s @ replicate (15 - length s) 0) = s"
  proof (cases "length s = 15")
    case True
    with assms(1) show ?thesis by simp
  next
    case False
    with assms(2) have "15 - length s = Suc (14 - length s)" by simp
    then show ?thesis using get_string_padded [OF assms(1), of "14 - length s" "[]"] by simp
  qed
  ultimately show ?thesis by simp
qed

lemma deserialize_serialize_member_update:
  assumes "update_ok u"
  shows "gossip_deserialize_member_update (gossip_serialize_member_update u @ rest) = u"
proof -
  have ip: "get_string (take 15 (put_padded 16 (u_ip_address u))) = u_ip_address u"
    using assms get_string_take_padded [of "u_ip_address u" "[]"]
    by (simp add: update_ok_def MAX_IP_LEN_def)
  have "gossip_deserialize_member_update (gossip_serialize_member_update u @ rest) =
      u\<lparr>u_node_type := node_type_of_byte (node_type_byte (u_node_type u)),
        u_status := node_status_of_byte (node_status_byte (u_status u))\<rparr>"
    by (simp add: gossip_deserialize_member_update_def gossip_serialize_member_update_def
        nth_append ip)
  with assms show ?thesis
    by (simp add: update_ok_def type_canonical_def status_canonical_def)
qed

interpretation member_update: codec gossip_serialize_member_update gossip_deserialize_member_update
  MEMBER_UPDATE_SIZE update_ok
  by unfold_locales (simp_all add: deserialize_serialize_member_update)

section \<open>Messages on the wire\<close>

definition gossip_header :: "gossip_message \<Rightarrow> bytes" where
  "gossip_header msg =
     [version msg, msg_type msg] @ write_u16_net (flags msg) @ write_u16_net (sender_id msg)
     @ write_u64_net (sequence_num msg) @ [num_updates msg, 0]"

text \<open>
  When an update does not fit, the code overwrites \<^verbatim>\<open>buffer[16]\<close> with the index it stopped at.
\<close>

definition gossip_message_serialize :: "gossip_message \<Rightarrow> nat \<Rightarrow> c_error + bytes" where
  "gossip_message_serialize msg buffer_size =
     (if buffer_size < 16 then Inl Returns_minus_one
      else case write_items gossip_serialize_member_update MEMBER_UPDATE_SIZE buffer_size 0
             (take (min (unat (num_updates msg)) GOSSIP_MAX_PIGGYBACK_UPDATES) (updates msg))
             (gossip_header msg) of
        (out, None) \<Rightarrow> Inr out
      | (out, Some i) \<Rightarrow>
          if buffer_size \<le> 16 then Inl Out_of_bounds else Inr (out[16 := word_of_nat i]))"

definition gossip_message_deserialize :: "bytes \<Rightarrow> c_error + gossip_message" where
  "gossip_message_deserialize buffer =
     (if length buffer < 16 then Inl Returns_minus_one
      else if buffer ! 0 \<noteq> 1 then Inl Returns_minus_one
      else
        let n = buffer ! 14;
            limit = min (unat n) GOSSIP_MAX_PIGGYBACK_UPDATES;
            us = read_items gossip_deserialize_member_update MEMBER_UPDATE_SIZE limit (drop 16 buffer)
        in Inr \<lparr>version = buffer ! 0, msg_type = buffer ! 1,
                flags = read_u16_net (drop 2 buffer),
                sender_id = read_u16_net (drop 4 buffer),
                sequence_num = read_u64_net (drop 6 buffer),
                num_updates = (if length us < limit then word_of_nat (length us) else n),
                updates = us @ replicate (GOSSIP_MAX_PIGGYBACK_UPDATES - length us) zero_update\<rparr>)"

definition gossip_message_serialized_size :: "gossip_message \<Rightarrow> nat" where
  "gossip_message_serialized_size msg = 16 + unat (num_updates msg) * MEMBER_UPDATE_SIZE"

definition message_ok :: "gossip_message \<Rightarrow> bool" where
  "message_ok msg \<longleftrightarrow> version msg = 1 \<and> length (updates msg) = GOSSIP_MAX_PIGGYBACK_UPDATES
     \<and> unat (num_updates msg) \<le> GOSSIP_MAX_PIGGYBACK_UPDATES
     \<and> list_all update_ok (take (unat (num_updates msg)) (updates msg))"

text \<open>The receiver's message: the unused array slots are zero.\<close>

definition received_message :: "gossip_message \<Rightarrow> gossip_message" where
  "received_message msg = msg\<lparr>updates := take (unat (num_updates msg)) (updates msg)
     @ replicate (GOSSIP_MAX_PIGGYBACK_UPDATES - unat (num_updates msg)) zero_update\<rparr>"

lemma length_gossip_header [simp]: "length (gossip_header msg) = 16"
  by (simp add: gossip_header_def)

lemma message_serialize_fit:
  assumes "message_ok msg" and "gossip_message_serialized_size msg \<le> buffer_size"
  shows "gossip_message_serialize msg buffer_size = Inr (gossip_header msg
    @ concat (map gossip_serialize_member_update (take (unat (num_updates msg)) (updates msg))))"
proof -
  have "write_items gossip_serialize_member_update MEMBER_UPDATE_SIZE buffer_size 0
      (take (unat (num_updates msg)) (updates msg)) (gossip_header msg)
    = (gossip_header msg
        @ concat (map gossip_serialize_member_update (take (unat (num_updates msg)) (updates msg))), None)"
    using assms by (intro member_update.write_items_fit)
      (auto simp: message_ok_def gossip_message_serialized_size_def min_def algebra_simps)
  with assms show ?thesis
    by (simp add: gossip_message_serialize_def message_ok_def gossip_message_serialized_size_def min_def)
qed

lemma gossip_header_fields:
  "(gossip_header msg @ rest) ! 0 = version msg"
  "(gossip_header msg @ rest) ! Suc 0 = msg_type msg"
  "(gossip_header msg @ rest) ! 14 = num_updates msg"
  "read_u16_net (drop 2 (gossip_header msg) @ rest) = flags msg"
  "read_u16_net (drop 4 (gossip_header msg) @ rest) = sender_id msg"
  "read_u64_net (drop 6 (gossip_header msg) @ rest) = sequence_num msg"
  by (simp_all add: gossip_header_def nth_append nth_Cons')

abbreviation message_bytes :: "gossip_message \<Rightarrow> bytes" where
  "message_bytes msg \<equiv> gossip_header msg
     @ concat (map gossip_serialize_member_update (take (unat (num_updates msg)) (updates msg)))"

lemma length_message_bytes:
  "message_ok msg \<Longrightarrow> length (message_bytes msg) = gossip_message_serialized_size msg"
  using member_update.concat_width [of "take (unat (num_updates msg)) (updates msg)"]
  by (auto simp: message_ok_def gossip_message_serialized_size_def)

text \<open>The receiver reads back the message, whatever follows it in the datagram.\<close>

lemma message_deserialize_bytes:
  assumes "message_ok msg"
  shows "gossip_message_deserialize (message_bytes msg @ rest) = Inr (received_message msg)"
proof -
  let ?us = "take (unat (num_updates msg)) (updates msg)"
  have ok: "list_all update_ok ?us" and n: "length ?us = unat (num_updates msg)"
    using assms by (auto simp: message_ok_def)
  have "read_items gossip_deserialize_member_update MEMBER_UPDATE_SIZE (unat (num_updates msg))
      (concat (map gossip_serialize_member_update ?us) @ rest) = ?us"
    using member_update.read_items_concat [OF ok, of rest] n by simp
  with assms n show ?thesis
    by (simp add: gossip_message_deserialize_def gossip_header_fields received_message_def
        message_ok_def Let_def min_def)
qed

text \<open>C19: What a node serialises into a large enough buffer, the receiver deserialises to the same
  message: header fields, count and every update, with the unused array slots zeroed. The number of
  bytes is the one \<open>gossip_message_serialized_size\<close> announces.\<close>

theorem gossip_message_roundtrip:
  assumes "message_ok msg" and "gossip_message_serialized_size msg \<le> buffer_size"
  shows "\<exists>bs. gossip_message_serialize msg buffer_size = Inr bs
    \<and> length bs = gossip_message_serialized_size msg
    \<and> gossip_message_deserialize bs = Inr (received_message msg)"
  using message_serialize_fit [OF assms] length_message_bytes [OF assms(1)]
    message_deserialize_bytes [OF assms(1), of "[]"]
  by simp

definition sample_update :: gossip_member_update where
  "sample_update = zero_update\<lparr>u_node_id := 258, u_node_type := NODE_TYPE_WORKER,
     u_ip_address := ''10.0.0.7'', u_incarnation := 3\<rparr>"

definition sample_message :: gossip_message where
  "sample_message = \<lparr>version = 1, msg_type = GOSSIP_MSG_PING, flags = 0, sender_id = 1,
     sequence_num = 9, num_updates = 2,
     updates = [sample_update, sample_update] @ replicate 8 zero_update\<rparr>"

lemma sample_message_ok: "message_ok sample_message"
  by (simp add: message_ok_def sample_message_def update_ok_def sample_update_def zero_update_def
      gossip_size_defs c_string_def MAX_IP_LEN_def type_canonical_def status_canonical_def
      node_type_of_byte_def node_status_of_byte_def)

theorem gossip_message_roundtrip_witness:
  "\<exists>bs. gossip_message_serialize sample_message GOSSIP_MAX_PAYLOAD_SIZE = Inr bs
    \<and> length bs = 96 \<and> gossip_message_deserialize bs = Inr (received_message sample_message)"
  using gossip_message_roundtrip [OF sample_message_ok, of GOSSIP_MAX_PAYLOAD_SIZE]
  by (simp add: gossip_message_serialized_size_def gossip_size_defs)
    (simp add: sample_message_def gossip_size_defs)

text \<open>When the buffer is too small for all updates, the serialiser keeps the updates that fit
  but leaves the announced count in the header (byte 14) as it was: the correction goes to byte 16,
  the first byte of the first update's node id.\<close>

theorem gossip_message_truncation:
  assumes "message_ok msg" and "16 < buffer_size"
    and "buffer_size < gossip_message_serialized_size msg"
  shows "\<exists>bs. gossip_message_serialize msg buffer_size = Inr bs
    \<and> length bs = 16 + MEMBER_UPDATE_SIZE * ((buffer_size - 16) div MEMBER_UPDATE_SIZE)
    \<and> bs ! 14 = num_updates msg
    \<and> (56 \<le> buffer_size \<longrightarrow> bs ! 16 = word_of_nat ((buffer_size - 16) div MEMBER_UPDATE_SIZE))"
proof -
  let ?us = "take (unat (num_updates msg)) (updates msg)"
  let ?k = "(buffer_size - 16) div MEMBER_UPDATE_SIZE"
  let ?out = "gossip_header msg @ concat (map gossip_serialize_member_update (take ?k ?us))"
  have ok: "list_all update_ok ?us" and n: "length ?us = unat (num_updates msg)"
    using assms(1) by (auto simp: message_ok_def)
  have "write_items gossip_serialize_member_update MEMBER_UPDATE_SIZE buffer_size 0 ?us
      (gossip_header msg) = (?out, Some ?k)"
    using assms n member_update.write_items_break [OF _ ok, of "gossip_header msg" buffer_size 0]
    by (simp add: gossip_message_serialized_size_def gossip_size_defs mult.commute)
  then have ser: "gossip_message_serialize msg buffer_size = Inr (?out[16 := word_of_nat ?k])"
    using assms by (simp add: gossip_message_serialize_def message_ok_def min_def)
  have k: "?k \<le> length ?us"
    using assms(3) n by (simp add: gossip_message_serialized_size_def gossip_size_defs)
  have okk: "list_all update_ok (take ?k ?us)" using ok by (metis append_take_drop_id list_all_append)
  have len: "length ?out = 16 + MEMBER_UPDATE_SIZE * ?k"
    using member_update.concat_width [OF okk] k by (simp add: min_def del: take_take)
  have out14: "?out ! 14 = num_updates msg" by (rule gossip_header_fields)
  obtain out where out: "out = ?out" by blast
  have "16 < length out" if "56 \<le> buffer_size"
    using len that unfolding out [symmetric] by (simp add: MEMBER_UPDATE_SIZE_def div_greater_zero_iff)
  then show ?thesis using ser len out14 unfolding out [symmetric] by simp
qed

theorem gossip_message_truncation_witness:
  "\<exists>bs. gossip_message_serialize sample_message 56 = Inr bs \<and> bs ! 14 = 2 \<and> bs ! 16 = 1"
  using gossip_message_truncation [OF sample_message_ok, of 56]
  by (auto simp: gossip_message_serialized_size_def sample_message_def gossip_size_defs)

text \<open>A message accepted from the wire announces at most as many updates as its array holds
  exactly when the count byte is at most 10 or the datagram is too short for ten updates; any other
  datagram yields a message whose count lies beyond the end of its \<open>updates\<close> array.\<close>

theorem deserialized_count_in_bounds_iff:
  assumes "gossip_message_deserialize buffer = Inr msg"
  shows "length (updates msg) = GOSSIP_MAX_PIGGYBACK_UPDATES
    \<and> (unat (num_updates msg) \<le> length (updates msg)
        \<longleftrightarrow> unat (buffer ! 14) \<le> 10 \<or> length buffer < 416)"
proof -
  let ?l = "min (unat (buffer ! 14)) 10"
  let ?us = "read_items gossip_deserialize_member_update MEMBER_UPDATE_SIZE ?l (drop 16 buffer)"
  have us: "length ?us = min ?l ((length buffer - 16) div 40)"
    by (simp add: length_read_items_eq MEMBER_UPDATE_SIZE_def)
  have len: "16 \<le> length buffer" and num: "num_updates msg =
      (if length ?us < ?l then word_of_nat (length ?us) else buffer ! 14)"
    and upd: "updates msg = ?us @ replicate (10 - length ?us) zero_update"
    using assms by (auto simp: gossip_message_deserialize_def Let_def gossip_size_defs split: if_splits)
  have "unat (word_of_nat (length ?us) :: u8) = length ?us"
    using us by (simp add: unat_of_nat take_bit_eq_mod)
  then have "unat (num_updates msg) \<le> 10 \<longleftrightarrow> length ?us < ?l \<or> unat (buffer ! 14) \<le> 10"
    using us unfolding num by (cases "length ?us < ?l") (simp_all add: min_def split: if_splits)
  also have "\<dots> \<longleftrightarrow> unat (buffer ! 14) \<le> 10 \<or> length buffer < 416"
    using len unfolding us by (auto simp: min_def)
  finally show ?thesis using us by (simp add: upd GOSSIP_MAX_PIGGYBACK_UPDATES_def)
qed

theorem deserialized_count_in_bounds_iff_witness:
  "\<exists>msg. gossip_message_deserialize (1 # replicate 13 0 @ 11 # replicate 401 0) = Inr msg
    \<and> \<not> unat (num_updates msg) \<le> length (updates msg)"
proof -
  let ?b = "1 # replicate 13 0 @ 11 # replicate 401 0 :: bytes"
  have b14: "?b ! 14 = 11" and len: "length ?b = 416" by (simp_all add: nth_append)
  obtain msg where "gossip_message_deserialize ?b = Inr msg"
    by (simp add: gossip_message_deserialize_def Let_def)
  with deserialized_count_in_bounds_iff [OF this] b14 len show ?thesis by auto
qed

section \<open>Bootstrap response\<close>

record bootstrap_router =
  b_node_id :: node_id
  b_gossip_addr :: string
  b_data_addr :: string

record gossip_bootstrap_response =
  num_routers :: u8
  resp_routers :: "bootstrap_router list"

definition zero_router :: bootstrap_router where
  "zero_router = \<lparr>b_node_id = 0, b_gossip_addr = [], b_data_addr = []\<rparr>"

definition serialize_router :: "bootstrap_router \<Rightarrow> bytes" where
  "serialize_router r =
     write_u16_net (b_node_id r) @ put_padded 64 (b_gossip_addr r) @ put_padded 64 (b_data_addr r)"

definition gossip_serialize_bootstrap_response ::
  "gossip_bootstrap_response \<Rightarrow> nat \<Rightarrow> c_error + bytes" where
  "gossip_serialize_bootstrap_response resp buffer_size =
     (if buffer_size < 1 then Inl Returns_minus_one
      else case write_items serialize_router 130 buffer_size 0
             (take (min (unat (num_routers resp)) MAX_CONFIG_ROUTERS) (resp_routers resp))
             [num_routers resp] of
        (out, None) \<Rightarrow> Inr out
      | (out, Some i) \<Rightarrow> Inr (out[0 := word_of_nat i]))"

text \<open>
  \<^verbatim>\<open>strncpy(dst, src, n)\<close> from a byte buffer: it reads up to the first NUL, at most \<open>n\<close> bytes,
  and runs past the end of the buffer when there is no NUL before it.
\<close>

definition strncpy_from :: "nat \<Rightarrow> bytes \<Rightarrow> c_error + string" where
  "strncpy_from n bs =
     (if n \<le> length bs \<or> 0 \<in> set bs then Inr (get_string (take n bs)) else Inl Out_of_bounds)"

definition deserialize_router :: "bytes \<Rightarrow> c_error + bootstrap_router" where
  "deserialize_router buffer =
     (case strncpy_from (MAX_CONFIG_STRING - 1) (drop 2 buffer) of
        Inl e \<Rightarrow> Inl e
      | Inr gossip \<Rightarrow>
          case strncpy_from (MAX_CONFIG_STRING - 1) (drop 66 buffer) of
            Inl e \<Rightarrow> Inl e
          | Inr data \<Rightarrow> Inr \<lparr>b_node_id = read_u16_net buffer, b_gossip_addr = gossip,
                               b_data_addr = data\<rparr>)"

fun deserialize_routers :: "nat \<Rightarrow> bytes \<Rightarrow> c_error + bootstrap_router list" where
  "deserialize_routers 0 bs = Inr []"
| "deserialize_routers (Suc n) bs =
     (if length bs < 130 then Inr []
      else case deserialize_router bs of
        Inl e \<Rightarrow> Inl e
      | Inr r \<Rightarrow> case deserialize_routers n (drop 130 bs) of Inl e \<Rightarrow> Inl e | Inr rs \<Rightarrow> Inr (r # rs))"

definition gossip_deserialize_bootstrap_response :: "bytes \<Rightarrow> c_error + gossip_bootstrap_response" where
  "gossip_deserialize_bootstrap_response buffer =
     (if length buffer < 1 then Inl Returns_minus_one
      else
        let n = buffer ! 0; limit = min (unat n) MAX_CONFIG_ROUTERS
        in case deserialize_routers limit (drop 1 buffer) of
             Inl e \<Rightarrow> Inl e
           | Inr rs \<Rightarrow> Inr \<lparr>num_routers = (if length rs < limit then word_of_nat (length rs) else n),
                           resp_routers = rs @ replicate (MAX_CONFIG_ROUTERS - length rs) zero_router\<rparr>)"

definition router_ok :: "bootstrap_router \<Rightarrow> bool" where
  "router_ok r \<longleftrightarrow> c_string (b_gossip_addr r) \<and> length (b_gossip_addr r) < 64
     \<and> c_string (b_data_addr r) \<and> length (b_data_addr r) < 64"

definition bootstrap_ok :: "gossip_bootstrap_response \<Rightarrow> bool" where
  "bootstrap_ok resp \<longleftrightarrow> length (resp_routers resp) = MAX_CONFIG_ROUTERS
     \<and> unat (num_routers resp) \<le> MAX_CONFIG_ROUTERS
     \<and> list_all router_ok (take (unat (num_routers resp)) (resp_routers resp))"

lemma length_serialize_router [simp]: "length (serialize_router r) = 130"
  by (simp add: serialize_router_def)

lemma strncpy_from_padded:
  assumes "c_string s" "length s < k" "k \<le> n"
  shows "strncpy_from n (put_padded k s @ rest) = Inr s"
proof -
  have "0 \<in> set (put_padded k s)"
    using assms(1,2) by (simp add: put_padded_def copy_chars_take)
  moreover have "take n (put_padded k s @ rest) = put_padded k s @ take (n - k) rest"
    using assms by simp
  ultimately show ?thesis
    using get_put_padded [OF assms(1,2)] by (simp add: strncpy_from_def)
qed

lemma deserialize_serialize_router:
  "router_ok r \<Longrightarrow> deserialize_router (serialize_router r @ rest) = Inr r"
  by (simp add: deserialize_router_def serialize_router_def router_ok_def MAX_CONFIG_STRING_def
      strncpy_from_padded)

interpretation router: codec serialize_router "\<lambda>bs. projr (deserialize_router bs)" 130 router_ok
  by unfold_locales (simp_all add: deserialize_serialize_router)

lemma deserialize_routers_concat:
  "list_all router_ok rs \<Longrightarrow>
   deserialize_routers (length rs) (concat (map serialize_router rs) @ rest) = Inr rs"
  by (induction rs) (simp_all add: deserialize_serialize_router)

lemma bootstrap_serialize_bytes:
  assumes "bootstrap_ok resp" and "1 \<le> buffer_size"
    and "k = min (unat (num_routers resp)) ((buffer_size - 1) div 130)"
  shows "gossip_serialize_bootstrap_response resp buffer_size
      = Inr (word_of_nat k # concat (map serialize_router (take k (resp_routers resp))))"
    and "length (word_of_nat k # concat (map serialize_router (take k (resp_routers resp)))) = 1 + 130 * k"
    and "list_all router_ok (take k (resp_routers resp))" and "length (take k (resp_routers resp)) = k"
    and "k \<le> 16"
proof -
  let ?n = "unat (num_routers resp)"
  let ?rs = "take ?n (resp_routers resp)"
  have ok: "list_all router_ok ?rs" and n: "length ?rs = ?n" and n16: "?n \<le> 16"
    using assms(1) by (auto simp: bootstrap_ok_def MAX_CONFIG_ROUTERS_def)
  show okk: "list_all router_ok (take k (resp_routers resp))" and k16: "k \<le> 16"
    using ok n16 assms(3) by (auto simp: list_all_length)
  have k: "k \<le> ?n" using assms(3) by simp
  show lk: "length (take k (resp_routers resp)) = k" using k n by simp
  show "length (word_of_nat k # concat (map serialize_router (take k (resp_routers resp)))) = 1 + 130 * k"
    using router.concat_width [OF okk] lk by simp
  show "gossip_serialize_bootstrap_response resp buffer_size
      = Inr (word_of_nat k # concat (map serialize_router (take k (resp_routers resp))))"
  proof (cases "1 + 130 * ?n \<le> buffer_size")
    case True
    then have "k = ?n" using assms(3) by simp
    with True ok n n16 assms(2) router.write_items_fit [OF ok, of "[num_routers resp]" buffer_size 0]
    show ?thesis
      by (simp add: gossip_serialize_bootstrap_response_def MAX_CONFIG_ROUTERS_def)
  next
    case False
    then have kk: "k = (buffer_size - 1) div 130" using assms(3) by simp
    then have "take ((buffer_size - 1) div 130) ?rs = take k (resp_routers resp)" using k by simp
    with False kk n n16 assms(2) router.write_items_break [OF _ ok, of "[num_routers resp]" buffer_size 0]
    show ?thesis
      by (simp add: gossip_serialize_bootstrap_response_def MAX_CONFIG_ROUTERS_def)
  qed
qed

lemma bootstrap_deserialize_bytes:
  assumes "list_all router_ok rs" and "length rs \<le> 16"
  shows "gossip_deserialize_bootstrap_response (word_of_nat (length rs) # concat (map serialize_router rs))
    = Inr \<lparr>num_routers = word_of_nat (length rs),
        resp_routers = rs @ replicate (MAX_CONFIG_ROUTERS - length rs) zero_router\<rparr>"
proof -
  have "unat (word_of_nat (length rs) :: u8) = length rs"
    using assms(2) by (simp add: unat_word_of_nat)
  with deserialize_routers_concat [OF assms(1), of "[]"] assms(2) show ?thesis
    by (simp add: gossip_deserialize_bootstrap_response_def MAX_CONFIG_ROUTERS_def Let_def)
qed

text \<open>The bootstrap response survives the trip: however many of its routers fit into the
  buffer, the receiver gets exactly that prefix of the list, addresses included, with the count
  adjusted. Here the serialiser corrects the right byte when it truncates.\<close>

theorem bootstrap_roundtrip:
  assumes "bootstrap_ok resp" and "1 \<le> buffer_size"
    and "k = min (unat (num_routers resp)) ((buffer_size - 1) div 130)"
  shows "\<exists>bs. gossip_serialize_bootstrap_response resp buffer_size = Inr bs
    \<and> length bs = 1 + 130 * k \<and> length bs \<le> buffer_size
    \<and> gossip_deserialize_bootstrap_response bs = Inr \<lparr>num_routers = word_of_nat k,
        resp_routers = take k (resp_routers resp) @ replicate (MAX_CONFIG_ROUTERS - k) zero_router\<rparr>"
proof -
  let ?bs = "word_of_nat k # concat (map serialize_router (take k (resp_routers resp)))"
  note ser = bootstrap_serialize_bytes [OF assms]
  have "1 + 130 * k \<le> buffer_size"
    using assms(2,3) by simp
  with bootstrap_deserialize_bytes [OF ser(3)] ser(1,2,4,5) show ?thesis
    by (intro exI [of _ ?bs]) simp
qed

definition sample_bootstrap :: gossip_bootstrap_response where
  "sample_bootstrap = \<lparr>num_routers = 2,
     resp_routers = replicate 16 (zero_router\<lparr>b_gossip_addr := ''1.2.3.4:7''\<rparr>)\<rparr>"

lemma sample_bootstrap_ok: "bootstrap_ok sample_bootstrap"
  by (simp add: bootstrap_ok_def sample_bootstrap_def router_ok_def zero_router_def
      MAX_CONFIG_ROUTERS_def c_string_def list_all_length)

theorem bootstrap_roundtrip_witness:
  "\<exists>bs. gossip_serialize_bootstrap_response sample_bootstrap 200 = Inr bs \<and> length bs = 131"
  using bootstrap_roundtrip [OF sample_bootstrap_ok, of 200 1]
  by (auto simp: sample_bootstrap_def)

end
