(* ===== verification/Bounded_Fifo.thy ===== *)
theory Bounded_Fifo
  imports Roole_Prelude
begin

text \<open>
  The contract of the three ring buffers of the program: the update queue of the gossip engine
  (src/cluster/gossip_engine.c), the message queue of a node (src/node/message_queue.c) and the
  queue of the event bus (src/core/event_bus.c). Each is an array with a head index, a tail
  index and a count. The functions \<open>ring_contents\<close>, \<open>ring_ok\<close> relate such an array to the list of
  the queued elements, and the locale \<open>bounded_fifo\<close> states what a client may rely on: elements
  leave in the order in which they were accepted, none is lost or duplicated, and the number of
  elements never exceeds the capacity. A push or a pop that cannot proceed is \<open>None\<close> here; whether
  the code then returns an error or waits is in the operations of each queue.
\<close>

section \<open>A list in a ring buffer\<close>

definition ring_contents :: "'a list \<Rightarrow> nat \<Rightarrow> nat \<Rightarrow> 'a list" where
  "ring_contents buf head count = map (\<lambda>i. buf ! ((head + i) mod length buf)) [0..<count]"

definition ring_ok :: "'a list \<Rightarrow> nat \<Rightarrow> nat \<Rightarrow> nat \<Rightarrow> bool" where
  "ring_ok buf head tail count \<longleftrightarrow>
     head < length buf \<and> count \<le> length buf \<and> tail = (head + count) mod length buf"

lemma length_ring_contents [simp]: "length (ring_contents buf h c) = c"
  by (simp add: ring_contents_def)

lemma ring_contents_0 [simp]: "ring_contents buf h 0 = []"
  by (simp add: ring_contents_def)

lemma ring_push_contents:
  assumes "ring_ok buf h t c" and "c < length buf"
  shows "ring_contents (buf[t := x]) h (Suc c) = ring_contents buf h c @ [x]"
proof -
  have t: "t = (h + c) mod length buf" and h: "h < length buf"
    using assms(1) by (auto simp: ring_ok_def)
  have "t < length buf" using t h by (metis mod_less_divisor less_zeroE neq0_conv)
  moreover have "(h + i) mod length buf \<noteq> t" if "i < c" for i
  proof
    assume "(h + i) mod length buf = t"
    with t have "(h + i) mod length buf = (h + c) mod length buf" by simp
    then have "length buf dvd (c - i)"
      using that by (metis add_diff_cancel_left less_imp_le mod_eq_dvd_iff_nat nat_add_left_cancel_le)
    with that assms(2) show False by (auto dest: dvd_imp_le)
  qed
  ultimately show ?thesis
    using t [symmetric] by (simp add: ring_contents_def) (metis atLeastLessThan_iff nth_list_update_neq)
qed

lemma ring_push_ok:
  assumes "ring_ok buf h t c" and "c < length buf"
  shows "ring_ok (buf[t := x]) h ((t + 1) mod length buf) (Suc c)"
  using assms by (auto simp: ring_ok_def mod_simps)

lemma ring_pop_contents:
  assumes "ring_ok buf h t (Suc c)"
  shows "ring_contents buf h (Suc c) = buf ! h # ring_contents buf ((h + 1) mod length buf) c"
proof -
  have "h < length buf" using assms by (simp add: ring_ok_def)
  moreover have "((h + 1) mod length buf + i) mod length buf = (h + Suc i) mod length buf" for i
    by (simp add: mod_simps)
  ultimately show ?thesis
    by (simp add: ring_contents_def upt_conv_Cons map_Suc_upt [symmetric] comp_def del: upt_Suc)
qed

lemma ring_pop_ok:
  assumes "ring_ok buf h t (Suc c)"
  shows "ring_ok buf ((h + 1) mod length buf) t c"
  using assms by (auto simp: ring_ok_def mod_simps intro!: mod_less_divisor)

section \<open>The contract\<close>

datatype 'a fifo_op = Push 'a | Pop

locale bounded_fifo =
  fixes contents :: "'q \<Rightarrow> 'a list"
    and capacity :: "'q \<Rightarrow> nat"
    and ok :: "'q \<Rightarrow> bool"
    and push :: "'q \<Rightarrow> 'a \<Rightarrow> 'q option"
    and pop :: "'q \<Rightarrow> ('a \<times> 'q) option"
  assumes bounded: "ok q \<Longrightarrow> length (contents q) \<le> capacity q"
    and push_room: "ok q \<Longrightarrow> length (contents q) < capacity q \<Longrightarrow>
      \<exists>q'. push q x = Some q' \<and> ok q' \<and> contents q' = contents q @ [x] \<and> capacity q' = capacity q"
    and push_full: "ok q \<Longrightarrow> capacity q \<le> length (contents q) \<Longrightarrow> push q x = None"
    and pop_some: "ok q \<Longrightarrow> contents q = y # ys \<Longrightarrow>
      \<exists>q'. pop q = Some (y, q') \<and> ok q' \<and> contents q' = ys \<and> capacity q' = capacity q"
    and pop_empty: "ok q \<Longrightarrow> contents q = [] \<Longrightarrow> pop q = None"
begin

text \<open>The run of a sequence of operations: what was accepted, what came out, the queue left.\<close>

fun run :: "'q \<Rightarrow> 'a fifo_op list \<Rightarrow> 'a list \<times> 'a list \<times> 'q" where
  "run q [] = ([], [], q)"
| "run q (Push x # ops) =
     (case push q x of
        None \<Rightarrow> run q ops
      | Some q' \<Rightarrow> (case run q' ops of (ins, outs, q'') \<Rightarrow> (x # ins, outs, q'')))"
| "run q (Pop # ops) =
     (case pop q of
        None \<Rightarrow> run q ops
      | Some (x, q') \<Rightarrow> (case run q' ops of (ins, outs, q'') \<Rightarrow> (ins, x # outs, q'')))"

lemma push_iff: "ok q \<Longrightarrow> push q x \<noteq> None \<longleftrightarrow> length (contents q) < capacity q"
  using push_room [of q x] push_full [of q x] by (cases "length (contents q) < capacity q") auto

lemma push_ok: "ok q \<Longrightarrow> push q x = Some q' \<Longrightarrow>
    ok q' \<and> contents q' = contents q @ [x] \<and> capacity q' = capacity q"
  using push_room [of q x] push_full [of q x] by (cases "length (contents q) < capacity q") auto

lemma pop_iff: "ok q \<Longrightarrow> pop q \<noteq> None \<longleftrightarrow> contents q \<noteq> []"
  using pop_some [of q] pop_empty [of q] by (cases "contents q") auto

lemma pop_ok: "ok q \<Longrightarrow> pop q = Some (x, q') \<Longrightarrow>
    ok q' \<and> contents q = x # contents q' \<and> capacity q' = capacity q"
  using pop_some [of q] pop_empty [of q] by (cases "contents q") auto

theorem run_fifo:
  assumes "ok q" and "run q ops = (ins, outs, q')"
  shows "contents q @ ins = outs @ contents q' \<and> ok q' \<and> capacity q' = capacity q"
  using assms
proof (induction ops arbitrary: q ins outs)
  case Nil
  then show ?case by auto
next
  case (Cons p ops)
  show ?case
  proof (cases p)
    case (Push x)
    show ?thesis
    proof (cases "push q x")
      case None
      with Push Cons show ?thesis by auto
    next
      case (Some q1)
      with Cons.prems(1) have q1: "ok q1" "contents q1 = contents q @ [x]" "capacity q1 = capacity q"
        by (auto dest: push_ok)
      obtain ins' outs' where r: "run q1 ops = (ins', outs', q')" "ins = x # ins'" "outs = outs'"
        using Cons.prems(2) Push Some by (auto split: prod.splits)
      from Cons.IH [OF q1(1) r(1)] q1 r show ?thesis by simp
    qed
  next
    case Pop
    show ?thesis
    proof (cases "pop q")
      case None
      with Pop Cons show ?thesis by auto
    next
      case (Some z)
      then obtain x q1 where z: "pop q = Some (x, q1)" by (cases z) auto
      with Cons.prems(1) have q1: "ok q1" "contents q = x # contents q1" "capacity q1 = capacity q"
        by (auto dest: pop_ok)
      obtain ins' outs' where r: "run q1 ops = (ins', outs', q')" "ins = ins'" "outs = x # outs'"
        using Cons.prems(2) Pop z by (auto split: prod.splits)
      from Cons.IH [OF q1(1) r(1)] q1 r show ?thesis by simp
    qed
  qed
qed

end

end
