(* ===== verification/Rpc.thy ===== *)
theory Rpc
  imports Wire
begin

text \<open>
  src/core/rpc.c: RPC messages, the channels they travel on and the event loop's work for one
  ready connection. A message is a 12 byte header (length and request id in network order, the
  sender id as the host stores it, type and status in one byte, the function id) and a payload.
  A channel owns a receive buffer of fixed size; \<open>rx_data_len\<close> bytes at its front are pending. The
  kernel's side of a socket is explicit: the segments waiting to be read and what \<open>read\<close> returns
  after them, the results of \<open>send\<close>. \<open>malloc\<close> for the \<open>k\<close>-th request either fails (None) or
  returns memory whose \<open>sender_id\<close> field holds some value: the code never writes that field.
\<close>

section \<open>Messages\<close>

definition RPC_HEADER_SIZE :: nat where "RPC_HEADER_SIZE = 12"
definition RPC_TYPE_REQUEST :: u8 where "RPC_TYPE_REQUEST = 1"
definition RPC_TYPE_RESPONSE :: u8 where "RPC_TYPE_RESPONSE = 2"
definition RPC_STATUS_SUCCESS :: u8 where "RPC_STATUS_SUCCESS = 0"
definition RPC_STATUS_BAD_ARGUMENT :: u8 where "RPC_STATUS_BAD_ARGUMENT = 1"
definition RPC_STATUS_FUNC_NOT_FOUND :: u8 where "RPC_STATUS_FUNC_NOT_FOUND = 2"
definition RPC_STATUS_INTERNAL_ERROR :: u8 where "RPC_STATUS_INTERNAL_ERROR = 3"
definition MAX_BUFFER_SIZE :: nat where "MAX_BUFFER_SIZE = 4096"
definition FUNC_ID_HEARTBEAT :: u8 where "FUNC_ID_HEARTBEAT = 0x12"

text \<open>The bit fields of \<open>rpc_type_status_t\<close>: status in the low, type in the high four bits.\<close>

definition type_status_byte :: "u8 \<Rightarrow> u8 \<Rightarrow> u8" where
  "type_status_byte type status = push_bit 4 (type AND 15) OR (status AND 15)"

definition status_field :: "u8 \<Rightarrow> u8" where "status_field b = b AND 15"
definition type_field :: "u8 \<Rightarrow> u8" where "type_field b = drop_bit 4 b"

record rpc_header =
  h_total_len :: u32
  h_request_id :: u32
  h_sender_id :: node_id
  h_type_and_status :: u8
  h_func_id :: u8

definition rpc_pack_message ::
  "nat \<Rightarrow> node_id \<Rightarrow> u32 \<Rightarrow> u8 \<Rightarrow> u8 \<Rightarrow> u8 \<Rightarrow> bytes \<Rightarrow> c_error + bytes" where
  "rpc_pack_message capacity node_id request_id type status func_id payload =
     (if capacity < RPC_HEADER_SIZE + length payload then Inl Out_of_bounds
      else Inr (write_u32_net (word_of_nat (RPC_HEADER_SIZE + length payload))
                @ write_u32_net request_id @ host_u16 node_id
                @ [type_status_byte type status] @ [func_id] @ payload))"

definition rpc_unpack_header :: "bytes \<Rightarrow> rpc_header option" where
  "rpc_unpack_header buffer =
     (let header = \<lparr>h_total_len = read_u32_net buffer, h_request_id = read_u32_net (drop 4 buffer),
                    h_sender_id = load_u16 (drop 8 buffer), h_type_and_status = buffer ! 10,
                    h_func_id = buffer ! 11\<rparr>
      in if unat (h_total_len header) < RPC_HEADER_SIZE then None else Some header)"

section \<open>Channels\<close>

datatype rpc_channel_type = RPC_CHANNEL_DATA | RPC_CHANNEL_INGRESS

record rpc_channel =
  socket_fd :: int
  channel_type :: rpc_channel_type
  rx_buffer :: bytes
  rx_data_len :: nat
  tx_buffer_size :: nat

definition rpc_channel_init ::
  "int \<Rightarrow> rpc_channel_type \<Rightarrow> nat \<Rightarrow> bool \<Rightarrow> bool \<Rightarrow> bytes \<Rightarrow> rpc_channel option" where
  "rpc_channel_init fd type buffer_size rx_alloc_ok tx_alloc_ok garbage =
     (if buffer_size = 0 \<or> \<not> rx_alloc_ok \<or> \<not> tx_alloc_ok then None
      else Some \<lparr>socket_fd = fd, channel_type = type,
                 rx_buffer = take buffer_size (garbage @ replicate buffer_size 0),
                 rx_data_len = 0, tx_buffer_size = buffer_size\<rparr>)"

definition rpc_channel_destroy :: "rpc_channel \<Rightarrow> rpc_channel" where
  "rpc_channel_destroy ch = ch\<lparr>socket_fd := -1\<rparr>"

text \<open>\<open>rpc_client_connect\<close>: the outcomes of \<open>socket\<close>, the two allocations, \<open>inet_pton\<close> and
  \<open>connect\<close> are arguments; a failure leaves no open descriptor behind.\<close>

definition rpc_client_connect ::
  "int \<Rightarrow> rpc_channel_type \<Rightarrow> nat \<Rightarrow> bool \<Rightarrow> bool \<Rightarrow> bool \<Rightarrow> bytes \<Rightarrow> rpc_channel option" where
  "rpc_client_connect client_fd type buffer_size alloc_ok pton_ok connect_ok garbage =
     (if client_fd = -1 then None
      else case rpc_channel_init client_fd type buffer_size alloc_ok alloc_ok garbage of
        None \<Rightarrow> None
      | Some ch \<Rightarrow> if \<not> pton_ok then None else if \<not> connect_ok then None else Some ch)"

record rpc_async_context =
  ctx_request_id :: u32
  ctx_func_id :: u8
  ctx_sender_id :: node_id

type_synonym 'h service_table = "(u8 \<times> 'h) list"

text \<open>The handler of the first entry with the function id.\<close>

fun find_handler :: "'h service_table \<Rightarrow> u8 \<Rightarrow> 'h option" where
  "find_handler [] func_id = None"
| "find_handler ((f, h) # table) func_id = (if f = func_id then Some h else find_handler table func_id)"

section \<open>Request processing\<close>

datatype frames_end = Need_more | Bad_header | Out_of_memory

text \<open>
  The parsing loop of \<open>process_buffered_data\<close> on the bytes not yet processed: the contexts and
  payloads it creates, the bytes it consumed, and why it stopped.
\<close>

function rpc_frames ::
  "(nat \<Rightarrow> node_id option) \<Rightarrow> nat \<Rightarrow> bytes \<Rightarrow> (rpc_async_context \<times> bytes) list \<times> nat \<times> frames_end" where
  "rpc_frames malloc k bs =
     (if length bs < RPC_HEADER_SIZE then ([], 0, Need_more)
      else case rpc_unpack_header bs of
        None \<Rightarrow> ([], 0, Bad_header)
      | Some h \<Rightarrow>
          if length bs < unat (h_total_len h) then ([], 0, Need_more)
          else case malloc k of
            None \<Rightarrow> ([], 0, Out_of_memory)
          | Some garbage \<Rightarrow>
              (case rpc_frames malloc (Suc k) (drop (unat (h_total_len h)) bs) of
                 (rs, used, e) \<Rightarrow>
                   ((\<lparr>ctx_request_id = h_request_id h, ctx_func_id = h_func_id h,
                      ctx_sender_id = garbage\<rparr>,
                     drop RPC_HEADER_SIZE (take (unat (h_total_len h)) bs)) # rs,
                    unat (h_total_len h) + used, e)))"
  by pat_completeness auto

termination
  by (relation "measure (\<lambda>(m, k, bs). length bs)")
    (auto simp: rpc_unpack_header_def RPC_HEADER_SIZE_def Let_def split: if_splits)

declare rpc_frames.simps [simp del]

definition compact :: "nat \<Rightarrow> rpc_channel \<Rightarrow> rpc_channel" where
  "compact processed ch =
     (if processed = 0 then ch
      else let len = rx_data_len ch - processed
           in ch\<lparr>rx_data_len := len,
                 rx_buffer := (if 0 < len then take len (drop processed (rx_buffer ch))
                                 @ drop len (rx_buffer ch) else rx_buffer ch)\<rparr>)"

definition process_buffered_data ::
  "'h service_table option \<Rightarrow> (nat \<Rightarrow> node_id option) \<Rightarrow> nat \<Rightarrow> rpc_channel \<Rightarrow>
   rpc_channel \<times> (rpc_async_context \<times> bytes \<times> 'h option) list" where
  "process_buffered_data table malloc counter ch =
     (case table of
        None \<Rightarrow> (ch\<lparr>rx_data_len := 0\<rparr>, [])
      | Some t \<Rightarrow>
          (case rpc_frames malloc counter (take (rx_data_len ch) (rx_buffer ch)) of
             (rs, used, e) \<Rightarrow>
               (case e of
                  Need_more \<Rightarrow> compact used ch
                | Bad_header \<Rightarrow> ch\<lparr>rx_data_len := 0\<rparr>
                | Out_of_memory \<Rightarrow> ch,
                map (\<lambda>(c, payload). (c, payload, find_handler t (ctx_func_id c))) rs)))"

datatype read_end = Would_block | Closed_or_error

definition rx_append :: "bytes \<Rightarrow> rpc_channel \<Rightarrow> rpc_channel" where
  "rx_append bs ch = ch\<lparr>rx_buffer := take (rx_data_len ch) (rx_buffer ch) @ bs
                          @ drop (rx_data_len ch + length bs) (rx_buffer ch),
                        rx_data_len := rx_data_len ch + length bs\<rparr>"

text \<open>
  The read loop: each \<open>read\<close> returns the next segment, or as much of it as fits into the free
  part of the buffer; the loop ends when the buffer is full or nothing is left. The result is the
  channel, the segments left in the kernel, and whether the connection is to be closed.
\<close>

fun rpc_read_loop :: "bytes list \<Rightarrow> read_end \<Rightarrow> rpc_channel \<Rightarrow> rpc_channel \<times> bytes list \<times> bool" where
  "rpc_read_loop [] after ch =
     (ch, [], rx_data_len ch < length (rx_buffer ch) \<and> after = Closed_or_error)"
| "rpc_read_loop (seg # segs) after ch =
     (if length (rx_buffer ch) \<le> rx_data_len ch then (ch, seg # segs, False)
      else let space = length (rx_buffer ch) - rx_data_len ch
           in if space < length seg
              then (rx_append (take space seg) ch, drop space seg # segs, False)
              else rpc_read_loop segs after (rx_append seg ch))"

text \<open>The branch of the event loop for a ready connection: \<open>hup\<close> when the event set carries
  \<open>EPOLLRDHUP\<close>, \<open>EPOLLERR\<close> or \<open>EPOLLHUP\<close>, \<open>readable\<close> when it carries \<open>EPOLLIN\<close>.\<close>

definition rpc_connection_event ::
  "'h service_table option \<Rightarrow> (nat \<Rightarrow> node_id option) \<Rightarrow> nat \<Rightarrow> bool \<Rightarrow> bool \<Rightarrow> bytes list \<Rightarrow> read_end \<Rightarrow>
   rpc_channel \<Rightarrow> rpc_channel \<times> (rpc_async_context \<times> bytes \<times> 'h option) list \<times> bytes list \<times> bool" where
  "rpc_connection_event table malloc counter hup readable queued after ch =
     (if \<not> readable then ((if hup then rpc_channel_destroy ch else ch), [], queued, hup)
      else case rpc_read_loop queued after ch of
        (ch1, left, eof) \<Rightarrow>
          let close = hup \<or> eof;
              (ch2, requests) = (if \<not> close \<and> 0 < rx_data_len ch1
                                 then process_buffered_data table malloc counter ch1 else (ch1, []));
              close2 = (close \<or> rx_data_len ch2 = length (rx_buffer ch2))
          in ((if close2 then rpc_channel_destroy ch2 else ch2), requests, left, close2))"

text \<open>
  \<open>send_response\<close>: the results of the \<open>send\<close> calls, in order, decide what leaves. A result \<open>Sent n\<close>
  says that the kernel took \<open>n\<close> bytes. With no result left the call has not returned.
\<close>

datatype send_result = Sent nat | Send_eintr | Send_failed

fun send_response :: "send_result list \<Rightarrow> bytes \<Rightarrow> (int \<times> bytes) option" where
  "send_response [] [] = Some (0, [])"
| "send_response [] (b # bs) = None"
| "send_response (r # rs) bs =
     (if bs = [] then Some (0, [])
      else case r of
        Sent n \<Rightarrow> if n = 0 then Some (-1, [])
                  else map_option (\<lambda>(ret, out). (ret, take n bs @ out)) (send_response rs (drop n bs))
      | Send_eintr \<Rightarrow> send_response rs bs
      | Send_failed \<Rightarrow> Some (-1, []))"

fun rpc_remove_context :: "'c \<Rightarrow> 'c list \<Rightarrow> 'c list" where
  "rpc_remove_context c [] = []"
| "rpc_remove_context c (x # xs) = (if x = c then xs else x # rpc_remove_context c xs)"

definition rpc_send_async_response ::
  "rpc_channel \<Rightarrow> rpc_async_context \<Rightarrow> u8 \<Rightarrow> bytes \<Rightarrow> send_result list \<Rightarrow>
   c_error + (int \<times> bytes) option" where
  "rpc_send_async_response ch context status payload sends =
     (case rpc_pack_message (tx_buffer_size ch) (ctx_sender_id context) (ctx_request_id context)
             RPC_TYPE_RESPONSE status (ctx_func_id context) payload of
        Inl e \<Rightarrow> Inl e
      | Inr msg \<Rightarrow> Inr (send_response sends msg))"

section \<open>Headers\<close>

lemma type_status_fields [simp]:
  "status_field (type_status_byte ty st) = st AND 15"
  "type_field (type_status_byte ty st) = ty AND 15"
proof -
  have m: "(15 :: u8) = mask 4" by (simp add: mask_eq_exp_minus_1)
  show "status_field (type_status_byte ty st) = st AND 15"
    unfolding status_field_def type_status_byte_def m
    by (rule bit_word_eqI) (auto simp: bit_simps)
  show "type_field (type_status_byte ty st) = ty AND 15"
    unfolding type_field_def type_status_byte_def m
    by (rule bit_word_eqI) (auto simp: bit_simps)
qed

text \<open>An outgoing call and the bytes it becomes.\<close>

record rpc_call =
  c_node_id :: node_id
  c_request_id :: u32
  c_type :: u8
  c_status :: u8
  c_func_id :: u8
  c_payload :: bytes

definition wire :: "rpc_call \<Rightarrow> bytes" where
  "wire c = write_u32_net (word_of_nat (RPC_HEADER_SIZE + length (c_payload c)))
     @ write_u32_net (c_request_id c) @ host_u16 (c_node_id c)
     @ [type_status_byte (c_type c) (c_status c)] @ [c_func_id c] @ c_payload c"

definition call_ok :: "rpc_call \<Rightarrow> bool" where
  "call_ok c \<longleftrightarrow> RPC_HEADER_SIZE + length (c_payload c) < 2 ^ 32"

definition call_header :: "rpc_call \<Rightarrow> rpc_header" where
  "call_header c = \<lparr>h_total_len = word_of_nat (RPC_HEADER_SIZE + length (c_payload c)),
     h_request_id = c_request_id c, h_sender_id = c_node_id c,
     h_type_and_status = type_status_byte (c_type c) (c_status c), h_func_id = c_func_id c\<rparr>"

lemma pack_eq_wire:
  "RPC_HEADER_SIZE + length (c_payload c) \<le> capacity \<Longrightarrow>
   rpc_pack_message capacity (c_node_id c) (c_request_id c) (c_type c) (c_status c) (c_func_id c)
     (c_payload c) = Inr (wire c)"
  by (simp add: rpc_pack_message_def wire_def)

lemma length_wire: "length (wire c) = RPC_HEADER_SIZE + length (c_payload c)"
  by (simp add: wire_def RPC_HEADER_SIZE_def)

lemma call_total_len: "call_ok c \<Longrightarrow> unat (h_total_len (call_header c)) = length (wire c)"
  unfolding call_ok_def
  by (simp add: call_header_def length_wire unat_word_of_nat del: of_nat_add)

lemma unpack_wire:
  assumes "call_ok c"
  shows "rpc_unpack_header (wire c @ rest) = Some (call_header c)"
proof -
  have h: "h_total_len (call_header c) = word_of_nat (RPC_HEADER_SIZE + length (c_payload c))"
    by (simp add: call_header_def)
  have "\<not> unat (h_total_len (call_header c)) < RPC_HEADER_SIZE"
    using call_total_len [OF assms] by (simp add: length_wire)
  then show ?thesis
    unfolding h
    by (simp add: rpc_unpack_header_def wire_def call_header_def Let_def nth_append RPC_HEADER_SIZE_def)
qed

text \<open>The header only reads the first twelve bytes.\<close>

lemma unpack_prefix:
  assumes "length bs \<ge> RPC_HEADER_SIZE" and "bs @ rest = wire c @ later" and "call_ok c"
  shows "rpc_unpack_header bs = Some (call_header c)"
proof -
  have "rpc_unpack_header bs = rpc_unpack_header (bs @ rest)"
    using assms(1) by (simp add: rpc_unpack_header_def RPC_HEADER_SIZE_def read_u32_net_def load_u16_def
        nth_append Let_def)
  with assms show ?thesis by (simp add: unpack_wire)
qed

text \<open>What one node packs the other unpacks: the length, request id, function id and sender
  come back unchanged (the sender id because both sides store it the same way), the type and the
  status come back modulo 16, being four bits each, and the payload follows the header.\<close>

theorem rpc_header_roundtrip:
  assumes "12 + length payload < 2 ^ 32" and "12 + length payload \<le> capacity"
  shows "\<exists>bs h. rpc_pack_message capacity node_id request_id ty status func_id payload = Inr bs
    \<and> rpc_unpack_header (bs @ rest) = Some h
    \<and> unat (h_total_len h) = length bs \<and> h_request_id h = request_id \<and> h_sender_id h = node_id
    \<and> h_func_id h = func_id \<and> type_field (h_type_and_status h) = ty AND 15
    \<and> status_field (h_type_and_status h) = status AND 15
    \<and> drop RPC_HEADER_SIZE bs = payload"
proof -
  let ?c = "\<lparr>c_node_id = node_id, c_request_id = request_id, c_type = ty, c_status = status,
             c_func_id = func_id, c_payload = payload\<rparr>"
  have ok: "call_ok ?c" using assms(1) by (simp add: call_ok_def RPC_HEADER_SIZE_def)
  have "rpc_pack_message capacity node_id request_id ty status func_id payload = Inr (wire ?c)"
    using assms(2) pack_eq_wire [of ?c capacity] by (simp add: RPC_HEADER_SIZE_def)
  moreover have "drop RPC_HEADER_SIZE (wire ?c) = payload"
    by (simp add: wire_def RPC_HEADER_SIZE_def)
  ultimately show ?thesis
    using unpack_wire [OF ok, of rest] call_total_len [OF ok]
    by (intro exI [of _ "wire ?c"] exI [of _ "call_header ?c"]) (simp add: call_header_def)
qed

theorem rpc_header_roundtrip_witness:
  "\<exists>bs. rpc_pack_message 4096 7 9 1 0 0x31 [5, 6] = Inr bs \<and> drop 12 bs = [5, 6]"
  using rpc_header_roundtrip [of "[5, 6]" 4096 7 9 1 0 "0x31" "[]"]
  by (auto simp: RPC_HEADER_SIZE_def)

section \<open>The byte stream of a connection\<close>

definition pending :: "rpc_channel \<Rightarrow> bytes" where
  "pending ch = take (rx_data_len ch) (rx_buffer ch)"

definition channel_ok :: "rpc_channel \<Rightarrow> bool" where
  "channel_ok ch \<longleftrightarrow> rx_data_len ch \<le> length (rx_buffer ch)"

lemma length_pending [simp]: "channel_ok ch \<Longrightarrow> length (pending ch) = rx_data_len ch"
  by (simp add: pending_def channel_ok_def)

lemma compact_pending:
  assumes "channel_ok ch" and "n \<le> rx_data_len ch"
  shows "pending (compact n ch) = drop n (pending ch)"
    and "channel_ok (compact n ch)"
    and "length (rx_buffer (compact n ch)) = length (rx_buffer ch)"
  using assms
  by (auto simp: compact_def pending_def channel_ok_def Let_def take_drop min_def)

lemma rx_append_pending:
  assumes "channel_ok ch" and "rx_data_len ch + length bs \<le> length (rx_buffer ch)"
  shows "pending (rx_append bs ch) = pending ch @ bs"
    and "channel_ok (rx_append bs ch)"
    and "length (rx_buffer (rx_append bs ch)) = length (rx_buffer ch)"
  using assms by (auto simp: rx_append_def pending_def channel_ok_def)

lemma read_loop_all:
  assumes "channel_ok ch" and "rx_data_len ch + length (concat segs) < length (rx_buffer ch)"
  shows "\<exists>ch'. rpc_read_loop segs Would_block ch = (ch', [], False) \<and> channel_ok ch'
    \<and> pending ch' = pending ch @ concat segs \<and> length (rx_buffer ch') = length (rx_buffer ch)"
  using assms
proof (induction segs arbitrary: ch)
  case Nil
  then show ?case by simp
next
  case (Cons seg segs)
  have fit: "rx_data_len ch + length seg \<le> length (rx_buffer ch)" using Cons.prems(2) by simp
  note a = rx_append_pending [OF Cons.prems(1) fit]
  have "rx_data_len (rx_append seg ch) = rx_data_len ch + length seg"
    by (simp add: rx_append_def)
  with Cons.prems(2) a(3) have "rx_data_len (rx_append seg ch) + length (concat segs)
      < length (rx_buffer (rx_append seg ch))" by simp
  from Cons.IH [OF a(2) this] obtain ch' where
    "rpc_read_loop segs Would_block (rx_append seg ch) = (ch', [], False)" "channel_ok ch'"
    "pending ch' = pending ch @ concat (seg # segs)" "length (rx_buffer ch') = length (rx_buffer ch)"
    using a by auto
  moreover have "\<not> length (rx_buffer ch) \<le> rx_data_len ch"
    "\<not> length (rx_buffer ch) - rx_data_len ch < length seg"
    using Cons.prems(2) by auto
  ultimately show ?case by (simp add: Let_def)
qed

fun received ::
  "(nat \<Rightarrow> node_id) \<Rightarrow> nat \<Rightarrow> rpc_call list \<Rightarrow> (rpc_async_context \<times> bytes) list" where
  "received g k [] = []"
| "received g k (c # cs) =
     (\<lparr>ctx_request_id = c_request_id c, ctx_func_id = c_func_id c, ctx_sender_id = g k\<rparr>, c_payload c)
     # received g (Suc k) cs"

lemma length_received [simp]: "length (received g k cs) = length cs"
  by (induction cs arbitrary: k) auto

lemma received_append:
  "received g k (cs @ ds) = received g k cs @ received g (k + length cs) ds"
  by (induction cs arbitrary: k) auto

abbreviation stream :: "rpc_call list \<Rightarrow> bytes" where
  "stream cs \<equiv> concat (map wire cs)"

lemma frames_partial:
  assumes "call_ok c" and "bs @ rest = wire c @ later" and "length bs < length (wire c)"
  shows "rpc_frames malloc k bs = ([], 0, Need_more)"
proof (cases "length bs < RPC_HEADER_SIZE")
  case True
  then show ?thesis by (simp add: rpc_frames.simps [of malloc k bs])
next
  case False
  then have "rpc_unpack_header bs = Some (call_header c)"
    using assms unpack_prefix [of bs rest c later] by simp
  with False assms show ?thesis
    by (simp add: rpc_frames.simps [of malloc k bs] call_total_len)
qed

lemma frames_whole:
  assumes "call_ok c" and "rpc_frames (\<lambda>k. Some (g k)) (Suc k) bs = (rs, used, e)"
  shows "rpc_frames (\<lambda>k. Some (g k)) k (wire c @ bs) =
    (received g k [c] @ rs, length (wire c) + used, e)"
  using assms unpack_wire [OF assms(1), of bs]
  by (simp add: rpc_frames.simps [of "\<lambda>k. Some (g k)" k "wire c @ bs"] call_total_len length_wire)
    (simp add: call_header_def wire_def RPC_HEADER_SIZE_def)

definition partial_of :: "bytes \<Rightarrow> rpc_call list \<Rightarrow> bool" where
  "partial_of left cs \<longleftrightarrow> (case cs of [] \<Rightarrow> left = [] | c # _ \<Rightarrow> length left < length (wire c))"

lemma partial_of_simps [simp]:
  "partial_of left [] \<longleftrightarrow> left = []"
  "partial_of left (c # cs) \<longleftrightarrow> length left < length (wire c)"
  by (simp_all add: partial_of_def)

lemma partial_of_less:
  "partial_of left cs \<Longrightarrow> \<forall>c \<in> set cs. length (wire c) \<le> L \<Longrightarrow> 0 < L \<Longrightarrow> length left < L"
  by (cases cs) auto

text \<open>On a prefix of a stream of messages the parser takes the whole messages and stops.\<close>

lemma frames_prefix:
  assumes "list_all call_ok cs" and "bs @ rest = stream cs"
  shows "\<exists>j \<le> length cs. \<exists>left. bs = stream (take j cs) @ left \<and> left @ rest = stream (drop j cs)
    \<and> rpc_frames (\<lambda>k. Some (g k)) k bs =
        (received g k (take j cs), length (stream (take j cs)), Need_more)
    \<and> partial_of left (drop j cs)"
  using assms
proof (induction cs arbitrary: bs k)
  case Nil
  then show ?case by (simp add: rpc_frames.simps RPC_HEADER_SIZE_def)
next
  case (Cons c cs)
  show ?case
  proof (cases "length bs < length (wire c)")
    case True
    have "rpc_frames (\<lambda>k. Some (g k)) k bs = ([], 0, Need_more)"
      using Cons.prems True by (intro frames_partial [of c bs rest "stream cs"]) auto
    with Cons.prems True show ?thesis by (intro exI [of _ "0 :: nat"]) auto
  next
    case False
    define bs' where "bs' = drop (length (wire c)) bs"
    have "take (length (wire c)) (bs @ rest) = wire c" using Cons.prems(2) by simp
    with False have bs: "bs = wire c @ bs'"
      by (simp add: bs'_def) (metis append_take_drop_id)
    with Cons.prems(2) have bs2: "bs' @ rest = stream cs" by simp
    obtain j left where j: "j \<le> length cs" "bs' = stream (take j cs) @ left"
      "left @ rest = stream (drop j cs)"
      "rpc_frames (\<lambda>k. Some (g k)) (Suc k) bs' =
        (received g (Suc k) (take j cs), length (stream (take j cs)), Need_more)"
      "partial_of left (drop j cs)"
      using Cons.IH [of bs' "Suc k"] Cons.prems(1) bs2 by auto
    then show ?thesis
      using bs frames_whole [OF _ j(4), of c] Cons.prems(1)
      by (intro exI [of _ "Suc j"] conjI exI [of _ left]) auto
  qed
qed

section \<open>A connection over time\<close>

text \<open>The events of a connection: what the kernel holds at each one is what the previous one left
  unread and the segments that arrived since.\<close>

fun rpc_session ::
  "'h service_table option \<Rightarrow> (nat \<Rightarrow> node_id option) \<Rightarrow> nat \<Rightarrow> bytes list \<Rightarrow> bytes list list \<Rightarrow>
   rpc_channel \<Rightarrow> rpc_channel \<times> (rpc_async_context \<times> bytes \<times> 'h option) list \<times> bytes list \<times> bool" where
  "rpc_session table malloc k left [] ch = (ch, [], left, False)"
| "rpc_session table malloc k left (ev # evs) ch =
     (case rpc_connection_event table malloc k False True (left @ ev) Would_block ch of
        (ch1, rs, left1, closed) \<Rightarrow>
          if closed then (ch1, rs, left1, True)
          else case rpc_session table malloc (k + length rs) left1 evs ch1 of
            (ch2, rs2, left2, c) \<Rightarrow> (ch2, rs @ rs2, left2, c))"

abbreviation with_handler :: "'h service_table \<Rightarrow> rpc_async_context \<times> bytes \<Rightarrow>
    rpc_async_context \<times> bytes \<times> 'h option" where
  "with_handler t r \<equiv> (fst r, snd r, find_handler t (ctx_func_id (fst r)))"

lemma event_step:
  assumes ok: "channel_ok ch" and cs: "list_all call_ok cs" "\<forall>c \<in> set cs. length (wire c) \<le> L"
    and st: "pending ch @ concat ev @ rest = stream cs"
    and sz: "rx_data_len ch + length (concat ev) < length (rx_buffer ch)"
      "L \<le> length (rx_buffer ch)" "0 < L"
  shows "\<exists>ch' j. j \<le> length cs \<and> rpc_connection_event (Some t) (\<lambda>k. Some (g k)) k False True ev Would_block ch
      = (ch', map (with_handler t) (received g k (take j cs)), [], False)
    \<and> channel_ok ch' \<and> pending ch' @ rest = stream (drop j cs) \<and> partial_of (pending ch') (drop j cs)
    \<and> length (rx_buffer ch') = length (rx_buffer ch)"
proof -
  obtain ch1 where r: "rpc_read_loop ev Would_block ch = (ch1, [], False)" "channel_ok ch1"
    "pending ch1 = pending ch @ concat ev" "length (rx_buffer ch1) = length (rx_buffer ch)"
    using read_loop_all [OF ok sz(1)] by auto
  obtain j left where j: "j \<le> length cs" "pending ch1 = stream (take j cs) @ left"
    "left @ rest = stream (drop j cs)"
    "rpc_frames (\<lambda>k. Some (g k)) k (pending ch1) =
       (received g k (take j cs), length (stream (take j cs)), Need_more)"
    "partial_of left (drop j cs)"
    using frames_prefix [of cs "pending ch1" rest g k] cs(1) st r(3) by auto
  have left: "length left < L"
    using partial_of_less [OF j(5)] cs(2) sz(3) by (auto dest: in_set_dropD)
  let ?n = "length (stream (take j cs))"
  let ?ch2 = "compact ?n ch1"
  have n: "?n \<le> rx_data_len ch1" using j(2) length_pending [OF r(2)] by simp
  note c = compact_pending [OF r(2) n]
  have p2: "pending ?ch2 = left" using c(1) j(2) by simp
  then have l2: "rx_data_len ?ch2 = length left" using length_pending [OF c(2)] by simp
  show ?thesis
  proof (cases "rx_data_len ch1 = 0")
    case True
    then have "stream (take j cs) @ left = []" using j(2) length_pending [OF r(2)] by simp
    then have e: "left = []" "stream (take j cs) = []" by simp_all
    have "wire c \<noteq> []" for c using length_wire [of c] by (auto simp: RPC_HEADER_SIZE_def)
    with e(2) have "take j cs = []" by (cases "take j cs") auto
    with True r j e sz have "rpc_connection_event (Some t) (\<lambda>k. Some (g k)) k False True ev Would_block ch
      = (ch1, map (with_handler t) (received g k (take j cs)), [], False)"
      by (auto simp: rpc_connection_event_def Let_def)
    with True r j e sz show ?thesis by (intro exI [of _ ch1] exI [of _ j]) auto
  next
    case False
    have "rpc_connection_event (Some t) (\<lambda>k. Some (g k)) k False True ev Would_block ch
      = (?ch2, map (with_handler t) (received g k (take j cs)), [], False)"
      using r j False left l2 sz c
      by (auto simp: rpc_connection_event_def process_buffered_data_def pending_def split_beta)
    with j c p2 l2 left r show ?thesis by (intro exI [of _ ?ch2] exI [of _ j]) auto
  qed
qed

lemma session_stream:
  assumes "channel_ok ch" "list_all call_ok cs" "\<forall>c \<in> set cs. length (wire c) \<le> L"
    and "pending ch @ concat (concat evs) = stream cs"
    and "\<forall>ev \<in> set evs. length (concat ev) \<le> C" and "L + C \<le> length (rx_buffer ch)" "0 < L"
    and "partial_of (pending ch) cs"
  shows "\<exists>ch'. rpc_session (Some t) (\<lambda>k. Some (g k)) k [] evs ch =
    (ch', map (with_handler t) (received g k cs), [], False) \<and> rx_data_len ch' = 0"
  using assms
proof (induction evs arbitrary: ch cs k)
  case Nil
  then have "cs = []" by (cases cs) auto
  with Nil show ?case by (simp flip: length_pending)
next
  case (Cons ev evs)
  have "length (pending ch) < L" using Cons.prems by (intro partial_of_less) auto
  then have "rx_data_len ch < L" using Cons.prems(1) by simp
  then have sz: "rx_data_len ch + length (concat ev) < length (rx_buffer ch)" "L \<le> length (rx_buffer ch)"
    using Cons.prems(5,6) by auto
  have st: "pending ch @ concat ev @ concat (concat evs) = stream cs" using Cons.prems(4) by simp
  obtain ch' j where s: "j \<le> length cs"
    "rpc_connection_event (Some t) (\<lambda>k. Some (g k)) k False True ev Would_block ch
      = (ch', map (with_handler t) (received g k (take j cs)), [], False)"
    "channel_ok ch'" "pending ch' @ concat (concat evs) = stream (drop j cs)"
    "partial_of (pending ch') (drop j cs)" "length (rx_buffer ch') = length (rx_buffer ch)"
    using event_step [OF Cons.prems(1-3) st sz Cons.prems(7), of t g k] by auto
  have "\<exists>ch2. rpc_session (Some t) (\<lambda>k. Some (g k)) (k + j) [] evs ch' =
      (ch2, map (with_handler t) (received g (k + j) (drop j cs)), [], False) \<and> rx_data_len ch2 = 0"
    using Cons.prems s by (intro Cons.IH) (auto simp: list_all_iff dest: in_set_dropD)
  moreover have "received g k cs = received g k (take j cs) @ received g (k + j) (drop j cs)"
    using received_append [of g k "take j cs" "drop j cs"] s(1) by simp
  ultimately show ?case using s by auto
qed

section \<open>Properties of the connection\<close>

text \<open>C5: TCP segmentation is invisible to the handlers as long as the receive buffer has room: whatever way
  the bytes of a sequence of calls are cut into readable events, if the longest call and what arrives
  between two reads fit the buffer together (4096 bytes in the code; a larger burst is not read to its
  end and can leave calls waiting until more data comes), the connection starts with an empty buffer and
  its contexts can be allocated, every call is dispatched exactly once and in order, with its own
  payload and the handler of its function id, no byte is left over and the connection stays open.\<close>

theorem rpc_stream_dispatch:
  assumes "list_all call_ok cs" and "\<forall>c \<in> set cs. length (wire c) \<le> L"
    and "concat (concat evs) = concat (map wire cs)"
    and "\<forall>ev \<in> set evs. length (concat ev) \<le> C"
    and "L + C \<le> length (rx_buffer ch)" and "0 < L" and "rx_data_len ch = 0"
  shows "\<exists>ch'. rpc_session (Some table) (\<lambda>k. Some (garbage k)) counter [] evs ch =
    (ch', map (\<lambda>r. (fst r, snd r, find_handler table (ctx_func_id (fst r)))) (received garbage counter cs),
     [], False) \<and> rx_data_len ch' = 0"
proof (rule session_stream)
  show "channel_ok ch" using assms(7) by (simp add: channel_ok_def)
  show "pending ch @ concat (concat evs) = stream cs" using assms(3,7) by (simp add: pending_def)
  have "length (wire c) \<noteq> 0" for c by (simp add: length_wire RPC_HEADER_SIZE_def)
  then show "partial_of (pending ch) cs" using assms(7) by (cases cs) (auto simp: pending_def)
qed (use assms in auto)

definition sample_channel :: rpc_channel where
  "sample_channel = \<lparr>socket_fd = 5, channel_type = RPC_CHANNEL_DATA, rx_buffer = replicate 4096 0,
     rx_data_len = 0, tx_buffer_size = 4096\<rparr>"

definition sample_call :: "u32 \<Rightarrow> rpc_call" where
  "sample_call i = \<lparr>c_node_id = 3, c_request_id = i, c_type = 1, c_status = 0, c_func_id = 0x31,
     c_payload = [1, 2, 3]\<rparr>"

lemma sample_call_facts [simp]: "call_ok (sample_call i)" "length (wire (sample_call i)) = 15"
  by (simp_all add: call_ok_def length_wire sample_call_def RPC_HEADER_SIZE_def)

lemma rx_sample: "rx_data_len (sample_channel\<lparr>rx_buffer := b\<rparr>) = 0"
  by (simp add: sample_channel_def)

theorem rpc_stream_dispatch_witness:
  "\<exists>ch' reqs. rpc_session (Some [(0x30, ''add''), (0x31, ''update'')]) (\<lambda>k. Some 0) 0 []
      [[take 5 (wire (sample_call 1))],
       [drop 5 (wire (sample_call 1)), take 13 (wire (sample_call 2))], [drop 13 (wire (sample_call 2))]]
      sample_channel = (ch', reqs, [], False)
    \<and> map (ctx_request_id \<circ> fst) reqs = [1, 2]
    \<and> map (snd \<circ> snd) reqs = [Some ''update'', Some ''update'']"
proof -
  let ?cs = "[sample_call 1, sample_call 2]"
  let ?evs = "[[take 5 (wire (sample_call 1))],
       [drop 5 (wire (sample_call 1)), take 13 (wire (sample_call 2))], [drop 13 (wire (sample_call 2))]]"
  have "\<exists>ch'. rpc_session (Some [(0x30, ''add''), (0x31, ''update'')]) (\<lambda>k. Some 0) 0 [] ?evs sample_channel =
    (ch', map (\<lambda>r. (fst r, snd r, find_handler [(0x30, ''add''), (0x31, ''update'')] (ctx_func_id (fst r))))
       (received (\<lambda>_. 0) 0 ?cs), [], False) \<and> rx_data_len ch' = 0"
  proof (rule rpc_stream_dispatch [where L = 15 and C = 30])
    show "concat (concat ?evs) = concat (map wire ?cs)"
      by (simp add: append_assoc [symmetric] del: append_assoc)
  qed (simp_all add: sample_channel_def)
  then show ?thesis by (auto simp: sample_call_def)
qed

text \<open>When the peer's hang-up is reported together with data, the requests already received are
  dropped without being dispatched.\<close>

lemma hangup_drops_requests:
  assumes "rpc_connection_event table malloc k True True queued after ch = (ch', requests, left, closed)"
  shows "requests = [] \<and> closed \<and> socket_fd ch' = -1"
  using assms
  by (auto simp: rpc_connection_event_def rpc_channel_destroy_def Let_def split: prod.splits)

text \<open>A burst of valid calls larger than the receive buffer is not read to its end: the read
  loop stops when the buffer is full, the whole messages in it are dispatched, and the connection
  stays open with the rest of the burst unread in the kernel. The socket is registered edge
  triggered, so that rest waits until the peer sends something more.\<close>

theorem rpc_burst_leaves_data:
  assumes "list_all call_ok cs" and "\<forall>c \<in> set cs. length (wire c) \<le> length (rx_buffer ch)"
    and "length (rx_buffer ch) < length (concat (map wire cs))" and "rx_data_len ch = 0"
    and "0 < length (rx_buffer ch)"
  shows "\<exists>ch' j. j < length cs
    \<and> rpc_connection_event (Some table) (\<lambda>k. Some (garbage k)) counter False True
        [concat (map wire cs)] Would_block ch
      = (ch', map (\<lambda>r. (fst r, snd r, find_handler table (ctx_func_id (fst r))))
                (received garbage counter (take j cs)),
         [drop (length (rx_buffer ch)) (concat (map wire cs))], False)"
proof -
  let ?B = "length (rx_buffer ch)"
  let ?ch1 = "rx_append (take ?B (stream cs)) ch"
  have ok: "channel_ok ch" and p0: "pending ch = []"
    using assms(4) by (simp_all add: channel_ok_def pending_def)
  have fit: "rx_data_len ch + length (take ?B (stream cs)) \<le> ?B" using assms(4) by simp
  note a = rx_append_pending [OF ok fit]
  have l1: "rx_data_len ?ch1 = ?B" using assms(3,4) by (simp add: rx_append_def)
  have p1: "pending ?ch1 = take ?B (stream cs)" using a(1) p0 by simp
  obtain j left where j: "j \<le> length cs" "take ?B (stream cs) = stream (take j cs) @ left"
    "rpc_frames (\<lambda>k. Some (garbage k)) counter (take ?B (stream cs)) =
       (received garbage counter (take j cs), length (stream (take j cs)), Need_more)"
    "partial_of left (drop j cs)"
    using frames_prefix [OF assms(1), of "take ?B (stream cs)" "drop ?B (stream cs)" garbage counter]
    by auto
  have left: "length left < ?B"
    using partial_of_less [OF j(4)] assms(2,5) by (auto dest: in_set_dropD)
  have "j \<noteq> length cs"
  proof
    assume "j = length cs"
    with j(2) have "length (take ?B (stream cs)) = length (stream cs) + length left" by simp
    with assms(3) show False by simp
  qed
  with j(1) have jl: "j < length cs" by simp
  have n: "length (stream (take j cs)) \<le> rx_data_len ?ch1"
    using arg_cong [OF j(2), of length] l1 assms(3) by simp
  note c = compact_pending [OF a(2) n]
  have "rx_data_len (compact (length (stream (take j cs))) ?ch1) = length left"
    using length_pending [OF c(2)] c(1) p1 j(2) by simp
  then have "rpc_connection_event (Some table) (\<lambda>k. Some (garbage k)) counter False True
        [stream cs] Would_block ch
      = (compact (length (stream (take j cs))) ?ch1,
         map (with_handler table) (received garbage counter (take j cs)), [drop ?B (stream cs)], False)"
    using assms(3-5) j l1 p1 left c(3) a(3)
    by (simp add: rpc_connection_event_def process_buffered_data_def pending_def Let_def split_beta)
  with jl show ?thesis by blast
qed

theorem rpc_burst_leaves_data_witness:
  "\<exists>ch' reqs. rpc_connection_event (Some [(0x31, ())]) (\<lambda>k. Some 0) 0 False True
     [wire (sample_call 1) @ wire (sample_call 2)] Would_block (sample_channel\<lparr>rx_buffer := replicate 20 0\<rparr>)
   = (ch', reqs, [drop 20 (wire (sample_call 1) @ wire (sample_call 2))], False)"
  using rpc_burst_leaves_data [of "[sample_call 1, sample_call 2]"
      "sample_channel\<lparr>rx_buffer := replicate 20 0\<rparr>" "[(0x31, ())]" "\<lambda>_. 0" 0]
  by (simp add: rx_sample) blast

text \<open>The send loop reports success exactly when the whole response was handed to the kernel; on
  failure what left is a proper prefix of it, so the peer of a connection that is kept open is
  left in the middle of a message.\<close>

theorem send_response_prefix:
  assumes "send_response sends bs = Some (ret, out)"
  shows "(ret = 0 \<longrightarrow> out = bs) \<and> (ret \<noteq> 0 \<longrightarrow> ret = -1 \<and> (\<exists>left. left \<noteq> [] \<and> out @ left = bs))"
  using assms
proof (induction sends bs arbitrary: ret out rule: send_response.induct)
  case (3 r rs bs)
  show ?case
  proof (cases "bs = []")
    case True
    with 3 show ?thesis by auto
  next
    case False
    show ?thesis
    proof (cases r)
      case (Sent n)
      show ?thesis
      proof (cases "n = 0")
        case True
        with Sent False 3 show ?thesis by auto
      next
        case n: False
        then obtain ret' out' where "send_response rs (drop n bs) = Some (ret', out')"
          "ret = ret'" "out = take n bs @ out'"
          using Sent False "3.prems" by auto
        with 3(1) [OF False Sent n] show ?thesis by (metis append.assoc append_take_drop_id)
      qed
    qed (use False 3 in auto)
  qed
qed auto

theorem send_response_prefix_witness:
  "send_response [Sent 2, Send_eintr, Send_failed] [1, 2, 3] = Some (-1, [1, 2]) \<and>
   (\<exists>left. left \<noteq> [] \<and> [1, 2] @ left = [1, 2, 3 :: u8])"
  using send_response_prefix [of "[Sent 2, Send_eintr, Send_failed]" "[1, 2, 3]" "-1" "[1, 2]"] by simp

end
