(* ===== verification/Peer_Pool.thy ===== *)
theory Peer_Pool
  imports Complex_Main "HOL-Library.Multiset" Cluster_View Rpc
begin

text \<open>
  src/node/peer_pool.c: the workers a router can send executions to, with their load and their
  RPC data channel. Each operation is one critical section of \<open>pool->lock\<close>. The descriptors the
  pool closes are recorded in \<open>pp_closed\<close>. A load score is a rational number; the single-precision
  arithmetic of the selection loop is exact arithmetic followed by a rounding function, which is
  an argument. The round-robin cursor \<open>g_round_robin_index\<close> is a static \<open>size_t\<close>, passed and
  returned.
\<close>

record node_capabilities =
  has_ingress :: int
  can_execute :: int
  can_route :: int

record peer_info =
  p_node_id :: node_id
  p_node_type :: node_type
  p_ip :: string
  p_gossip_port :: u16
  p_data_port :: u16
  p_status :: node_status
  p_active_executions :: u32
  p_load_score :: rat
  p_last_seen_ms :: u64
  p_data_channel :: "rpc_channel option"
  p_capabilities :: node_capabilities

record peer_pool =
  peers :: "peer_info list"
  pool_capacity :: nat
  pp_closed :: "int list"

definition peer_pool_init :: "nat \<Rightarrow> bool \<Rightarrow> bool \<Rightarrow> result_status \<times> peer_pool option" where
  "peer_pool_init capacity alloc_ok lock_ok =
     (if capacity = 0 then (RESULT_ERR_INVALID, None)
      else if \<not> alloc_ok then (RESULT_ERR_NOMEM, None)
      else if \<not> lock_ok then (RESULT_ERR_INVALID, None)
      else (RESULT_OK, Some \<lparr>peers = [], pool_capacity = capacity, pp_closed = []\<rparr>))"

definition channel_sockets :: "peer_info \<Rightarrow> int list" where
  "channel_sockets p = (case p_data_channel p of
     None \<Rightarrow> [] | Some ch \<Rightarrow> if socket_fd ch = -1 then [] else [socket_fd ch])"

definition peer_pool_destroy :: "peer_pool \<Rightarrow> peer_pool" where
  "peer_pool_destroy pool =
     \<lparr>peers = [], pool_capacity = 0,
      pp_closed = pp_closed pool @ concat (map channel_sockets (peers pool))\<rparr>"

definition peer_index :: "peer_pool \<Rightarrow> node_id \<Rightarrow> nat option" where
  "peer_index pool node_id = find_index (\<lambda>p. p_node_id p = node_id) (peers pool)"

definition new_peer :: "u64 \<Rightarrow> node_id \<Rightarrow> string \<Rightarrow> u16 \<Rightarrow> u16 \<Rightarrow> peer_info" where
  "new_peer now node_id ip gossip_port data_port =
     \<lparr>p_node_id = node_id, p_node_type = NODE_TYPE_WORKER,
      p_ip = strcpy_to MAX_IP_LEN ip, p_gossip_port = gossip_port, p_data_port = data_port,
      p_status = NODE_STATUS_ALIVE, p_active_executions = 0, p_load_score = 0,
      p_last_seen_ms = now, p_data_channel = None,
      p_capabilities = \<lparr>has_ingress = 0, can_execute = 1, can_route = 1\<rparr>\<rparr>"

definition peer_pool_add ::
  "u64 \<Rightarrow> peer_pool \<Rightarrow> node_id \<Rightarrow> string \<Rightarrow> u16 \<Rightarrow> u16 \<Rightarrow> result_status \<times> peer_pool" where
  "peer_pool_add now pool node_id ip gossip_port data_port =
     (case peer_index pool node_id of
        Some i \<Rightarrow> (RESULT_OK, pool)
      | None \<Rightarrow>
          if pool_capacity pool \<le> length (peers pool) then (RESULT_ERR_FULL, pool)
          else (RESULT_OK, pool\<lparr>peers := peers pool @ [new_peer now node_id ip gossip_port data_port]\<rparr>))"

definition peer_pool_remove :: "peer_pool \<Rightarrow> node_id \<Rightarrow> result_status \<times> peer_pool" where
  "peer_pool_remove pool node_id =
     (case peer_index pool node_id of
        Some i \<Rightarrow> (RESULT_OK, pool\<lparr>peers := remove_at i (peers pool),
                                  pp_closed := pp_closed pool @ channel_sockets (peers pool ! i)\<rparr>)
      | None \<Rightarrow> (RESULT_ERR_NOTFOUND, pool))"

definition update_peer ::
  "peer_pool \<Rightarrow> node_id \<Rightarrow> (peer_info \<Rightarrow> peer_info) \<Rightarrow> result_status \<times> peer_pool" where
  "update_peer pool node_id f =
     (case peer_index pool node_id of
        Some i \<Rightarrow> (RESULT_OK, pool\<lparr>peers := (peers pool)[i := f (peers pool ! i)]\<rparr>)
      | None \<Rightarrow> (RESULT_ERR_NOTFOUND, pool))"

definition peer_pool_update_status ::
  "u64 \<Rightarrow> peer_pool \<Rightarrow> node_id \<Rightarrow> node_status \<Rightarrow> result_status \<times> peer_pool" where
  "peer_pool_update_status now pool node_id status =
     update_peer pool node_id (\<lambda>p. p\<lparr>p_status := status, p_last_seen_ms := now\<rparr>)"

definition peer_pool_update_load ::
  "u64 \<Rightarrow> peer_pool \<Rightarrow> node_id \<Rightarrow> u32 \<Rightarrow> rat \<Rightarrow> result_status \<times> peer_pool" where
  "peer_pool_update_load now pool node_id active_execs load_score =
     update_peer pool node_id (\<lambda>p. p\<lparr>p_active_executions := active_execs,
       p_load_score := load_score, p_last_seen_ms := now\<rparr>)"

definition peer_pool_update_capabilities ::
  "peer_pool \<Rightarrow> node_id \<Rightarrow> node_capabilities \<Rightarrow> result_status \<times> peer_pool" where
  "peer_pool_update_capabilities pool node_id caps =
     update_peer pool node_id (\<lambda>p. p\<lparr>p_capabilities := caps\<rparr>)"

text \<open>\<open>peer_pool_get\<close> returns with the lock held when, and only when, it finds the peer.\<close>

definition peer_pool_get :: "peer_pool \<Rightarrow> node_id \<Rightarrow> peer_info option" where
  "peer_pool_get pool node_id = map_option ((!) (peers pool)) (peer_index pool node_id)"

definition peer_pool_list_alive :: "peer_pool \<Rightarrow> nat \<Rightarrow> node_id list" where
  "peer_pool_list_alive pool max_count =
     (if max_count = 0 then []
      else map p_node_id (collect_upto (\<lambda>p. p_status p = NODE_STATUS_ALIVE) max_count (peers pool)))"

definition peer_pool_list_by_capability :: "peer_pool \<Rightarrow> int \<Rightarrow> nat \<Rightarrow> node_id list" where
  "peer_pool_list_by_capability pool execute max_count =
     (if max_count = 0 then []
      else map p_node_id (collect_upto
        (\<lambda>p. p_status p = NODE_STATUS_ALIVE \<and> can_execute (p_capabilities p) = execute)
        max_count (peers pool)))"

section \<open>Load balancing\<close>

definition eligible :: "peer_info \<Rightarrow> bool" where
  "eligible p \<longleftrightarrow> p_status p = NODE_STATUS_ALIVE \<and> can_execute (p_capabilities p) \<noteq> 0"

definition peer_score :: "(rat \<Rightarrow> rat) \<Rightarrow> peer_info \<Rightarrow> rat" where
  "peer_score rnd p = rnd (rnd (of_nat (unat (p_active_executions p))) + rnd (p_load_score p * 10))"

fun least_loaded :: "(rat \<Rightarrow> rat) \<Rightarrow> peer_info list \<Rightarrow> node_id \<times> rat \<Rightarrow> node_id \<times> rat" where
  "least_loaded rnd [] best = best"
| "least_loaded rnd (p # ps) best =
     least_loaded rnd ps
       (if eligible p \<and> peer_score rnd p < snd best then (p_node_id p, peer_score rnd p) else best)"

definition peer_pool_select_least_loaded :: "(rat \<Rightarrow> rat) \<Rightarrow> peer_pool \<Rightarrow> node_id" where
  "peer_pool_select_least_loaded rnd pool = fst (least_loaded rnd (peers pool) (0, 1000000000))"

fun round_robin :: "peer_info list \<Rightarrow> nat \<Rightarrow> u64 \<Rightarrow> node_id \<times> u64" where
  "round_robin ps 0 index = (0, index)"
| "round_robin ps (Suc attempts) index =
     (let p = ps ! (unat index mod length ps)
      in if eligible p then (p_node_id p, index + 1) else round_robin ps attempts (index + 1))"

definition peer_pool_select_round_robin :: "peer_pool \<Rightarrow> u64 \<Rightarrow> node_id \<times> u64" where
  "peer_pool_select_round_robin pool index =
     (if peers pool = [] then (0, index) else round_robin (peers pool) (length (peers pool)) index)"

section \<open>The pool is a keyed table\<close>

abbreviation pool_ok :: "peer_pool \<Rightarrow> bool" where
  "pool_ok pool \<equiv> table_ok p_node_id (peers pool) (pool_capacity pool)"

definition peer_pool_put :: "u64 \<Rightarrow> peer_pool \<Rightarrow> peer_info \<Rightarrow> result_status \<times> peer_pool" where
  "peer_pool_put now pool p =
     peer_pool_add now pool (p_node_id p) (p_ip p) (p_gossip_port p) (p_data_port p)"

lemma peer_index_SomeD:
  "peer_index pool k = Some i \<Longrightarrow> i < length (peers pool) \<and> p_node_id (peers pool ! i) = k"
  unfolding peer_index_def by (auto dest: find_index_SomeD)

lemma peer_index_None_iff: "peer_index pool k = None \<longleftrightarrow> k \<notin> p_node_id ` set (peers pool)"
  by (auto simp: peer_index_def find_index_None_iff)

lemma new_peer_id [simp]: "p_node_id (new_peer now n ip g d) = n"
  by (simp add: new_peer_def)

lemma put_hit: "p_node_id p \<in> p_node_id ` set (peers pool) \<Longrightarrow> peer_pool_put now pool p = (RESULT_OK, pool)"
  using peer_index_None_iff [of pool "p_node_id p"]
  by (cases "peer_index pool (p_node_id p)") (simp_all add: peer_pool_put_def peer_pool_add_def)

lemma put_miss: "p_node_id p \<notin> p_node_id ` set (peers pool) \<Longrightarrow> peer_pool_put now pool p =
    (if pool_capacity pool \<le> length (peers pool) then (RESULT_ERR_FULL, pool)
     else (RESULT_OK, pool\<lparr>peers := peers pool @
       [new_peer now (p_node_id p) (p_ip p) (p_gossip_port p) (p_data_port p)]\<rparr>))"
  using peer_index_None_iff [of pool "p_node_id p"]
  by (simp add: peer_pool_put_def peer_pool_add_def)

interpretation pool_table: keyed_table peers pool_capacity p_node_id "peer_pool_put now"
  peer_pool_remove
proof unfold_locales
  fix t :: peer_pool and r :: peer_info and k :: node_id
  show "pool_capacity (snd (peer_pool_put now t r)) = pool_capacity t"
    by (cases "p_node_id r \<in> p_node_id ` set (peers t)") (simp_all add: put_hit put_miss)
  show "pool_capacity (snd (peer_pool_remove t k)) = pool_capacity t"
    by (simp add: peer_pool_remove_def split: option.split)
  show "fst (peer_pool_put now t r) = RESULT_OK \<and>
      map p_node_id (peers (snd (peer_pool_put now t r))) = map p_node_id (peers t) @ [p_node_id r]"
    if "p_node_id r \<notin> p_node_id ` set (peers t)" "length (peers t) < pool_capacity t"
    using that by (simp add: put_miss)
  show "peer_pool_put now t r = (RESULT_ERR_FULL, t)"
    if "p_node_id r \<notin> p_node_id ` set (peers t)" "pool_capacity t \<le> length (peers t)"
    using that by (simp add: put_miss)
  show "map p_node_id (peers (snd (peer_pool_put now t r))) = map p_node_id (peers t)"
    if "p_node_id r \<in> p_node_id ` set (peers t)"
    using that by (simp add: put_hit)
  show "first_with p_node_id k (peers (snd (peer_pool_put now t r))) = first_with p_node_id k (peers t)"
    if "distinct (map p_node_id (peers t))" "k \<noteq> p_node_id r"
    using that by (cases "p_node_id r \<in> p_node_id ` set (peers t)")
      (simp_all add: put_hit put_miss first_with_append split: option.split)
  show "fst (peer_pool_remove t k) = RESULT_OK \<and> (\<exists>i<length (peers t).
      p_node_id (peers t ! i) = k \<and> peers (snd (peer_pool_remove t k)) = remove_at i (peers t))"
    if "distinct (map p_node_id (peers t))" "k \<in> p_node_id ` set (peers t)"
    using that peer_index_None_iff [of t k]
    by (auto simp: peer_pool_remove_def dest!: peer_index_SomeD split: option.split)
  show "peer_pool_remove t k = (RESULT_ERR_NOTFOUND, t)"
    if "k \<notin> p_node_id ` set (peers t)"
    using that by (simp add: peer_pool_remove_def flip: peer_index_None_iff)
qed

lemma update_peer_keys:
  assumes "\<And>p. p_node_id (f p) = p_node_id p"
  shows "map p_node_id (peers (snd (update_peer pool k f))) = map p_node_id (peers pool)"
    and "pool_capacity (snd (update_peer pool k f)) = pool_capacity pool"
  using assms
  by (auto simp: update_peer_def map_update_same dest!: peer_index_SomeD split: option.splits)

lemma update_peer_ok:
  "pool_ok pool \<Longrightarrow> (\<And>p. p_node_id (f p) = p_node_id p) \<Longrightarrow> pool_ok (snd (update_peer pool k f))"
  by (metis table_ok_def length_map update_peer_keys)

section \<open>Properties\<close>

datatype pool_op =
    Pool_add u64 node_id string u16 u16
  | Pool_remove node_id
  | Pool_status u64 node_id node_status
  | Pool_load u64 node_id u32 rat
  | Pool_caps node_id node_capabilities

fun pool_apply :: "peer_pool \<Rightarrow> pool_op \<Rightarrow> peer_pool" where
  "pool_apply pool (Pool_add now n ip g d) = snd (peer_pool_add now pool n ip g d)"
| "pool_apply pool (Pool_remove n) = snd (peer_pool_remove pool n)"
| "pool_apply pool (Pool_status now n st) = snd (peer_pool_update_status now pool n st)"
| "pool_apply pool (Pool_load now n a l) = snd (peer_pool_update_load now pool n a l)"
| "pool_apply pool (Pool_caps n c) = snd (peer_pool_update_capabilities pool n c)"

lemma peer_pool_add_ok [wf_intros]: "pool_ok pool \<Longrightarrow> pool_ok (snd (peer_pool_add now pool n ip g d))"
  using pool_table.put_ok [of pool now "(new_peer now n ip g d)\<lparr>p_ip := ip\<rparr>"]
  by (simp add: peer_pool_put_def new_peer_def)

lemma pool_apply_ok: "pool_ok pool \<Longrightarrow> pool_ok (pool_apply pool p)"
  by (cases p) (simp_all add: peer_pool_add_ok pool_table.del_ok update_peer_ok
      peer_pool_update_status_def peer_pool_update_load_def peer_pool_update_capabilities_def)

lemma pool_run_ok: "pool_ok pool \<Longrightarrow> pool_ok (foldl pool_apply pool ops)"
  by (induction ops arbitrary: pool) (simp_all add: pool_apply_ok)

text \<open>From a fresh pool, any sequence of operations leaves a pool whose peers have distinct ids
  and do not exceed its capacity, so that the lookup of an id finds the only peer with it.\<close>

theorem peer_pool_always_well_formed:
  assumes "peer_pool_init capacity alloc_ok lock_ok = (RESULT_OK, Some pool)"
  shows "distinct (map p_node_id (peers (foldl pool_apply pool ops)))
    \<and> length (peers (foldl pool_apply pool ops)) \<le> pool_capacity (foldl pool_apply pool ops)
    \<and> (\<forall>p \<in> set (peers (foldl pool_apply pool ops)).
         peer_pool_get (foldl pool_apply pool ops) (p_node_id p) = Some p)"
proof -
  have "pool_ok pool"
    using assms by (auto simp: peer_pool_init_def table_ok_def split: if_splits)
  then have ok: "pool_ok (foldl pool_apply pool ops)" by (rule pool_run_ok)
  then have "peer_pool_get (foldl pool_apply pool ops) (p_node_id p) = Some p"
    if "p \<in> set (peers (foldl pool_apply pool ops))" for p
    using that first_with_distinct [of p_node_id "peers (foldl pool_apply pool ops)" p]
    by (simp add: table_ok_def peer_pool_get_def peer_index_def first_with_def)
  with ok show ?thesis by (simp add: table_ok_def)
qed

theorem peer_pool_always_well_formed_witness:
  "let pool = \<lparr>peers = [], pool_capacity = 2, pp_closed = []\<rparr>;
       ops = [Pool_add 1 5 ''10.0.0.1'' 1 2, Pool_add 2 5 ''10.0.0.2'' 3 4, Pool_add 3 6 ''a'' 1 1]
   in map p_node_id (peers (foldl pool_apply pool ops)) = [5, 6]
    \<and> distinct (map p_node_id (peers (foldl pool_apply pool ops)))"
  using peer_pool_always_well_formed [of 2 True True "\<lparr>peers = [], pool_capacity = 2, pp_closed = []\<rparr>"
      "[Pool_add 1 5 ''10.0.0.1'' 1 2, Pool_add 2 5 ''10.0.0.2'' 3 4, Pool_add 3 6 ''a'' 1 1]"]
  by (simp add: peer_pool_init_def peer_pool_add_def peer_index_def Let_def)

lemma least_loaded_invariant:
  "least_loaded rnd ps best = (n, s) \<Longrightarrow>
   s \<le> snd best \<and> (\<forall>p \<in> set ps. eligible p \<longrightarrow> s \<le> peer_score rnd p)
   \<and> ((n, s) = best \<or> (\<exists>p \<in> set ps. eligible p \<and> n = p_node_id p \<and> s = peer_score rnd p \<and> s < snd best))"
proof (induction ps arbitrary: best)
  case Nil
  then show ?case by simp
next
  case (Cons p ps)
  let ?b = "if eligible p \<and> peer_score rnd p < snd best then (p_node_id p, peer_score rnd p) else best"
  have l: "least_loaded rnd ps ?b = (n, s)" using Cons.prems by simp
  show ?case
  proof (cases "eligible p \<and> peer_score rnd p < snd best")
    case True
    with Cons.IH [OF l] show ?thesis by auto
  next
    case False
    with Cons.IH [OF l] show ?thesis by auto
  qed
qed

text \<open>\<open>peer_pool_select_least_loaded\<close> returns an alive peer that can execute and whose score is
  the least of all such peers, whatever the rounding; it returns 0 only when no such peer has a
  score below the initial bound \<open>1e9\<close>.\<close>

theorem select_least_loaded_minimal:
  assumes "peer_pool_select_least_loaded rnd pool = n"
  shows "(\<exists>p \<in> set (peers pool). eligible p \<and> p_node_id p = n \<and> peer_score rnd p < 1000000000
            \<and> (\<forall>q \<in> set (peers pool). eligible q \<longrightarrow> peer_score rnd p \<le> peer_score rnd q))
    \<or> (n = 0 \<and> (\<forall>q \<in> set (peers pool). eligible q \<longrightarrow> 1000000000 \<le> peer_score rnd q))"
proof -
  obtain s where l: "least_loaded rnd (peers pool) (0, 1000000000) = (n, s)"
    using assms by (cases "least_loaded rnd (peers pool) (0, 1000000000)")
      (simp add: peer_pool_select_least_loaded_def)
  from least_loaded_invariant [OF l] show ?thesis by auto
qed

definition sample_peer :: "node_id \<Rightarrow> u32 \<Rightarrow> peer_info" where
  "sample_peer i load = (new_peer 0 i ''10.0.0.1'' 1 2)\<lparr>p_active_executions := load\<rparr>"

definition sample_pool :: peer_pool where
  "sample_pool = \<lparr>peers = [sample_peer 1 8, sample_peer 2 7, sample_peer 3 6], pool_capacity = 8,
     pp_closed = []\<rparr>"

lemma sample_peer_simps [simp]:
  "p_node_id (sample_peer i a) = i" "eligible (sample_peer i a)"
  "p_active_executions (sample_peer i a) = a" "p_load_score (sample_peer i a) = 0"
  "p_ip (sample_peer i a) = ''10.0.0.1''"
  by (simp_all add: sample_peer_def new_peer_def eligible_def MAX_IP_LEN_def c_string_def)

lemma peers_sample_pool [simp]: "peers sample_pool = [sample_peer 1 8, sample_peer 2 7, sample_peer 3 6]"
  by (simp add: sample_pool_def)

theorem select_least_loaded_minimal_witness:
  "peer_pool_select_least_loaded (\<lambda>x. x) sample_pool = 3 \<and>
   (\<exists>p \<in> set (peers sample_pool). eligible p \<and> p_node_id p = 3)"
proof -
  have "peer_pool_select_least_loaded (\<lambda>x. x) sample_pool = 3"
    by (simp add: peer_pool_select_least_loaded_def peer_score_def)
  from select_least_loaded_minimal [OF this] this show ?thesis by auto
qed

lemma round_robin_result:
  "ps \<noteq> [] \<Longrightarrow> round_robin ps k index = (n, index') \<Longrightarrow>
   (\<exists>p \<in> set ps. eligible p \<and> n = p_node_id p)
   \<or> n = 0 \<and> (\<forall>j<k. \<not> eligible (ps ! (unat (index + word_of_nat j) mod length ps)))"
proof (induction k arbitrary: index)
  case 0
  then show ?case by simp
next
  case (Suc k)
  let ?p = "ps ! (unat index mod length ps)"
  show ?case
  proof (cases "eligible ?p")
    case True
    moreover have "?p \<in> set ps" using Suc.prems(1) by simp
    ultimately show ?thesis using Suc.prems by (auto simp: Let_def)
  next
    case False
    then have "round_robin ps k (index + 1) = (n, index')" using Suc.prems(2) by (simp add: Let_def)
    from Suc.IH [OF Suc.prems(1) this] show ?thesis
    proof (elim disjE conjE)
      assume n: "n = 0" and no: "\<forall>j<k. \<not> eligible (ps ! (unat (index + 1 + word_of_nat j) mod length ps))"
      have "\<not> eligible (ps ! (unat (index + word_of_nat j) mod length ps))" if "j < Suc k" for j
        using that False no by (cases j) (auto simp: algebra_simps)
      with n show ?thesis by blast
    qed auto
  qed
qed

lemma all_positions_visited:
  fixes n i b :: nat
  assumes "i < n"
  shows "\<exists>j<n. (b + j) mod n = i"
proof (intro exI conjI)
  show "(i + (n - b mod n)) mod n < n" using assms by simp
  have "b mod n \<le> n" using assms by (simp add: less_imp_le)
  then have "b mod n + (i + (n - b mod n)) = i + n" by simp
  then have "(b mod n + (i + (n - b mod n))) mod n = i" using assms by simp
  then show "(b + (i + (n - b mod n)) mod n) mod n = i" by (simp add: mod_simps)
qed

text \<open>\<open>peer_pool_select_round_robin\<close> finds an alive peer that can execute whenever the pool has
  one, wherever the cursor stands (as long as the cursor does not wrap during the search), and
  returns 0 otherwise.\<close>

theorem select_round_robin_finds:
  assumes "peer_pool_select_round_robin pool index = (n, index')"
    and "unat index + length (peers pool) < 2 ^ 64"
  shows "if \<exists>p \<in> set (peers pool). eligible p
    then \<exists>p \<in> set (peers pool). eligible p \<and> n = p_node_id p else n = 0"
proof (cases "peers pool = []")
  case True
  with assms show ?thesis by (simp add: peer_pool_select_round_robin_def)
next
  case ne: False
  let ?ps = "peers pool"
  have r: "round_robin ?ps (length ?ps) index = (n, index')"
    using assms(1) ne by (simp add: peer_pool_select_round_robin_def)
  have u: "unat (index + word_of_nat j) = unat index + j" if "j < length ?ps" for j
    using assms(2) that by (simp add: unat_word_ariths unat_word_of_nat)
  have "eligible p \<Longrightarrow> p \<in> set ?ps \<Longrightarrow>
      \<exists>j<length ?ps. eligible (?ps ! (unat (index + word_of_nat j) mod length ?ps))" for p
    using all_positions_visited [of _ "length ?ps" "unat index"] u by (metis in_set_conv_nth)
  with round_robin_result [OF ne r] show ?thesis by auto
qed

theorem select_round_robin_finds_witness:
  "\<exists>p \<in> set (peers sample_pool). eligible p \<and> fst (peer_pool_select_round_robin sample_pool 4) = p_node_id p"
  using select_round_robin_finds [of sample_pool 4 "fst (peer_pool_select_round_robin sample_pool 4)"
      "snd (peer_pool_select_round_robin sample_pool 4)"]
  by simp

text \<open>The calls of a run of selections, each starting at the cursor the previous one left.\<close>

fun round_robin_run :: "peer_pool \<Rightarrow> nat \<Rightarrow> u64 \<Rightarrow> node_id list" where
  "round_robin_run pool 0 index = []"
| "round_robin_run pool (Suc k) index =
     (case peer_pool_select_round_robin pool index of
        (n, index') \<Rightarrow> n # round_robin_run pool k index')"

lemma round_robin_run_all:
  assumes "list_all eligible (peers pool)" "peers pool \<noteq> []" "unat index + k < 2 ^ 64"
  shows "round_robin_run pool k index =
    map (\<lambda>j. p_node_id (peers pool ! ((unat index + j) mod length (peers pool)))) [0..<k]"
  using assms(3)
proof (induction k arbitrary: index)
  case 0
  then show ?case by simp
next
  case (Suc k)
  let ?ps = "peers pool"
  have len: "0 < length ?ps" using assms(2) by simp
  have "eligible (?ps ! (unat index mod length ?ps))"
    using assms(1,2) by (simp add: list_all_length)
  then have step: "peer_pool_select_round_robin pool index =
      (p_node_id (?ps ! (unat index mod length ?ps)), index + 1)"
    using assms(2) by (cases "length ?ps") (simp_all add: peer_pool_select_round_robin_def Let_def)
  have u: "unat (index + 1) = Suc (unat index)"
    using Suc.prems by (simp add: unat_word_ariths)
  have "round_robin_run pool (Suc k) index =
      p_node_id (?ps ! (unat index mod length ?ps)) #
      map (\<lambda>j. p_node_id (?ps ! ((unat index + Suc j) mod length ?ps))) [0..<k]"
    using Suc.IH [of "index + 1"] Suc.prems by (simp add: step u)
  also have "\<dots> = map (\<lambda>j. p_node_id (?ps ! ((unat index + j) mod length ?ps))) [0..<Suc k]"
    by (simp add: upt_conv_Cons map_Suc_upt [symmetric] comp_def del: upt_Suc)
  finally show ?case .
qed

text \<open>Round-robin selection is fair: when all peers are alive and can execute, consecutive
  selections go through the pool in order, so that a full turn hands out every peer's id exactly
  once (while the 64-bit cursor does not wrap).\<close>

theorem round_robin_fair:
  assumes "list_all eligible (peers pool)" and "peers pool \<noteq> []"
    and "unat index + length (peers pool) < 2 ^ 64"
  shows "mset (round_robin_run pool (length (peers pool)) index) = mset (map p_node_id (peers pool))
    \<and> round_robin_run pool (length (peers pool)) index
      = rotate (unat index) (map p_node_id (peers pool))"
proof -
  have "round_robin_run pool (length (peers pool)) index = rotate (unat index) (map p_node_id (peers pool))"
    using assms round_robin_run_all [OF assms]
    by (intro nth_equalityI) (simp_all add: nth_rotate)
  moreover have "mset (rotate m xs) = mset xs" for m and xs :: "node_id list"
    by (metis append_take_drop_id mset_append rotate_drop_take union_commute)
  ultimately show ?thesis by simp
qed

theorem round_robin_fair_witness:
  "round_robin_run sample_pool (length (peers sample_pool)) 4 = rotate 4 [1, 2, 3]"
proof -
  have "list_all eligible (peers sample_pool)" "peers sample_pool \<noteq> []"
    "unat (4 :: u64) + length (peers sample_pool) < 2 ^ 64" by simp_all
  from round_robin_fair [OF this] have
    "round_robin_run sample_pool (length (peers sample_pool)) 4
       = rotate (unat (4 :: u64)) (map p_node_id (peers sample_pool))" by blast
  also have "\<dots> = rotate 4 [1, 2, 3]" by simp
  finally show ?thesis .
qed

text \<open>Adding a worker that is already in the pool reports success and changes nothing: a worker
  that rejoins from another address keeps the address, the ports, the status and the data channel
  the pool recorded first.\<close>

theorem peer_pool_add_keeps_old_address:
  assumes "peer_pool_get pool node_id = Some old"
  shows "peer_pool_add now pool node_id ip gossip_port data_port = (RESULT_OK, pool)
    \<and> peer_pool_get (snd (peer_pool_add now pool node_id ip gossip_port data_port)) node_id = Some old"
  using assms
  by (cases "peer_index pool node_id") (simp_all add: peer_pool_get_def peer_pool_add_def)

theorem peer_pool_add_keeps_old_address_witness:
  "map_option p_ip (peer_pool_get (snd (peer_pool_add 9 sample_pool 2 ''10.9.9.9'' 7 8)) 2)
     = Some ''10.0.0.1''"
proof -
  have "peer_pool_get sample_pool 2 = Some (sample_peer 2 7)"
    by (simp add: peer_pool_get_def peer_index_def)
  from peer_pool_add_keeps_old_address [OF this, of 9 "''10.9.9.9''" 7 8] this
  show ?thesis by simp
qed

end
