(* ===== verification/Gossip_Engine.thy ===== *)
theory Gossip_Engine
  imports Gossip_Protocol Bounded_Fifo Peer_Pool
begin

text \<open>
  The state of src/cluster/gossip_engine.c and the operations on its two internal tables: the
  queue of updates to piggyback (256 slots) and the table of pings waiting for an acknowledgement
  (64 slots). The cluster view and, on a router, the peer pool of the node are shared with other
  components; they are fields of the state here. What leaves the engine is recorded in order: the
  datagrams handed to \<open>gossip_send_udp\<close> (\<open>sent\<close>), the calls of the member event callback
  (\<open>notices\<close>), the bytes written to a worker's data channel (\<open>channel_out\<close>).
\<close>

section \<open>The update queue\<close>

definition MAX_PENDING_ACKS :: nat where "MAX_PENDING_ACKS = 64"
definition MAX_UPDATE_QUEUE :: nat where "MAX_UPDATE_QUEUE = 256"

record update_queue =
  uq_updates :: "gossip_member_update list"
  uq_head :: nat
  uq_tail :: nat
  uq_count :: nat

definition update_queue_init :: update_queue where
  "update_queue_init =
     \<lparr>uq_updates = replicate MAX_UPDATE_QUEUE zero_update, uq_head = 0, uq_tail = 0, uq_count = 0\<rparr>"

definition update_queue_push ::
  "update_queue \<Rightarrow> gossip_member_update \<Rightarrow> int \<times> update_queue" where
  "update_queue_push queue update =
     (if MAX_UPDATE_QUEUE \<le> uq_count queue then (-1, queue)
      else (0, queue\<lparr>uq_updates := (uq_updates queue)[uq_tail queue := update],
                     uq_tail := (uq_tail queue + 1) mod MAX_UPDATE_QUEUE,
                     uq_count := uq_count queue + 1\<rparr>))"

fun update_queue_pop_loop :: "nat \<Rightarrow> update_queue \<Rightarrow> gossip_member_update list \<times> update_queue" where
  "update_queue_pop_loop 0 queue = ([], queue)"
| "update_queue_pop_loop (Suc n) queue =
     (case update_queue_pop_loop n (queue\<lparr>uq_head := (uq_head queue + 1) mod MAX_UPDATE_QUEUE,
                                          uq_count := uq_count queue - 1\<rparr>) of
        (out, queue') \<Rightarrow> (uq_updates queue ! uq_head queue # out, queue'))"

definition update_queue_pop_batch ::
  "update_queue \<Rightarrow> nat \<Rightarrow> gossip_member_update list \<times> update_queue" where
  "update_queue_pop_batch queue max_count =
     update_queue_pop_loop (if uq_count queue < max_count then uq_count queue else max_count) queue"

definition uq_contents :: "update_queue \<Rightarrow> gossip_member_update list" where
  "uq_contents q = ring_contents (uq_updates q) (uq_head q) (uq_count q)"

definition uq_ok :: "update_queue \<Rightarrow> bool" where
  "uq_ok q \<longleftrightarrow> length (uq_updates q) = MAX_UPDATE_QUEUE
     \<and> ring_ok (uq_updates q) (uq_head q) (uq_tail q) (uq_count q)"

definition uq_enqueue :: "update_queue \<Rightarrow> gossip_member_update \<Rightarrow> update_queue option" where
  "uq_enqueue q u = (case update_queue_push q u of (ret, q') \<Rightarrow> if ret = 0 then Some q' else None)"

definition uq_dequeue :: "update_queue \<Rightarrow> (gossip_member_update \<times> update_queue) option" where
  "uq_dequeue q = (case update_queue_pop_batch q 1 of
     ([u], q') \<Rightarrow> Some (u, q') | _ \<Rightarrow> None)"

lemma uq_contents_empty_iff: "uq_contents q = [] \<longleftrightarrow> uq_count q = 0"
  by (simp add: uq_contents_def ring_contents_def)

lemma length_uq_contents [simp]: "length (uq_contents q) = uq_count q"
  by (simp add: uq_contents_def)

lemma uq_dequeue_simp:
  "uq_dequeue q = (if uq_count q = 0 then None
     else Some (uq_updates q ! uq_head q, q\<lparr>uq_head := (uq_head q + 1) mod MAX_UPDATE_QUEUE,
                                           uq_count := uq_count q - 1\<rparr>))"
  by (cases "uq_count q") (auto simp: uq_dequeue_def update_queue_pop_batch_def)

lemma uq_pop_step:
  assumes "uq_ok q" and "uq_contents q = y # ys"
  shows "let q' = q\<lparr>uq_head := (uq_head q + 1) mod MAX_UPDATE_QUEUE, uq_count := uq_count q - 1\<rparr>
    in uq_updates q ! uq_head q = y \<and> uq_ok q' \<and> uq_contents q' = ys"
proof -
  have "uq_count q = length (y # ys)" using assms(2) length_uq_contents by metis
  then obtain c where "uq_count q = Suc c" by simp
  with assms ring_pop_contents [of "uq_updates q" "uq_head q" "uq_tail q" c]
    ring_pop_ok [of "uq_updates q" "uq_head q" "uq_tail q" c]
  show ?thesis by (simp add: uq_ok_def uq_contents_def Let_def)
qed

lemma uq_push_step:
  assumes "uq_ok q" and "uq_count q < MAX_UPDATE_QUEUE"
  shows "fst (update_queue_push q u) = 0 \<and> uq_ok (snd (update_queue_push q u))
    \<and> uq_contents (snd (update_queue_push q u)) = uq_contents q @ [u]"
  using assms ring_push_contents [of "uq_updates q" "uq_head q" "uq_tail q" "uq_count q" u]
    ring_push_ok [of "uq_updates q" "uq_head q" "uq_tail q" "uq_count q" u]
  by (simp add: update_queue_push_def uq_ok_def uq_contents_def)

interpretation uq: bounded_fifo uq_contents "\<lambda>_. MAX_UPDATE_QUEUE" uq_ok uq_enqueue uq_dequeue
proof
  show "length (uq_contents q) \<le> MAX_UPDATE_QUEUE" if "uq_ok q" for q
    using that by (simp add: uq_ok_def ring_ok_def)
  show "\<exists>q'. uq_enqueue q x = Some q' \<and> uq_ok q' \<and> uq_contents q' = uq_contents q @ [x]
      \<and> MAX_UPDATE_QUEUE = MAX_UPDATE_QUEUE"
    if "uq_ok q" "length (uq_contents q) < MAX_UPDATE_QUEUE" for q x
    using that uq_push_step [of q x] by (simp add: uq_enqueue_def split_beta)
  show "uq_enqueue q x = None" if "uq_ok q" "MAX_UPDATE_QUEUE \<le> length (uq_contents q)" for q x
    using that by (simp add: uq_enqueue_def update_queue_push_def)
  show "\<exists>q'. uq_dequeue q = Some (y, q') \<and> uq_ok q' \<and> uq_contents q' = ys
      \<and> MAX_UPDATE_QUEUE = MAX_UPDATE_QUEUE" if "uq_ok q" "uq_contents q = y # ys" for q y ys
    using uq_pop_step [OF that] that uq_contents_empty_iff [of q]
    by (simp add: uq_dequeue_simp Let_def)
  show "uq_dequeue q = None" if "uq_ok q" "uq_contents q = []" for q
    using that by (simp add: uq_dequeue_simp uq_contents_empty_iff)
qed

text \<open>A push drops the update when the queue is full.\<close>

lemma push_contents:
  assumes "uq_ok q"
  shows "uq_ok (snd (update_queue_push q u))
    \<and> uq_contents (snd (update_queue_push q u)) = (if uq_count q < MAX_UPDATE_QUEUE
        then uq_contents q @ [u] else uq_contents q)"
  using assms uq_push_step [OF assms] by (auto simp: update_queue_push_def not_less)

lemma pop_loop_contents:
  "uq_ok q \<Longrightarrow> n \<le> uq_count q \<Longrightarrow>
   fst (update_queue_pop_loop n q) = take n (uq_contents q)
   \<and> uq_ok (snd (update_queue_pop_loop n q))
   \<and> uq_contents (snd (update_queue_pop_loop n q)) = drop n (uq_contents q)"
proof (induction n arbitrary: q)
  case 0
  then show ?case by simp
next
  case (Suc n)
  then have "length (uq_contents q) > 0" by simp
  then obtain y ys where c: "uq_contents q = y # ys" by (cases "uq_contents q") auto
  define q' where "q' = q\<lparr>uq_head := (uq_head q + 1) mod MAX_UPDATE_QUEUE, uq_count := uq_count q - 1\<rparr>"
  have q': "uq_updates q ! uq_head q = y" "uq_ok q'" "uq_contents q' = ys"
    using uq_pop_step [OF Suc.prems(1) c] by (simp_all add: q'_def Let_def)
  have "n \<le> uq_count q'" using Suc.prems(2) by (simp add: q'_def)
  from Suc.IH [OF q'(2) this] q' c show ?case
    by (simp add: split_beta q'_def)
qed

lemma pop_batch_contents:
  assumes "uq_ok q"
  shows "fst (update_queue_pop_batch q n) = take n (uq_contents q)"
    and "uq_ok (snd (update_queue_pop_batch q n))"
    and "uq_contents (snd (update_queue_pop_batch q n)) = drop n (uq_contents q)"
  using pop_loop_contents [OF assms, of "if uq_count q < n then uq_count q else n"]
  by (simp_all add: update_queue_pop_batch_def split: if_splits)

text \<open>The update queue hands out updates in the order they were queued: a batch of at most
  \<open>max_count\<close> is a prefix of the queue and what stays is the rest; nothing is lost or duplicated,
  except that a push onto a full queue (256 updates) is refused and leaves it unchanged.\<close>

theorem update_queue_batches:
  assumes "uq_ok q"
  shows "fst (update_queue_pop_batch q max_count) = take max_count (uq_contents q)
    \<and> uq_contents (snd (update_queue_pop_batch q max_count)) = drop max_count (uq_contents q)
    \<and> (uq_count q < 256 \<longrightarrow> fst (update_queue_push q u) = 0
          \<and> uq_contents (snd (update_queue_push q u)) = uq_contents q @ [u])
    \<and> (256 \<le> uq_count q \<longrightarrow> update_queue_push q u = (-1, q))"
  using pop_batch_contents [OF assms, of max_count] uq_push_step [OF assms, of u]
  by (simp add: MAX_UPDATE_QUEUE_def) (simp add: update_queue_push_def MAX_UPDATE_QUEUE_def)

lemma uq_init_ok: "uq_ok update_queue_init \<and> uq_contents update_queue_init = []"
  by (simp add: update_queue_init_def uq_ok_def ring_ok_def uq_contents_def MAX_UPDATE_QUEUE_def)

theorem update_queue_batches_witness:
  "fst (update_queue_push update_queue_init zero_update) = 0
   \<and> uq_contents (snd (update_queue_push update_queue_init zero_update)) = [zero_update]"
  using update_queue_batches [of update_queue_init 1 zero_update] uq_init_ok
  by (simp add: update_queue_init_def)

section \<open>The engine\<close>

record gossip_config =
  protocol_period_ms :: u32
  ack_timeout_ms :: u32
  suspect_timeout_ms :: u32
  dead_timeout_ms :: u32
  fanout :: u32
  max_piggyback :: u32

definition gossip_default_config :: gossip_config where
  "gossip_default_config = \<lparr>protocol_period_ms = 1000, ack_timeout_ms = 500,
     suspect_timeout_ms = 5000, dead_timeout_ms = 5000, fanout = 3, max_piggyback = 10\<rparr>"

record pending_ack =
  pa_target_node :: node_id
  pa_ping_sent_ms :: u64
  pa_active :: bool

definition zero_ack :: pending_ack where
  "zero_ack = \<lparr>pa_target_node = 0, pa_ping_sent_ms = 0, pa_active = False\<rparr>"

datatype member_event =
  MEMBER_EVENT_JOIN | MEMBER_EVENT_LEAVE | MEMBER_EVENT_FAILED | MEMBER_EVENT_UPDATE

record datagram =
  d_bytes :: bytes
  d_ip :: string
  d_port :: u16

record gossip_engine =
  my_id :: node_id
  my_type :: node_type
  my_ip :: string
  e_gossip_port :: u16
  e_data_port :: u16
  e_incarnation :: u64
  e_sequence_num :: u64
  e_config :: gossip_config
  view :: cluster_view
  has_callback :: bool
  pending_acks :: "pending_ack list"
  uqueue :: update_queue
  e_pool :: "peer_pool option"
  sent :: "datagram list"
  notices :: "(node_id \<times> node_type \<times> string \<times> u16 \<times> member_event) list"
  channel_out :: "(node_id \<times> bytes) list"

definition gossip_engine_init ::
  "node_id \<Rightarrow> node_type \<Rightarrow> string \<Rightarrow> u16 \<Rightarrow> u16 \<Rightarrow> gossip_config option \<Rightarrow> cluster_view \<Rightarrow> bool \<Rightarrow>
   bool \<Rightarrow> bool \<Rightarrow> peer_pool option \<Rightarrow> gossip_engine option" where
  "gossip_engine_init nid type bind_addr gport dport config cview callback resources_ok socket_ok pool =
     (if \<not> resources_ok \<or> \<not> socket_ok then None
      else Some \<lparr>my_id = nid, my_type = type, my_ip = strcpy_to MAX_IP_LEN bind_addr,
        e_gossip_port = gport, e_data_port = dport, e_incarnation = 0, e_sequence_num = 0,
        e_config = (case config of Some c \<Rightarrow> c | None \<Rightarrow> gossip_default_config),
        view = cview, has_callback = callback,
        pending_acks = replicate MAX_PENDING_ACKS zero_ack, uqueue = update_queue_init,
        e_pool = pool, sent = [], notices = [], channel_out = []\<rparr>)"

definition gossip_engine_set_callback :: "gossip_engine \<Rightarrow> bool \<Rightarrow> gossip_engine" where
  "gossip_engine_set_callback e callback = e\<lparr>has_callback := callback\<rparr>"

text \<open>The effects the handlers and the protocol rounds are made of.\<close>

definition push_update :: "gossip_member_update \<Rightarrow> gossip_engine \<Rightarrow> gossip_engine" where
  "push_update u e = e\<lparr>uqueue := snd (update_queue_push (uqueue e) u)\<rparr>"

definition set_status :: "u64 \<Rightarrow> node_id \<Rightarrow> node_status \<Rightarrow> u64 \<Rightarrow> gossip_engine \<Rightarrow> gossip_engine" where
  "set_status now n st inc e = e\<lparr>view := snd (cluster_view_update_status now (view e) n st inc)\<rparr>"

definition add_member :: "u64 \<Rightarrow> cluster_member \<Rightarrow> gossip_engine \<Rightarrow> gossip_engine" where
  "add_member now m e = e\<lparr>view := snd (cluster_view_add now (view e) m)\<rparr>"

definition notify ::
  "node_id \<Rightarrow> node_type \<Rightarrow> string \<Rightarrow> u16 \<Rightarrow> member_event \<Rightarrow> gossip_engine \<Rightarrow> gossip_engine" where
  "notify n t ip port ev e =
     (if has_callback e then e\<lparr>notices := notices e @ [(n, t, ip, port, ev)]\<rparr> else e)"

definition send_datagram :: "bytes \<Rightarrow> string \<Rightarrow> u16 \<Rightarrow> gossip_engine \<Rightarrow> gossip_engine" where
  "send_datagram bs ip port e = e\<lparr>sent := sent e @ [\<lparr>d_bytes = bs, d_ip = ip, d_port = port\<rparr>]\<rparr>"

definition send_message :: "gossip_message \<Rightarrow> string \<Rightarrow> u16 \<Rightarrow> gossip_engine \<Rightarrow> gossip_engine" where
  "send_message msg ip port e =
     (case gossip_message_serialize msg GOSSIP_MAX_PAYLOAD_SIZE of
        Inl _ \<Rightarrow> e
      | Inr bs \<Rightarrow> send_datagram bs ip port e)"

text \<open>\<open>__sync_fetch_and_add(&engine->sequence_num, 1)\<close>: the caller uses the value before.\<close>

definition bump_sequence :: "gossip_engine \<Rightarrow> gossip_engine" where
  "bump_sequence e = e\<lparr>e_sequence_num := e_sequence_num e + 1\<rparr>"

section \<open>Pending acknowledgements\<close>

definition add_pending_ack :: "u64 \<Rightarrow> gossip_engine \<Rightarrow> node_id \<Rightarrow> int \<times> gossip_engine" where
  "add_pending_ack now e target =
     (case find_index (\<lambda>a. \<not> pa_active a) (pending_acks e) of
        Some i \<Rightarrow> (0, e\<lparr>pending_acks := (pending_acks e)[i :=
                     \<lparr>pa_target_node = target, pa_ping_sent_ms = now, pa_active = True\<rparr>]\<rparr>)
      | None \<Rightarrow> (-1, e))"

definition remove_pending_ack :: "gossip_engine \<Rightarrow> node_id \<Rightarrow> int \<times> gossip_engine" where
  "remove_pending_ack e target =
     (case find_index (\<lambda>a. pa_active a \<and> pa_target_node a = target) (pending_acks e) of
        Some i \<Rightarrow> (0, e\<lparr>pending_acks := (pending_acks e)[i := (pending_acks e ! i)\<lparr>pa_active := False\<rparr>]\<rparr>)
      | None \<Rightarrow> (-1, e))"

definition suspect_update :: "u64 \<Rightarrow> node_id \<Rightarrow> u64 \<Rightarrow> gossip_member_update" where
  "suspect_update now n inc = zero_update\<lparr>u_node_id := n, u_status := NODE_STATUS_SUSPECT,
     u_incarnation := inc, u_timestamp_ms := now\<rparr>"

definition check_ack_slot :: "u64 \<Rightarrow> gossip_engine \<Rightarrow> nat \<Rightarrow> gossip_engine" where
  "check_ack_slot now e i =
     (let a = pending_acks e ! i in
      if \<not> pa_active a then e
      else
        let elapsed = now - pa_ping_sent_ms a in
        if elapsed > ucast (ack_timeout_ms (e_config e)) then
          let node = pa_target_node a;
              (old_status, incarnation) =
                (case cluster_view_get (view e) node of
                   Some m \<Rightarrow> (m_status m, m_incarnation m) | None \<Rightarrow> (NODE_STATUS_ALIVE, 0));
              e' = (if old_status = NODE_STATUS_ALIVE
                    then push_update (suspect_update now node incarnation)
                           (set_status now node NODE_STATUS_SUSPECT incarnation e)
                    else e)
          in e'\<lparr>pending_acks := (pending_acks e')[i := (pending_acks e' ! i)\<lparr>pa_active := False\<rparr>]\<rparr>
        else e)"

definition check_ack_timeouts :: "u64 \<Rightarrow> gossip_engine \<Rightarrow> gossip_engine" where
  "check_ack_timeouts now e = foldl (check_ack_slot now) e [0..<MAX_PENDING_ACKS]"

lemmas effect_defs = push_update_def set_status_def add_member_def notify_def send_datagram_def
  bump_sequence_def

section \<open>Acknowledgement timeouts\<close>

definition ack_expired :: "u64 \<Rightarrow> gossip_engine \<Rightarrow> pending_ack \<Rightarrow> bool" where
  "ack_expired now e a \<longleftrightarrow>
     pa_active a \<and> ucast (ack_timeout_ms (e_config e)) < now - pa_ping_sent_ms a"

definition suspected :: "u64 \<Rightarrow> cluster_member \<Rightarrow> cluster_member" where
  "suspected now m = (if m_status m = NODE_STATUS_ALIVE
     then m\<lparr>m_status := NODE_STATUS_SUSPECT, m_last_seen_ms := now\<rparr> else m)"

lemma check_ack_slot_frame [frame_simps]:
  "e_config (check_ack_slot now e i) = e_config e"
  "length (pending_acks (check_ack_slot now e i)) = length (pending_acks e)"
  "sent (check_ack_slot now e i) = sent e" "notices (check_ack_slot now e i) = notices e"
  by (simp_all add: check_ack_slot_def effect_defs Let_def split_beta)

lemma set_active_same: "pa_active a = b \<Longrightarrow> a\<lparr>pa_active := b\<rparr> = a"
  by (cases a) simp

lemma check_ack_slot_acks:
  "i < length (pending_acks e) \<Longrightarrow> pending_acks (check_ack_slot now e i) =
    (pending_acks e)[i := (pending_acks e ! i)\<lparr>pa_active :=
       pa_active (pending_acks e ! i) \<and> \<not> ack_expired now e (pending_acks e ! i)\<rparr>]"
  by (auto simp: check_ack_slot_def ack_expired_def effect_defs Let_def split_beta set_active_same)

lemma check_ack_slot_get:
  assumes "view_ok (view e)"
  shows "view_ok (view (check_ack_slot now e i))"
    and "cluster_view_get (view (check_ack_slot now e i)) n =
      (if ack_expired now e (pending_acks e ! i) \<and> pa_target_node (pending_acks e ! i) = n
       then map_option (suspected now) (cluster_view_get (view e) n) else cluster_view_get (view e) n)"
proof -
  let ?t = "pa_target_node (pending_acks e ! i)"
  show "view_ok (view (check_ack_slot now e i))"
    using assms by (auto simp: check_ack_slot_def effect_defs Let_def split_beta intro!: update_status_ok)
  show "cluster_view_get (view (check_ack_slot now e i)) n =
      (if ack_expired now e (pending_acks e ! i) \<and> ?t = n
       then map_option (suspected now) (cluster_view_get (view e) n) else cluster_view_get (view e) n)"
  proof (cases "cluster_view_get (view e) ?t")
    case None
    with assms show ?thesis
      by (auto simp: check_ack_slot_def ack_expired_def effect_defs Let_def update_status_get)
  next
    case (Some m)
    have "updated_member now NODE_STATUS_SUSPECT (m_incarnation m) m = suspected now m"
      if "m_status m = NODE_STATUS_ALIVE"
      using that by (cases m) (simp add: updated_member_def suspected_def)
    with Some assms show ?thesis
      by (auto simp: check_ack_slot_def ack_expired_def effect_defs Let_def update_status_get suspected_def)
  qed
qed

text \<open>The loop over the first \<open>k\<close> slots, against the state it started from.\<close>

abbreviation acks_upto :: "u64 \<Rightarrow> gossip_engine \<Rightarrow> nat \<Rightarrow> gossip_engine" where
  "acks_upto now e k \<equiv> foldl (check_ack_slot now) e [0..<k]"

lemma check_acks_prefix:
  assumes "view_ok (view e)" and "k \<le> length (pending_acks e)"
  shows "view_ok (view (acks_upto now e k)) \<and> e_config (acks_upto now e k) = e_config e \<and> sent (acks_upto now e k) = sent e \<and> notices (acks_upto now e k) = notices e
    \<and> length (pending_acks (acks_upto now e k)) = length (pending_acks e)
    \<and> (\<forall>i<length (pending_acks e). pending_acks (acks_upto now e k) ! i =
         (if i < k \<and> ack_expired now e (pending_acks e ! i)
          then (pending_acks e ! i)\<lparr>pa_active := False\<rparr> else pending_acks e ! i))
    \<and> (\<forall>n. cluster_view_get (view (acks_upto now e k)) n =
         (if \<exists>i<k. ack_expired now e (pending_acks e ! i) \<and> pa_target_node (pending_acks e ! i) = n
          then map_option (suspected now) (cluster_view_get (view e) n) else cluster_view_get (view e) n))"
  using assms(2)
proof (induction k)
  case 0
  then show ?case using assms(1) by simp
next
  case (Suc k)
  let ?f = "foldl (check_ack_slot now) e [0..<k]"
  let ?a = "pending_acks e ! k"
  have k: "k < length (pending_acks e)" using Suc.prems by simp
  note IH = Suc.IH [OF less_imp_le [OF k]]
  have ok: "view_ok (view ?f)" and len: "length (pending_acks ?f) = length (pending_acks e)"
    and cfg: "e_config ?f = e_config e" using IH by simp_all
  have a: "pending_acks ?f ! k = ?a" using IH k by simp
  have ex: "ack_expired now ?f b = ack_expired now e b" for b
    by (simp add: ack_expired_def cfg)
  note slot = check_ack_slot_get [OF ok, of now k] check_ack_slot_acks [of k ?f now]
  have idem: "suspected now (suspected now m) = suspected now m" for m
    by (simp add: suspected_def)
  have get: "cluster_view_get (view (check_ack_slot now ?f k)) n =
         (if \<exists>i<Suc k. ack_expired now e (pending_acks e ! i) \<and> pa_target_node (pending_acks e ! i) = n
          then map_option (suspected now) (cluster_view_get (view e) n) else cluster_view_get (view e) n)"
    for n
  proof -
    have "cluster_view_get (view ?f) n =
         (if \<exists>i<k. ack_expired now e (pending_acks e ! i) \<and> pa_target_node (pending_acks e ! i) = n
          then map_option (suspected now) (cluster_view_get (view e) n) else cluster_view_get (view e) n)"
      using IH by blast
    then show ?thesis
      using slot(2) [of n]
      by (auto simp: a ex idem less_Suc_eq option.map_comp comp_def)
  qed
  have acks: "pending_acks (check_ack_slot now ?f k) ! i =
         (if i < Suc k \<and> ack_expired now e (pending_acks e ! i)
          then (pending_acks e ! i)\<lparr>pa_active := False\<rparr> else pending_acks e ! i)"
    if "i < length (pending_acks e)" for i
  proof (cases "i = k")
    case True
    with slot(3) k len show ?thesis
      by (auto simp: a ex set_active_same)
  next
    case False
    with slot(3) k len IH that show ?thesis by auto
  qed
  show ?case
    using slot(1) IH get acks by (auto simp: check_ack_slot_frame)
qed

lemma check_acks_effect:
  fixes now :: u64
  assumes "view_ok (view e)" and "length (pending_acks e) = MAX_PENDING_ACKS"
  defines "e' \<equiv> check_ack_timeouts now e"
  shows "cluster_view_get (view e') n =
       (if \<exists>a \<in> set (pending_acks e). ack_expired now e a \<and> pa_target_node a = n
        then map_option (suspected now) (cluster_view_get (view e) n) else cluster_view_get (view e) n)"
    and "pending_acks e' = map (\<lambda>a. if ack_expired now e a then a\<lparr>pa_active := False\<rparr> else a) (pending_acks e)"
    and "view_ok (view e')" and "e_config e' = e_config e" and "sent e' = sent e" and "notices e' = notices e"
proof -
  let ?k = "length (pending_acks e)"
  have ct: "e' = foldl (check_ack_slot now) e [0..<?k]"
    by (simp add: e'_def check_ack_timeouts_def assms(2))
  have ex: "(\<exists>i<?k. ack_expired now e (pending_acks e ! i) \<and> pa_target_node (pending_acks e ! i) = n)
      \<longleftrightarrow> (\<exists>a \<in> set (pending_acks e). ack_expired now e a \<and> pa_target_node a = n)" for n
    by (metis in_set_conv_nth)
  note p = check_acks_prefix [OF assms(1) order_refl, of now, folded ct, unfolded ex]
  then show "view_ok (view e')" "e_config e' = e_config e" "sent e' = sent e" "notices e' = notices e" by blast+
  show "pending_acks e' = map (\<lambda>a. if ack_expired now e a then a\<lparr>pa_active := False\<rparr> else a) (pending_acks e)"
    using p by (intro nth_equalityI) simp_all
  show "cluster_view_get (view e') n =
       (if \<exists>a \<in> set (pending_acks e). ack_expired now e a \<and> pa_target_node a = n
        then map_option (suspected now) (cluster_view_get (view e) n) else cluster_view_get (view e) n)"
    using p by blast
qed

text \<open>C14: A protocol round turns exactly the unanswered pings into suspicion. For every node, if a
  slot of the table holds a ping to it that is older than the acknowledgement timeout and the node
  is ALIVE in the view, it becomes SUSPECT from now on with its incarnation unchanged; every other
  entry of the view, and every node that is not ALIVE, stays as it was, expired slots are freed
  and the other slots keep waiting. Nothing is sent and no callback runs.\<close>

theorem check_ack_timeouts_spec:
  assumes "view_ok (view e)" and "length (pending_acks e) = MAX_PENDING_ACKS"
  shows "let e' = check_ack_timeouts now e in
    (\<forall>n. cluster_view_get (view e') n =
       (if \<exists>a \<in> set (pending_acks e). ack_expired now e a \<and> pa_target_node a = n
        then map_option (\<lambda>m. if m_status m = NODE_STATUS_ALIVE
               then m\<lparr>m_status := NODE_STATUS_SUSPECT, m_last_seen_ms := now\<rparr> else m)
             (cluster_view_get (view e) n)
        else cluster_view_get (view e) n))
    \<and> pending_acks e' = map (\<lambda>a. if ack_expired now e a then a\<lparr>pa_active := False\<rparr> else a) (pending_acks e)
    \<and> sent e' = sent e \<and> notices e' = notices e"
proof -
  have "suspected now = (\<lambda>m. if m_status m = NODE_STATUS_ALIVE
      then m\<lparr>m_status := NODE_STATUS_SUSPECT, m_last_seen_ms := now\<rparr> else m)"
    by (rule ext) (simp add: suspected_def)
  with check_acks_effect [OF assms, of now] show ?thesis by (auto simp: Let_def)
qed

text \<open>An engine with one worker in its view.\<close>

definition mk_member :: "node_id \<Rightarrow> node_type \<Rightarrow> node_status \<Rightarrow> u64 \<Rightarrow> cluster_member" where
  "mk_member n t st inc = \<lparr>m_node_id = n, m_node_type = t, m_ip_address = ''10.0.0.9'',
     m_gossip_port = 7000, m_data_port = 8000, m_status = st, m_last_seen_ms = 100, m_incarnation = inc\<rparr>"

definition engine_with :: "cluster_member list \<Rightarrow> gossip_engine" where
  "engine_with ms = the (gossip_engine_init 1 NODE_TYPE_ROUTER ''10.0.0.1'' 7000 8000 None
     \<lparr>members = ms, view_capacity = 8\<rparr> True True True None)"

lemma engine_with_simps [simp]:
  "my_id (engine_with ms) = 1" "my_type (engine_with ms) = NODE_TYPE_ROUTER"
  "my_ip (engine_with ms) = ''10.0.0.1''"
  "e_incarnation (engine_with ms) = 0" "e_sequence_num (engine_with ms) = 0"
  "e_config (engine_with ms) = gossip_default_config"
  "view (engine_with ms) = \<lparr>members = ms, view_capacity = 8\<rparr>"
  "has_callback (engine_with ms)" "pending_acks (engine_with ms) = replicate MAX_PENDING_ACKS zero_ack"
  "uqueue (engine_with ms) = update_queue_init" "e_pool (engine_with ms) = None"
  "sent (engine_with ms) = []" "notices (engine_with ms) = []" "channel_out (engine_with ms) = []"
  by (simp_all add: engine_with_def gossip_engine_init_def MAX_IP_LEN_def c_string_def)

lemma mk_member_simps [simp]:
  "m_node_id (mk_member n t st inc) = n" "m_status (mk_member n t st inc) = st"
  "m_incarnation (mk_member n t st inc) = inc" "m_last_seen_ms (mk_member n t st inc) = 100"
  "m_node_type (mk_member n t st inc) = t" "m_ip_address (mk_member n t st inc) = ''10.0.0.9''"
  by (simp_all add: mk_member_def)

theorem check_ack_timeouts_spec_witness:
  "let e = engine_with [mk_member 2 NODE_TYPE_WORKER NODE_STATUS_ALIVE 4];
       e' = check_ack_timeouts 1600 (snd (add_pending_ack 1000 e 2))
   in map_option m_status (cluster_view_get (view e') 2) = Some NODE_STATUS_SUSPECT"
proof -
  let ?e = "engine_with [mk_member 2 NODE_TYPE_WORKER NODE_STATUS_ALIVE 4]"
  let ?e1 = "snd (add_pending_ack 1000 ?e 2)"
  let ?a = "\<lparr>pa_target_node = 2, pa_ping_sent_ms = 1000, pa_active = True\<rparr>"
  have "pending_acks ?e1 = ?a # replicate 63 zero_ack" "view ?e1 = view ?e" "e_config ?e1 = gossip_default_config"
    by (simp_all add: add_pending_ack_def MAX_PENDING_ACKS_def zero_ack_def numeral_eq_Suc)
  note f = this
  have x: "ack_expired 1600 ?e1 ?a" using f by (simp add: ack_expired_def gossip_default_config_def)
  have g: "cluster_view_get (view ?e1) 2 = Some (mk_member 2 NODE_TYPE_WORKER NODE_STATUS_ALIVE 4)"
    using f(2) by (simp add: cluster_view_get_def member_index_def)
  have "view_ok (view ?e1)" "length (pending_acks ?e1) = MAX_PENDING_ACKS"
    using f by (simp_all add: table_ok_def MAX_PENDING_ACKS_def)
  note spec [OF conjunct1 [OF check_ack_timeouts_spec [OF this, of 1600, unfolded Let_def]], of 2]
  with x g f(1) show ?thesis by (simp add: Let_def)
qed

end
