(* ===== verification/Gossip_Handlers.thy ===== *)
theory Gossip_Handlers
  imports Gossip_Engine
begin

text \<open>
  The message handlers of src/cluster/gossip_engine.c, from \<open>handle_ping_message\<close> to
  \<open>dispatch_message\<close>, and one turn of the UDP listener thread. Each handler takes the time (one
  sample per message), the message and the address it came from. The handlers loop up to
  \<open>num_updates\<close>, which a peer can set to any byte, over an array of ten updates: reading past it is
  the outcome \<open>Out_of_bounds\<close>. In \<open>handle_worker_join_message\<close> the connection to the worker's data
  port either succeeds with a channel or fails; the outcome is the argument \<open>connect\<close>.
\<close>

section \<open>Loops over the updates of a message\<close>

fun for_updates ::
  "(gossip_member_update \<Rightarrow> gossip_engine \<Rightarrow> gossip_engine) \<Rightarrow> nat \<Rightarrow> gossip_member_update list \<Rightarrow>
   gossip_engine \<Rightarrow> c_error + gossip_engine" where
  "for_updates f 0 us e = Inr e"
| "for_updates f (Suc n) [] e = Inl Out_of_bounds"
| "for_updates f (Suc n) (u # us) e = for_updates f n us (f u e)"

definition member_of_update :: "u64 \<Rightarrow> gossip_member_update \<Rightarrow> cluster_member" where
  "member_of_update now upd =
     \<lparr>m_node_id = u_node_id upd, m_node_type = u_node_type upd,
      m_ip_address = strcpy_to MAX_IP_LEN (u_ip_address upd), m_gossip_port = u_gossip_port upd,
      m_data_port = u_data_port upd, m_status = u_status upd, m_last_seen_ms = now,
      m_incarnation = u_incarnation upd\<rparr>"

definition update_of_member :: "u64 \<Rightarrow> cluster_member \<Rightarrow> gossip_member_update" where
  "update_of_member now m =
     \<lparr>u_node_id = m_node_id m, u_node_type = m_node_type m,
      u_ip_address = strcpy_to MAX_IP_LEN (m_ip_address m), u_gossip_port = m_gossip_port m,
      u_data_port = m_data_port m, u_status = m_status m, u_incarnation = m_incarnation m,
      u_timestamp_ms = now\<rparr>"

text \<open>The anti-entropy part of an outgoing message: the members among the first \<open>limit\<close> that are
  neither dead nor this node.\<close>

definition cluster_state_updates :: "u64 \<Rightarrow> nat \<Rightarrow> gossip_engine \<Rightarrow> gossip_member_update list" where
  "cluster_state_updates now limit e =
     map (update_of_member now)
       (filter (\<lambda>m. \<not> (m_status m = NODE_STATUS_DEAD \<or> m_node_id m = my_id e))
          (take limit (members (view e))))"

definition fill_updates :: "gossip_member_update list \<Rightarrow> gossip_member_update list" where
  "fill_updates us = us @ replicate (GOSSIP_MAX_PIGGYBACK_UPDATES - length us) zero_update"

definition make_message ::
  "u8 \<Rightarrow> node_id \<Rightarrow> u64 \<Rightarrow> gossip_member_update list \<Rightarrow> gossip_message" where
  "make_message type sender seqnum us =
     \<lparr>version = 1, msg_type = type, flags = 0, sender_id = sender, sequence_num = seqnum,
      num_updates = word_of_nat (length us), updates = fill_updates us\<rparr>"

text \<open>Build a message with the next sequence number and send it.\<close>

definition send_new_message ::
  "u8 \<Rightarrow> gossip_member_update list \<Rightarrow> string \<Rightarrow> u16 \<Rightarrow> gossip_engine \<Rightarrow> gossip_engine" where
  "send_new_message type us ip port e =
     send_message (make_message type (my_id e) (e_sequence_num e) us) ip port (bump_sequence e)"

section \<open>PING and ACK\<close>

definition status_change_event :: "node_status \<Rightarrow> member_event option" where
  "status_change_event st =
     (if st = NODE_STATUS_SUSPECT then Some MEMBER_EVENT_FAILED
      else if st = NODE_STATUS_DEAD then Some MEMBER_EVENT_LEAVE
      else if st = NODE_STATUS_ALIVE then Some MEMBER_EVENT_UPDATE else None)"

definition notify_update :: "gossip_member_update \<Rightarrow> member_event \<Rightarrow> gossip_engine \<Rightarrow> gossip_engine" where
  "notify_update upd ev = notify (u_node_id upd) (u_node_type upd) (u_ip_address upd) (u_data_port upd) ev"

definition ping_update :: "u64 \<Rightarrow> gossip_member_update \<Rightarrow> gossip_engine \<Rightarrow> gossip_engine" where
  "ping_update now upd e =
     (case cluster_view_get (view e) (u_node_id upd) of
        None \<Rightarrow>
          push_update (upd\<lparr>u_timestamp_ms := now\<rparr>)
            (notify_update upd MEMBER_EVENT_JOIN (add_member now (member_of_update now upd) e))
      | Some existing \<Rightarrow>
          if m_status existing = NODE_STATUS_DEAD \<and> u_status upd = NODE_STATUS_ALIVE
             \<and> u_incarnation upd > m_incarnation existing
          then notify_update upd MEMBER_EVENT_UPDATE (add_member now (member_of_update now upd) e)
          else if u_incarnation upd > m_incarnation existing then
            (let e' = set_status now (u_node_id upd) (u_status upd) (u_incarnation upd) e
             in if u_status upd \<noteq> m_status existing then
                  (case status_change_event (u_status upd) of
                     None \<Rightarrow> e' | Some ev \<Rightarrow> notify_update upd ev e')
                else e')
          else e)"

definition handle_ping_message ::
  "u64 \<Rightarrow> gossip_engine \<Rightarrow> gossip_message \<Rightarrow> string \<Rightarrow> u16 \<Rightarrow> c_error + gossip_engine" where
  "handle_ping_message now e msg src_ip src_port =
     (case for_updates (ping_update now) (unat (num_updates msg)) (updates msg) e of
        Inl err \<Rightarrow> Inl err
      | Inr e' \<Rightarrow> Inr (send_new_message GOSSIP_MSG_ACK
          (cluster_state_updates now GOSSIP_MAX_PIGGYBACK_UPDATES e') src_ip src_port e'))"

definition ack_recover :: "u64 \<Rightarrow> node_id \<Rightarrow> gossip_engine \<Rightarrow> gossip_engine" where
  "ack_recover now sender e =
     (case cluster_view_get (view e) sender of
        None \<Rightarrow> e
      | Some member \<Rightarrow>
          if m_status member = NODE_STATUS_SUSPECT
          then set_status now sender NODE_STATUS_ALIVE (m_incarnation member) e else e)"

definition ack_update :: "u64 \<Rightarrow> gossip_member_update \<Rightarrow> gossip_engine \<Rightarrow> gossip_engine" where
  "ack_update now upd e =
     (case cluster_view_get (view e) (u_node_id upd) of
        None \<Rightarrow> notify_update upd MEMBER_EVENT_JOIN (add_member now (member_of_update now upd) e)
      | Some existing \<Rightarrow>
          if u_incarnation upd > m_incarnation existing
          then set_status now (u_node_id upd) (u_status upd) (u_incarnation upd) e else e)"

definition handle_ack_message ::
  "u64 \<Rightarrow> gossip_engine \<Rightarrow> gossip_message \<Rightarrow> string \<Rightarrow> u16 \<Rightarrow> c_error + gossip_engine" where
  "handle_ack_message now e msg src_ip src_port =
     for_updates (ack_update now) (unat (num_updates msg)) (updates msg)
       (ack_recover now (sender_id msg) (snd (remove_pending_ack e (sender_id msg))))"

section \<open>SUSPECT, ALIVE, DEAD and JOIN\<close>

definition self_update :: "u64 \<Rightarrow> gossip_engine \<Rightarrow> gossip_member_update" where
  "self_update now e =
     \<lparr>u_node_id = my_id e, u_node_type = my_type e, u_ip_address = strcpy_to MAX_IP_LEN (my_ip e),
      u_gossip_port = e_gossip_port e, u_data_port = e_data_port e, u_status = NODE_STATUS_ALIVE,
      u_incarnation = e_incarnation e, u_timestamp_ms = now\<rparr>"

definition refute :: "u64 \<Rightarrow> gossip_engine \<Rightarrow> gossip_engine" where
  "refute now e =
     (let e' = e\<lparr>e_incarnation := e_incarnation e + 1\<rparr>
      in (push_update (self_update now e') ^^ 3) e')"

definition suspect_one :: "u64 \<Rightarrow> gossip_member_update \<Rightarrow> gossip_engine \<Rightarrow> gossip_engine" where
  "suspect_one now upd e =
     (if u_node_id upd = my_id e \<and> u_status upd = NODE_STATUS_SUSPECT then refute now e
      else if u_node_id upd \<noteq> my_id e \<and> u_status upd = NODE_STATUS_SUSPECT then
        (case cluster_view_get (view e) (u_node_id upd) of
           None \<Rightarrow> e
         | Some existing \<Rightarrow>
             if u_incarnation upd \<ge> m_incarnation existing \<and> m_status existing = NODE_STATUS_ALIVE
             then push_update upd
                    (set_status now (u_node_id upd) NODE_STATUS_SUSPECT (u_incarnation upd) e)
             else e)
      else e)"

definition handle_suspect_message ::
  "u64 \<Rightarrow> gossip_engine \<Rightarrow> gossip_message \<Rightarrow> c_error + gossip_engine" where
  "handle_suspect_message now e msg =
     for_updates (suspect_one now) (unat (num_updates msg)) (updates msg) e"

definition alive_one :: "u64 \<Rightarrow> gossip_member_update \<Rightarrow> gossip_engine \<Rightarrow> gossip_engine" where
  "alive_one now upd e =
     (case cluster_view_get (view e) (u_node_id upd) of
        None \<Rightarrow> e
      | Some existing \<Rightarrow>
          if u_incarnation upd > m_incarnation existing
          then push_update upd (set_status now (u_node_id upd) NODE_STATUS_ALIVE (u_incarnation upd) e)
          else e)"

definition handle_alive_message ::
  "u64 \<Rightarrow> gossip_engine \<Rightarrow> gossip_message \<Rightarrow> c_error + gossip_engine" where
  "handle_alive_message now e msg =
     for_updates (alive_one now) (unat (num_updates msg)) (updates msg) e"

definition dead_one :: "u64 \<Rightarrow> gossip_member_update \<Rightarrow> gossip_engine \<Rightarrow> gossip_engine" where
  "dead_one now upd e =
     (case cluster_view_get (view e) (u_node_id upd) of
        None \<Rightarrow> e
      | Some existing \<Rightarrow>
          notify (u_node_id upd) (m_node_type existing) (strcpy_to MAX_IP_LEN (m_ip_address existing))
            (m_data_port existing) MEMBER_EVENT_LEAVE
            (set_status now (u_node_id upd) NODE_STATUS_DEAD (u_incarnation upd) e))"

definition handle_dead_message ::
  "u64 \<Rightarrow> gossip_engine \<Rightarrow> gossip_message \<Rightarrow> c_error + gossip_engine" where
  "handle_dead_message now e msg =
     for_updates (dead_one now) (unat (num_updates msg)) (updates msg) e"

definition join_one :: "u64 \<Rightarrow> string \<Rightarrow> gossip_member_update \<Rightarrow> gossip_engine \<Rightarrow> gossip_engine" where
  "join_one now src_ip upd e =
     push_update upd
       (notify_update upd MEMBER_EVENT_JOIN
         (add_member now ((member_of_update 0 upd)\<lparr>m_status := NODE_STATUS_ALIVE,
                           m_ip_address := strcpy_to MAX_IP_LEN src_ip\<rparr>) e))"

fun join_loop ::
  "u64 \<Rightarrow> node_id \<Rightarrow> string \<Rightarrow> nat \<Rightarrow> gossip_member_update list \<Rightarrow> gossip_engine \<Rightarrow> c_error + gossip_engine" where
  "join_loop now sender src_ip 0 us e = Inr e"
| "join_loop now sender src_ip (Suc n) [] e = Inl Out_of_bounds"
| "join_loop now sender src_ip (Suc n) (u # us) e =
     (if u_node_id u = sender then Inr (join_one now src_ip u e)
      else join_loop now sender src_ip n us e)"

definition handle_join_message ::
  "u64 \<Rightarrow> gossip_engine \<Rightarrow> gossip_message \<Rightarrow> string \<Rightarrow> c_error + gossip_engine" where
  "handle_join_message now e msg src_ip =
     join_loop now (sender_id msg) src_ip (unat (num_updates msg)) (updates msg) e"

section \<open>WORKER_JOIN\<close>

text \<open>Whether the sender is a dead or suspected member coming back, and the incarnation it gets.\<close>

definition worker_rejoin :: "gossip_engine \<Rightarrow> node_id \<Rightarrow> bool \<times> u64" where
  "worker_rejoin e sender =
     (case cluster_view_get (view e) sender of
        None \<Rightarrow> (False, 0)
      | Some existing \<Rightarrow>
          (m_status existing = NODE_STATUS_DEAD \<or> m_status existing = NODE_STATUS_SUSPECT,
           m_incarnation existing + 1))"

definition worker_member ::
  "u64 \<Rightarrow> gossip_member_update \<Rightarrow> string \<Rightarrow> bool \<times> u64 \<Rightarrow> cluster_member" where
  "worker_member now upd src_ip rejoin =
     \<lparr>m_node_id = u_node_id upd, m_node_type = NODE_TYPE_WORKER,
      m_ip_address = strcpy_to MAX_IP_LEN src_ip, m_gossip_port = u_gossip_port upd,
      m_data_port = u_data_port upd, m_status = NODE_STATUS_ALIVE, m_last_seen_ms = now,
      m_incarnation = (if fst rejoin then snd rejoin else u_incarnation upd)\<rparr>"

definition establish_channel ::
  "u64 \<Rightarrow> rpc_channel option \<Rightarrow> gossip_member_update \<Rightarrow> string \<Rightarrow> gossip_engine \<Rightarrow> gossip_engine" where
  "establish_channel now connect upd src_ip e =
     (case e_pool e of
        None \<Rightarrow> e
      | Some pool \<Rightarrow>
          (case peer_pool_add now pool (u_node_id upd) src_ip (u_gossip_port upd) (u_data_port upd) of
             (result, pool1) \<Rightarrow>
               (if result = RESULT_OK then
                  (case (peer_pool_get pool1 (u_node_id upd), connect) of
                     (Some peer, Some channel) \<Rightarrow>
                       if p_data_channel peer = None then
                         (case rpc_pack_message 64 (my_id e) 0 RPC_TYPE_REQUEST RPC_STATUS_SUCCESS
                                 FUNC_ID_HEARTBEAT [] of
                            Inl _ \<Rightarrow> e
                          | Inr test \<Rightarrow>
                              e\<lparr>e_pool := Some (snd (update_peer pool1 (u_node_id upd)
                                  (\<lambda>p. p\<lparr>p_data_channel := Some channel\<rparr>))),
                                channel_out := channel_out e @ [(u_node_id upd, test)]\<rparr>)
                       else e\<lparr>e_pool := Some pool1\<rparr>
                   | _ \<Rightarrow> e\<lparr>e_pool := Some pool1\<rparr>)
                else e\<lparr>e_pool := Some pool1\<rparr>)))"

definition worker_join_update ::
  "u64 \<Rightarrow> gossip_member_update \<Rightarrow> string \<Rightarrow> u64 \<Rightarrow> gossip_member_update" where
  "worker_join_update now upd src_ip inc =
     \<lparr>u_node_id = u_node_id upd, u_node_type = NODE_TYPE_WORKER,
      u_ip_address = strcpy_to MAX_IP_LEN src_ip, u_gossip_port = u_gossip_port upd,
      u_data_port = u_data_port upd, u_status = NODE_STATUS_ALIVE, u_incarnation = inc,
      u_timestamp_ms = now\<rparr>"

definition gossip_burst :: "node_id \<Rightarrow> gossip_member_update \<Rightarrow> gossip_engine \<Rightarrow> gossip_engine" where
  "gossip_burst joining u e =
     foldl (\<lambda>e peer. if m_node_id peer = my_id e \<or> m_node_id peer = joining
                        \<or> m_status peer = NODE_STATUS_DEAD then e
                     else send_new_message GOSSIP_MSG_ALIVE [u] (m_ip_address peer) (m_gossip_port peer) e)
       e (members (view e))"

text \<open>What the handler does with the first update of the message.\<close>

definition worker_join_process ::
  "u64 \<Rightarrow> rpc_channel option \<Rightarrow> bool \<times> u64 \<Rightarrow> gossip_member_update \<Rightarrow> string \<Rightarrow>
   gossip_engine \<Rightarrow> gossip_engine" where
  "worker_join_process now connect rejoin upd src_ip e =
     (let member = worker_member now upd src_ip rejoin;
          e1 = add_member now member e;
          e2 = notify (u_node_id upd) NODE_TYPE_WORKER src_ip (u_data_port upd)
                 (if fst rejoin then MEMBER_EVENT_UPDATE else MEMBER_EVENT_JOIN) e1;
          e3 = establish_channel now connect upd src_ip e2;
          u = worker_join_update now upd src_ip (m_incarnation member);
          e4 = (push_update u ^^ (if fst rejoin then 10 else 5)) e3
      in gossip_burst (u_node_id upd) u e4)"

definition bootstrap_entry :: "cluster_member \<Rightarrow> bootstrap_router" where
  "bootstrap_entry m =
     \<lparr>b_node_id = m_node_id m,
      b_gossip_addr = take (MAX_CONFIG_STRING - 1) (m_ip_address m @ '':'' @ utoa (unat (m_gossip_port m))),
      b_data_addr = take (MAX_CONFIG_STRING - 1) (m_ip_address m @ '':'' @ utoa (unat (m_data_port m)))\<rparr>"

definition bootstrap_routers :: "cluster_view \<Rightarrow> gossip_bootstrap_response" where
  "bootstrap_routers v =
     (let rs = map bootstrap_entry (collect_upto
                 (\<lambda>m. m_node_type m = NODE_TYPE_ROUTER \<and> m_status m = NODE_STATUS_ALIVE)
                 MAX_CONFIG_ROUTERS (members v))
      in \<lparr>num_routers = word_of_nat (length rs),
          resp_routers = rs @ replicate (MAX_CONFIG_ROUTERS - length rs) zero_router\<rparr>)"

definition send_join_response :: "string \<Rightarrow> u16 \<Rightarrow> gossip_engine \<Rightarrow> gossip_engine" where
  "send_join_response src_ip src_port e =
     (let response = make_message GOSSIP_MSG_JOIN_RESPONSE (my_id e) (e_sequence_num e) [];
          e' = bump_sequence e
      in case gossip_message_serialize response GOSSIP_MAX_PAYLOAD_SIZE of
           Inl _ \<Rightarrow> e'
         | Inr bs \<Rightarrow>
             (case gossip_serialize_bootstrap_response (bootstrap_routers (view e))
                     (GOSSIP_MAX_PAYLOAD_SIZE - length bs) of
                Inl _ \<Rightarrow> e'
              | Inr rs \<Rightarrow> send_datagram (bs @ rs) src_ip src_port e'))"

definition handle_worker_join_message ::
  "u64 \<Rightarrow> rpc_channel option \<Rightarrow> gossip_engine \<Rightarrow> gossip_message \<Rightarrow> string \<Rightarrow> u16 \<Rightarrow>
   c_error + gossip_engine" where
  "handle_worker_join_message now connect e msg src_ip src_port =
     (if my_type e \<noteq> NODE_TYPE_ROUTER then Inr e
      else let rejoin = worker_rejoin e (sender_id msg);
               e' = (if num_updates msg > 0
                     then worker_join_process now connect rejoin (updates msg ! 0) src_ip e else e)
           in Inr (send_join_response src_ip src_port e'))"

section \<open>Dispatch and the listener\<close>

definition dispatch_message ::
  "u64 \<Rightarrow> rpc_channel option \<Rightarrow> gossip_engine \<Rightarrow> gossip_message \<Rightarrow> string \<Rightarrow> u16 \<Rightarrow>
   c_error + gossip_engine" where
  "dispatch_message now connect e msg src_ip src_port =
     (if msg_type msg = GOSSIP_MSG_PING then handle_ping_message now e msg src_ip src_port
      else if msg_type msg = GOSSIP_MSG_ACK then handle_ack_message now e msg src_ip src_port
      else if msg_type msg = GOSSIP_MSG_SUSPECT then handle_suspect_message now e msg
      else if msg_type msg = GOSSIP_MSG_ALIVE then handle_alive_message now e msg
      else if msg_type msg = GOSSIP_MSG_DEAD then handle_dead_message now e msg
      else if msg_type msg = GOSSIP_MSG_JOIN then handle_join_message now e msg src_ip
      else if msg_type msg = GOSSIP_MSG_WORKER_JOIN
        then handle_worker_join_message now connect e msg src_ip src_port
      else if msg_type msg = GOSSIP_MSG_JOIN_RESPONSE then Inr e
      else if msg_type msg = GOSSIP_MSG_LEAVE
        then Inr (set_status now (sender_id msg) NODE_STATUS_DEAD (sequence_num msg) e)
      else Inr e)"

text \<open>One datagram taken by \<open>gossip_listener_thread\<close>.\<close>

definition listener_step ::
  "u64 \<Rightarrow> rpc_channel option \<Rightarrow> bytes \<Rightarrow> string \<Rightarrow> u16 \<Rightarrow> gossip_engine \<Rightarrow> c_error + gossip_engine" where
  "listener_step now connect packet src_ip src_port e =
     (let recv_buffer = take GOSSIP_MAX_PAYLOAD_SIZE packet
      in if length recv_buffer < 16 then Inr e
      else case gossip_message_deserialize recv_buffer of
        Inl _ \<Rightarrow> Inr e
      | Inr msg \<Rightarrow>
          if sender_id msg = my_id e then Inr e
          else dispatch_message now connect e msg src_ip src_port)"

end
