(* ===== verification/Gossip_Invariant.thy ===== *)
theory Gossip_Invariant
  imports Gossip_Handlers
begin

text \<open>
  What the gossip engine keeps: the invariant \<open>engine_wf\<close> of its state and its preservation by the
  effects, by every handler and by the listener, whatever bytes arrive. It says that the view, the
  peer pool and the queue are well formed, that every member and queued update can be put on the
  wire, and that every datagram sent so far is a message a peer accepts.
\<close>

definition member_wf :: "cluster_member \<Rightarrow> bool" where
  "member_wf m \<longleftrightarrow> type_canonical (m_node_type m) \<and> status_canonical (m_status m)
     \<and> c_string (m_ip_address m) \<and> length (m_ip_address m) < MAX_IP_LEN"

text \<open>A datagram a peer's listener accepts: it parses, it carries this node's id, and the number of
  updates it announces is within the receiver's array.\<close>

definition datagram_ok :: "node_id \<Rightarrow> datagram \<Rightarrow> bool" where
  "datagram_ok sender d \<longleftrightarrow> length (d_bytes d) \<le> GOSSIP_MAX_PAYLOAD_SIZE
     \<and> (case gossip_message_deserialize (d_bytes d) of
          Inl _ \<Rightarrow> False
        | Inr msg \<Rightarrow> sender_id msg = sender \<and> unat (num_updates msg) \<le> GOSSIP_MAX_PIGGYBACK_UPDATES
            \<and> list_all update_ok (updates msg))"

definition engine_wf :: "gossip_engine \<Rightarrow> bool" where
  "engine_wf e \<longleftrightarrow> view_ok (view e) \<and> list_all member_wf (members (view e))
     \<and> uq_ok (uqueue e) \<and> list_all update_ok (uq_contents (uqueue e))
     \<and> length (pending_acks e) = MAX_PENDING_ACKS
     \<and> type_canonical (my_type e) \<and> c_string (my_ip e) \<and> length (my_ip e) < MAX_IP_LEN
     \<and> unat (max_piggyback (e_config e)) \<le> GOSSIP_MAX_PIGGYBACK_UPDATES
     \<and> (case e_pool e of None \<Rightarrow> True | Some pool \<Rightarrow> pool_ok pool)
     \<and> list_all (datagram_ok (my_id e)) (sent e)"

section \<open>The pieces\<close>

lemma canonical_simps [simp]:
  "status_canonical NODE_STATUS_ALIVE" "status_canonical NODE_STATUS_SUSPECT"
  "status_canonical NODE_STATUS_DEAD" "type_canonical NODE_TYPE_WORKER"
  "type_canonical NODE_TYPE_UNKNOWN" "type_canonical NODE_TYPE_ROUTER"
  "status_canonical (node_status_of_byte b)" "type_canonical (node_type_of_byte b)"
  by (simp_all add: status_canonical_def type_canonical_def node_status_of_byte_def node_type_of_byte_def)

lemma strcpy_ip_ok [simp]: "c_string (strcpy_to MAX_IP_LEN s)" "length (strcpy_to MAX_IP_LEN s) < MAX_IP_LEN"
  by (simp_all add: strcpy_to_length MAX_IP_LEN_def)

lemma member_wf_touch [simp]:
  "member_wf (m\<lparr>m_last_seen_ms := t\<rparr>) = member_wf m" "member_wf (m\<lparr>m_incarnation := i\<rparr>) = member_wf m"
  by (simp_all add: member_wf_def)

lemma member_of_update_wf [simp]: "update_ok u \<Longrightarrow> member_wf (member_of_update now u)"
  by (simp add: update_ok_def member_wf_def member_of_update_def)

lemma update_of_member_ok [simp]: "member_wf m \<Longrightarrow> update_ok (update_of_member now m)"
  by (simp add: update_ok_def member_wf_def update_of_member_def)

lemma zero_update_ok [simp]: "update_ok zero_update"
  by (simp add: update_ok_def zero_update_def MAX_IP_LEN_def c_string_def)

lemma deserialized_update_ok [simp]: "update_ok (gossip_deserialize_member_update bs)"
proof -
  have "length (get_string (take 15 xs)) < 16" for xs
    using length_takeWhile_le [of "\<lambda>b. b \<noteq> 0" "take 15 xs"] by (simp add: get_string_def)
  then show ?thesis
    by (simp add: update_ok_def gossip_deserialize_member_update_def MAX_IP_LEN_def)
qed

lemma replicate_zero_update_ok [simp]: "list_all update_ok (replicate n zero_update)"
  by (simp add: list_all_iff)

lemma read_items_updates_ok: "list_all update_ok (read_items gossip_deserialize_member_update w n bs)"
  by (induction n arbitrary: bs) auto

text \<open>Every message accepted from the wire carries ten well-formed updates.\<close>

lemma deserialized_updates_ok:
  assumes "gossip_message_deserialize bs = Inr msg"
  shows "list_all update_ok (updates msg) \<and> length (updates msg) = GOSSIP_MAX_PIGGYBACK_UPDATES"
proof -
  let ?us = "read_items gossip_deserialize_member_update MEMBER_UPDATE_SIZE
    (min (unat (bs ! 14)) GOSSIP_MAX_PIGGYBACK_UPDATES) (drop 16 bs)"
  have "updates msg = ?us @ replicate (GOSSIP_MAX_PIGGYBACK_UPDATES - length ?us) zero_update"
    using assms by (auto simp: gossip_message_deserialize_def Let_def split: if_splits)
  moreover have "length ?us \<le> GOSSIP_MAX_PIGGYBACK_UPDATES"
    using length_read_items [of gossip_deserialize_member_update MEMBER_UPDATE_SIZE
        "min (unat (bs ! 14)) GOSSIP_MAX_PIGGYBACK_UPDATES" "drop 16 bs"] by simp
  ultimately show ?thesis by (simp add: read_items_updates_ok)
qed

lemma list_all_update: "list_all P xs \<Longrightarrow> P y \<Longrightarrow> list_all P (xs[i := y])"
  by (auto simp: list_all_iff dest: set_update_subset_insert [THEN subsetD])

lemma add_members_wf:
  assumes "list_all member_wf (members v)" "member_wf m"
  shows "list_all member_wf (members (snd (cluster_view_add now v m)))"
  using assms by (auto simp: cluster_view_add_def Let_def list_all_update split: option.split)

lemma update_status_members_wf:
  assumes "list_all member_wf (members v)" "status_canonical st"
  shows "list_all member_wf (members (snd (cluster_view_update_status now v n st inc)))"
proof (cases "member_index v n")
  case None
  with assms show ?thesis by (simp add: cluster_view_update_status_def)
next
  case (Some i)
  then have "i < length (members v)" by (auto dest: member_index_SomeD)
  with assms have "member_wf (members v ! i)" by (simp add: list_all_length)
  with assms(2) have "member_wf (updated_member now st inc (members v ! i))"
    by (simp add: updated_member_def member_wf_def)
  with assms(1) Some show ?thesis by (simp add: update_status_hit list_all_update)
qed

section \<open>Effects keep the invariant\<close>

lemma push_update_wf [wf_intros]: "engine_wf e \<Longrightarrow> update_ok u \<Longrightarrow> engine_wf (push_update u e)"
  using push_contents [of "uqueue e" u] by (simp add: engine_wf_def push_update_def)

lemma push_update_pow_wf [wf_intros]:
  "engine_wf e \<Longrightarrow> update_ok u \<Longrightarrow> engine_wf ((push_update u ^^ n) e)"
  by (induction n) (simp_all add: push_update_wf)

lemma set_status_wf [wf_intros]:
  "engine_wf e \<Longrightarrow> status_canonical st \<Longrightarrow> engine_wf (set_status now n st inc e)"
  by (simp add: engine_wf_def set_status_def update_status_ok update_status_members_wf)

lemma add_member_wf [wf_intros]: "engine_wf e \<Longrightarrow> member_wf m \<Longrightarrow> engine_wf (add_member now m e)"
  by (simp add: engine_wf_def add_member_def add_ok add_members_wf)

lemma notify_wf [wf_intros]: "engine_wf e \<Longrightarrow> engine_wf (notify n t ip port ev e)"
  by (simp add: engine_wf_def notify_def)

lemma bump_sequence_wf [wf_intros]: "engine_wf e \<Longrightarrow> engine_wf (bump_sequence e)"
  by (simp add: engine_wf_def bump_sequence_def)

lemma send_datagram_wf [wf_intros]:
  "engine_wf e \<Longrightarrow> datagram_ok (my_id e) \<lparr>d_bytes = bs, d_ip = ip, d_port = port\<rparr> \<Longrightarrow>
   engine_wf (send_datagram bs ip port e)"
  by (simp add: engine_wf_def send_datagram_def)

lemma effects_my_id [simp, frame_simps]:
  "my_id (push_update u e) = my_id e" "my_id (set_status now n st inc e) = my_id e"
  "my_id (add_member now m e) = my_id e" "my_id (notify n t ip port ev e) = my_id e"
  "my_id (bump_sequence e) = my_id e" "my_id (send_datagram bs ip port e) = my_id e"
  by (simp_all add: effect_defs)

lemma effects_view [simp, frame_simps]:
  "view (push_update u e) = view e" "view (notify n t ip port ev e) = view e"
  "view (bump_sequence e) = view e" "view (send_datagram bs ip port e) = view e"
  by (simp_all add: effect_defs)

lemma make_message_ok:
  assumes "length us \<le> GOSSIP_MAX_PIGGYBACK_UPDATES" "list_all update_ok us"
  shows "message_ok (make_message ty s n us)"
    and "unat (num_updates (make_message ty s n us)) = length us"
  using assms
  by (simp_all add: message_ok_def make_message_def fill_updates_def unat_word_of_nat gossip_size_defs)

lemma received_make_message:
  assumes "length us \<le> GOSSIP_MAX_PIGGYBACK_UPDATES" "list_all update_ok us"
  shows "received_message (make_message ty s n us) = make_message ty s n us"
  using assms make_message_ok(2) [OF assms, of ty s n]
  by (simp add: received_message_def) (simp add: make_message_def fill_updates_def)

lemma make_message_datagram_ok:
  assumes "length us \<le> GOSSIP_MAX_PIGGYBACK_UPDATES" "list_all update_ok us"
    and "length (message_bytes (make_message ty s n us) @ rest) \<le> GOSSIP_MAX_PAYLOAD_SIZE"
  shows "datagram_ok s \<lparr>d_bytes = message_bytes (make_message ty s n us) @ rest, d_ip = ip, d_port = port\<rparr>"
  using assms(3) message_deserialize_bytes [OF make_message_ok(1) [OF assms(1,2)], of ty s n rest]
    make_message_ok(2) [OF assms(1,2), of ty s n] assms(1,2)
  by (simp add: datagram_ok_def received_make_message)
    (simp add: make_message_def fill_updates_def)

lemma serialize_make_message:
  assumes "length us \<le> GOSSIP_MAX_PIGGYBACK_UPDATES" "list_all update_ok us"
  shows "gossip_message_serialize (make_message ty s n us) GOSSIP_MAX_PAYLOAD_SIZE
      = Inr (message_bytes (make_message ty s n us))"
    and "length (message_bytes (make_message ty s n us)) \<le> GOSSIP_MAX_PAYLOAD_SIZE"
    and "length (message_bytes (make_message ty s n us)) = 16 + length us * MEMBER_UPDATE_SIZE"
proof -
  have sz: "gossip_message_serialized_size (make_message ty s n us) = 16 + length us * MEMBER_UPDATE_SIZE"
    by (simp add: gossip_message_serialized_size_def make_message_ok(2) [OF assms])
  also have "\<dots> \<le> GOSSIP_MAX_PAYLOAD_SIZE" using assms(1) by (simp add: gossip_size_defs)
  finally have fit: "gossip_message_serialized_size (make_message ty s n us) \<le> GOSSIP_MAX_PAYLOAD_SIZE" .
  note ok = make_message_ok(1) [OF assms, of ty s n]
  show "gossip_message_serialize (make_message ty s n us) GOSSIP_MAX_PAYLOAD_SIZE
      = Inr (message_bytes (make_message ty s n us))"
    by (rule message_serialize_fit [OF ok fit])
  show "length (message_bytes (make_message ty s n us)) \<le> GOSSIP_MAX_PAYLOAD_SIZE"
    using length_message_bytes [OF ok] fit by simp
  show "length (message_bytes (make_message ty s n us)) = 16 + length us * MEMBER_UPDATE_SIZE"
    using length_message_bytes [OF ok] sz by simp
qed

lemma send_new_message_eq:
  assumes "length us \<le> GOSSIP_MAX_PIGGYBACK_UPDATES" "list_all update_ok us"
  shows "send_new_message ty us ip port e =
    send_datagram (message_bytes (make_message ty (my_id e) (e_sequence_num e) us)) ip port (bump_sequence e)"
  by (simp add: send_new_message_def send_message_def serialize_make_message [OF assms])

lemma send_new_message_wf [wf_intros]:
  assumes "engine_wf e" "length us \<le> GOSSIP_MAX_PIGGYBACK_UPDATES" "list_all update_ok us"
  shows "engine_wf (send_new_message ty us ip port e)"
proof -
  have "datagram_ok (my_id e) \<lparr>d_bytes = message_bytes (make_message ty (my_id e) (e_sequence_num e) us),
      d_ip = ip, d_port = port\<rparr>"
    using make_message_datagram_ok [OF assms(2,3), of ty "my_id e" "e_sequence_num e" "[]"]
      serialize_make_message(2) [OF assms(2,3)] by simp
  with assms(1) show ?thesis
    by (simp add: send_new_message_eq [OF assms(2,3)] wf_intros)
qed

section \<open>Handlers keep the invariant\<close>

lemma for_updates_wf:
  assumes "\<And>u e. engine_wf e \<Longrightarrow> update_ok u \<Longrightarrow> engine_wf (f u e)"
    and "for_updates f n us e = Inr e'" and "engine_wf e" and "list_all update_ok us"
  shows "engine_wf e'"
  using assms(2-4)
proof (induction us arbitrary: n e)
  case Nil
  then show ?case by (cases n) auto
next
  case (Cons u us)
  then show ?case by (cases n) (auto intro: assms(1))
qed

lemma for_updates_total:
  "n \<le> length us \<Longrightarrow> \<exists>e'. for_updates f n us e = Inr e'"
  by (induction f n us e rule: for_updates.induct) auto

lemma for_updates_overrun:
  "length us < n \<Longrightarrow> for_updates f n us e = Inl Out_of_bounds"
  by (induction f n us e rule: for_updates.induct) auto

lemma update_ok_fields: "update_ok u \<Longrightarrow> status_canonical (u_status u)"
  "update_ok (u\<lparr>u_timestamp_ms := t\<rparr>) = update_ok u"
  by (simp_all add: update_ok_def)

lemma notify_update_wf [wf_intros]: "engine_wf e \<Longrightarrow> engine_wf (notify_update u ev e)"
  by (simp add: notify_update_def notify_wf)

lemma ping_update_wf: "engine_wf e \<Longrightarrow> update_ok u \<Longrightarrow> engine_wf (ping_update now u e)"
  using update_ok_fields(1) [of u]
  by (auto simp: ping_update_def Let_def update_ok_fields(2) wf_intros split: option.split)

lemma ack_update_wf: "engine_wf e \<Longrightarrow> update_ok u \<Longrightarrow> engine_wf (ack_update now u e)"
  by (auto simp: ack_update_def update_ok_fields wf_intros split: option.split)

lemma self_update_ok: "engine_wf e \<Longrightarrow> update_ok (self_update now e)"
  by (simp add: engine_wf_def self_update_def update_ok_def)

lemma refute_wf: "engine_wf e \<Longrightarrow> engine_wf (refute now e)"
proof -
  assume "engine_wf e"
  then have "engine_wf (e\<lparr>e_incarnation := e_incarnation e + 1\<rparr>)" by (simp add: engine_wf_def)
  then show "engine_wf (refute now e)"
    unfolding refute_def Let_def by (intro push_update_pow_wf self_update_ok)
qed

lemma suspect_one_wf: "engine_wf e \<Longrightarrow> update_ok u \<Longrightarrow> engine_wf (suspect_one now u e)"
  by (auto simp: suspect_one_def refute_wf wf_intros split: option.split)

lemma alive_one_wf: "engine_wf e \<Longrightarrow> update_ok u \<Longrightarrow> engine_wf (alive_one now u e)"
  by (auto simp: alive_one_def wf_intros split: option.split)

lemma dead_one_wf: "engine_wf e \<Longrightarrow> update_ok u \<Longrightarrow> engine_wf (dead_one now u e)"
  by (auto simp: dead_one_def wf_intros split: option.split)

lemma join_one_wf: "engine_wf e \<Longrightarrow> update_ok u \<Longrightarrow> engine_wf (join_one now ip u e)"
  by (auto simp: join_one_def member_wf_def member_of_update_def update_ok_def intro!: wf_intros)

lemma join_loop_wf:
  "engine_wf e \<Longrightarrow> list_all update_ok us \<Longrightarrow> join_loop now s ip n us e = Inr e' \<Longrightarrow> engine_wf e'"
  by (induction now s ip n us e rule: join_loop.induct) (auto simp: join_one_wf split: if_splits)

lemma cluster_state_updates_ok:
  assumes "engine_wf e"
  shows "list_all update_ok (cluster_state_updates now limit e)"
    and "length (cluster_state_updates now limit e) \<le> limit"
proof -
  have "list_all member_wf (members (view e))" using assms by (simp add: engine_wf_def)
  then show "list_all update_ok (cluster_state_updates now limit e)"
    by (auto simp: cluster_state_updates_def list_all_iff dest: in_set_takeD)
  have "length (filter P (take limit xs)) \<le> limit" for P and xs :: "cluster_member list"
    by (rule order_trans [OF length_filter_le]) simp
  then show "length (cluster_state_updates now limit e) \<le> limit"
    by (simp add: cluster_state_updates_def)
qed

lemma handle_ping_wf:
  assumes "engine_wf e" "list_all update_ok (updates msg)"
    and "handle_ping_message now e msg ip port = Inr e'"
  shows "engine_wf e'"
proof -
  obtain e1 where e1: "for_updates (ping_update now) (unat (num_updates msg)) (updates msg) e = Inr e1"
    and e': "e' = send_new_message GOSSIP_MSG_ACK
      (cluster_state_updates now GOSSIP_MAX_PIGGYBACK_UPDATES e1) ip port e1"
    using assms(3) by (auto simp: handle_ping_message_def split: sum.splits)
  have "engine_wf e1" using ping_update_wf e1 assms(1,2) by (rule for_updates_wf)
  then show ?thesis unfolding e' by (intro send_new_message_wf cluster_state_updates_ok)
qed

lemma ack_recover_wf: "engine_wf e \<Longrightarrow> engine_wf (ack_recover now s e)"
  by (auto simp: ack_recover_def wf_intros split: option.split)

lemma remove_pending_ack_wf: "engine_wf e \<Longrightarrow> engine_wf (snd (remove_pending_ack e s))"
  by (auto simp: remove_pending_ack_def engine_wf_def split: option.split)

lemma add_pending_ack_wf: "engine_wf e \<Longrightarrow> engine_wf (snd (add_pending_ack now e s))"
  by (auto simp: add_pending_ack_def engine_wf_def split: option.split)

subsection \<open>WORKER_JOIN\<close>

lemma worker_member_wf: "update_ok u \<Longrightarrow> member_wf (worker_member now u ip rejoin)"
  by (simp add: member_wf_def worker_member_def)

lemma worker_join_update_ok: "update_ok (worker_join_update now u ip inc)"
  by (simp add: update_ok_def worker_join_update_def)

lemma establish_channel_wf: "engine_wf e \<Longrightarrow> engine_wf (establish_channel now connect u ip e)"
proof (cases "e_pool e")
  case None
  assume "engine_wf e"
  with None show ?thesis by (simp add: establish_channel_def)
next
  case (Some pool)
  assume wf: "engine_wf e"
  obtain result pool1 where add: "peer_pool_add now pool (u_node_id u) ip (u_gossip_port u) (u_data_port u)
      = (result, pool1)" by fastforce
  have "pool_ok pool" using wf Some by (simp add: engine_wf_def)
  then have ok1: "pool_ok pool1"
    using peer_pool_add_ok [of pool now "u_node_id u" ip "u_gossip_port u" "u_data_port u"] add by simp
  then have ok2: "pool_ok (snd (update_peer pool1 n (\<lambda>p. p\<lparr>p_data_channel := c\<rparr>)))" for n c
    by (rule update_peer_ok) simp
  have 1: "engine_wf (e\<lparr>e_pool := Some pool1\<rparr>)" using wf ok1 by (simp add: engine_wf_def)
  have 2: "engine_wf (e\<lparr>e_pool := Some (snd (update_peer pool1 n (\<lambda>p. p\<lparr>p_data_channel := c\<rparr>))),
      channel_out := out\<rparr>)" for n c out
    using wf ok2 by (simp add: engine_wf_def)
  show ?thesis
    using 1 2 wf by (simp add: establish_channel_def Some add split: option.split sum.split)
qed

lemma gossip_burst_wf:
  assumes "engine_wf e" "update_ok u"
  shows "engine_wf (gossip_burst n u e)"
proof -
  have "engine_wf (foldl (\<lambda>e peer. if m_node_id peer = my_id e \<or> m_node_id peer = n
      \<or> m_status peer = NODE_STATUS_DEAD then e
      else send_new_message GOSSIP_MSG_ALIVE [u] (m_ip_address peer) (m_gossip_port peer) e) e ms)" for ms
    using assms
  proof (induction ms arbitrary: e)
    case (Cons m ms)
    have "engine_wf (send_new_message GOSSIP_MSG_ALIVE [u] (m_ip_address m) (m_gossip_port m) e)"
      using Cons.prems by (intro send_new_message_wf) (simp_all add: gossip_size_defs)
    with Cons show ?case by simp
  qed simp
  then show ?thesis by (simp add: gossip_burst_def)
qed

lemma worker_join_process_wf:
  "engine_wf e \<Longrightarrow> update_ok u \<Longrightarrow> engine_wf (worker_join_process now connect rejoin u ip e)"
  unfolding worker_join_process_def Let_def
  by (intro gossip_burst_wf push_update_pow_wf establish_channel_wf notify_wf add_member_wf
      worker_member_wf worker_join_update_ok)

lemma bootstrap_entry_ok: "member_wf m \<Longrightarrow> router_ok (bootstrap_entry m)"
proof -
  assume wf: "member_wf m"
  have port: "length (utoa (unat p)) \<le> 5" for p :: u16
    using unsigned_less [of p, where ?'a = nat] by (intro utoa_length) auto
  have addr: "c_string (m_ip_address m @ '':'' @ utoa (unat p)) \<and>
      length (m_ip_address m @ '':'' @ utoa (unat p)) < 64" for p :: u16
    using wf port [of p] c_string_utoa [of "unat p"] by (auto simp: member_wf_def c_string_def MAX_IP_LEN_def)
  have "take 255 (m_ip_address m @ '':'' @ utoa (unat p))
      = m_ip_address m @ '':'' @ utoa (unat p)" for p :: u16
    using addr [of p] by (intro take_all) linarith
  with addr show ?thesis
    by (simp add: router_ok_def bootstrap_entry_def MAX_CONFIG_STRING_def)
qed

lemma bootstrap_routers_ok:
  assumes "list_all member_wf (members v)"
  shows "bootstrap_ok (bootstrap_routers v)"
proof -
  let ?ms = "collect_upto (\<lambda>m. m_node_type m = NODE_TYPE_ROUTER \<and> m_status m = NODE_STATUS_ALIVE)
    MAX_CONFIG_ROUTERS (members v)"
  have "set ?ms \<subseteq> set (members v)" by (auto simp: collect_upto_eq dest: in_set_takeD)
  with assms have "list_all router_ok (map bootstrap_entry ?ms)"
    by (auto simp: list_all_iff intro: bootstrap_entry_ok)
  moreover have l: "length ?ms \<le> 16"
    using length_collect_upto [of "\<lambda>m. m_node_type m = NODE_TYPE_ROUTER \<and> m_status m = NODE_STATUS_ALIVE"
        MAX_CONFIG_ROUTERS "members v"] by (simp add: MAX_CONFIG_ROUTERS_def)
  moreover from l have "unat (word_of_nat (length ?ms) :: u8) = length ?ms"
    by (simp add: unat_word_of_nat)
  ultimately show ?thesis
    by (simp add: bootstrap_ok_def bootstrap_routers_def Let_def MAX_CONFIG_ROUTERS_def)
qed

text \<open>The datagram a router answers with: at most ten of its routers fit.\<close>

definition join_response :: "gossip_engine \<Rightarrow> bytes" where
  "join_response e =
     (let k = min (unat (num_routers (bootstrap_routers (view e)))) 10
      in gossip_header (make_message GOSSIP_MSG_JOIN_RESPONSE (my_id e) (e_sequence_num e) [])
         @ word_of_nat k # concat (map serialize_router (take k (resp_routers (bootstrap_routers (view e))))))"

lemma no_updates_bytes: "message_bytes (make_message ty s n []) = gossip_header (make_message ty s n [])"
  by (simp add: make_message_def)

lemma send_join_response_eq:
  assumes "list_all member_wf (members (view e))"
  shows "send_join_response ip port e = send_datagram (join_response e) ip port (bump_sequence e)"
    and "length (join_response e) \<le> GOSSIP_MAX_PAYLOAD_SIZE"
proof -
  let ?m = "make_message GOSSIP_MSG_JOIN_RESPONSE (my_id e) (e_sequence_num e) []"
  let ?resp = "bootstrap_routers (view e)"
  let ?k = "min (unat (num_routers ?resp)) 10"
  have m: "gossip_message_serialize ?m GOSSIP_MAX_PAYLOAD_SIZE = Inr (gossip_header ?m)"
    using serialize_make_message(1) [of "[]" GOSSIP_MSG_JOIN_RESPONSE "my_id e" "e_sequence_num e"]
    by (simp add: no_updates_bytes)
  note b = bootstrap_serialize_bytes [OF bootstrap_routers_ok [OF assms], of 1384 ?k, simplified]
  have payload: "GOSSIP_MAX_PAYLOAD_SIZE = 1400" by (simp add: GOSSIP_MAX_PAYLOAD_SIZE_def)
  show "send_join_response ip port e = send_datagram (join_response e) ip port (bump_sequence e)"
    using b(1) m by (simp add: send_join_response_def join_response_def Let_def payload)
  have "length (join_response e) = 16 + (1 + 130 * ?k)"
    using b(2) by (simp add: join_response_def Let_def)
  then show "length (join_response e) \<le> GOSSIP_MAX_PAYLOAD_SIZE" unfolding payload by linarith
qed

lemma send_join_response_wf:
  assumes "engine_wf e"
  shows "engine_wf (send_join_response ip port e)"
proof -
  have wf: "list_all member_wf (members (view e))" using assms by (simp add: engine_wf_def)
  let ?m = "make_message GOSSIP_MSG_JOIN_RESPONSE (my_id e) (e_sequence_num e) []"
  obtain rest where r: "join_response e = message_bytes ?m @ rest"
    unfolding no_updates_bytes by (auto simp: join_response_def Let_def)
  have "datagram_ok (my_id e) \<lparr>d_bytes = join_response e, d_ip = ip, d_port = port\<rparr>"
    using send_join_response_eq(2) [OF wf] unfolding r by (intro make_message_datagram_ok) simp_all
  then show ?thesis using assms by (simp add: send_join_response_eq(1) [OF wf] wf_intros)
qed

lemma handle_worker_join_wf:
  assumes "engine_wf e" "list_all update_ok (updates msg)" "updates msg \<noteq> []"
    and "handle_worker_join_message now connect e msg ip port = Inr e'"
  shows "engine_wf e'"
proof -
  have "update_ok (updates msg ! 0)" using assms(2,3) by (simp add: list_all_length)
  with assms show ?thesis
    by (auto simp: handle_worker_join_message_def Let_def split: if_splits
        intro!: send_join_response_wf worker_join_process_wf)
qed

section \<open>Dispatch\<close>

lemma dispatch_wf:
  assumes "engine_wf e" "list_all update_ok (updates msg)" "updates msg \<noteq> []"
    and "dispatch_message now connect e msg ip port = Inr e'"
  shows "engine_wf e'"
proof -
  have ack: "engine_wf (ack_recover now (sender_id msg) (snd (remove_pending_ack e (sender_id msg))))"
    using assms(1) by (intro ack_recover_wf remove_pending_ack_wf)
  show ?thesis
    using assms(1,4) unfolding dispatch_message_def
    by (auto split: if_splits
        simp: handle_ack_message_def handle_suspect_message_def handle_alive_message_def
          handle_dead_message_def handle_join_message_def
        intro: handle_ping_wf [OF assms(1,2)] handle_worker_join_wf [OF assms(1-3)] set_status_wf assms(1)
          join_loop_wf [OF assms(1,2)] for_updates_wf [OF ack_update_wf _ ack assms(2)]
          for_updates_wf [OF suspect_one_wf _ assms(1,2)] for_updates_wf [OF alive_one_wf _ assms(1,2)]
          for_updates_wf [OF dead_one_wf _ assms(1,2)])
qed

lemma listener_step_wf:
  assumes "engine_wf e" and "listener_step now connect packet ip port e = Inr e'"
  shows "engine_wf e'"
proof (cases "gossip_message_deserialize (take GOSSIP_MAX_PAYLOAD_SIZE packet)")
  case (Inl err)
  with assms show ?thesis by (auto simp: listener_step_def Let_def split: if_splits)
next
  case (Inr msg)
  from deserialized_updates_ok [OF Inr] have "list_all update_ok (updates msg)" "updates msg \<noteq> []"
    by (auto simp: gossip_size_defs)
  from dispatch_wf [OF assms(1) this] Inr assms show ?thesis
    by (auto simp: listener_step_def Let_def split: if_splits)
qed

end
