(* ===== verification/Gossip_Rounds.thy ===== *)
theory Gossip_Rounds
  imports Gossip_Invariant
begin

text \<open>
  The protocol thread of src/cluster/gossip_engine.c (one SWIM round and the functions it calls)
  and the public functions of the engine. \<open>rand()\<close> and the outcome of a send are arguments. The engine as a whole is the step
  relation \<open>engine_step\<close>: a packet taken by the listener thread, or one of the calls a round makes,
  or a call of the public API; a reachable state is one the two threads can interleave to.
\<close>

section \<open>One protocol round\<close>

definition live_peers :: "gossip_engine \<Rightarrow> node_id list" where
  "live_peers e = map m_node_id (filter
     (\<lambda>m. \<not> (m_node_id m = my_id e \<or> m_status m = NODE_STATUS_DEAD)) (members (view e)))"

text \<open>The array of candidates has room for \<open>MAX_CLUSTER_NODES\<close> ids.\<close>

definition peer_candidates :: "gossip_engine \<Rightarrow> node_id list" where
  "peer_candidates e = take MAX_CLUSTER_NODES (live_peers e)"

definition select_random_peer :: "nat \<Rightarrow> gossip_engine \<Rightarrow> node_id" where
  "select_random_peer rand e =
     (let peer_list = peer_candidates e
      in if peer_list = [] then 0 else peer_list ! (rand mod length peer_list))"

definition send_ping_to_node ::
  "u64 \<Rightarrow> bool \<Rightarrow> node_id \<Rightarrow> gossip_engine \<Rightarrow> c_error + int \<times> gossip_engine" where
  "send_ping_to_node now send_ok target_node e =
     (case cluster_view_get (view e) target_node of
        None \<Rightarrow> Inr (-1, e)
      | Some target \<Rightarrow>
          (let batch = update_queue_pop_batch (uqueue e) (unat (max_piggyback (e_config e)));
               queued = fst batch;
               e1 = e\<lparr>uqueue := snd batch\<rparr>
           in if GOSSIP_MAX_PIGGYBACK_UPDATES < length queued then Inl Out_of_bounds
              else
                let us = (if queued = [] then cluster_state_updates now GOSSIP_MAX_PIGGYBACK_UPDATES e1
                          else queued);
                    e2 = send_new_message GOSSIP_MSG_PING us (strcpy_to MAX_IP_LEN (m_ip_address target))
                           (m_gossip_port target) e1
                in if \<not> send_ok then Inr (-1, e2)
                   else Inr (0, snd (add_pending_ack now e2 target_node))))"

definition dead_update :: "u64 \<Rightarrow> cluster_member \<Rightarrow> gossip_member_update" where
  "dead_update now m =
     \<lparr>u_node_id = m_node_id m, u_node_type = m_node_type m,
      u_ip_address = strcpy_to MAX_IP_LEN (m_ip_address m), u_gossip_port = m_gossip_port m,
      u_data_port = m_data_port m, u_status = NODE_STATUS_DEAD, u_incarnation = m_incarnation m,
      u_timestamp_ms = now\<rparr>"

definition suspect_expired :: "u64 \<Rightarrow> gossip_engine \<Rightarrow> cluster_member \<Rightarrow> bool" where
  "suspect_expired now e m \<longleftrightarrow> m_status m = NODE_STATUS_SUSPECT
     \<and> ucast (dead_timeout_ms (e_config e)) < now - m_last_seen_ms m"

definition check_suspect_slot :: "u64 \<Rightarrow> gossip_engine \<Rightarrow> nat \<Rightarrow> gossip_engine" where
  "check_suspect_slot now e i =
     (let m = members (view e) ! i in
      if suspect_expired now e m then
        notify (m_node_id m) (m_node_type m) (strcpy_to MAX_IP_LEN (m_ip_address m)) (m_data_port m)
          MEMBER_EVENT_LEAVE
          (push_update (dead_update now m)
            (set_status now (m_node_id m) NODE_STATUS_DEAD (m_incarnation m) e))
      else e)"

definition check_suspect_timeouts :: "u64 \<Rightarrow> gossip_engine \<Rightarrow> gossip_engine" where
  "check_suspect_timeouts now e =
     foldl (check_suspect_slot now) e [0..<length (members (view e))]"

definition swap :: "nat \<Rightarrow> nat \<Rightarrow> 'a list \<Rightarrow> 'a list" where
  "swap i j xs = xs[i := xs ! j, j := xs ! i]"

text \<open>The Fisher-Yates loop from index \<open>i\<close>, \<open>n\<close> iterations to go.\<close>

fun gossip_loop ::
  "u64 \<Rightarrow> (nat \<Rightarrow> nat) \<Rightarrow> nat \<Rightarrow> nat \<Rightarrow> node_id list \<Rightarrow> gossip_engine \<Rightarrow> c_error + gossip_engine" where
  "gossip_loop now rand i 0 peer_list e = Inr e"
| "gossip_loop now rand i (Suc n) peer_list e =
     (let peer_list' = swap i (i + rand i mod (length peer_list - i)) peer_list
      in case cluster_view_get (view e) (peer_list' ! i) of
           None \<Rightarrow> gossip_loop now rand (Suc i) n peer_list' e
         | Some peer \<Rightarrow>
             (let us = cluster_state_updates now (unat (max_piggyback (e_config e))) e
              in if GOSSIP_MAX_PIGGYBACK_UPDATES < length us then Inl Out_of_bounds
                 else gossip_loop now rand (Suc i) n peer_list'
                   (send_new_message GOSSIP_MSG_ALIVE us (strcpy_to MAX_IP_LEN (m_ip_address peer))
                     (m_gossip_port peer) e)))"

definition gossip_to_random_peers ::
  "u64 \<Rightarrow> (nat \<Rightarrow> nat) \<Rightarrow> gossip_engine \<Rightarrow> c_error + gossip_engine" where
  "gossip_to_random_peers now rand e =
     (let peer_list = peer_candidates e
      in if peer_list = [] then Inr e
         else gossip_loop now rand 0 (min (length peer_list) (unat (fanout (e_config e)))) peer_list e)"

definition update_self_in_cluster_view :: "u64 \<Rightarrow> gossip_engine \<Rightarrow> gossip_engine" where
  "update_self_in_cluster_view now e =
     (case member_index (view e) (my_id e) of
        None \<Rightarrow> e
      | Some i \<Rightarrow> e\<lparr>view := (view e)\<lparr>members := (members (view e))[i := (members (view e) ! i)\<lparr>
          m_last_seen_ms := now, m_incarnation := e_incarnation e, m_status := NODE_STATUS_ALIVE\<rparr>]\<rparr>\<rparr>)"

text \<open>The census a round logs every tenth time: alive, suspect, dead.\<close>

definition cluster_census :: "gossip_engine \<Rightarrow> nat \<times> nat \<times> nat" where
  "cluster_census e =
     (let count = (\<lambda>st. length (filter (\<lambda>m. m_status m = st) (members (view e))))
      in (count NODE_STATUS_ALIVE, count NODE_STATUS_SUSPECT, count NODE_STATUS_DEAD))"

definition protocol_round ::
  "u64 \<Rightarrow> nat \<Rightarrow> nat \<Rightarrow> bool \<Rightarrow> (nat \<Rightarrow> nat) \<Rightarrow> gossip_engine \<Rightarrow> c_error + gossip_engine" where
  "protocol_round now round_no r send_ok rand e =
     (let e1 = update_self_in_cluster_view now e;
          target = select_random_peer r e1
      in case (if target \<noteq> 0 then send_ping_to_node now send_ok target e1 else Inr (0, e1)) of
           Inl err \<Rightarrow> Inl err
         | Inr (_, e2) \<Rightarrow>
             (let e3 = check_suspect_timeouts now (check_ack_timeouts now e2)
              in if round_no mod 3 = 0 then gossip_to_random_peers now rand e3 else Inr e3))"

section \<open>Public functions\<close>

definition gossip_engine_add_seed :: "u64 \<Rightarrow> string \<Rightarrow> u16 \<Rightarrow> gossip_engine \<Rightarrow> int \<times> gossip_engine" where
  "gossip_engine_add_seed now ip port e =
     (case gossip_message_serialize (make_message GOSSIP_MSG_JOIN (my_id e) (e_sequence_num e)
             [self_update now e]) GOSSIP_MAX_PAYLOAD_SIZE of
        Inl _ \<Rightarrow> (-1, bump_sequence e)
      | Inr bs \<Rightarrow> (0, send_datagram bs ip port (bump_sequence e)))"

definition self_member :: "u64 \<Rightarrow> gossip_engine \<Rightarrow> cluster_member" where
  "self_member now e =
     \<lparr>m_node_id = my_id e, m_node_type = my_type e, m_ip_address = strcpy_to MAX_IP_LEN (my_ip e),
      m_gossip_port = e_gossip_port e, m_data_port = e_data_port e, m_status = NODE_STATUS_ALIVE,
      m_last_seen_ms = now, m_incarnation = e_incarnation e\<rparr>"

definition gossip_engine_announce_join :: "u64 \<Rightarrow> gossip_engine \<Rightarrow> gossip_engine" where
  "gossip_engine_announce_join now e =
     (push_update (self_update now e) ^^ 5) (add_member now (self_member now e) e)"

definition leave_update :: "u64 \<Rightarrow> gossip_engine \<Rightarrow> gossip_member_update" where
  "leave_update now e = zero_update\<lparr>u_node_id := my_id e, u_status := NODE_STATUS_DEAD,
     u_incarnation := e_incarnation e, u_timestamp_ms := now\<rparr>"

definition gossip_engine_leave :: "u64 \<Rightarrow> gossip_engine \<Rightarrow> gossip_engine" where
  "gossip_engine_leave now e =
     (let msg = make_message GOSSIP_MSG_LEAVE (my_id e) (e_sequence_num e) [leave_update now e]
      in foldl (\<lambda>e' m. if m_node_id m = my_id e' then e'
                       else send_message msg (m_ip_address m) (m_gossip_port m) e')
           (bump_sequence e) (members (view e)))"

section \<open>The engine as a step relation\<close>

datatype engine_event =
    Ev_packet u64 "rpc_channel option" bytes string u16
  | Ev_update_self u64
  | Ev_ping u64 bool node_id
  | Ev_check_acks u64
  | Ev_check_suspects u64
  | Ev_gossip u64 "nat \<Rightarrow> nat"
  | Ev_add_seed u64 string u16
  | Ev_announce_join u64
  | Ev_leave u64
  | Ev_set_callback bool

fun engine_apply :: "engine_event \<Rightarrow> gossip_engine \<Rightarrow> c_error + gossip_engine" where
  "engine_apply (Ev_packet now connect packet ip port) e = listener_step now connect packet ip port e"
| "engine_apply (Ev_update_self now) e = Inr (update_self_in_cluster_view now e)"
| "engine_apply (Ev_ping now send_ok n) e = map_sum (\<lambda>err. err) snd (send_ping_to_node now send_ok n e)"
| "engine_apply (Ev_check_acks now) e = Inr (check_ack_timeouts now e)"
| "engine_apply (Ev_check_suspects now) e = Inr (check_suspect_timeouts now e)"
| "engine_apply (Ev_gossip now rand) e = gossip_to_random_peers now rand e"
| "engine_apply (Ev_add_seed now ip port) e = Inr (snd (gossip_engine_add_seed now ip port e))"
| "engine_apply (Ev_announce_join now) e = Inr (gossip_engine_announce_join now e)"
| "engine_apply (Ev_leave now) e = Inr (gossip_engine_leave now e)"
| "engine_apply (Ev_set_callback cb) e = Inr (gossip_engine_set_callback e cb)"

inductive engine_step :: "gossip_engine \<Rightarrow> engine_event \<Rightarrow> gossip_engine \<Rightarrow> bool" where
  "engine_apply ev e = Inr e' \<Longrightarrow> engine_step e ev e'"

inductive_simps engine_step_iff: "engine_step e ev e'"

text \<open>A run of an engine ends at the first access out of bounds.\<close>

fun engine_run :: "engine_event list \<Rightarrow> gossip_engine \<Rightarrow> c_error + gossip_engine" where
  "engine_run [] e = Inr e"
| "engine_run (ev # evs) e = and_then (engine_apply ev e) (engine_run evs)"

section \<open>Every step keeps the invariant\<close>

lemma suspect_update_ok: "update_ok (suspect_update now n inc)"
  using zero_update_ok by (simp add: update_ok_def suspect_update_def)

lemma leave_update_ok: "update_ok (leave_update now e)"
  using zero_update_ok by (simp add: update_ok_def leave_update_def)

lemma dead_update_ok: "member_wf m \<Longrightarrow> update_ok (dead_update now m)"
  by (simp add: update_ok_def dead_update_def member_wf_def)

lemma set_ack_wf: "engine_wf e \<Longrightarrow> engine_wf (e\<lparr>pending_acks := (pending_acks e)[i := a]\<rparr>)"
  by (simp add: engine_wf_def)

lemma check_ack_slot_wf: "engine_wf e \<Longrightarrow> engine_wf (check_ack_slot now e i)"
  by (auto simp: check_ack_slot_def Let_def split_beta
      intro!: set_ack_wf push_update_wf set_status_wf suspect_update_ok)

lemma foldl_wf: "(\<And>e i. engine_wf e \<Longrightarrow> engine_wf (f e i)) \<Longrightarrow> engine_wf e \<Longrightarrow> engine_wf (foldl f e xs)"
  by (induction xs arbitrary: e) auto

lemma check_ack_timeouts_wf: "engine_wf e \<Longrightarrow> engine_wf (check_ack_timeouts now e)"
  unfolding check_ack_timeouts_def by (rule foldl_wf) (rule check_ack_slot_wf)

lemma set_status_length [simp]:
  "length (members (view (set_status now n st inc e))) = length (members (view e))"
  using arg_cong [OF update_status_keys [of now "view e" n st inc], of length]
  by (simp add: set_status_def)

lemma check_suspect_slot_wf:
  assumes "engine_wf e" "i < length (members (view e))"
  shows "engine_wf (check_suspect_slot now e i)"
    and "length (members (view (check_suspect_slot now e i))) = length (members (view e))"
proof -
  have "member_wf (members (view e) ! i)" using assms by (simp add: engine_wf_def list_all_length)
  with assms show "engine_wf (check_suspect_slot now e i)"
    by (auto simp: check_suspect_slot_def Let_def
        intro!: notify_wf push_update_wf set_status_wf dead_update_ok)
  show "length (members (view (check_suspect_slot now e i))) = length (members (view e))"
    by (simp add: check_suspect_slot_def Let_def)
qed

lemma check_suspect_loop_wf:
  "engine_wf e \<Longrightarrow> k \<le> length (members (view e)) \<Longrightarrow>
   engine_wf (foldl (check_suspect_slot now) e [0..<k])
   \<and> length (members (view (foldl (check_suspect_slot now) e [0..<k]))) = length (members (view e))"
  by (induction k) (auto simp: check_suspect_slot_wf)

lemma check_suspect_timeouts_wf: "engine_wf e \<Longrightarrow> engine_wf (check_suspect_timeouts now e)"
  unfolding check_suspect_timeouts_def by (simp add: check_suspect_loop_wf)

lemma send_ping_wf:
  assumes "engine_wf e"
  shows "\<exists>ret e'. send_ping_to_node now send_ok n e = Inr (ret, e') \<and> engine_wf e'"
proof (cases "cluster_view_get (view e) n")
  case None
  with assms show ?thesis by (simp add: send_ping_to_node_def)
next
  case (Some target)
  let ?b = "update_queue_pop_batch (uqueue e) (unat (max_piggyback (e_config e)))"
  let ?e1 = "e\<lparr>uqueue := snd ?b\<rparr>"
  have q: "uq_ok (uqueue e)" "list_all update_ok (uq_contents (uqueue e))"
    "unat (max_piggyback (e_config e)) \<le> GOSSIP_MAX_PIGGYBACK_UPDATES"
    using assms by (simp_all add: engine_wf_def)
  note b = pop_batch_contents [OF q(1), of "unat (max_piggyback (e_config e))"]
  have fit: "length (fst ?b) \<le> GOSSIP_MAX_PIGGYBACK_UPDATES" using b(1) q(3) by simp
  have ok: "list_all update_ok (fst ?b)" "list_all update_ok (uq_contents (snd ?b))"
    using q(2) b by (auto simp: list_all_iff dest: in_set_takeD in_set_dropD)
  have "engine_wf ?e1" using assms b(2) ok(2) by (simp add: engine_wf_def)
  then have "engine_wf (send_new_message GOSSIP_MSG_PING
      (if fst ?b = [] then cluster_state_updates now GOSSIP_MAX_PIGGYBACK_UPDATES ?e1 else fst ?b) ip port ?e1)"
    for ip port
    using fit ok cluster_state_updates_ok [of ?e1] by (intro send_new_message_wf) auto
  with Some fit show ?thesis
    by (auto simp: send_ping_to_node_def Let_def add_pending_ack_wf)
qed

lemma gossip_loop_wf:
  "engine_wf e \<Longrightarrow> \<exists>e'. gossip_loop now rand i n ps e = Inr e' \<and> engine_wf e'"
proof (induction n arbitrary: i ps e)
  case (Suc n)
  let ?us = "cluster_state_updates now (unat (max_piggyback (e_config e))) e"
  have us: "list_all update_ok ?us" "length ?us \<le> GOSSIP_MAX_PIGGYBACK_UPDATES"
    using Suc.prems cluster_state_updates_ok [of e now "unat (max_piggyback (e_config e))"]
    by (auto simp: engine_wf_def)
  then have "engine_wf (send_new_message GOSSIP_MSG_ALIVE ?us ip port e)" for ip port
    using Suc.prems by (intro send_new_message_wf)
  with Suc us(2) show ?case by (auto simp: Let_def split: option.split)
qed simp

lemma gossip_to_random_peers_wf:
  "engine_wf e \<Longrightarrow> \<exists>e'. gossip_to_random_peers now rand e = Inr e' \<and> engine_wf e'"
  by (auto simp: gossip_to_random_peers_def Let_def gossip_loop_wf)

lemma update_self_wf: "engine_wf e \<Longrightarrow> engine_wf (update_self_in_cluster_view now e)"
proof (cases "member_index (view e) (my_id e)")
  case None
  assume "engine_wf e"
  with None show ?thesis by (simp add: update_self_in_cluster_view_def)
next
  case (Some i)
  assume wf: "engine_wf e"
  let ?m = "(members (view e) ! i)\<lparr>m_last_seen_ms := now, m_incarnation := e_incarnation e,
    m_status := NODE_STATUS_ALIVE\<rparr>"
  have i: "i < length (members (view e))" "m_node_id (members (view e) ! i) = my_id e"
    using member_index_SomeD [OF Some] by auto
  have "map m_node_id ((members (view e))[i := ?m]) = map m_node_id (members (view e))"
    using i by (intro map_update_same) simp_all
  moreover have "member_wf ?m" using wf i by (simp add: engine_wf_def member_wf_def list_all_length)
  ultimately show ?thesis
    using wf Some
    by (simp add: engine_wf_def update_self_in_cluster_view_def table_ok_def list_all_update)
qed

lemma add_seed_eq:
  "engine_wf e \<Longrightarrow> gossip_engine_add_seed now ip port e =
     (0, send_new_message GOSSIP_MSG_JOIN [self_update now e] ip port e)"
  using self_update_ok [of e now]
    serialize_make_message(1) [of "[self_update now e]" GOSSIP_MSG_JOIN "my_id e" "e_sequence_num e"]
  by (simp add: gossip_engine_add_seed_def send_new_message_def send_message_def
      GOSSIP_MAX_PIGGYBACK_UPDATES_def)

lemma self_member_wf: "engine_wf e \<Longrightarrow> member_wf (self_member now e)"
  by (simp add: engine_wf_def self_member_def member_wf_def)

lemma leave_wf:
  assumes "engine_wf e"
  shows "engine_wf (gossip_engine_leave now e)"
proof -
  let ?us = "[leave_update now e]" let ?id = "my_id e" let ?s = "e_sequence_num e"
  let ?m = "make_message GOSSIP_MSG_LEAVE ?id ?s ?us"
  have us: "length ?us \<le> GOSSIP_MAX_PIGGYBACK_UPDATES" "list_all update_ok ?us"
    by (simp_all add: leave_update_ok gossip_size_defs)
  have d: "datagram_ok ?id \<lparr>d_bytes = message_bytes ?m, d_ip = ip, d_port = port\<rparr>" for ip port
    using make_message_datagram_ok [OF us, of GOSSIP_MSG_LEAVE ?id ?s "[]"]
      serialize_make_message(2) [OF us, of GOSSIP_MSG_LEAVE ?id ?s] by simp
  have send: "send_message ?m ip port e' = send_datagram (message_bytes ?m) ip port e'" for ip port e'
    by (simp add: send_message_def serialize_make_message(1) [OF us])
  have loop: "engine_wf e' \<and> my_id e' = ?id \<Longrightarrow> engine_wf (foldl (\<lambda>e' m. if m_node_id m = my_id e' then e'
      else send_message ?m (m_ip_address m) (m_gossip_port m) e') e' ms)" for e' ms
  proof (induction ms arbitrary: e')
    case (Cons m ms)
    have "engine_wf (send_message ?m (m_ip_address m) (m_gossip_port m) e')
        \<and> my_id (send_message ?m (m_ip_address m) (m_gossip_port m) e') = ?id"
      using Cons.prems d unfolding send by (simp add: send_datagram_wf)
    with Cons show ?case by simp
  qed simp
  show ?thesis
    using assms loop [of "bump_sequence e" "members (view e)"]
    unfolding gossip_engine_leave_def Let_def by (simp add: bump_sequence_wf)
qed

lemma engine_apply_wf:
  assumes "engine_wf e" "engine_apply ev e = Inr e'"
  shows "engine_wf e'"
proof (cases ev)
  case (Ev_ping now ok n)
  with assms send_ping_wf [OF assms(1), of now ok n] show ?thesis by auto
next
  case (Ev_gossip now rand)
  with assms gossip_to_random_peers_wf [OF assms(1), of now rand] show ?thesis by auto
next
  case (Ev_add_seed now ip port)
  have "engine_wf (send_new_message GOSSIP_MSG_JOIN [self_update now e] ip port e)"
    using assms(1) by (intro send_new_message_wf) (simp_all add: self_update_ok gossip_size_defs)
  with Ev_add_seed assms show ?thesis by (auto simp: add_seed_eq)
next
  case (Ev_announce_join now)
  with assms show ?thesis
    by (auto simp: gossip_engine_announce_join_def self_update_ok self_member_wf
        intro!: push_update_pow_wf add_member_wf)
next
  case (Ev_set_callback cb)
  with assms show ?thesis by (auto simp: gossip_engine_set_callback_def engine_wf_def)
qed (use assms in \<open>auto simp: listener_step_wf update_self_wf check_ack_timeouts_wf
      check_suspect_timeouts_wf leave_wf\<close>)

end
