(* ===== verification/Runs.thy ===== *)
theory Runs
  imports Roole_Prelude
begin

text \<open>
  Runs of the event-driven parts: a part is a step relation, a run is a sequence of its steps. The
  contract of an invariant is proved once and interpreted for the request server, for a cluster
  of gossip engines and for a membership handle.
\<close>

locale run_invariant =
  fixes step :: "'s \<Rightarrow> 's \<Rightarrow> bool"
    and inv :: "'s \<Rightarrow> bool"
  assumes keeps: "inv s \<Longrightarrow> step s t \<Longrightarrow> inv t"
begin

lemma run_keeps: "step\<^sup>*\<^sup>* s t \<Longrightarrow> inv s \<Longrightarrow> inv t"
  by (induction rule: rtranclp_induct) (auto intro: keeps)

lemma run_enables: "step\<^sup>*\<^sup>* s t \<Longrightarrow> inv s \<Longrightarrow> (\<And>u. inv u \<Longrightarrow> P u) \<Longrightarrow> P t"
  using run_keeps by blast

end

end
