(* ===== verification/Gossip_Properties.thy ===== *)
theory Gossip_Properties
  imports Gossip_Rounds Runs
begin

text \<open>
  What the gossip engine guarantees, and where it falls short of SWIM: safety of a whole cluster
  running this code, what a hostile datagram can do, suspicion, recovery and death, and the fate of
  verdicts and rejoining nodes under the incarnation rules.
\<close>

section \<open>Memory safety of a cluster\<close>

lemma for_updates_not_Inl: "n \<le> length us \<Longrightarrow> for_updates f n us e \<noteq> Inl err"
  by (induction f n us e rule: for_updates.induct) auto

lemma join_loop_not_Inl: "n \<le> length us \<Longrightarrow> join_loop now s ip n us e \<noteq> Inl err"
  by (induction now s ip n us e rule: join_loop.induct) auto

lemma dispatch_total:
  assumes "unat (num_updates msg) \<le> length (updates msg)"
  shows "\<exists>e'. dispatch_message now connect e msg ip port = Inr e'"
proof -
  have ping: "handle_ping_message now e msg ip port \<noteq> Inl err" for err
    using for_updates_not_Inl [OF assms] by (auto simp: handle_ping_message_def split: sum.split)
  have "dispatch_message now connect e msg ip port \<noteq> Inl err" for err
    using ping for_updates_not_Inl [OF assms] join_loop_not_Inl [OF assms]
    by (simp add: dispatch_message_def handle_ack_message_def
        handle_suspect_message_def handle_alive_message_def handle_dead_message_def
        handle_join_message_def handle_worker_join_message_def Let_def)
  then show ?thesis by (cases "dispatch_message now connect e msg ip port") auto
qed

text \<open>A datagram whose header announces more updates than a message can hold.\<close>

definition announces_too_many :: "bytes \<Rightarrow> bool" where
  "announces_too_many packet =
     (case gossip_message_deserialize (take GOSSIP_MAX_PAYLOAD_SIZE packet) of
        Inl _ \<Rightarrow> False
      | Inr msg \<Rightarrow> GOSSIP_MAX_PIGGYBACK_UPDATES < unat (num_updates msg))"

lemma listener_faults:
  assumes "listener_step now connect packet ip port e = Inl err"
  shows "announces_too_many packet"
proof (rule ccontr)
  assume few: "\<not> announces_too_many packet"
  obtain msg where msg: "gossip_message_deserialize (take GOSSIP_MAX_PAYLOAD_SIZE packet) = Inr msg"
      "dispatch_message now connect e msg ip port = Inl err"
    using assms by (auto simp: listener_step_def Let_def split: if_splits sum.splits)
  then have "unat (num_updates msg) \<le> length (updates msg)"
    using few deserialized_updates_ok [OF msg(1)] by (simp add: announces_too_many_def)
  from dispatch_total [OF this, of now connect e ip port] msg(2) show False by simp
qed

lemma listener_total:
  assumes "datagram_ok s d"
  shows "\<exists>e'. listener_step now connect (d_bytes d) ip port e = Inr e'"
proof -
  have "\<not> announces_too_many (d_bytes d)"
    using assms by (auto simp: datagram_ok_def announces_too_many_def split: sum.splits)
  then show ?thesis
    using listener_faults [of now connect "d_bytes d" ip port e]
    by (cases "listener_step now connect (d_bytes d) ip port e") auto
qed

text \<open>A cluster: one engine per node. A node makes a step of its own, or takes from the network any
  datagram any node has ever sent (datagrams may be lost, duplicated and reordered).\<close>

type_synonym cluster = "nat \<Rightarrow> gossip_engine"

fun is_packet :: "engine_event \<Rightarrow> bool" where
  "is_packet (Ev_packet now connect packet ip port) = True"
| "is_packet _ = False"

inductive cluster_step :: "cluster \<Rightarrow> cluster \<Rightarrow> bool" where
  own: "\<not> is_packet ev \<Longrightarrow> engine_step (c i) ev e \<Longrightarrow> cluster_step c (c(i := e))"
| deliver: "d \<in> set (sent (c i)) \<Longrightarrow> engine_step (c j) (Ev_packet now connect (d_bytes d) ip port) e \<Longrightarrow>
    cluster_step c (c(j := e))"

inductive_cases cluster_stepE: "cluster_step c c'"

lemma cluster_step_wf:
  assumes "\<forall>i. engine_wf (c i)" and "cluster_step c c'"
  shows "\<forall>i. engine_wf (c' i)"
proof -
  have step: "engine_wf e" if "engine_step (c j) ev e" for j ev e
    using that assms(1) engine_apply_wf [of "c j" ev e] by (simp add: engine_step_iff)
  from assms(2) show ?thesis by (rule cluster_stepE) (use step assms(1) in auto)
qed

interpretation cluster_runs: run_invariant cluster_step "\<lambda>c. \<forall>i. engine_wf (c i)"
  by unfold_locales (rule cluster_step_wf)

text \<open>The only event that can make an engine read out of bounds is such a datagram.\<close>

fun overruns :: "engine_event \<Rightarrow> bool" where
  "overruns (Ev_packet now connect packet ip port) = announces_too_many packet"
| "overruns _ = False"

lemma engine_apply_faults:
  assumes "engine_wf e" and "engine_apply ev e = Inl err"
  shows "overruns ev"
proof (cases ev)
  case (Ev_ping now ok n)
  with assms send_ping_wf [OF assms(1), of now ok n] show ?thesis by auto
next
  case (Ev_gossip now rand)
  with assms gossip_to_random_peers_wf [OF assms(1), of now rand] show ?thesis by auto
qed (use assms listener_faults in auto)

lemma engine_run_wf: "engine_wf e \<Longrightarrow> engine_run evs e = Inr e' \<Longrightarrow> engine_wf e'"
proof (induction evs arbitrary: e)
  case (Cons ev evs)
  from Cons.prems(2) obtain e1 where "engine_apply ev e = Inr e1" "engine_run evs e1 = Inr e'"
    by (cases "engine_apply ev e") auto
  then show ?case using Cons.IH engine_apply_wf [OF Cons.prems(1)] by blast
qed simp

lemma engine_run_faults:
  "engine_wf e \<Longrightarrow> engine_run evs e = Inl err \<Longrightarrow>
   \<exists>before ev after e1. evs = before @ ev # after \<and> engine_run before e = Inr e1 \<and> engine_wf e1 \<and> overruns ev"
proof (induction evs arbitrary: e)
  case (Cons ev evs)
  show ?case
  proof (cases "engine_apply ev e")
    case (Inl err')
    with Cons.prems(1) engine_apply_faults [OF Cons.prems(1) Inl] show ?thesis
      by (intro exI [of _ "[]"] exI [of _ ev] exI [of _ evs] exI [of _ e]) simp
  next
    case (Inr e1)
    then have "engine_wf e1" "engine_run evs e1 = Inl err"
      using Cons.prems engine_apply_wf [OF Cons.prems(1) Inr] by simp_all
    from Cons.IH [OF this] obtain before ev' after e2 where
      "evs = before @ ev' # after" "engine_run before e1 = Inr e2" "engine_wf e2" "overruns ev'" by blast
    with Inr show ?thesis
      by (intro exI [of _ "ev # before"] exI [of _ ev'] exI [of _ after] exI [of _ e2]) simp
  qed
qed simp

text \<open>C1: From a well-formed state, an engine that takes any sequence of datagrams, rounds and API
  calls stays well formed: the members of its view are distinct, within capacity and fit for the
  wire, its queue is a ring of at most 256 sendable updates, and every datagram it has sent is one
  that a peer accepts, with at most ten updates and its own id. The only way for such a run to leave
  an array is a datagram whose header announces more than ten updates, and until that arrives the
  engine is well formed.\<close>

theorem engine_invariant:
  assumes "engine_wf e"
  shows "case engine_run evs e of
      Inr e' \<Rightarrow> engine_wf e' \<and> (\<forall>d \<in> set (sent e'). datagram_ok (my_id e') d)
    | Inl err \<Rightarrow> \<exists>before ev after e1. evs = before @ ev # after \<and> engine_run before e = Inr e1 \<and> engine_wf e1
        \<and> (\<exists>now connect packet ip port. ev = Ev_packet now connect packet ip port \<and> announces_too_many packet)"
proof (cases "engine_run evs e")
  case (Inl err)
  from engine_run_faults [OF assms Inl] obtain before ev after e1 where
    ev: "evs = before @ ev # after" "engine_run before e = Inr e1" "engine_wf e1" "overruns ev" by blast
  moreover from ev(4) have "\<exists>now connect packet ip port. ev = Ev_packet now connect packet ip port \<and> announces_too_many packet"
    by (cases ev) auto
  ultimately show ?thesis unfolding Inl sum.case by blast
next
  case (Inr e')
  then show ?thesis using engine_run_wf [OF assms Inr] by (simp add: engine_wf_def list_all_iff)
qed

lemma engine_with_wf:
  "table_ok m_node_id ms 8 \<Longrightarrow> list_all member_wf ms \<Longrightarrow> engine_wf (engine_with ms)"
  using uq_init_ok
  by (simp add: engine_wf_def MAX_IP_LEN_def c_string_def gossip_default_config_def gossip_size_defs)

lemma mk_member_wf [simp]:
  "status_canonical st \<Longrightarrow> type_canonical t \<Longrightarrow> member_wf (mk_member n t st inc)"
  by (simp add: member_wf_def mk_member_def c_string_def MAX_IP_LEN_def)

theorem engine_invariant_witness:
  "engine_wf (check_suspect_timeouts 9000 (engine_with [mk_member 2 NODE_TYPE_WORKER NODE_STATUS_SUSPECT 4]))"
proof -
  let ?e = "engine_with [mk_member 2 NODE_TYPE_WORKER NODE_STATUS_SUSPECT 4]"
  have "engine_run [Ev_check_suspects 9000] ?e = Inr (check_suspect_timeouts 9000 ?e)" by simp
  moreover have "engine_wf ?e" by (intro engine_with_wf) (simp_all add: table_ok_def)
  ultimately show ?thesis using engine_invariant [of ?e "[Ev_check_suspects 9000]"] by (simp del: engine_run.simps)
qed

text \<open>C2: In a cluster where only this code speaks, no node is driven out of the bounds of its
  \<open>updates\<close> array: whatever the nodes do and however the network delays, duplicates and reorders,
  every datagram ever sent is handled by every node it can reach.\<close>

theorem cluster_memory_safe:
  assumes "cluster_step\<^sup>*\<^sup>* c c'" and "\<forall>i. engine_wf (c i)" and "d \<in> set (sent (c' i))"
  shows "\<exists>e. listener_step now connect (d_bytes d) ip port (c' j) = Inr e"
proof -
  have "engine_wf (c' i)" using cluster_runs.run_keeps [OF assms(1,2)] by blast
  with assms(3) have "datagram_ok (my_id (c' i)) d" by (auto simp: engine_wf_def list_all_iff)
  then show ?thesis by (rule listener_total)
qed

theorem cluster_memory_safe_witness:
  "let e = engine_with [mk_member 2 NODE_TYPE_WORKER NODE_STATUS_ALIVE 4];
       e' = snd (gossip_engine_add_seed 5 ''10.0.0.9'' 7000 e)
   in \<exists>d \<in> set (sent e'). \<exists>r. listener_step 6 None (d_bytes d) ''10.0.0.1'' 7000 e = Inr r"
proof -
  let ?e = "engine_with [mk_member 2 NODE_TYPE_WORKER NODE_STATUS_ALIVE 4]"
  let ?e' = "snd (gossip_engine_add_seed 5 ''10.0.0.9'' 7000 ?e)"
  let ?c = "(\<lambda>_. ?e) :: nat \<Rightarrow> gossip_engine"
  have wf: "engine_wf ?e" by (intro engine_with_wf) (simp_all add: table_ok_def)
  have step: "cluster_step ?c (?c(0 := ?e'))"
    by (rule cluster_step.own [where ev = "Ev_add_seed 5 ''10.0.0.9'' 7000"])
      (simp_all add: engine_step_iff)
  have us: "length [self_update 5 ?e] \<le> GOSSIP_MAX_PIGGYBACK_UPDATES" "list_all update_ok [self_update 5 ?e]"
    using self_update_ok [OF wf] by (simp_all add: gossip_size_defs)
  have "sent ?e' \<noteq> []"
    by (simp add: add_seed_eq [OF wf] send_new_message_eq [OF us] send_datagram_def)
  then obtain d where d: "d \<in> set (sent ?e')" by (cases "sent ?e'") auto
  have "\<exists>r. listener_step 6 None (d_bytes d) ''10.0.0.1'' 7000 ((?c(0 := ?e')) 1) = Inr r"
    using wf d r_into_rtranclp [of cluster_step, OF step] by (intro cluster_memory_safe [of ?c "?c(0 := ?e')"]) auto
  with d show ?thesis by (auto simp: Let_def)
qed

text \<open>A hostile datagram is another matter: one whose count byte exceeds ten, long enough for ten
  updates, makes every handler that loops over the updates read past the end of the array.\<close>

theorem oversized_count_overruns:
  assumes "gossip_message_deserialize packet = Inr msg" and "10 < unat (num_updates msg)"
    and "length packet \<le> GOSSIP_MAX_PAYLOAD_SIZE" and "sender_id msg \<noteq> my_id e"
    and "msg_type msg \<in> {GOSSIP_MSG_PING, GOSSIP_MSG_ACK, GOSSIP_MSG_SUSPECT, GOSSIP_MSG_ALIVE, GOSSIP_MSG_DEAD}"
  shows "listener_step now connect packet ip port e = Inl Out_of_bounds"
proof -
  have l: "length (updates msg) < unat (num_updates msg)"
    using deserialized_updates_ok [OF assms(1)] assms(2) by (simp add: gossip_size_defs)
  have long: "\<not> length packet < 16"
    using assms(1) by (auto simp: gossip_message_deserialize_def)
  show ?thesis
    using assms long for_updates_overrun [OF l]
    by (auto simp: listener_step_def Let_def dispatch_message_def gossip_msg_defs
        handle_ping_message_def handle_ack_message_def handle_suspect_message_def
        handle_alive_message_def handle_dead_message_def)
qed

definition hostile_ping :: gossip_message where
  "hostile_ping = (make_message GOSSIP_MSG_PING 9 1 [])\<lparr>num_updates := 11\<rparr>"

theorem oversized_count_overruns_witness:
  "listener_step 5 None (gossip_header hostile_ping @ replicate 400 0) ''10.0.0.3'' 7000 (engine_with [])
     = Inl Out_of_bounds"
proof -
  let ?p = "gossip_header hostile_ping @ replicate 400 0"
  have f: "version hostile_ping = 1" "num_updates hostile_ping = 11" "sender_id hostile_ping = 9"
    "msg_type hostile_ping = GOSSIP_MSG_PING"
    by (simp_all add: hostile_ping_def make_message_def)
  have "length (read_items gossip_deserialize_member_update 40 10 (replicate 400 0)) = 10"
    by (simp add: length_read_items_eq)
  then obtain msg where "gossip_message_deserialize ?p = Inr msg" "num_updates msg = 11"
    "sender_id msg = 9" "msg_type msg = GOSSIP_MSG_PING"
    by (simp add: gossip_message_deserialize_def gossip_header_fields f gossip_size_defs Let_def)
  then show ?thesis
    using oversized_count_overruns [of ?p msg "engine_with []"] by (simp add: gossip_size_defs)
qed

section \<open>Failure detection\<close>

definition declared :: "u64 \<Rightarrow> gossip_engine \<Rightarrow> cluster_member \<Rightarrow> cluster_member" where
  "declared now e m = (if suspect_expired now e m then m\<lparr>m_status := NODE_STATUS_DEAD\<rparr> else m)"

definition leave_notice ::
  "cluster_member \<Rightarrow> node_id \<times> node_type \<times> string \<times> u16 \<times> member_event" where
  "leave_notice m = (m_node_id m, m_node_type m, strcpy_to MAX_IP_LEN (m_ip_address m),
     m_data_port m, MEMBER_EVENT_LEAVE)"

lemma set_dead_member:
  assumes "view_ok (view e)" "i < length (members (view e))"
  defines "m \<equiv> members (view e) ! i"
  shows "members (view (set_status now (m_node_id m) NODE_STATUS_DEAD (m_incarnation m) e))
    = (members (view e))[i := m\<lparr>m_status := NODE_STATUS_DEAD\<rparr>]"
proof -
  have "member_index (view e) (m_node_id m) = Some i"
    using assms by (simp add: member_index_Some_iff table_ok_def)
  moreover have "updated_member now NODE_STATUS_DEAD (m_incarnation m) m = m\<lparr>m_status := NODE_STATUS_DEAD\<rparr>"
    by (cases m) (simp add: updated_member_def)
  ultimately show ?thesis by (simp add: set_status_def update_status_hit m_def)
qed

lemma check_suspect_slot_effect:
  fixes now :: u64 and e :: gossip_engine and i :: nat
  assumes "view_ok (view e)" "i < length (members (view e))"
  defines "e' \<equiv> check_suspect_slot now e i" and "m \<equiv> members (view e) ! i"
  shows "view_ok (view e') \<and> members (view e') = (members (view e))[i := declared now e m]
    \<and> e_config e' = e_config e \<and> has_callback e' = has_callback e
    \<and> notices e' = notices e @ (if has_callback e \<and> suspect_expired now e m then [leave_notice m] else [])
    \<and> uqueue e' = (if suspect_expired now e m
         then snd (update_queue_push (uqueue e) (dead_update now m)) else uqueue e)"
proof (cases "suspect_expired now e m")
  case True
  then show ?thesis
    using set_dead_member [OF assms(1,2), of now]
      update_status_ok [OF assms(1), of now "m_node_id m" NODE_STATUS_DEAD "m_incarnation m"]
    by (simp add: e'_def check_suspect_slot_def m_def Let_def declared_def leave_notice_def
        push_update_def notify_def) (simp add: set_status_def)
next
  case False
  then show ?thesis
    using assms(1,2) by (simp add: e'_def check_suspect_slot_def m_def Let_def declared_def)
qed

lemma check_suspects_prefix:
  assumes "view_ok (view e)" and "k \<le> length (members (view e))"
  shows "let e' = foldl (check_suspect_slot now) e [0..<k] in
    view_ok (view e') \<and> e_config e' = e_config e \<and> has_callback e' = has_callback e
    \<and> members (view e') = map (declared now e) (take k (members (view e))) @ drop k (members (view e))
    \<and> (has_callback e \<longrightarrow> notices e' = notices e
         @ map leave_notice (filter (suspect_expired now e) (take k (members (view e)))))"
  using assms(2)
proof (induction k)
  case 0
  then show ?case using assms(1) by simp
next
  case (Suc k)
  let ?f = "foldl (check_suspect_slot now) e [0..<k]"
  let ?ms = "members (view e)"
  have k: "k < length ?ms" using Suc.prems by simp
  note IH = Suc.IH [OF less_imp_le [OF k], unfolded Let_def]
  have f: "view_ok (view ?f)" "k < length (members (view ?f))" "members (view ?f) ! k = ?ms ! k"
    using IH k by (auto simp: nth_append)
  have same: "suspect_expired now ?f = suspect_expired now e" "declared now ?f = declared now e"
    using IH by (auto simp: suspect_expired_def declared_def fun_eq_iff)
  have take: "take (Suc k) ?ms = take k ?ms @ [?ms ! k]" "drop k ?ms = ?ms ! k # drop (Suc k) ?ms"
    using k by (simp_all add: take_Suc_conv_app_nth Cons_nth_drop_Suc)
  note eff = check_suspect_slot_effect [OF f(1,2), of now, unfolded f(3) same]
  have "(map (declared now e) (take k ?ms) @ ?ms ! k # drop (Suc k) ?ms)[k := declared now e (?ms ! k)]
      = map (declared now e) (take (Suc k) ?ms) @ drop (Suc k) ?ms"
    using k by (simp add: take list_update_append)
  note mem = this
  have v: "view_ok (view (foldl (check_suspect_slot now) e [0..<Suc k]))"
    using conjunct1 [OF eff] by (simp del: fun_upd_apply)
  show ?case unfolding Let_def
    by (rule conjI [OF v]) (use eff IH mem in \<open>simp add: take\<close>)
qed

text \<open>C13: The suspicion timeout declares dead exactly the nodes that have been suspect for longer
  than \<open>dead_timeout_ms\<close>: their status becomes DEAD and nothing else of their entry changes, all
  other members keep theirs, and the callback runs once, with a leave event, for each of them and
  for no other.\<close>

theorem check_suspect_timeouts_spec:
  assumes "view_ok (view e)" and "has_callback e"
  shows "let e' = check_suspect_timeouts now e in
    members (view e') = map (\<lambda>m. if m_status m = NODE_STATUS_SUSPECT
          \<and> now - m_last_seen_ms m > ucast (dead_timeout_ms (e_config e))
        then m\<lparr>m_status := NODE_STATUS_DEAD\<rparr> else m) (members (view e))
    \<and> notices e' = notices e @ map leave_notice (filter (suspect_expired now e) (members (view e)))"
  using check_suspects_prefix [OF assms(1) order_refl, of now] assms(2)
  by (simp add: check_suspect_timeouts_def Let_def declared_def suspect_expired_def)

theorem check_suspect_timeouts_spec_witness:
  "let e = engine_with [mk_member 2 NODE_TYPE_WORKER NODE_STATUS_SUSPECT 4,
                        mk_member 3 NODE_TYPE_WORKER NODE_STATUS_ALIVE 1]
   in map m_status (members (view (check_suspect_timeouts 5101 e))) = [NODE_STATUS_DEAD, NODE_STATUS_ALIVE]
    \<and> map m_status (members (view (check_suspect_timeouts 5100 e))) = [NODE_STATUS_SUSPECT, NODE_STATUS_ALIVE]"
proof -
  let ?e = "engine_with [mk_member 2 NODE_TYPE_WORKER NODE_STATUS_SUSPECT 4,
                        mk_member 3 NODE_TYPE_WORKER NODE_STATUS_ALIVE 1]"
  have ok: "view_ok (view ?e)" "has_callback ?e" by (simp_all add: table_ok_def)
  from check_suspect_timeouts_spec [OF ok, of 5101] check_suspect_timeouts_spec [OF ok, of 5100]
  show ?thesis by (simp add: Let_def gossip_default_config_def)
qed

lemma set_status_get:
  "view_ok (view e) \<Longrightarrow> cluster_view_get (view (set_status now k st inc e)) n =
     (if n = k then map_option (updated_member now st inc) (cluster_view_get (view e) k)
      else cluster_view_get (view e) n)"
  by (simp add: set_status_def update_status_get)

text \<open>An acknowledgement clears suspicion: when a suspected node answers, it is ALIVE again as of
  now with its incarnation unchanged, no other entry of the view changes, and one of the pings
  waiting for it, if any, is freed.\<close>

theorem ack_clears_suspicion:
  assumes "view_ok (view e)" and "cluster_view_get (view e) (sender_id msg) = Some m"
    and "m_status m = NODE_STATUS_SUSPECT" and "num_updates msg = 0"
  shows "\<exists>e'. handle_ack_message now e msg ip port = Inr e'
    \<and> (\<forall>n. cluster_view_get (view e') n = (if n = sender_id msg
         then Some (m\<lparr>m_status := NODE_STATUS_ALIVE, m_last_seen_ms := now\<rparr>)
         else cluster_view_get (view e) n))
    \<and> pending_acks e' = (case find_index (\<lambda>a. pa_active a \<and> pa_target_node a = sender_id msg) (pending_acks e) of
         None \<Rightarrow> pending_acks e
       | Some i \<Rightarrow> (pending_acks e)[i := (pending_acks e ! i)\<lparr>pa_active := False\<rparr>])"
proof -
  let ?e1 = "snd (remove_pending_ack e (sender_id msg))"
  have v: "view ?e1 = view e" by (simp add: remove_pending_ack_def split: option.split)
  have u: "updated_member now NODE_STATUS_ALIVE (m_incarnation m) m
      = m\<lparr>m_status := NODE_STATUS_ALIVE, m_last_seen_ms := now\<rparr>"
    by (cases m) (simp add: updated_member_def)
  have r: "ack_recover now (sender_id msg) ?e1 =
      set_status now (sender_id msg) NODE_STATUS_ALIVE (m_incarnation m) ?e1"
    using assms(2,3) by (simp add: ack_recover_def v)
  have "pending_acks ?e1 = (case find_index (\<lambda>a. pa_active a \<and> pa_target_node a = sender_id msg) (pending_acks e) of
         None \<Rightarrow> pending_acks e
       | Some i \<Rightarrow> (pending_acks e)[i := (pending_acks e ! i)\<lparr>pa_active := False\<rparr>])"
    by (simp add: remove_pending_ack_def split: option.split)
  then show ?thesis
    using assms set_status_get [of ?e1 now "sender_id msg" NODE_STATUS_ALIVE "m_incarnation m"]
    by (simp add: handle_ack_message_def r v u) (simp add: set_status_def)
qed

theorem ack_clears_suspicion_witness:
  "\<exists>e'. handle_ack_message 7 (engine_with [mk_member 2 NODE_TYPE_WORKER NODE_STATUS_SUSPECT 4])
      (make_message GOSSIP_MSG_ACK 2 0 []) ''10.0.0.9'' 7000 = Inr e'
    \<and> map_option m_status (cluster_view_get (view e') 2) = Some NODE_STATUS_ALIVE"
proof -
  let ?m = "mk_member 2 NODE_TYPE_WORKER NODE_STATUS_SUSPECT 4"
  let ?msg = "make_message GOSSIP_MSG_ACK 2 0 []"
  have "view_ok (view (engine_with [?m]))" "cluster_view_get (view (engine_with [?m])) (sender_id ?msg) = Some ?m"
    "m_status ?m = NODE_STATUS_SUSPECT" "num_updates ?msg = 0"
    by (simp_all add: table_ok_def make_message_def get_eq_first_with)
  from ack_clears_suspicion [OF this, of 7 "''10.0.0.9''" 7000] show ?thesis
    by (auto simp: make_message_def)
qed

section \<open>Incarnations\<close>

text \<open>A death verdict is not adopted by other nodes. The update that announces a node dead keeps
  the incarnation at which it was suspected, and PING, ACK and ALIVE processing accept only higher
  incarnations: a peer that has the node at that incarnation, in whatever status, ignores it.\<close>

theorem death_verdict_ignored:
  assumes "cluster_view_get (view peer) (m_node_id dead) = Some m"
    and "m_incarnation dead \<le> m_incarnation m"
  shows "ping_update later (dead_update now dead) peer = peer
    \<and> ack_update later (dead_update now dead) peer = peer
    \<and> alive_one later (dead_update now dead) peer = peer"
  using assms
  by (simp add: ping_update_def ack_update_def alive_one_def dead_update_def not_less [symmetric])

theorem death_verdict_ignored_witness:
  "let peer = engine_with [mk_member 2 NODE_TYPE_WORKER NODE_STATUS_ALIVE 4]
   in ping_update 9 (dead_update 8 (mk_member 2 NODE_TYPE_WORKER NODE_STATUS_SUSPECT 4)) peer = peer"
  using death_verdict_ignored [of "engine_with [mk_member 2 NODE_TYPE_WORKER NODE_STATUS_ALIVE 4]"
      "mk_member 2 NODE_TYPE_WORKER NODE_STATUS_SUSPECT 4" "mk_member 2 NODE_TYPE_WORKER NODE_STATUS_ALIVE 4" 9 8]
  by (simp add: get_eq_first_with Let_def)

text \<open>A rejoin through the cluster view ignores the dead node's old incarnation: a JOIN from a node
  held for DEAD stores the announced incarnation plus one, which can be lower than the one the view
  had, while the queued announcement still carries the announced incarnation.\<close>

theorem join_resets_incarnation:
  assumes "view_ok (view e)" and "uq_ok (uqueue e)" and "uq_count (uqueue e) < MAX_UPDATE_QUEUE"
    and "cluster_view_get (view e) (u_node_id upd) = Some m" and "m_status m = NODE_STATUS_DEAD"
  shows "\<exists>m'. cluster_view_get (view (join_one now src_ip upd e)) (u_node_id upd) = Some m'
    \<and> m_status m' = NODE_STATUS_ALIVE \<and> m_incarnation m' = u_incarnation upd + 1
    \<and> uq_contents (uqueue (join_one now src_ip upd e)) = uq_contents (uqueue e) @ [upd]"
proof -
  let ?r = "(member_of_update 0 upd)\<lparr>m_status := NODE_STATUS_ALIVE, m_ip_address := strcpy_to MAX_IP_LEN src_ip\<rparr>"
  have id: "m_node_id ?r = u_node_id upd" by (simp add: member_of_update_def)
  obtain i where i: "member_index (view e) (u_node_id upd) = Some i" "members (view e) ! i = m"
    using assms(4) by (auto simp: cluster_view_get_def)
  have "cluster_view_get (snd (cluster_view_add now (view e) ?r)) (u_node_id upd) = Some (merged_member now m ?r)"
    using assms(1) i add_old_lookup [of "view e" ?r i "u_node_id upd" now]
    by (simp add: id get_eq_first_with table_ok_def)
  moreover have "merged_member now m ?r = ?r\<lparr>m_last_seen_ms := now, m_incarnation := u_incarnation upd + 1\<rparr>"
    using assms(5) by (simp add: merged_member_def) (simp add: member_of_update_def)
  moreover have "uqueue (notify_update upd ev (add_member now r e)) = uqueue e" for ev r
    by (simp add: notify_update_def effect_defs)
  ultimately show ?thesis
    using assms(2,3) by (simp add: join_one_def notify_update_def)
      (simp add: add_member_def push_update_def push_contents member_of_update_def notify_def)
qed

theorem join_resets_incarnation_witness:
  "let e = engine_with [mk_member 2 NODE_TYPE_WORKER NODE_STATUS_DEAD 40];
       upd = zero_update\<lparr>u_node_id := 2, u_incarnation := 0\<rparr>
   in map_option m_incarnation (cluster_view_get (view (join_one 9 ''10.0.0.2'' upd e)) 2) = Some 1"
proof -
  let ?e = "engine_with [mk_member 2 NODE_TYPE_WORKER NODE_STATUS_DEAD 40]"
  let ?u = "zero_update\<lparr>u_node_id := 2, u_incarnation := 0\<rparr>"
  have "view_ok (view ?e)" "uq_ok (uqueue ?e)" "uq_count (uqueue ?e) < MAX_UPDATE_QUEUE"
    "cluster_view_get (view ?e) (u_node_id ?u) = Some (mk_member 2 NODE_TYPE_WORKER NODE_STATUS_DEAD 40)"
    "m_status (mk_member 2 NODE_TYPE_WORKER NODE_STATUS_DEAD 40) = NODE_STATUS_DEAD"
    using uq_init_ok
    by (simp_all add: table_ok_def get_eq_first_with update_queue_init_def MAX_UPDATE_QUEUE_def)
  from join_resets_incarnation [OF this, of 9 "''10.0.0.2''"] show ?thesis by (auto simp: Let_def)
qed

lemma pushes_view [simp]: "view ((push_update u ^^ n) e) = view e"
  by (induction n) simp_all

lemma establish_channel_view [simp]:
  "view (establish_channel now connect u ip e) = view e"
  "uqueue (establish_channel now connect u ip e) = uqueue e"
  by (auto simp: establish_channel_def split: option.split prod.split sum.split)

lemma send_message_frame [simp]:
  "view (send_message m ip port e) = view e" "uqueue (send_message m ip port e) = uqueue e"
  by (simp_all add: send_message_def send_datagram_def split: sum.split)

lemma send_new_message_frame [simp]:
  "view (send_new_message t us ip port e) = view e" "uqueue (send_new_message t us ip port e) = uqueue e"
  by (simp_all add: send_new_message_def bump_sequence_def)

lemma foldl_frame: "(\<And>e m. g (f e m) = g e) \<Longrightarrow> g (foldl f e ms) = g e"
  by (induction ms arbitrary: e) simp_all

lemma gossip_burst_frame [simp]:
  "view (gossip_burst n u e) = view e" "uqueue (gossip_burst n u e) = uqueue e"
  unfolding gossip_burst_def by (rule foldl_frame; simp)+

lemma push_update_queue [simp]:
  "uqueue (push_update u e) = snd (update_queue_push (uqueue e) u)"
  by (simp add: push_update_def)

lemma push_pow_contents:
  "uq_ok (uqueue e) \<Longrightarrow> uq_count (uqueue e) + n \<le> MAX_UPDATE_QUEUE \<Longrightarrow>
   uq_ok (uqueue ((push_update u ^^ n) e))
   \<and> uq_contents (uqueue ((push_update u ^^ n) e)) = uq_contents (uqueue e) @ replicate n u"
proof (induction n)
  case (Suc n)
  then have ih: "uq_ok (uqueue ((push_update u ^^ n) e))"
    "uq_contents (uqueue ((push_update u ^^ n) e)) = uq_contents (uqueue e) @ replicate n u" by auto
  then have "uq_count (uqueue ((push_update u ^^ n) e)) = uq_count (uqueue e) + n"
    by (metis length_append length_replicate length_uq_contents)
  with Suc.prems ih push_contents [OF ih(1), of u] show ?case
    by (simp add: replicate_append_same flip: replicate_Suc)
qed simp

text \<open>A dead worker that rejoins is stored with its old incarnation plus two, while the ten
  announcements queued for the other nodes carry its old incarnation plus one: the router and the
  rest of the cluster disagree on the incarnation from then on.\<close>

theorem worker_rejoin_incarnations_differ:
  assumes "view_ok (view e)" and "uq_ok (uqueue e)" and "uq_count (uqueue e) + 10 \<le> MAX_UPDATE_QUEUE"
    and "my_type e = NODE_TYPE_ROUTER" and "cluster_view_get (view e) (sender_id msg) = Some m"
    and "m_status m = NODE_STATUS_DEAD" and "num_updates msg > 0"
    and "u_node_id (updates msg ! 0) = sender_id msg"
  shows "\<exists>e' m' u. handle_worker_join_message now connect e msg src_ip src_port = Inr e'
    \<and> cluster_view_get (view e') (sender_id msg) = Some m'
    \<and> m_incarnation m' = m_incarnation m + 2
    \<and> uq_contents (uqueue e') = uq_contents (uqueue e) @ replicate 10 u
    \<and> u_node_id u = sender_id msg \<and> u_incarnation u = m_incarnation m + 1"
proof -
  let ?upd = "updates msg ! 0"
  let ?rj = "(True, m_incarnation m + 1)"
  let ?r = "worker_member now ?upd src_ip ?rj"
  let ?u = "worker_join_update now ?upd src_ip (m_incarnation ?r)"
  let ?e' = "send_join_response src_ip src_port (worker_join_process now connect ?rj ?upd src_ip e)"
  have rj: "worker_rejoin e (sender_id msg) = ?rj" using assms(5,6) by (simp add: worker_rejoin_def)
  have h: "handle_worker_join_message now connect e msg src_ip src_port = Inr ?e'"
    using assms(4,7) by (simp add: handle_worker_join_message_def rj)
  have frame: "view (send_join_response ip port f) = view f" "uqueue (send_join_response ip port f) = uqueue f"
    for ip port f
    by (simp_all add: send_join_response_def Let_def bump_sequence_def send_datagram_def split: sum.split)
  obtain i where i: "member_index (view e) (sender_id msg) = Some i" "members (view e) ! i = m"
    using assms(5) by (auto simp: cluster_view_get_def)
  have id: "m_node_id ?r = sender_id msg" using assms(8) by (simp add: worker_member_def)
  have v: "view ?e' = snd (cluster_view_add now (view e) ?r)"
    by (simp add: frame worker_join_process_def Let_def add_member_def)
  have g: "cluster_view_get (view ?e') (sender_id msg) = Some (merged_member now m ?r)"
    using assms(1) i add_old_lookup [of "view e" ?r i "sender_id msg" now]
    by (simp add: v id get_eq_first_with table_ok_def)
  have inc: "m_incarnation (merged_member now m ?r) = m_incarnation m + 2"
    using assms(6) by (simp add: merged_member_def worker_member_def)
  have "uqueue (notify n t ip port ev (add_member now ?r e)) = uqueue e" for n t ip port ev
    by (simp add: effect_defs)
  then have q: "uq_contents (uqueue ?e') = uq_contents (uqueue e) @ replicate 10 ?u"
    using assms(2,3) push_pow_contents [of "establish_channel now connect ?upd src_ip
        (notify (u_node_id ?upd) NODE_TYPE_WORKER src_ip (u_data_port ?upd) MEMBER_EVENT_UPDATE
          (add_member now ?r e))" 10 ?u]
    by (simp add: frame worker_join_process_def Let_def)
  show ?thesis
    by (intro exI [of _ ?e'] exI [of _ "merged_member now m ?r"] exI [of _ ?u])
      (use h g inc q assms(8) in \<open>simp add: worker_join_update_def worker_member_def\<close>)
qed

theorem worker_rejoin_incarnations_differ_witness:
  "\<exists>e'. handle_worker_join_message 9 None (engine_with [mk_member 2 NODE_TYPE_WORKER NODE_STATUS_DEAD 40])
      (make_message GOSSIP_MSG_WORKER_JOIN 2 0 [zero_update\<lparr>u_node_id := 2\<rparr>]) ''10.0.0.2'' 7000 = Inr e'
    \<and> map_option m_incarnation (cluster_view_get (view e') 2) = Some 42"
proof -
  let ?e = "engine_with [mk_member 2 NODE_TYPE_WORKER NODE_STATUS_DEAD 40]"
  let ?msg = "make_message GOSSIP_MSG_WORKER_JOIN 2 0 [zero_update\<lparr>u_node_id := 2\<rparr>]"
  have "view_ok (view ?e)" "uq_ok (uqueue ?e)" "uq_count (uqueue ?e) + 10 \<le> MAX_UPDATE_QUEUE"
    "my_type ?e = NODE_TYPE_ROUTER"
    "cluster_view_get (view ?e) (sender_id ?msg) = Some (mk_member 2 NODE_TYPE_WORKER NODE_STATUS_DEAD 40)"
    "m_status (mk_member 2 NODE_TYPE_WORKER NODE_STATUS_DEAD 40) = NODE_STATUS_DEAD"
    "num_updates ?msg > 0" "u_node_id (updates ?msg ! 0) = sender_id ?msg"
    using uq_init_ok
    by (simp_all add: table_ok_def get_eq_first_with update_queue_init_def MAX_UPDATE_QUEUE_def
        make_message_def fill_updates_def)
  from worker_rejoin_incarnations_differ [OF this, of 9 None "''10.0.0.2''" 7000]
  show ?thesis by (auto simp: make_message_def)
qed

text \<open>A graceful leave is judged by the wrong counter: the receiver compares the sender's message
  sequence number with the incarnation it has. The leave is ignored when the node has sent fewer
  messages than its incarnation, and otherwise the entry is left with the sequence number as its
  incarnation.\<close>

theorem leave_compares_sequence_number:
  assumes "view_ok (view e)" and "cluster_view_get (view e) (sender_id msg) = Some m"
    and "msg_type msg = GOSSIP_MSG_LEAVE"
  shows "\<exists>e'. dispatch_message now connect e msg ip port = Inr e'
    \<and> cluster_view_get (view e') (sender_id msg) =
       (if sequence_num msg < m_incarnation m then Some m
        else Some (m\<lparr>m_status := NODE_STATUS_DEAD, m_incarnation := sequence_num msg\<rparr>))"
proof -
  have "updated_member now NODE_STATUS_DEAD (sequence_num msg) m =
      (if sequence_num msg < m_incarnation m then m
       else m\<lparr>m_status := NODE_STATUS_DEAD, m_incarnation := sequence_num msg\<rparr>)"
    by (cases m) (auto simp: updated_member_def)
  with assms show ?thesis
    by (simp add: dispatch_message_def gossip_msg_defs set_status_get)
qed

theorem leave_compares_sequence_number_witness:
  "\<exists>e'. dispatch_message 9 None (engine_with [mk_member 2 NODE_TYPE_WORKER NODE_STATUS_ALIVE 40])
      (make_message GOSSIP_MSG_LEAVE 2 12 []) ''10.0.0.2'' 7000 = Inr e'
    \<and> map_option m_status (cluster_view_get (view e') 2) = Some NODE_STATUS_ALIVE"
  using leave_compares_sequence_number [of "engine_with [mk_member 2 NODE_TYPE_WORKER NODE_STATUS_ALIVE 40]"
      "make_message GOSSIP_MSG_LEAVE 2 12 []" "mk_member 2 NODE_TYPE_WORKER NODE_STATUS_ALIVE 40" 9 None
      "''10.0.0.2''" 7000]
  by (simp add: table_ok_def get_eq_first_with make_message_def) (metis mk_member_simps(2))

text \<open>A suspicion that starts with an acknowledgement timeout is announced without the node's
  address: a peer that does not know the node adds a member with an empty address, type UNKNOWN and
  ports 0, tells its callback of a join, and queues the same update for others.\<close>

theorem suspicion_announced_without_address:
  assumes "view_ok (view peer)" and "cluster_view_get (view peer) n = None"
    and "length (members (view peer)) < view_capacity (view peer)"
  shows "\<exists>m. cluster_view_get (view (ping_update later (suspect_update now n inc) peer)) n = Some m
    \<and> m_ip_address m = [] \<and> m_node_type m = NODE_TYPE_UNKNOWN \<and> m_gossip_port m = 0
    \<and> m_status m = NODE_STATUS_SUSPECT"
proof -
  let ?u = "suspect_update now n inc"
  have id: "u_node_id ?u = n" "m_node_id (member_of_update later ?u) = n"
    by (simp_all add: suspect_update_def member_of_update_def)
  have none: "member_index (view peer) n = None" "first_with m_node_id n (members (view peer)) = None"
    using assms(2) get_None_iff [of "view peer" n]
    by (simp_all add: member_index_None_iff get_eq_first_with)
  have "cluster_view_get (view (ping_update later ?u peer)) n
      = Some ((member_of_update later ?u)\<lparr>m_last_seen_ms := later\<rparr>)"
    using assms none
    by (simp add: ping_update_def id notify_update_def)
      (simp add: add_member_def cluster_view_add_def id get_eq_first_with first_with_append)
  then show ?thesis
    by (simp add: member_of_update_def suspect_update_def zero_update_def c_string_def MAX_IP_LEN_def)
qed

theorem suspicion_announced_without_address_witness:
  "let peer = ping_update 9 (suspect_update 8 2 4) (engine_with [])
   in map_option m_ip_address (cluster_view_get (view peer) 2) = Some []"
  using suspicion_announced_without_address [of "engine_with []" 2 9 8 4]
  by (auto simp: table_ok_def get_eq_first_with Let_def)

end
