(* ===== verification/C_Strings.thy ===== *)
theory C_Strings
  imports Roole_Common
begin

text \<open>
  The C string functions the text-processing parts of the program call (src/core/config.c,
  src/core/config_validator.c, src/core/metrics_server.c, src/core/logger.c): character classes of
  the C locale, trimming, case-insensitive comparison, splitting with \<open>strchr\<close> and \<open>strtok\<close>,
  and \<open>atoi\<close>. \<open>atoi\<close> is glibc's: the value is saturated to 64 bits and then cut to 32.
\<close>

section \<open>Characters\<close>

definition isspace :: "char \<Rightarrow> bool" where
  "isspace c = (let n = (of_char c :: nat) in (9 \<le> n \<and> n \<le> 13) \<or> n = 32)"

definition isdigit :: "char \<Rightarrow> bool" where
  "isdigit c = (let n = (of_char c :: nat) in 48 \<le> n \<and> n \<le> 57)"

definition isalnum :: "char \<Rightarrow> bool" where
  "isalnum c = (let n = (of_char c :: nat) in
     (48 \<le> n \<and> n \<le> 57) \<or> (65 \<le> n \<and> n \<le> 90) \<or> (97 \<le> n \<and> n \<le> 122))"

definition char_lower :: "char \<Rightarrow> char" where
  "char_lower c = (let n = (of_char c :: nat) in if 65 \<le> n \<and> n \<le> 90 then char_of (n + 32) else c)"

text \<open>\<open>strcasecmp(a, b) == 0\<close>\<close>

definition same_ignoring_case :: "string \<Rightarrow> string \<Rightarrow> bool" where
  "same_ignoring_case a b \<longleftrightarrow> map char_lower a = map char_lower b"

section \<open>Trimming\<close>

definition trim_trailing :: "string \<Rightarrow> string" where
  "trim_trailing s = rev (dropWhile isspace (rev s))"

definition trim_whitespace :: "string \<Rightarrow> string" where
  "trim_whitespace s = trim_trailing (dropWhile isspace s)"

text \<open>A string without white space at its ends.\<close>

definition trimmed :: "string \<Rightarrow> bool" where
  "trimmed s \<longleftrightarrow> s = [] \<or> (\<not> isspace (hd s) \<and> \<not> isspace (last s))"

lemma trim_trailing_trimmed: "s = [] \<or> \<not> isspace (last s) \<Longrightarrow> trim_trailing s = s"
  by (cases s rule: rev_cases) (auto simp: trim_trailing_def)

lemma trim_trimmed: "trimmed s \<Longrightarrow> trim_whitespace s = s"
  by (cases s) (auto simp: trim_whitespace_def trimmed_def trim_trailing_trimmed)

lemma trim_leading_space [simp]: "isspace c \<Longrightarrow> trim_whitespace (c # s) = trim_whitespace s"
  by (simp add: trim_whitespace_def)

lemma trim_trailing_space: "isspace c \<Longrightarrow> trim_trailing (s @ [c]) = trim_trailing s"
  by (simp add: trim_trailing_def)

lemma trim_trailing_last: "trim_trailing s = [] \<or> \<not> isspace (last (trim_trailing s))"
proof (cases "dropWhile isspace (rev s)")
  case (Cons c t)
  have "\<not> isspace (hd (dropWhile isspace (rev s)))"
    using Cons by (intro hd_dropWhile) (auto simp: dropWhile_eq_Nil_conv [symmetric])
  with Cons show ?thesis by (simp add: trim_trailing_def last_rev)
qed (simp add: trim_trailing_def)

lemma trim_trailing_prefix: "\<exists>t. s = trim_trailing s @ t"
  by (metis rev_append rev_rev_ident takeWhile_dropWhile_id trim_trailing_def)

lemma trimmed_trim: "trimmed (trim_whitespace s)"
proof (cases "trim_whitespace s")
  case (Cons c t)
  obtain u where "dropWhile isspace s = trim_whitespace s @ u"
    using trim_trailing_prefix [of "dropWhile isspace s"] by (auto simp: trim_whitespace_def)
  with Cons have "hd (dropWhile isspace s) = c" "dropWhile isspace s \<noteq> []" by simp_all
  then have "\<not> isspace c" using hd_dropWhile [of isspace s] by auto
  with Cons trim_trailing_last [of "dropWhile isspace s"] show ?thesis
    by (auto simp: trimmed_def trim_whitespace_def)
qed (simp add: trimmed_def)

lemma set_trim: "set (trim_whitespace s) \<subseteq> set s"
  by (metis set_append set_dropWhileD subsetI sup_ge1 trim_trailing_prefix trim_whitespace_def subset_iff)

lemma length_trim: "length (trim_whitespace s) \<le> length s"
proof -
  have "length (trim_trailing t) \<le> length t" for t
    using length_dropWhile_le [of isspace "rev t"] by (simp add: trim_trailing_def)
  from order_trans [OF this length_dropWhile_le] show ?thesis by (simp add: trim_whitespace_def)
qed

lemma c_string_trim: "c_string s \<Longrightarrow> c_string (trim_whitespace s)"
  using set_trim by (fastforce simp: c_string_def)

section \<open>Splitting\<close>

text \<open>\<open>strchr\<close>: the text before the first occurrence, and after it if there is one.\<close>

definition before_char :: "char \<Rightarrow> string \<Rightarrow> string" where
  "before_char c s = takeWhile (\<lambda>x. x \<noteq> c) s"

definition after_char :: "char \<Rightarrow> string \<Rightarrow> string option" where
  "after_char c s = (case dropWhile (\<lambda>x. x \<noteq> c) s of [] \<Rightarrow> None | _ # t \<Rightarrow> Some t)"

lemma takeWhile_neq: "c \<notin> set s \<Longrightarrow> takeWhile (\<lambda>x. x \<noteq> c) (s @ c # t) = s"
  by (induction s) auto

lemma dropWhile_neq: "c \<notin> set s \<Longrightarrow> dropWhile (\<lambda>x. x \<noteq> c) (s @ c # t) = c # t"
  by (induction s) auto

lemma before_char_split [simp]: "c \<notin> set s \<Longrightarrow> before_char c (s @ c # t) = s"
  by (simp add: before_char_def takeWhile_neq)

lemma after_char_split [simp]: "c \<notin> set s \<Longrightarrow> after_char c (s @ c # t) = Some t"
  by (simp add: after_char_def dropWhile_neq)

lemma after_char_None_iff: "after_char c s = None \<longleftrightarrow> c \<notin> set s"
  by (induction s) (auto simp: after_char_def)

lemma after_char_None: "c \<notin> set s \<Longrightarrow> after_char c s = None"
  by (simp add: after_char_None_iff)

text \<open>The tokens \<open>strtok\<close> delivers one after the other for a single delimiter.\<close>

function strtok :: "char \<Rightarrow> string \<Rightarrow> string list" where
  "strtok d s = (case dropWhile (\<lambda>x. x = d) s of
     [] \<Rightarrow> []
   | c # t \<Rightarrow> takeWhile (\<lambda>x. x \<noteq> d) (c # t) # strtok d (dropWhile (\<lambda>x. x \<noteq> d) (c # t)))"
  by pat_completeness auto
termination
proof (relation "measure (\<lambda>(d, s). length s)")
  fix d :: char and s t :: string and c :: char
  assume s: "dropWhile (\<lambda>x. x = d) s = c # t"
  then have "c \<noteq> d" using hd_dropWhile [of "\<lambda>x. x = d" s] by auto
  then have "length (dropWhile (\<lambda>x. x \<noteq> d) (c # t)) < length (c # t)"
    using length_dropWhile_le [of "\<lambda>x. x \<noteq> d" t] by (simp add: le_imp_less_Suc)
  also have "\<dots> \<le> length s" using length_dropWhile_le [of "\<lambda>x. x = d" s] s by simp
  finally show "((d, dropWhile (\<lambda>x. x \<noteq> d) (c # t)), d, s) \<in> measure (\<lambda>(d, s). length s)" by simp
qed simp

declare strtok.simps [simp del]

lemma strtok_Nil [simp]: "strtok d [] = []"
  by (simp add: strtok.simps)

lemma strtok_delim [simp]: "strtok d (d # s) = strtok d s"
  by (subst (1 2) strtok.simps) simp

lemma strtok_Cons: "c \<noteq> d \<Longrightarrow> strtok d (c # t) = (c # takeWhile (\<lambda>x. x \<noteq> d) t) # strtok d (dropWhile (\<lambda>x. x \<noteq> d) t)"
  by (subst strtok.simps) simp

lemma strtok_token: "s \<noteq> [] \<Longrightarrow> d \<notin> set s \<Longrightarrow> strtok d (s @ d # t) = s # strtok d t"
  by (cases s) (auto simp: strtok_Cons takeWhile_neq dropWhile_neq)

lemma strtok_last: "s \<noteq> [] \<Longrightarrow> d \<notin> set s \<Longrightarrow> strtok d s = [s]"
proof (cases s)
  case (Cons c t)
  assume "d \<notin> set s"
  with Cons have t: "takeWhile (\<lambda>x. x \<noteq> d) t = t" and n: "dropWhile (\<lambda>x. x \<noteq> d) t = []"
    by (auto simp: takeWhile_eq_all_conv dropWhile_eq_Nil_conv)
  have "strtok d s = (c # takeWhile (\<lambda>x. x \<noteq> d) t) # strtok d (dropWhile (\<lambda>x. x \<noteq> d) t)"
    using Cons \<open>d \<notin> set s\<close> by (auto intro: strtok_Cons)
  also have "\<dots> = [s]" unfolding t n by (simp add: Cons)
  finally show ?thesis .
qed simp

lemma strtok_set: "x \<in> set (strtok d s) \<Longrightarrow> x \<noteq> [] \<and> set x \<subseteq> set s \<and> d \<notin> set x \<and> length x \<le> length s"
proof (induction d s rule: strtok.induct)
  case (1 d s)
  show ?case
  proof (cases "dropWhile (\<lambda>x. x = d) s")
    case Nil
    with 1 show ?thesis by (simp add: strtok.simps [of d s])
  next
    case (Cons c t)
    have cd: "c \<noteq> d" using hd_dropWhile [of "\<lambda>x. x = d" s] Cons by auto
    have sub: "set (c # t) \<subseteq> set s" "length (c # t) \<le> length s"
      using set_dropWhileD [of _ "\<lambda>x. x = d" s] length_dropWhile_le [of "\<lambda>x. x = d" s] Cons by auto
    from "1.prems" Cons consider "x = takeWhile (\<lambda>x. x \<noteq> d) (c # t)"
      | "x \<in> set (strtok d (dropWhile (\<lambda>x. x \<noteq> d) (c # t)))"
      by (auto simp: strtok.simps [of d s] simp del: takeWhile.simps dropWhile.simps)
    then show ?thesis
    proof cases
      case 1
      with cd sub show ?thesis
        using length_takeWhile_le [of "\<lambda>x. x \<noteq> d" t] by (auto dest: set_takeWhileD)
    next
      case 2
      from "1.IH" [OF Cons this] sub show ?thesis
        using length_dropWhile_le [of "\<lambda>x. x \<noteq> d" "c # t"] set_dropWhileD [of _ "\<lambda>x. x \<noteq> d" "c # t"]
        by fastforce
    qed
  qed
qed

section \<open>Numbers\<close>

fun digits_value :: "int \<Rightarrow> string \<Rightarrow> int" where
  "digits_value acc [] = acc"
| "digits_value acc (c # s) = (if isdigit c then digits_value (acc * 10 + (of_char c - 48)) s else acc)"

definition strtol :: "string \<Rightarrow> int" where
  "strtol s = (let s = dropWhile isspace s
     in max (- (2 ^ 63)) (min (2 ^ 63 - 1)
       (case s of
          [] \<Rightarrow> 0
        | c # t \<Rightarrow> if c = CHR 0x2D then - digits_value 0 t
                 else if c = CHR 0x2B then digits_value 0 t
                 else digits_value 0 s)))"

definition atoi :: "string \<Rightarrow> int" where
  "atoi s = sint (word_of_int (strtol s) :: 32 word)"

lemma digit_char_props:
  assumes "d < 10"
  shows "isdigit (digit_char d)" "\<not> isspace (digit_char d)" "digit_char d \<noteq> CHR 0x2D" "digit_char d \<noteq> CHR 0x2B"
    "of_char (digit_char d) = (48 + int d)"
proof -
  have n: "(of_char (digit_char d) :: nat) = 48 + d" using of_char_digit [OF assms] .
  then show "isdigit (digit_char d)" "\<not> isspace (digit_char d)"
    using assms by (simp_all add: isdigit_def isspace_def Let_def)
  show "digit_char d \<noteq> CHR 0x2D" "digit_char d \<noteq> CHR 0x2B" using n by auto
  show "of_char (digit_char d) = (48 + int d)"
    using arg_cong [OF n, of int] by (simp add: of_nat_of_char)
qed

lemma digits_value_utoa: "digits_value acc (utoa n @ rest) =
    digits_value (acc * 10 ^ length (utoa n) + int n) rest"
proof (induction n arbitrary: acc rest rule: utoa.induct)
  case (1 n)
  show ?case
  proof (cases "n < 10")
    case True
    then show ?thesis using digit_char_props [of n] by (subst (1 2) utoa.simps) simp
  next
    case False
    have d: "n mod 10 < 10" by simp
    have "int n = int (n div 10) * 10 + int (n mod 10)" by (metis div_mult_mod_eq of_nat_add of_nat_mult of_nat_numeral)
    with False 1 digit_char_props [OF d] show ?thesis
      by (subst (1 2) utoa.simps) (simp add: algebra_simps)
  qed
qed

lemma utoa_Cons: "\<exists>d t. utoa n = digit_char d # t \<and> d < 10"
proof (induction n rule: utoa.induct)
  case (1 n)
  show ?case
  proof (cases "n < 10")
    case True
    then show ?thesis by (subst utoa.simps) auto
  next
    case False
    with 1 obtain d t where "utoa (n div 10) = digit_char d # t" "d < 10" by blast
    with False show ?thesis by (subst utoa.simps) auto
  qed
qed

definition no_digit_first :: "string \<Rightarrow> bool" where
  "no_digit_first s \<longleftrightarrow> s = [] \<or> \<not> isdigit (hd s)"

lemma strtol_utoa:
  assumes "no_digit_first rest" and "n < 2 ^ 63"
  shows "strtol (utoa n @ rest) = int n"
proof -
  obtain d t where d: "utoa n = digit_char d # t" "d < 10" using utoa_Cons by blast
  have "digits_value (int n) rest = int n" using assms(1) by (cases rest) (auto simp: no_digit_first_def)
  then have v: "digits_value 0 (digit_char d # t @ rest) = int n"
    using digits_value_utoa [of 0 n rest] by (simp add: d(1) del: digits_value.simps)
  have "int n < 2 ^ 63" using assms(2) by (simp flip: of_nat_power of_nat_less_iff)
  with v d digit_char_props [OF d(2)] show ?thesis
    by (simp add: strtol_def Let_def del: digits_value.simps)
qed

lemma sint_word_of_int_32: "sint (word_of_int k :: 32 word) = signed_take_bit 31 k"
  by transfer simp

lemma atoi_utoa:
  assumes "no_digit_first rest" and "n < 2 ^ 31"
  shows "atoi (utoa n @ rest) = int n"
proof -
  have "int n < 2 ^ 31" using assms(2) by (simp flip: of_nat_power of_nat_less_iff)
  then have "sint (word_of_int (int n) :: 32 word) = int n"
    using sint_word_of_int_32 [of "int n"] signed_take_bit_int_eq_self [of 31 "int n"] by simp
  with strtol_utoa [OF assms(1)] assms(2) show ?thesis by (simp add: atoi_def)
qed

lemma atoi_utoa' [simp]: "n < 2 ^ 31 \<Longrightarrow> atoi (utoa n) = int n"
  using atoi_utoa [of "[]" n] by (simp add: no_digit_first_def)

lemma utoa_chars: "c \<in> set (utoa n) \<Longrightarrow> isdigit c"
proof (induction n rule: utoa.induct)
  case (1 n)
  then show ?case
    using digit_char_props(1) [of n] digit_char_props(1) [of "n mod 10"]
    by (subst (asm) (2) utoa.simps) (auto split: if_splits)
qed

lemma utoa_not_Nil [simp]: "utoa n \<noteq> []"
  by (subst utoa.simps) simp

section \<open>Printing\<close>

abbreviation newline :: char where "newline \<equiv> CHR 0x0A"

text \<open>\<open>%d\<close>\<close>

definition itoa :: "int \<Rightarrow> string" where
  "itoa i = (if i < 0 then CHR ''-'' # utoa (nat (- i)) else utoa (nat i))"

text \<open>A buffer written with \<open>snprintf\<close>: the number of characters written so far, as the caller counts
  them, and the text the buffer holds.\<close>

type_synonym text_buffer = "nat \<times> string"

text \<open>\<open>written = snprintf(buffer + offset, cap - offset, piece); offset += written\<close>\<close>

definition put :: "nat \<Rightarrow> text_buffer \<Rightarrow> string \<Rightarrow> c_error + text_buffer" where
  "put cap buf piece = (case buf of (offset, text) \<Rightarrow>
     if cap < offset then Inl Out_of_bounds
     else Inr (offset + length piece, take offset text @ take (cap - 1 - offset) piece))"

fun puts :: "nat \<Rightarrow> text_buffer \<Rightarrow> string list \<Rightarrow> c_error + text_buffer" where
  "puts cap buf [] = Inr buf"
| "puts cap buf (p # ps) = and_then (put cap buf p) (\<lambda>buf. puts cap buf ps)"

lemma puts_fit: "length (pre @ concat ps) < cap \<Longrightarrow>
   puts cap (length pre, pre) ps = Inr (length (pre @ concat ps), pre @ concat ps)"
proof (induction ps arbitrary: pre)
  case (Cons p ps)
  have "put cap (length pre, pre) p = Inr (length (pre @ p), pre @ p)"
    using Cons.prems by (simp add: put_def)
  with Cons.IH [of "pre @ p"] Cons.prems show ?case by simp
qed simp

text \<open>Pieces that run past the buffer before the last one is written.\<close>

lemma puts_overflow:
  "fst buf + length (concat (butlast ps)) > cap \<Longrightarrow> ps \<noteq> [] \<Longrightarrow> fst buf \<le> cap \<Longrightarrow> puts cap buf ps = Inl Out_of_bounds"
proof (induction ps arbitrary: buf)
  case (Cons p ps)
  obtain off pre where buf: "buf = (off, pre)" by (cases buf)
  show ?case
  proof (cases "ps = []")
    case True
    with Cons.prems show ?thesis by simp
  next
    case ps: False
    have put: "put cap buf p = Inr (off + length p, take off pre @ take (cap - 1 - off) p)"
      using Cons.prems buf by (simp add: put_def)
    show ?thesis
    proof (cases "off + length p \<le> cap")
      case True
      with Cons.IH [of "(off + length p, take off pre @ take (cap - 1 - off) p)"] Cons.prems ps put buf
      show ?thesis by simp
    next
      case False
      with ps put show ?thesis by (cases ps) (auto simp: put_def)
    qed
  qed
qed simp

end
