(* ===== verification/Threads.thy ===== *)
theory Threads
  imports Roole_Prelude
begin

text \<open>
  Thread handles (\<open>pthread_t\<close>) as the starting and stopping code uses them. A handle is joined at
  most once, and only after its thread was created: anything else, and a handle outside its array,
  is undefined for POSIX or C and a \<open>thread_fault\<close> here.
\<close>

datatype pthread = Not_started | Alive | Joined

datatype thread_fault = Join_of_no_thread | Joined_twice | No_such_handle

fun pthread_join :: "pthread \<Rightarrow> thread_fault + pthread" where
  "pthread_join Not_started = Inl Join_of_no_thread"
| "pthread_join Alive = Inr Joined"
| "pthread_join Joined = Inl Joined_twice"

text \<open>\<^verbatim>\<open>for (i = 0; i < n; i++) pthread_join(threads[i], NULL)\<close>\<close>

fun join_first :: "nat \<Rightarrow> pthread list \<Rightarrow> thread_fault + pthread list" where
  "join_first 0 threads = Inr threads"
| "join_first (Suc n) [] = Inl No_such_handle"
| "join_first (Suc n) (t # threads) =
     and_then (pthread_join t) (\<lambda>t. and_then (join_first n threads) (\<lambda>threads. Inr (t # threads)))"

lemma join_first_alive:
  "join_first n (replicate k Alive @ rest) = (if n \<le> k then Inr (replicate n Joined @ replicate (k - n) Alive @ rest)
     else and_then (join_first (n - k) rest) (\<lambda>r. Inr (replicate k Joined @ r)))"
proof (induction k arbitrary: n)
  case 0
  then show ?case by (cases n; cases "join_first n rest") simp_all
next
  case (Suc k)
  then show ?case
    by (cases n) (simp_all, cases "join_first (n - Suc k) rest", simp_all)
qed

lemma join_too_many: "0 < n \<Longrightarrow> join_first n [] = Inl No_such_handle"
  by (cases n) simp_all

end
