(* ===== verification/Logger.thy ===== *)
theory Logger
  imports C_Strings Threads
begin

text \<open>
  src/core/logger.c: the log level and format, the per-thread buffers with their flushing, the
  component stack, and the two line formats. Threads are numbered; \<open>tls_log_buffer\<close> and
  \<open>tls_component_stack\<close> map a thread to its own copy. The time stamp, and the formatted message,
  are arguments; \<open>log_out\<close> and \<open>log_err\<close> are what has been written to the two streams. Writing
  out a buffer whose count has passed its 4096 bytes reads beyond it.
\<close>

definition LOG_BUFFER_SIZE :: nat where "LOG_BUFFER_SIZE = 4096"
definition CRITICAL_BUFFER_THRESHOLD :: nat where "CRITICAL_BUFFER_THRESHOLD = 3072"
definition MAX_COMPONENT_STACK :: nat where "MAX_COMPONENT_STACK = 4"
definition RING_BUFFER_SIZE :: nat where "RING_BUFFER_SIZE = 128"

lemmas log_limits = LOG_BUFFER_SIZE_def CRITICAL_BUFFER_THRESHOLD_def MAX_COMPONENT_STACK_def RING_BUFFER_SIZE_def

datatype log_level = LOG_LEVEL_DEBUG | LOG_LEVEL_INFO | LOG_LEVEL_WARN | LOG_LEVEL_ERROR

fun level_number :: "log_level \<Rightarrow> nat" where
  "level_number LOG_LEVEL_DEBUG = 0"
| "level_number LOG_LEVEL_INFO = 1"
| "level_number LOG_LEVEL_WARN = 2"
| "level_number LOG_LEVEL_ERROR = 3"

text \<open>Levels are compared as the numbers of the enum.\<close>

instantiation log_level :: linorder
begin

definition less_eq_log_level :: "log_level \<Rightarrow> log_level \<Rightarrow> bool" where
  "less_eq_log_level a b \<longleftrightarrow> level_number a \<le> level_number b"

definition less_log_level :: "log_level \<Rightarrow> log_level \<Rightarrow> bool" where
  "less_log_level a b \<longleftrightarrow> level_number a < level_number b"

instance
proof
  fix a b :: log_level
  show "a \<le> b \<Longrightarrow> b \<le> a \<Longrightarrow> a = b" by (cases a; cases b) (simp_all add: less_eq_log_level_def)
qed (auto simp: less_eq_log_level_def less_log_level_def)

end

fun level_to_string :: "log_level \<Rightarrow> string" where
  "level_to_string LOG_LEVEL_DEBUG = ''DEBUG''"
| "level_to_string LOG_LEVEL_INFO = ''INFO''"
| "level_to_string LOG_LEVEL_WARN = ''WARN''"
| "level_to_string LOG_LEVEL_ERROR = ''ERROR''"

datatype log_format = LOG_FORMAT_TEXT | LOG_FORMAT_JSON

record log_context =
  lc_node_id :: u16
  lc_cluster_name :: string
  lc_node_type :: string
  lc_initialized :: bool

datatype tls_buffer = No_buffer | Log_buffer text_buffer | Freed_buffer

record logger =
  g_log_level :: log_level
  g_log_format :: log_format
  g_log_context :: log_context
  tls_log_buffer :: "nat \<Rightarrow> tls_buffer"
  tls_component_stack :: "nat \<Rightarrow> string list"
  g_ring_buffers :: "nat list"
  log_out :: string
  log_err :: string

text \<open>The environment variable \<open>ROOLE_LOG_FORMAT\<close>, if set.\<close>

definition detect_log_format :: "string option \<Rightarrow> logger \<Rightarrow> logger" where
  "detect_log_format env lg =
     lg\<lparr>g_log_format := (case env of
        Some v \<Rightarrow> if same_ignoring_case v ''json'' then LOG_FORMAT_JSON else LOG_FORMAT_TEXT
      | None \<Rightarrow> LOG_FORMAT_TEXT)\<rparr>"

section \<open>Escaping\<close>

definition backslash :: char where "backslash = CHR 0x5C"
definition quote :: char where "quote = CHR 0x22"

text \<open>What a character becomes, and whether it needs room for two.\<close>

definition escape_char :: "char \<Rightarrow> string" where
  "escape_char c =
     (if c = quote \<or> c = backslash then [backslash, c]
      else if c = newline then [backslash, CHR ''n'']
      else if c = CHR 0x0D then [backslash, CHR ''r'']
      else if c = CHR 0x09 then [backslash, CHR ''t'']
      else if 32 \<le> (of_char c :: nat) \<and> (of_char c :: nat) \<le> 126 then [c]
      else [])"

text \<open>The loop, with the output so far; a character beyond 127 is negative as a \<open>char\<close> and skipped
  like a control character.\<close>

fun json_escape_from :: "string \<Rightarrow> nat \<Rightarrow> string \<Rightarrow> string" where
  "json_escape_from [] output_size out = out"
| "json_escape_from (c # s) output_size out =
     (if output_size - 2 \<le> length out then out
      else json_escape_from s output_size
        (if length (escape_char c) = 2 \<and> output_size - 3 \<le> length out then out else out @ escape_char c))"

definition json_escape_string :: "string \<Rightarrow> nat \<Rightarrow> string" where
  "json_escape_string input output_size = json_escape_from input output_size []"

section \<open>Buffers\<close>

definition get_tls_buffer :: "nat \<Rightarrow> logger \<Rightarrow> logger" where
  "get_tls_buffer t lg =
     (case tls_log_buffer lg t of
        No_buffer \<Rightarrow> lg\<lparr>tls_log_buffer := (tls_log_buffer lg)(t := Log_buffer (0, [])),
          g_ring_buffers := (if length (g_ring_buffers lg) < RING_BUFFER_SIZE then g_ring_buffers lg @ [t]
            else g_ring_buffers lg)\<rparr>
      | _ \<Rightarrow> lg)"

text \<open>\<open>fwrite(buf->data, 1, buf->used, ...)\<close>: a truncated \<open>snprintf\<close> leaves its NUL in the count.\<close>

definition buffer_bytes :: "text_buffer \<Rightarrow> c_error + string" where
  "buffer_bytes buf = (if LOG_BUFFER_SIZE < fst buf then Inl Out_of_bounds
     else Inr (take (fst buf) (snd buf) @ replicate (fst buf - length (snd buf)) NUL))"

definition flush_buffer :: "nat \<Rightarrow> logger \<Rightarrow> c_error + logger" where
  "flush_buffer t lg =
     (case tls_log_buffer lg t of
        Log_buffer buf \<Rightarrow>
          if fst buf = 0 then Inr lg
          else and_then (buffer_bytes buf) (\<lambda>bytes.
            Inr (lg\<lparr>log_out := log_out lg @ bytes, tls_log_buffer := (tls_log_buffer lg)(t := Log_buffer (0, []))\<rparr>))
      | No_buffer \<Rightarrow> Inr lg
      | Freed_buffer \<Rightarrow> Inl Out_of_bounds)"

fun flush_buffers :: "nat list \<Rightarrow> logger \<Rightarrow> c_error + logger" where
  "flush_buffers [] lg = Inr lg"
| "flush_buffers (t # ts) lg = and_then (flush_buffer t lg) (flush_buffers ts)"

text \<open>One turn of \<open>flush_thread_fn\<close>.\<close>

definition flush_turn :: "logger \<Rightarrow> c_error + logger" where
  "flush_turn lg = flush_buffers (g_ring_buffers lg) lg"

definition logger_flush :: "nat \<Rightarrow> logger \<Rightarrow> c_error + logger" where
  "logger_flush t lg = flush_buffer t (get_tls_buffer t lg)"

text \<open>The buffers are freed, the threads keep their pointers.\<close>

definition logger_shutdown :: "logger \<Rightarrow> c_error + logger" where
  "logger_shutdown lg = and_then (flush_buffers (g_ring_buffers lg) lg) (\<lambda>lg.
     Inr (lg\<lparr>tls_log_buffer := (\<lambda>t. if t \<in> set (g_ring_buffers lg) then Freed_buffer else tls_log_buffer lg t),
             g_ring_buffers := []\<rparr>))"

definition logger_set_level :: "log_level \<Rightarrow> logger \<Rightarrow> logger" where
  "logger_set_level level lg = lg\<lparr>g_log_level := level\<rparr>"

definition logger_set_context :: "u16 \<Rightarrow> string option \<Rightarrow> string option \<Rightarrow> logger \<Rightarrow> logger" where
  "logger_set_context node_id cluster_name node_type lg =
     lg\<lparr>g_log_context := \<lparr>lc_node_id = node_id,
        lc_cluster_name = take 63 (case cluster_name of None \<Rightarrow> ''unknown'' | Some n \<Rightarrow> n),
        lc_node_type = take 15 (case node_type of None \<Rightarrow> ''unknown'' | Some n \<Rightarrow> n), lc_initialized = True\<rparr>\<rparr>"

section \<open>Components\<close>

definition logger_push_component :: "nat \<Rightarrow> string option \<Rightarrow> logger \<Rightarrow> logger" where
  "logger_push_component t name lg =
     (case name of
        Some n \<Rightarrow> if length (tls_component_stack lg t) < MAX_COMPONENT_STACK
          then lg\<lparr>tls_component_stack := (tls_component_stack lg)(t := tls_component_stack lg t @ [take 31 n])\<rparr> else lg
      | None \<Rightarrow> lg)"

definition logger_pop_component :: "nat \<Rightarrow> logger \<Rightarrow> logger" where
  "logger_pop_component t lg = lg\<lparr>tls_component_stack := (tls_component_stack lg)(t := butlast (tls_component_stack lg t))\<rparr>"

fun component_pieces :: "nat \<Rightarrow> string list \<Rightarrow> text_buffer \<Rightarrow> text_buffer" where
  "component_pieces i [] buf = buf"
| "component_pieces i (c # cs) (offset, txt) =
     (if 127 \<le> offset then (offset, txt)
      else let piece = (if 0 < i then '':'' else []) @ c
      in component_pieces (Suc i) cs (offset + length piece, take offset txt @ take (127 - offset) piece))"

definition get_component_path :: "nat \<Rightarrow> logger \<Rightarrow> string" where
  "get_component_path t lg = snd (component_pieces 0 (tls_component_stack lg t) (0, []))"

section \<open>Lines\<close>

definition hex_digit :: "nat \<Rightarrow> char" where
  "hex_digit d = (if d < 10 then digit_char d else char_of (87 + d))"

text \<open>\<open>%04lx\<close> of a number below 65536\<close>

definition hex4 :: "nat \<Rightarrow> string" where
  "hex4 n = map (\<lambda>k. hex_digit (n div 16 ^ k mod 16)) [3, 2, 1, 0]"

definition bracket :: "string \<Rightarrow> string" where "bracket s = ''['' @ s @ '']''"

definition text_header :: "string \<Rightarrow> log_level \<Rightarrow> nat \<Rightarrow> string \<Rightarrow> int \<Rightarrow> nat \<Rightarrow> logger \<Rightarrow> string" where
  "text_header timestamp level thread_id file line t lg =
     (let ctx = g_log_context lg; path = get_component_path t lg
      in bracket timestamp @ bracket (level_to_string level)
         @ (if lc_initialized ctx
            then bracket (''node:'' @ utoa (unat (lc_node_id ctx))) @ bracket (lc_cluster_name ctx)
              @ (if path \<noteq> [] then bracket path else [])
            else [])
         @ bracket (''tid:'' @ hex4 (thread_id mod 65535)) @ bracket (file @ '':'' @ itoa line) @ '' '')"

definition field :: "string \<Rightarrow> string \<Rightarrow> string" where
  "field name v = [quote] @ name @ [quote] @ '':'' @ [quote] @ v @ [quote]"

definition number_field :: "string \<Rightarrow> string \<Rightarrow> string" where
  "number_field name v = [quote] @ name @ [quote] @ '':'' @ v"

text \<open>The variant with a component prints the time stamp without colon and quotes.\<close>

definition json_line :: "string \<Rightarrow> log_level \<Rightarrow> nat \<Rightarrow> string \<Rightarrow> int \<Rightarrow> string \<Rightarrow> nat \<Rightarrow> logger \<Rightarrow> string" where
  "json_line timestamp level thread_id file line escaped t lg =
     (let ctx = g_log_context lg; path = get_component_path t lg;
          who = number_field ''node_id'' (utoa (unat (lc_node_id ctx))) @ '','' @ field ''cluster'' (lc_cluster_name ctx) @ '','';
          rest = number_field ''thread_id'' (utoa thread_id) @ '','' @ field ''file'' file @ '',''
             @ number_field ''line'' (itoa line) @ '','' @ field ''message'' escaped @ ''}'' @ [newline]
      in if lc_initialized ctx \<and> path \<noteq> []
         then ''{'' @ [quote] @ ''timestamp'' @ [quote] @ timestamp @ '','' @ field ''level'' (level_to_string level) @ '',''
              @ who @ field ''component'' path @ '','' @ rest
         else ''{'' @ field ''timestamp'' timestamp @ '','' @ field ''level'' (level_to_string level) @ '',''
              @ (if lc_initialized ctx then who else []) @ rest)"

text \<open>Both formats first write out a buffer that is three quarters full.\<close>

definition make_room :: "nat \<Rightarrow> text_buffer \<Rightarrow> logger \<Rightarrow> c_error + text_buffer \<times> logger" where
  "make_room t buf lg =
     (if CRITICAL_BUFFER_THRESHOLD < fst buf
      then and_then (buffer_bytes buf) (\<lambda>bytes. Inr ((0, []), lg\<lparr>log_out := log_out lg @ bytes\<rparr>))
      else Inr (buf, lg))"

text \<open>At the end an error goes to \<open>stderr\<close>, with all that was waiting before it.\<close>

definition finish_line :: "log_level \<Rightarrow> nat \<Rightarrow> text_buffer \<Rightarrow> logger \<Rightarrow> c_error + logger" where
  "finish_line level t buf lg =
     (if level = LOG_LEVEL_ERROR
      then and_then (buffer_bytes buf) (\<lambda>bytes. Inr (lg\<lparr>log_err := log_err lg @ bytes,
             tls_log_buffer := (tls_log_buffer lg)(t := Log_buffer (0, []))\<rparr>))
      else Inr (lg\<lparr>tls_log_buffer := (tls_log_buffer lg)(t := Log_buffer buf)\<rparr>))"

definition add_newline :: "text_buffer \<Rightarrow> text_buffer" where
  "add_newline buf = (if fst buf < LOG_BUFFER_SIZE - 1 then (Suc (fst buf), take (fst buf) (snd buf) @ [newline]) else buf)"

text \<open>The buffer of the thread, with room made in it, is handed to the code that writes a line.\<close>

definition with_buffer ::
  "nat \<Rightarrow> logger \<Rightarrow> (text_buffer \<Rightarrow> logger \<Rightarrow> c_error + logger) \<Rightarrow> c_error + logger" where
  "with_buffer t lg write =
     (let lg = get_tls_buffer t lg
      in case tls_log_buffer lg t of
           Log_buffer buf \<Rightarrow> and_then (make_room t buf lg) (\<lambda>(buf, lg). write buf lg)
         | _ \<Rightarrow> Inl Out_of_bounds)"

text \<open>The text format writes two pieces and a newline, JSON one piece.\<close>

definition logger_log_text ::
  "string \<Rightarrow> nat \<Rightarrow> log_level \<Rightarrow> string \<Rightarrow> int \<Rightarrow> string \<Rightarrow> nat \<Rightarrow> logger \<Rightarrow> c_error + logger" where
  "logger_log_text timestamp thread_id level file line message t lg =
     with_buffer t lg (\<lambda>buf lg.
       and_then (puts LOG_BUFFER_SIZE buf [text_header timestamp level thread_id file line t lg, message])
         (\<lambda>buf. finish_line level t (add_newline buf) lg))"

definition logger_log_json ::
  "string \<Rightarrow> nat \<Rightarrow> log_level \<Rightarrow> string \<Rightarrow> int \<Rightarrow> string \<Rightarrow> nat \<Rightarrow> logger \<Rightarrow> c_error + logger" where
  "logger_log_json timestamp thread_id level file line message t lg =
     with_buffer t lg (\<lambda>buf lg.
       and_then (put LOG_BUFFER_SIZE buf (json_line timestamp level thread_id file line
           (json_escape_string (take 1023 message) 2048) t lg))
         (\<lambda>buf. finish_line level t buf lg))"

definition logger_log ::
  "string \<Rightarrow> nat \<Rightarrow> log_level \<Rightarrow> string \<Rightarrow> int \<Rightarrow> string \<Rightarrow> nat \<Rightarrow> logger \<Rightarrow> c_error + logger" where
  "logger_log timestamp thread_id level file line message t lg =
     (if level < g_log_level lg then Inr lg
      else if g_log_format lg = LOG_FORMAT_JSON then logger_log_json timestamp thread_id level file line message t lg
      else logger_log_text timestamp thread_id level file line message t lg)"

text \<open>The time of a line, from the fields \<open>localtime_r\<close> fills in and the nanoseconds of the clock.\<close>

record tm =
  tm_year :: nat
  tm_mon :: nat
  tm_mday :: nat
  tm_hour :: nat
  tm_min :: nat
  tm_sec :: nat

definition zero_padded :: "nat \<Rightarrow> nat \<Rightarrow> string" where
  "zero_padded w n = replicate (w - length (utoa n)) (CHR ''0'') @ utoa n"

definition get_timestamp :: "tm \<Rightarrow> nat \<Rightarrow> string" where
  "get_timestamp tm nsec =
     take 31 (zero_padded 4 (tm_year tm + 1900) @ ''-'' @ zero_padded 2 (tm_mon tm + 1) @ ''-'' @ zero_padded 2 (tm_mday tm)
       @ ''T'' @ zero_padded 2 (tm_hour tm) @ '':'' @ zero_padded 2 (tm_min tm) @ '':'' @ zero_padded 2 (tm_sec tm)
       @ ''.'' @ zero_padded 3 (nsec div 1000000) @ ''Z'')"

text \<open>Starting the logger: the format, and the flush thread if it can be created; its handle is written
  by \<open>pthread_create\<close>.\<close>

definition logger_init :: "bool \<Rightarrow> string option \<Rightarrow> logger \<Rightarrow> pthread \<times> logger" where
  "logger_init create_ok env lg = (if create_ok then Alive else Not_started, detect_log_format env lg)"

section \<open>Escaping keeps what can be printed\<close>

definition loggable :: "char \<Rightarrow> bool" where "loggable c \<longleftrightarrow> escape_char c \<noteq> []"

text \<open>Reading the escapes back.\<close>

definition unescape_char :: "char \<Rightarrow> char" where
  "unescape_char c = (if c = CHR ''n'' then newline else if c = CHR ''r'' then CHR 0x0D
     else if c = CHR ''t'' then CHR 0x09 else c)"

fun unescape :: "string \<Rightarrow> string" where
  "unescape [] = []"
| "unescape [c] = [c]"
| "unescape (b # c # s) = (if b = backslash then unescape_char c # unescape s else b # unescape (c # s))"

lemma unescape_plain: "c \<noteq> backslash \<Longrightarrow> unescape (c # s) = c # unescape s"
  by (cases s) auto

lemma unescape_escape: "unescape (escape_char c @ s) = (if loggable c then c # unescape s else unescape s)"
  using unescape_plain [of c s]
  by (auto simp: loggable_def escape_char_def unescape_char_def backslash_def quote_def)

lemma unescape_all: "unescape (concat (map escape_char s)) = filter loggable s"
  by (induction s) (simp_all add: unescape_escape)

lemma escape_length: "length (escape_char c) \<le> 2"
  by (simp add: escape_char_def)

lemma json_escape_complete:
  "length out + length (concat (map escape_char s)) \<le> n - 2 \<Longrightarrow> 3 \<le> n \<Longrightarrow>
   json_escape_from s n out = out @ concat (map escape_char s)"
proof (induction s arbitrary: out)
  case (Cons c s)
  show ?case
  proof (cases "n - 2 \<le> length out")
    case True
    with Cons.prems have "length (concat (map escape_char (c # s))) \<le> 0" by linarith
    then have "concat (map escape_char (c # s)) = []" by (simp only: le_zero_eq length_0_conv)
    with True show ?thesis by simp
  next
    case False
    have "\<not> (length (escape_char c) = 2 \<and> n - 3 \<le> length out)" using Cons.prems by auto
    then have step: "json_escape_from (c # s) n out = json_escape_from s n (out @ escape_char c)"
      using False by auto
    show ?thesis unfolding step using Cons.IH [of "out @ escape_char c"] Cons.prems by simp
  qed
qed simp

lemma escaped_length: "length (concat (map escape_char s)) \<le> 2 * length s"
  using escape_length by (induction s) (auto intro: order_trans [OF add_mono])

text \<open>A JSON log line loses nothing that can be printed: the message, cut to the 1023 characters of its
  buffer, always fits the escape buffer whole, and undoing the escapes gives its characters back,
  without the control characters other than newline, return and tab and without those beyond ASCII.\<close>

theorem json_escape_roundtrip:
  "unescape (json_escape_string (take 1023 message) 2048) = filter loggable (take 1023 message)
   \<and> length (json_escape_string (take 1023 message) 2048) < 2048"
proof -
  have len: "length (concat (map escape_char (take 1023 message))) \<le> 2046"
    using escaped_length [of "take 1023 message"] by (rule order_trans) simp
  have "json_escape_string (take 1023 message) 2048 = concat (map escape_char (take 1023 message))"
    using json_escape_complete [of "[]" "take 1023 message" 2048] len by (simp add: json_escape_string_def)
  with len show ?thesis by (simp add: unescape_all)
qed

section \<open>How much a text line may hold\<close>

definition pending :: "nat \<Rightarrow> logger \<Rightarrow> string" where
  "pending t lg = (case tls_log_buffer lg t of Log_buffer buf \<Rightarrow> snd buf | _ \<Rightarrow> [])"

definition line_start :: "text_buffer \<Rightarrow> nat" where
  "line_start buf = (if 3072 < fst buf then 0 else fst buf)"

lemma make_room_result:
  assumes "buf = (length pre, pre)" and "length pre \<le> 4095"
  shows "\<exists>pre' lg'. make_room t buf lg = Inr ((length pre', pre'), lg') \<and> log_out lg' @ pre' = log_out lg @ pre
    \<and> length pre' = line_start buf \<and> lg' = lg\<lparr>log_out := log_out lg'\<rparr>"
  using assms by (simp add: make_room_def buffer_bytes_def line_start_def log_limits)

lemma header_frame [simp]: "text_header ts level tid file line t (lg\<lparr>log_out := x\<rparr>) = text_header ts level tid file line t lg"
  by (simp add: text_header_def get_component_path_def)

lemma puts_over:
  assumes "length pre \<le> cap" and "cap < length pre + length a + length b"
  shows "puts cap (length pre, pre) [a, b] = Inl Out_of_bounds
    \<or> (\<exists>txt. puts cap (length pre, pre) [a, b] = Inr (length pre + length a + length b, txt))"
  using assms by (auto simp: put_def)

text \<open>C36: A line of the text format and the thread's buffer of 4096 bytes. With \<open>n\<close> characters of header
  and message after what is still waiting, nothing is lost as long as \<open>n\<close> leaves room for the
  newline: the line follows the waiting text, and an error takes it along to \<open>stderr\<close>. When they run
  past the buffer, the count passes it too, and the same call or the next flush reads or writes
  outside the buffer. A message of some 900 characters can do that.\<close>

theorem text_log_line:
  assumes "tls_log_buffer lg t = Log_buffer (length pre, pre)" and "length pre \<le> 4095"
    and "g_log_format lg = LOG_FORMAT_TEXT" and "g_log_level lg \<le> level"
    and "whole = text_header ts level tid file line t lg @ message"
    and "n = line_start (length pre, pre) + length whole"
  shows "if n \<le> 4094
    then \<exists>lg'. logger_log ts tid level file line message t lg = Inr lg'
      \<and> log_out lg' @ drop (length (log_err lg)) (log_err lg') @ pending t lg' = log_out lg @ pre @ whole @ [newline]
      \<and> (if level = LOG_LEVEL_ERROR then pending t lg' = [] else log_err lg' = log_err lg)
    else 4096 < n \<longrightarrow> logger_log ts tid level file line message t lg = Inl Out_of_bounds
      \<or> (\<exists>lg'. logger_log ts tid level file line message t lg = Inr lg' \<and> flush_buffer t lg' = Inl Out_of_bounds)"
proof -
  let ?h = "text_header ts level tid file line t lg"
  obtain pre' lg' where room: "make_room t (length pre, pre) lg = Inr ((length pre', pre'), lg')"
      "log_out lg' @ pre' = log_out lg @ pre" "length pre' = line_start (length pre, pre)" "lg' = lg\<lparr>log_out := log_out lg'\<rparr>"
    using make_room_result [OF refl assms(2), of t lg] by blast
  have start: "length pre' \<le> 3072" by (simp add: room(3) line_start_def)
  have fmt: "g_log_format lg' = LOG_FORMAT_TEXT" using assms(3) room(4) by (metis logger.select_convs(2) logger.surjective logger.update_convs(7))
  have hd: "text_header ts level tid file line t lg' = ?h" using room(4) header_frame by metis
  have err: "log_err lg' = log_err lg" using room(4) by (metis logger.select_convs(8) logger.surjective logger.update_convs(7))
  have run: "logger_log ts tid level file line message t lg =
      and_then (puts 4096 (length pre', pre') [?h, message]) (\<lambda>buf. finish_line level t (add_newline buf) lg')"
    using assms(1,3,4) room(1) fmt hd by (simp add: logger_log_def logger_log_text_def with_buffer_def get_tls_buffer_def Let_def LOG_BUFFER_SIZE_def
        not_less [symmetric])
  have n: "n = length pre' + length ?h + length message" using assms(5,6) room(3) by simp
  show ?thesis
  proof (cases "n \<le> 4094")
    case True
    have "puts 4096 (length pre', pre') [?h, message] = Inr (length (pre' @ ?h @ message), pre' @ ?h @ message)"
      using puts_fit [of pre' "[?h, message]" 4096] True n by simp
    then have "logger_log ts tid level file line message t lg =
        finish_line level t (length (pre' @ ?h @ message @ [newline]), pre' @ ?h @ message @ [newline]) lg'"
      using True n unfolding run by (simp add: add_newline_def LOG_BUFFER_SIZE_def)
    then show ?thesis
      using True n assms(5) room(2) err
      by (auto simp: finish_line_def buffer_bytes_def pending_def LOG_BUFFER_SIZE_def)
  next
    case False
    have "logger_log ts tid level file line message t lg = Inl Out_of_bounds
        \<or> (\<exists>lg'. logger_log ts tid level file line message t lg = Inr lg' \<and> flush_buffer t lg' = Inl Out_of_bounds)"
      if over: "4096 < n"
    proof (cases "puts 4096 (length pre', pre') [?h, message]")
      case (Inl e)
      with puts_over [of pre' 4096 ?h message] start over n show ?thesis unfolding run by auto
    next
      case (Inr buf)
      with puts_over [of pre' 4096 ?h message] start over n obtain content where "buf = (n, content)" by auto
      then have "add_newline buf = buf" "buffer_bytes buf = Inl Out_of_bounds" "fst buf \<noteq> 0"
        using over by (simp_all add: add_newline_def buffer_bytes_def LOG_BUFFER_SIZE_def)
      with Inr show ?thesis unfolding run
        by (cases "level = LOG_LEVEL_ERROR") (simp_all add: finish_line_def flush_buffer_def)
    qed
    with False show ?thesis by auto
  qed
qed

definition busy_logger :: logger where
  "busy_logger = \<lparr>g_log_level = LOG_LEVEL_INFO, g_log_format = LOG_FORMAT_TEXT,
     g_log_context = \<lparr>lc_node_id = 0, lc_cluster_name = [], lc_node_type = [], lc_initialized = False\<rparr>,
     tls_log_buffer = (\<lambda>t. Log_buffer (length (replicate 3072 (CHR ''x'')), replicate 3072 (CHR ''x''))),
     tls_component_stack = (\<lambda>t. []), g_ring_buffers = [0], log_out = [], log_err = []\<rparr>"

theorem text_log_line_witness:
  "logger_log ''now'' 1 LOG_LEVEL_INFO ''f.c'' 7 (replicate 1025 (CHR ''m'')) 0 busy_logger = Inl Out_of_bounds
   \<or> (\<exists>lg'. logger_log ''now'' 1 LOG_LEVEL_INFO ''f.c'' 7 (replicate 1025 (CHR ''m'')) 0 busy_logger = Inr lg'
      \<and> flush_buffer 0 lg' = Inl Out_of_bounds)"
proof -
  have "tls_log_buffer busy_logger 0 = Log_buffer (length (replicate 3072 (CHR ''x'')), replicate 3072 (CHR ''x''))"
      "length (replicate 3072 (CHR ''x'')) \<le> 4095" "g_log_format busy_logger = LOG_FORMAT_TEXT"
      "g_log_level busy_logger \<le> LOG_LEVEL_INFO"
    by (simp_all add: busy_logger_def)
  from text_log_line [OF this refl refl, of "''now''" 1 "''f.c''" 7 "replicate 1025 (CHR ''m'')"]
  show ?thesis by (simp add: line_start_def)
qed

end
