(* ===== verification/Config.thy ===== *)
theory Config
  imports Logger Cluster_View
begin

text \<open>
  src/core/config.c: the INI file parser and the address parser. A file is the string of its
  characters, or None when it cannot be opened. \<open>fgets\<close> cuts lines to 1023 characters, sections
  are cut to 63 and keys and values to 255. The router array is the list of its first
  \<open>router_count\<close> entries. Log messages are not modelled.
\<close>

record node_ports =
  gossip_addr :: string
  data_addr :: string
  ingress_addr :: string
  metrics_addr :: string

record roole_config =
  cluster_name :: string
  cfg_node_id :: node_id
  cfg_node_type :: node_type
  ports :: node_ports
  routers :: "string list"
  cfg_log_level :: log_level

text \<open>What \<open>memset(config, 0, ...)\<close> leaves.\<close>

definition zero_config :: roole_config where
  "zero_config = \<lparr>cluster_name = [], cfg_node_id = 0, cfg_node_type = NODE_TYPE_UNKNOWN,
     ports = \<lparr>gossip_addr = [], data_addr = [], ingress_addr = [], metrics_addr = []\<rparr>,
     routers = [], cfg_log_level = LOG_LEVEL_DEBUG\<rparr>"

section \<open>Lines\<close>

definition is_comment :: "string \<Rightarrow> bool" where
  "is_comment line = (case dropWhile isspace line of
     [] \<Rightarrow> True | c # _ \<Rightarrow> c = CHR '';'' \<or> c = CHR 0x23)"

definition is_section :: "string \<Rightarrow> nat \<Rightarrow> string option" where
  "is_section line max_len = (case dropWhile isspace line of
     [] \<Rightarrow> None
   | c # t \<Rightarrow> if c = CHR ''['' \<and> CHR '']'' \<in> set t
             then Some (take (max_len - 1) (before_char (CHR '']'') t)) else None)"

definition parse_key_value :: "string \<Rightarrow> nat \<Rightarrow> (string \<times> string) option" where
  "parse_key_value line max_len =
     map_option (\<lambda>value. (trim_whitespace (take (max_len - 1) (before_char (CHR ''='') line)),
                          trim_whitespace (take (max_len - 1) value)))
       (after_char (CHR ''='') line)"

fun collect_items :: "nat \<Rightarrow> string list \<Rightarrow> string list" where
  "collect_items 0 tokens = []"
| "collect_items (Suc n) [] = []"
| "collect_items (Suc n) (t # tokens) =
     (if trim_whitespace t \<noteq> [] then take (MAX_CONFIG_STRING - 1) (trim_whitespace t) # collect_items n tokens
      else collect_items (Suc n) tokens)"

definition parse_list :: "string \<Rightarrow> nat \<Rightarrow> string list" where
  "parse_list value max_items =
     collect_items max_items (strtok (CHR '';'') (take (MAX_CONFIG_STRING * MAX_CONFIG_ROUTERS - 1) value))"

section \<open>The loader\<close>

definition parse_node_type :: "string \<Rightarrow> node_type" where
  "parse_node_type value =
     (if same_ignoring_case value ''ROUTER'' then NODE_TYPE_ROUTER
      else if same_ignoring_case value ''WORKER'' then NODE_TYPE_WORKER
      else NODE_TYPE_UNKNOWN)"

definition parse_log_level :: "string \<Rightarrow> log_level" where
  "parse_log_level value =
     (if same_ignoring_case value ''DEBUG'' then LOG_LEVEL_DEBUG
      else if same_ignoring_case value ''INFO'' then LOG_LEVEL_INFO
      else if same_ignoring_case value ''WARN'' then LOG_LEVEL_WARN
      else if same_ignoring_case value ''ERROR'' then LOG_LEVEL_ERROR
      else LOG_LEVEL_INFO)"

definition set_cluster_key :: "string \<Rightarrow> string \<Rightarrow> roole_config \<Rightarrow> roole_config" where
  "set_cluster_key key value cfg =
     (if same_ignoring_case key ''name'' then cfg\<lparr>cluster_name := strcpy_to MAX_CONFIG_STRING value\<rparr>
      else if same_ignoring_case key ''routers'' then cfg\<lparr>routers := parse_list value MAX_CONFIG_ROUTERS\<rparr>
      else cfg)"

definition set_node_key :: "string \<Rightarrow> string \<Rightarrow> roole_config \<Rightarrow> roole_config" where
  "set_node_key key value cfg =
     (if same_ignoring_case key ''id'' then cfg\<lparr>cfg_node_id := word_of_int (atoi value)\<rparr>
      else if same_ignoring_case key ''type'' then cfg\<lparr>cfg_node_type := parse_node_type value\<rparr>
      else if same_ignoring_case key ''gossip_addr'' \<or> same_ignoring_case key ''gossip''
      then cfg\<lparr>ports := (ports cfg)\<lparr>gossip_addr := strcpy_to MAX_CONFIG_STRING value\<rparr>\<rparr>
      else if same_ignoring_case key ''data_addr'' \<or> same_ignoring_case key ''data''
      then cfg\<lparr>ports := (ports cfg)\<lparr>data_addr := strcpy_to MAX_CONFIG_STRING value\<rparr>\<rparr>
      else if same_ignoring_case key ''ingress_addr'' \<or> same_ignoring_case key ''ingress''
      then cfg\<lparr>ports := (ports cfg)\<lparr>ingress_addr := strcpy_to MAX_CONFIG_STRING value\<rparr>\<rparr>
      else if same_ignoring_case key ''metrics_addr'' \<or> same_ignoring_case key ''metrics''
      then cfg\<lparr>ports := (ports cfg)\<lparr>metrics_addr := strcpy_to MAX_CONFIG_STRING value\<rparr>\<rparr>
      else cfg)"

definition config_set :: "string \<Rightarrow> string \<Rightarrow> string \<Rightarrow> roole_config \<Rightarrow> roole_config" where
  "config_set sec key value cfg =
     (if same_ignoring_case sec ''Cluster'' then set_cluster_key key value cfg
      else if same_ignoring_case sec ''Node'' then set_node_key key value cfg
      else if same_ignoring_case sec ''Logging'' \<and> same_ignoring_case key ''level''
      then cfg\<lparr>cfg_log_level := parse_log_level value\<rparr>
      else cfg)"

text \<open>\<open>fgets\<close> with room for \<open>n\<close> characters, and all the lines it reads from a file.\<close>

fun fgets :: "nat \<Rightarrow> string \<Rightarrow> string \<times> string" where
  "fgets 0 s = ([], s)"
| "fgets (Suc n) [] = ([], [])"
| "fgets (Suc n) (c # s) =
     (if c = newline then ([c], s) else (case fgets n s of (line, rest) \<Rightarrow> (c # line, rest)))"

lemma fgets_append: "fst (fgets n s) @ snd (fgets n s) = s"
  by (induction n s rule: fgets.induct) (auto split: prod.split)

lemma fgets_shrinks: "0 < n \<Longrightarrow> s \<noteq> [] \<Longrightarrow> length (snd (fgets n s)) < length s"
proof (cases n; cases s)
  fix m c t assume "n = Suc m" "s = c # t"
  moreover have "length (snd (fgets m t)) \<le> length t"
    using arg_cong [OF fgets_append [of m t], of length] by simp
  ultimately show ?thesis by (auto split: prod.split)
qed auto

function file_lines :: "string \<Rightarrow> string list" where
  "file_lines s = (if s = [] then [] else fst (fgets 1023 s) # file_lines (snd (fgets 1023 s)))"
  by pat_completeness auto
termination by (relation "measure length") (use fgets_shrinks in auto)

declare file_lines.simps [simp del]

text \<open>The line as a C string, without its newline.\<close>

definition chomp :: "string \<Rightarrow> string" where
  "chomp line = (let l = takeWhile (\<lambda>c. c \<noteq> NUL) line
     in if l \<noteq> [] \<and> last l = newline then butlast l else l)"

definition config_line :: "string \<times> roole_config \<Rightarrow> string \<Rightarrow> string \<times> roole_config" where
  "config_line st line = (case st of (sec, cfg) \<Rightarrow>
     (let l = chomp line
      in if is_comment l then (sec, cfg)
         else case is_section l 64 of
             Some s \<Rightarrow> (s, cfg)
           | None \<Rightarrow>
               (case parse_key_value l MAX_CONFIG_STRING of
                  None \<Rightarrow> (sec, cfg)
                | Some (key, value) \<Rightarrow> (sec, config_set sec key value cfg))))"

text \<open>The final validation.\<close>

definition config_check :: "roole_config \<Rightarrow> int" where
  "config_check cfg =
     (if cluster_name cfg = [] then -1
      else if cfg_node_id cfg = 0 then -1
      else if cfg_node_type cfg = NODE_TYPE_UNKNOWN then -1
      else if gossip_addr (ports cfg) = [] then -1
      else if data_addr (ports cfg) = [] then -1
      else 0)"

definition config_load_from_file :: "string option \<Rightarrow> roole_config \<Rightarrow> int \<times> roole_config" where
  "config_load_from_file file config =
     (case file of
        None \<Rightarrow> (-1, config)
      | Some content \<Rightarrow>
          let cfg = snd (foldl config_line ([], zero_config) (file_lines content))
          in (config_check cfg, cfg))"

definition config_parse_address :: "string \<Rightarrow> string \<times> u16" where
  "config_parse_address addr_str =
     (let buffer = strcpy_to MAX_CONFIG_STRING addr_str
      in case after_char (CHR '':'') buffer of
           Some port \<Rightarrow> (strcpy_to 16 (before_char (CHR '':'') buffer), word_of_int (atoi port))
         | None \<Rightarrow> (strcpy_to 16 buffer, 0))"

section \<open>Whatever the file holds, the configuration is well formed\<close>

definition text_ok :: "string \<Rightarrow> bool" where
  "text_ok s \<longleftrightarrow> c_string s \<and> length s < MAX_CONFIG_STRING"

definition router_text_ok :: "string \<Rightarrow> bool" where
  "router_text_ok r \<longleftrightarrow> text_ok r \<and> r \<noteq> [] \<and> CHR '';'' \<notin> set r \<and> \<not> isspace (hd r)"

definition config_ok :: "roole_config \<Rightarrow> bool" where
  "config_ok cfg \<longleftrightarrow> text_ok (cluster_name cfg) \<and> text_ok (gossip_addr (ports cfg))
     \<and> text_ok (data_addr (ports cfg)) \<and> text_ok (ingress_addr (ports cfg)) \<and> text_ok (metrics_addr (ports cfg))
     \<and> length (routers cfg) \<le> MAX_CONFIG_ROUTERS \<and> list_all router_text_ok (routers cfg)
     \<and> cfg_node_type cfg \<in> {NODE_TYPE_UNKNOWN, NODE_TYPE_ROUTER, NODE_TYPE_WORKER}"

lemma text_ok_copy [intro]: "text_ok (strcpy_to MAX_CONFIG_STRING s)"
  using strcpy_to_length [of MAX_CONFIG_STRING s] by (simp add: text_ok_def config_limits)

lemma length_collect_items: "length (collect_items n ts) \<le> n"
  by (induction n ts rule: collect_items.induct) auto

lemma collect_items_ok:
  "\<forall>t \<in> set ts. c_string t \<and> CHR '';'' \<notin> set t \<Longrightarrow> list_all router_text_ok (collect_items n ts)"
proof (induction n ts rule: collect_items.induct)
  case (3 n t ts)
  have "trimmed (trim_whitespace t)" by (rule trimmed_trim)
  moreover have "c_string (trim_whitespace t)" "CHR '';'' \<notin> set (trim_whitespace t)"
    using 3 set_trim [of t] c_string_trim [of t] by auto
  moreover have "hd (take 255 (x # s)) = x" for x :: char and s by simp
  ultimately have "trim_whitespace t \<noteq> [] \<Longrightarrow> router_text_ok (take (MAX_CONFIG_STRING - 1) (trim_whitespace t))"
    by (cases "trim_whitespace t")
      (auto simp: router_text_ok_def text_ok_def trimmed_def config_limits c_string_def dest: in_set_takeD)
  with 3 show ?case by simp
qed simp_all

lemma parse_list_ok: "c_string value \<Longrightarrow> list_all router_text_ok (parse_list value n)"
  unfolding parse_list_def
  by (rule collect_items_ok) (auto simp: c_string_def dest!: strtok_set in_set_takeD)

lemma config_set_ok: "c_string value \<Longrightarrow> config_ok cfg \<Longrightarrow> config_ok (config_set sec key value cfg)"
  using parse_list_ok [of "value" MAX_CONFIG_ROUTERS] length_collect_items [of MAX_CONFIG_ROUTERS] text_ok_copy [of "value"]
  by (auto simp: config_set_def set_cluster_key_def set_node_key_def config_ok_def parse_node_type_def parse_list_def)

lemma chomp_c_string: "c_string (chomp line)"
proof -
  have "c_string (takeWhile (\<lambda>c. c \<noteq> NUL) line)" by (auto simp: c_string_def dest: set_takeWhileD)
  then show ?thesis by (auto simp: chomp_def Let_def c_string_def dest: in_set_butlastD)
qed

lemma parse_value_c_string: "c_string l \<Longrightarrow> parse_key_value l n = Some (key, value) \<Longrightarrow> c_string value"
  by (auto simp: parse_key_value_def after_char_def c_string_def split: list.splits
      dest!: set_mp [OF set_trim] in_set_takeD) (metis list.set_intros(2) set_dropWhileD)

lemma config_line_ok: "config_ok cfg \<Longrightarrow> config_ok (snd (config_line (sec, cfg) line))"
  using chomp_c_string [of line]
  by (auto simp: config_line_def Let_def split: option.split intro!: config_set_ok dest: parse_value_c_string)

lemma config_lines_ok: "config_ok (snd st) \<Longrightarrow> config_ok (snd (foldl config_line st ls))"
proof (induction ls arbitrary: st)
  case (Cons l ls)
  then show ?case using config_line_ok [of "snd st" "fst st" l] by simp
qed simp

text \<open>Whatever bytes a configuration file holds, what the loader fills in is well formed: every text
  is terminated within its 256 bytes, there are at most 16 routers, each non-empty and without
  separators, and the node type is one of the three the code names. It returns 0 exactly when the
  cluster name, the node id, the node type and the gossip and data addresses are all there.\<close>

theorem config_load_well_formed:
  "config_ok (snd (config_load_from_file (Some content) old))
   \<and> fst (config_load_from_file (Some content) old) =
      (let cfg = snd (config_load_from_file (Some content) old)
       in if [] \<in> {cluster_name cfg, gossip_addr (ports cfg), data_addr (ports cfg)}
           \<or> cfg_node_id cfg = 0 \<or> cfg_node_type cfg = NODE_TYPE_UNKNOWN
         then -1 else 0)"
proof -
  have "config_ok zero_config" by (simp add: config_ok_def zero_config_def text_ok_def c_string_def config_limits)
  then have "config_ok (snd (foldl config_line ([], zero_config) (file_lines content)))"
    using config_lines_ok [of "([], zero_config)"] by simp
  then show ?thesis
    by (auto simp: config_load_from_file_def Let_def config_check_def config_ok_def)
qed

section \<open>Writing a configuration down and loading it\<close>

text \<open>A configuration as a file in the format of config/router.ini and config/worker_100.ini.\<close>

definition entry :: "string \<Rightarrow> string \<Rightarrow> string" where "entry key v = key @ '' = '' @ v"

fun join_items :: "string list \<Rightarrow> string" where
  "join_items [] = []"
| "join_items [r] = r"
| "join_items (r # rs) = r @ CHR '';'' # join_items rs"

definition node_type_text :: "node_type \<Rightarrow> string" where
  "node_type_text t = (if t = NODE_TYPE_ROUTER then ''ROUTER'' else ''WORKER'')"

fun log_level_text :: "log_level \<Rightarrow> string" where
  "log_level_text LOG_LEVEL_DEBUG = ''DEBUG''"
| "log_level_text LOG_LEVEL_INFO = ''INFO''"
| "log_level_text LOG_LEVEL_WARN = ''WARN''"
| "log_level_text LOG_LEVEL_ERROR = ''ERROR''"

definition config_lines :: "roole_config \<Rightarrow> string list" where
  "config_lines cfg =
     [''[Cluster]'', entry ''name'' (cluster_name cfg), entry ''routers'' (join_items (routers cfg)),
      ''[Node]'', entry ''id'' (utoa (unat (cfg_node_id cfg))), entry ''type'' (node_type_text (cfg_node_type cfg)),
      entry ''gossip_addr'' (gossip_addr (ports cfg)), entry ''data_addr'' (data_addr (ports cfg)),
      entry ''metrics_addr'' (metrics_addr (ports cfg)), entry ''ingress_addr'' (ingress_addr (ports cfg)),
      ''[Logging]'', entry ''level'' (log_level_text (cfg_log_level cfg))]"

definition config_text :: "roole_config \<Rightarrow> string" where
  "config_text cfg = concat (map (\<lambda>l. l @ [newline]) (config_lines cfg))"

text \<open>Texts that survive: no white space at the ends, one line, and one character less than the
  buffer, for the blank after the equals sign is read into it too.\<close>

definition plain :: "string \<Rightarrow> bool" where
  "plain v \<longleftrightarrow> trimmed v \<and> c_string v \<and> newline \<notin> set v \<and> length v < 255"

definition storable :: "roole_config \<Rightarrow> bool" where
  "storable cfg \<longleftrightarrow> plain (cluster_name cfg) \<and> cluster_name cfg \<noteq> []
     \<and> plain (gossip_addr (ports cfg)) \<and> gossip_addr (ports cfg) \<noteq> []
     \<and> plain (data_addr (ports cfg)) \<and> data_addr (ports cfg) \<noteq> []
     \<and> plain (ingress_addr (ports cfg)) \<and> plain (metrics_addr (ports cfg))
     \<and> cfg_node_id cfg \<noteq> 0 \<and> cfg_node_type cfg \<in> {NODE_TYPE_ROUTER, NODE_TYPE_WORKER}
     \<and> length (routers cfg) \<le> MAX_CONFIG_ROUTERS \<and> plain (join_items (routers cfg))
     \<and> list_all (\<lambda>r. r \<noteq> [] \<and> trimmed r \<and> CHR '';'' \<notin> set r) (routers cfg)"

lemma fgets_line: "newline \<notin> set l \<Longrightarrow> length l < n \<Longrightarrow> fgets n (l @ newline # rest) = (l @ [newline], rest)"
proof (induction l arbitrary: n)
  case Nil
  then show ?case by (cases n) auto
next
  case (Cons c l)
  then show ?case by (cases n) auto
qed

lemma file_lines_concat:
  "\<forall>l \<in> set ls. newline \<notin> set l \<and> length l < 1023 \<Longrightarrow>
   file_lines (concat (map (\<lambda>l. l @ [newline]) ls)) = map (\<lambda>l. l @ [newline]) ls"
proof (induction ls)
  case (Cons l ls)
  then show ?case by (subst file_lines.simps) (simp add: fgets_line)
qed (simp add: file_lines.simps)

lemma chomp_line: "c_string l \<Longrightarrow> chomp (l @ [newline]) = l"
proof -
  assume "c_string l"
  then have "takeWhile (\<lambda>c. c \<noteq> NUL) (l @ [newline]) = l @ [newline]"
    by (auto simp: takeWhile_eq_all_conv c_string_def)
  then show ?thesis by (simp add: chomp_def)
qed

lemma trim_before_space: "trimmed k \<Longrightarrow> k \<noteq> [] \<Longrightarrow> isspace c \<Longrightarrow> trim_whitespace (k @ [c]) = k"
  using trim_trailing_space [of c k] trim_trailing_trimmed [of k]
  by (cases k) (auto simp: trim_whitespace_def trimmed_def)

lemma trim_after_space: "trimmed v \<Longrightarrow> trim_whitespace (CHR '' '' # v) = v"
  by (simp add: isspace_def trim_trimmed)

definition key_ok :: "string \<Rightarrow> bool" where
  "key_ok k \<longleftrightarrow> k \<noteq> [] \<and> trimmed k \<and> CHR ''='' \<notin> set k \<and> c_string k \<and> length k < 255
     \<and> hd k \<noteq> CHR '';'' \<and> hd k \<noteq> CHR 0x23 \<and> hd k \<noteq> CHR ''[''"

lemma parse_entry:
  assumes "key_ok k" and "plain v"
  shows "parse_key_value (entry k v) MAX_CONFIG_STRING = Some (k, v)"
proof -
  have sp: "isspace (CHR '' '')" by (simp add: isspace_def)
  have e: "entry k v = (k @ '' '') @ CHR ''='' # CHR '' '' # v" by (simp add: entry_def)
  have "CHR ''='' \<notin> set (k @ '' '')" using assms(1) by (simp add: key_ok_def)
  note split = before_char_split [OF this] after_char_split [OF this]
  have "take 255 (CHR '' '' # v) = CHR '' '' # v" "take 255 (k @ '' '') = k @ '' ''"
    using assms by (auto simp: plain_def key_ok_def)
  moreover have "trim_whitespace (k @ '' '') = k" "trim_whitespace (CHR '' '' # v) = v"
    using trim_before_space [of k, OF _ _ sp] trim_after_space [of v] assms
    by (auto simp: plain_def key_ok_def)
  ultimately show ?thesis
    unfolding parse_key_value_def e split by (simp add: config_limits)
qed

lemma config_line_entry:
  assumes "key_ok k" and "plain v"
  shows "config_line (sec, cfg) (entry k v @ [newline]) = (sec, config_set sec k v cfg)"
proof -
  obtain c t where k: "k = c # t" "\<not> isspace c" using assms(1) by (cases k) (auto simp: key_ok_def trimmed_def)
  have "c_string (entry k v)" using assms by (auto simp: entry_def c_string_def plain_def key_ok_def)
  moreover have "\<not> is_comment (entry k v)" "is_section (entry k v) 64 = None"
    using assms(1) k by (auto simp: is_comment_def is_section_def entry_def key_ok_def)
  ultimately show ?thesis by (simp add: config_line_def chomp_line parse_entry [OF assms])
qed

lemma config_line_section:
  assumes "c_string n" and "CHR '']'' \<notin> set n" and "length n < 64"
  shows "config_line (sec, cfg) ((CHR ''['' # n @ '']'') @ [newline]) = (n, cfg)"
proof -
  have "c_string (CHR ''['' # n @ '']'')" using assms(1) by (auto simp: c_string_def)
  moreover have "\<not> is_comment (CHR ''['' # n @ '']'')" "is_section (CHR ''['' # n @ '']'') 64 = Some n"
    using assms(2,3) by (simp_all add: is_comment_def is_section_def isspace_def)
  ultimately show ?thesis unfolding config_line_def by (simp add: chomp_line del: append_Cons)
qed

lemma strtok_join: "list_all (\<lambda>r. r \<noteq> [] \<and> d \<notin> set r) rs \<Longrightarrow> d = CHR '';'' \<Longrightarrow> strtok d (join_items rs) = rs"
  by (induction rs rule: join_items.induct) (auto simp: strtok_last strtok_token)

lemma collect_items_all:
  "list_all (\<lambda>r. r \<noteq> [] \<and> trimmed r \<and> length r < 256) rs \<Longrightarrow> length rs \<le> n \<Longrightarrow> collect_items n rs = rs"
  by (induction n rs rule: collect_items.induct) (auto simp: trim_trimmed config_limits)

lemma join_items_length: "r \<in> set rs \<Longrightarrow> length r \<le> length (join_items rs)"
  by (induction rs rule: join_items.induct) auto

lemma parse_join:
  assumes "length rs \<le> MAX_CONFIG_ROUTERS" and "plain (join_items rs)"
    and "list_all (\<lambda>r. r \<noteq> [] \<and> trimmed r \<and> CHR '';'' \<notin> set r) rs"
  shows "parse_list (join_items rs) MAX_CONFIG_ROUTERS = rs"
proof -
  have "list_all (\<lambda>r. r \<noteq> [] \<and> trimmed r \<and> length r < 256) rs"
    using assms(2,3) by (fastforce simp: list_all_iff plain_def dest: join_items_length)
  then show ?thesis
    using assms by (simp add: parse_list_def config_limits plain_def collect_items_all strtok_join list_all_iff)
qed

lemma key_names:
  "key_ok ''name''" "key_ok ''routers''" "key_ok ''id''" "key_ok ''type''" "key_ok ''gossip_addr''"
  "key_ok ''data_addr''" "key_ok ''metrics_addr''" "key_ok ''ingress_addr''" "key_ok ''level''"
  by (simp_all add: key_ok_def trimmed_def isspace_def c_string_def)

lemma same_self [simp]: "same_ignoring_case s s"
  by (simp add: same_ignoring_case_def)

lemma same_length: "length s \<noteq> length t \<Longrightarrow> \<not> same_ignoring_case s t"
  by (metis length_map same_ignoring_case_def)

lemma names_differ:
  "\<not> same_ignoring_case ''Logging'' ''Cluster''" "\<not> same_ignoring_case ''metrics_addr'' ''ingress_addr''"
  "\<not> same_ignoring_case ''WORKER'' ''ROUTER''" "\<not> same_ignoring_case ''WARN'' ''INFO''"
  "\<not> same_ignoring_case ''ERROR'' ''DEBUG''"
  by code_simp+

lemma parse_texts:
  "t \<in> {NODE_TYPE_ROUTER, NODE_TYPE_WORKER} \<Longrightarrow> parse_node_type (node_type_text t) = t"
  "parse_log_level (log_level_text l) = l"
  by (auto simp: parse_node_type_def node_type_text_def names_differ)
    (cases l; simp add: parse_log_level_def names_differ same_length)

lemma texts_plain:
  "plain (node_type_text t)" "plain (log_level_text l)" "plain (utoa (unat (i :: u16)))"
proof -
  show "plain (node_type_text t)"
    by (simp add: node_type_text_def plain_def trimmed_def isspace_def c_string_def)
  show "plain (log_level_text l)"
    by (cases l) (simp_all add: plain_def trimmed_def isspace_def c_string_def)
  have "length (utoa (unat i)) \<le> 5"
    using unsigned_less [where 'a = nat, of i] by (intro utoa_length) simp_all
  moreover have "\<not> isspace c" "c \<noteq> newline" if "c \<in> set (utoa (unat i))" for c
    using utoa_chars [OF that] by (auto simp: isdigit_def isspace_def Let_def)
  ultimately show "plain (utoa (unat i))"
    by (auto simp: plain_def trimmed_def c_string_utoa)
qed

lemma atoi_node_id: "word_of_int (atoi (utoa (unat (i :: u16)))) = i"
  using unsigned_less [where 'a = nat, of i] by simp

lemma plain_copy: "plain v \<Longrightarrow> strcpy_to MAX_CONFIG_STRING v = v"
  by (simp add: plain_def config_limits)

lemma line_lengths:
  assumes "plain v" and "key_ok k"
  shows "length (entry k v) < 1023" "newline \<notin> set k \<Longrightarrow> newline \<notin> set (entry k v)"
  using assms by (auto simp: entry_def plain_def key_ok_def)

lemma section_names:
  "c_string ''Cluster''" "c_string ''Node''" "c_string ''Logging''"
  "CHR '']'' \<notin> set ''Cluster''" "CHR '']'' \<notin> set ''Node''" "CHR '']'' \<notin> set ''Logging''"
  "length ''Cluster'' < 64" "length ''Node'' < 64" "length ''Logging'' < 64"
  by (simp_all add: c_string_def)

text \<open>C33: A configuration written down in the format of the sample files is loaded back as it was, as
  long as its texts are single lines of at most 254 characters without white space at the ends and
  the routers together fit such a line.\<close>

theorem config_file_roundtrip:
  assumes "storable cfg"
  shows "config_load_from_file (Some (config_text cfg)) old = (0, cfg)"
proof -
  note st = assms [unfolded storable_def]
  have plains: "plain (cluster_name cfg)" "plain (join_items (routers cfg))" "plain (gossip_addr (ports cfg))"
      "plain (data_addr (ports cfg))" "plain (metrics_addr (ports cfg))" "plain (ingress_addr (ports cfg))"
    using st by simp_all
  have "\<forall>l \<in> set (config_lines cfg). newline \<notin> set l \<and> length l < 1023"
    using plains texts_plain by (simp add: config_lines_def line_lengths key_names)
  then have lines: "file_lines (config_text cfg) = map (\<lambda>l. l @ [newline]) (config_lines cfg)"
    unfolding config_text_def by (rule file_lines_concat)
  have sections: "''[Cluster]'' = CHR ''['' # ''Cluster'' @ '']''" "''[Node]'' = CHR ''['' # ''Node'' @ '']''"
      "''[Logging]'' = CHR ''['' # ''Logging'' @ '']''" by simp_all
  have "foldl config_line ([], zero_config) (file_lines (config_text cfg)) = (''Logging'',
      config_set ''Logging'' ''level'' (log_level_text (cfg_log_level cfg))
     (config_set ''Node'' ''ingress_addr'' (ingress_addr (ports cfg))
     (config_set ''Node'' ''metrics_addr'' (metrics_addr (ports cfg))
     (config_set ''Node'' ''data_addr'' (data_addr (ports cfg))
     (config_set ''Node'' ''gossip_addr'' (gossip_addr (ports cfg))
     (config_set ''Node'' ''type'' (node_type_text (cfg_node_type cfg))
     (config_set ''Node'' ''id'' (utoa (unat (cfg_node_id cfg)))
     (config_set ''Cluster'' ''routers'' (join_items (routers cfg))
     (config_set ''Cluster'' ''name'' (cluster_name cfg) zero_config)))))))))"
    unfolding lines config_lines_def list.map sections
    by (simp only: config_line_entry config_line_section section_names key_names plains texts_plain
      foldl.simps not_False_eq_True)
  also have "\<dots> = (''Logging'', cfg)"
    using st by (cases cfg, cases "ports cfg")
      (simp add: config_set_def set_cluster_key_def set_node_key_def same_length names_differ
        plain_copy parse_join parse_texts atoi_node_id zero_config_def)
  finally show ?thesis
    using st by (auto simp: config_load_from_file_def config_check_def)
qed

definition sample_config :: roole_config where
  "sample_config = \<lparr>cluster_name = ''test'', cfg_node_id = 100, cfg_node_type = NODE_TYPE_WORKER,
     ports = \<lparr>gossip_addr = ''127.0.0.1:7100'', data_addr = ''127.0.0.1:7101'', ingress_addr = [],
       metrics_addr = ''127.0.0.1:7102''\<rparr>,
     routers = [''127.0.0.1:7000'', ''127.0.0.2:7000''], cfg_log_level = LOG_LEVEL_WARN\<rparr>"

theorem config_file_roundtrip_witness:
  "config_load_from_file (Some (config_text sample_config)) zero_config = (0, sample_config)"
  by (rule config_file_roundtrip)
    (simp add: storable_def sample_config_def plain_def trimmed_def isspace_def c_string_def config_limits)

lemma parse_printed_address:
  assumes "c_string ip" and "CHR '':'' \<notin> set ip" and "length ip < 16" and "n < 2 ^ 31"
  shows "config_parse_address (ip @ CHR '':'' # utoa n) = (ip, word_of_nat n)"
proof -
  have "length (utoa n) \<le> 10" using assms(4) by (intro utoa_length) simp_all
  then have "strcpy_to MAX_CONFIG_STRING (ip @ CHR '':'' # utoa n) = ip @ CHR '':'' # utoa n"
    using assms c_string_utoa [of n] by (intro strcpy_to_short) (auto simp: c_string_def config_limits)
  with assms show ?thesis by (simp add: config_parse_address_def)
qed

text \<open>Addresses: an IP text of at most 15 characters and a port printed after a colon are read back;
  a number beyond 65535 is accepted and taken modulo 65536.\<close>

theorem address_roundtrip:
  assumes "c_string ip" and "CHR '':'' \<notin> set ip" and "length ip < 16" and "n < 2 ^ 31"
  shows "config_parse_address (ip @ CHR '':'' # utoa n) = (ip, word_of_nat n)"
  using assms by (rule parse_printed_address)

theorem address_roundtrip_witness:
  "config_parse_address (''127.0.0.1:'' @ utoa 72536) = (''127.0.0.1'', 7000)"
  using address_roundtrip [of "''127.0.0.1''" 72536] by (simp add: c_string_def)

end
