(* ===== verification/Message_Queue.thy ===== *)
theory Message_Queue
  imports Bounded_Fifo
begin

text \<open>
  src/node/message_queue.c: the queue between the RPC handlers of a node and its executor
  threads. Each operation is the section it runs under \<open>queue->lock\<close>; a result \<open>None\<close> means that
  the thread waits on the condition variable (\<open>not_full\<close> or \<open>not_empty\<close>) with the queue
  unchanged and runs the section again when it is woken. Whether a timed wait has expired is the
  argument \<open>expired\<close>. The allocation and the three initialisations that can fail are Boolean
  arguments of \<open>message_queue_init\<close>.
\<close>

record message =
  q_exec_id :: execution_id
  q_dag_id :: rule_id
  q_message_data :: bytes
  q_message_len :: nat
  q_received_at_ms :: u64
  q_sender_id :: node_id

definition zero_message :: message where
  "zero_message = \<lparr>q_exec_id = 0, q_dag_id = 0, q_message_data = [], q_message_len = 0,
     q_received_at_ms = 0, q_sender_id = 0\<rparr>"

record message_queue =
  mq_messages :: "message list"
  mq_head :: nat
  mq_tail :: nat
  mq_capacity :: nat
  mq_count :: nat

definition zero_message_queue :: message_queue where
  "zero_message_queue = \<lparr>mq_messages = [], mq_head = 0, mq_tail = 0, mq_capacity = 0, mq_count = 0\<rparr>"

definition message_queue_init ::
  "nat \<Rightarrow> bool \<Rightarrow> bool \<Rightarrow> bool \<Rightarrow> bool \<Rightarrow> message_queue \<Rightarrow> result_status \<times> message_queue" where
  "message_queue_init cap alloc_ok mutex_ok not_empty_ok not_full_ok q =
     (if cap = 0 then (RESULT_ERR_INVALID, q)
      else if \<not> alloc_ok then (RESULT_ERR_NOMEM, zero_message_queue)
      else let q = zero_message_queue\<lparr>mq_messages := replicate cap zero_message, mq_capacity := cap\<rparr>
           in if mutex_ok \<and> not_empty_ok \<and> not_full_ok then (RESULT_OK, q)
              else (RESULT_ERR_INVALID, q\<lparr>mq_messages := []\<rparr>))"

definition message_queue_destroy :: "message_queue \<Rightarrow> message_queue" where
  "message_queue_destroy q = q\<lparr>mq_messages := [], mq_capacity := 0, mq_count := 0\<rparr>"

definition message_queue_push :: "message_queue \<Rightarrow> message \<Rightarrow> message_queue option" where
  "message_queue_push q m =
     (if mq_count q \<ge> mq_capacity q then None
      else Some (q\<lparr>mq_messages := (mq_messages q)[mq_tail q := m],
                   mq_tail := (mq_tail q + 1) mod mq_capacity q,
                   mq_count := mq_count q + 1\<rparr>))"

definition message_queue_take :: "message_queue \<Rightarrow> message \<times> message_queue" where
  "message_queue_take q =
     (mq_messages q ! mq_head q,
      q\<lparr>mq_head := (mq_head q + 1) mod mq_capacity q, mq_count := mq_count q - 1\<rparr>)"

definition message_queue_pop ::
  "message_queue \<Rightarrow> int \<Rightarrow> bool \<Rightarrow> (result_status \<times> message option \<times> message_queue) option" where
  "message_queue_pop q timeout_ms expired =
     (if mq_count q = 0 then
        (if timeout_ms < 0 then None
         else if timeout_ms > 0 then (if expired then Some (RESULT_ERR_TIMEOUT, None, q) else None)
         else Some (RESULT_ERR_EMPTY, None, q))
      else case message_queue_take q of (m, q') \<Rightarrow> Some (RESULT_OK, Some m, q'))"

definition message_queue_size :: "message_queue \<Rightarrow> nat" where
  "message_queue_size q = mq_count q"

definition message_queue_is_empty :: "message_queue \<Rightarrow> bool" where
  "message_queue_is_empty q \<longleftrightarrow> message_queue_size q = 0"

text \<open>The deadline of a timed wait, in seconds and nanoseconds, from the clock and a positive
  number of milliseconds (the same code in the message queue and in the event queue).\<close>

definition wait_deadline :: "nat \<times> nat \<Rightarrow> nat \<Rightarrow> nat \<times> nat" where
  "wait_deadline now timeout_ms =
     (let sec = fst now + timeout_ms div 1000;
          nsec = snd now + (timeout_ms mod 1000) * 1000000
      in if nsec \<ge> 1000000000 then (sec + 1, nsec - 1000000000) else (sec, nsec))"

section \<open>The queue as a list\<close>

definition mq_contents :: "message_queue \<Rightarrow> message list" where
  "mq_contents q = ring_contents (mq_messages q) (mq_head q) (mq_count q)"

definition mq_ok :: "message_queue \<Rightarrow> bool" where
  "mq_ok q \<longleftrightarrow> mq_capacity q = length (mq_messages q)
     \<and> ring_ok (mq_messages q) (mq_head q) (mq_tail q) (mq_count q)"

definition mq_dequeue :: "message_queue \<Rightarrow> (message \<times> message_queue) option" where
  "mq_dequeue q =
     (case message_queue_pop q 0 False of
        Some (RESULT_OK, Some m, q') \<Rightarrow> Some (m, q')
      | _ \<Rightarrow> None)"

lemma mq_dequeue_simp:
  "mq_dequeue q = (if mq_count q = 0 then None else Some (message_queue_take q))"
  by (simp add: mq_dequeue_def message_queue_pop_def split: prod.splits)

lemma mq_contents_empty_iff: "mq_contents q = [] \<longleftrightarrow> mq_count q = 0"
  by (simp add: mq_contents_def ring_contents_def)

lemma mq_push_step:
  assumes "mq_ok q" and "mq_count q < mq_capacity q"
  shows "\<exists>q'. message_queue_push q m = Some q' \<and> mq_ok q' \<and> mq_contents q' = mq_contents q @ [m]
    \<and> mq_capacity q' = mq_capacity q"
  using assms ring_push_contents [of "mq_messages q" "mq_head q" "mq_tail q" "mq_count q" m]
    ring_push_ok [of "mq_messages q" "mq_head q" "mq_tail q" "mq_count q" m]
  by (simp add: message_queue_push_def mq_ok_def mq_contents_def)

lemma mq_take_step:
  assumes "mq_ok q" and "mq_contents q = y # ys"
  shows "message_queue_take q = (y, snd (message_queue_take q)) \<and> mq_ok (snd (message_queue_take q))
    \<and> mq_contents (snd (message_queue_take q)) = ys
    \<and> mq_capacity (snd (message_queue_take q)) = mq_capacity q"
proof -
  have "mq_count q = length (y # ys)"
    using assms(2) length_ring_contents unfolding mq_contents_def by metis
  then obtain c where "mq_count q = Suc c" by simp
  with assms ring_pop_contents [of "mq_messages q" "mq_head q" "mq_tail q" c]
    ring_pop_ok [of "mq_messages q" "mq_head q" "mq_tail q" c]
  show ?thesis by (simp add: mq_ok_def mq_contents_def message_queue_take_def)
qed

interpretation mq: bounded_fifo mq_contents mq_capacity mq_ok message_queue_push mq_dequeue
proof
  show "length (mq_contents q) \<le> mq_capacity q" if "mq_ok q" for q
    using that by (simp add: mq_ok_def mq_contents_def ring_ok_def)
  show "\<exists>q'. message_queue_push q x = Some q' \<and> mq_ok q' \<and> mq_contents q' = mq_contents q @ [x]
      \<and> mq_capacity q' = mq_capacity q"
    if "mq_ok q" "length (mq_contents q) < mq_capacity q" for q x
    using that by (intro mq_push_step) (simp_all add: mq_contents_def)
  show "message_queue_push q x = None" if "mq_ok q" "mq_capacity q \<le> length (mq_contents q)" for q x
    using that by (simp add: message_queue_push_def mq_contents_def)
  show "\<exists>q'. mq_dequeue q = Some (y, q') \<and> mq_ok q' \<and> mq_contents q' = ys
      \<and> mq_capacity q' = mq_capacity q" if "mq_ok q" "mq_contents q = y # ys" for q y ys
    using mq_take_step [OF that] that mq_contents_empty_iff [of q]
    by (auto simp: mq_dequeue_simp intro!: exI [of _ "snd (message_queue_take q)"])
  show "mq_dequeue q = None" if "mq_ok q" "mq_contents q = []" for q
    using that by (simp add: mq_dequeue_simp mq_contents_empty_iff)
qed

lemma message_queue_init_ok:
  "fst (message_queue_init cap a b c d q) = RESULT_OK \<Longrightarrow>
   mq_ok (snd (message_queue_init cap a b c d q)) \<and> mq_contents (snd (message_queue_init cap a b c d q)) = []
   \<and> mq_capacity (snd (message_queue_init cap a b c d q)) = cap"
  by (auto simp: message_queue_init_def mq_ok_def mq_contents_def ring_ok_def zero_message_queue_def
      Let_def split: if_splits)

section \<open>Properties\<close>

text \<open>C15: The message queue is a first-in first-out queue. After a successful initialisation,
  whatever sequence of pushes and non-blocking pops the threads run, the messages that were
  accepted are the messages handed out followed by those still in the ring, in the same order:
  none is lost, duplicated or overtaken, and at most \<open>capacity\<close> of them are waiting.\<close>

theorem message_queue_fifo:
  assumes "message_queue_init cap alloc_ok mutex_ok ne_ok nf_ok q0 = (RESULT_OK, q)"
    and "mq.run q ops = (accepted, handed_out, q')"
  shows "accepted = handed_out @ mq_contents q' \<and> message_queue_size q' \<le> cap
    \<and> message_queue_size q' = length accepted - length handed_out"
proof -
  have i: "mq_ok q" "mq_contents q = []" "mq_capacity q = cap"
    using message_queue_init_ok [of cap alloc_ok mutex_ok ne_ok nf_ok q0] assms(1) by simp_all
  from mq.run_fifo [OF i(1) assms(2)] i mq.bounded [of q']
  show ?thesis by (auto simp: message_queue_size_def mq_contents_def)
qed

theorem message_queue_fifo_witness:
  "let q = snd (message_queue_init 2 True True True True zero_message_queue);
       m = (\<lambda>n. zero_message\<lparr>q_exec_id := n\<rparr>);
       r = mq.run q [Push (m 1), Push (m 2), Push (m 3), Pop, Push (m 4)]
   in fst r = [m 1, m 2, m 4] \<and> fst (snd r) = [m 1] \<and> mq_contents (snd (snd r)) = [m 2, m 4]"
proof -
  let ?m = "\<lambda>n. zero_message\<lparr>q_exec_id := n\<rparr>"
  let ?q = "snd (message_queue_init 2 True True True True zero_message_queue)"
  let ?r = "mq.run ?q [Push (?m 1), Push (?m 2), Push (?m 3), Pop, Push (?m 4)]"
  have q: "message_queue_init 2 True True True True zero_message_queue = (RESULT_OK, ?q)"
    by (simp add: message_queue_init_def)
  have r: "fst ?r = [?m 1, ?m 2, ?m 4]" "fst (snd ?r) = [?m 1]"
    by (simp_all add: message_queue_init_def Let_def zero_message_queue_def message_queue_push_def
        mq_dequeue_simp message_queue_take_def numeral_2_eq_2)
  have "?r = (fst ?r, fst (snd ?r), snd (snd ?r))" by simp
  from message_queue_fifo [OF q this] r show ?thesis by (simp add: Let_def)
qed

text \<open>A pop waits exactly when the queue is empty and its timeout has not run out (a negative
  timeout never runs out); otherwise it returns at once: the oldest message with \<open>RESULT_OK\<close>,
  or, with the queue unchanged, \<open>RESULT_ERR_TIMEOUT\<close> after a timed wait and \<open>RESULT_ERR_EMPTY\<close>
  for a zero timeout. A push waits exactly when the queue is full.\<close>

theorem message_queue_blocking:
  assumes "mq_ok q"
  shows "(message_queue_pop q timeout_ms expired = None \<longleftrightarrow>
          mq_contents q = [] \<and> (timeout_ms < 0 \<or> timeout_ms > 0 \<and> \<not> expired))
    \<and> (mq_contents q = [] \<and> message_queue_pop q timeout_ms expired = Some (st, m, q') \<longrightarrow>
          st = (if timeout_ms = 0 then RESULT_ERR_EMPTY else RESULT_ERR_TIMEOUT) \<and> m = None \<and> q' = q)
    \<and> (\<forall>x xs. mq_contents q = x # xs \<longrightarrow>
          (\<exists>q''. message_queue_pop q timeout_ms expired = Some (RESULT_OK, Some x, q'')
                 \<and> mq_contents q'' = xs))
    \<and> (message_queue_push q x = None \<longleftrightarrow> length (mq_contents q) = mq_capacity q)"
proof -
  note c = mq_contents_empty_iff [of q]
  have hit: "\<exists>q''. message_queue_pop q timeout_ms expired = Some (RESULT_OK, Some x, q'')
      \<and> mq_contents q'' = xs" if "mq_contents q = x # xs" for x xs
    using mq_take_step [OF assms that] c that
    by (auto simp: message_queue_pop_def split: prod.splits)
  have "message_queue_push q x = None \<longleftrightarrow> length (mq_contents q) = mq_capacity q"
    using mq.push_iff [OF assms, of x] mq.bounded [OF assms] by auto
  with hit show ?thesis
    by (auto simp: message_queue_pop_def c split: prod.splits if_splits)
qed

theorem message_queue_blocking_witness:
  "message_queue_pop (snd (message_queue_init 1 True True True True zero_message_queue)) 0 False
    \<noteq> None"
proof -
  have "mq_ok (snd (message_queue_init 1 True True True True zero_message_queue))"
    by (rule message_queue_init_ok [THEN conjunct1]) (simp add: message_queue_init_def)
  from message_queue_blocking [OF this, of 0 False] show ?thesis by simp
qed

lemma wait_deadline_exact:
  assumes "snd now < 1000000000" and "wait_deadline now timeout_ms = (sec, nsec)"
  shows "nsec < 1000000000"
    and "sec * 1000000000 + nsec = fst now * 1000000000 + snd now + timeout_ms * 1000000"
proof -
  have m: "timeout_ms mod 1000 < 1000" by simp
  with assms show "nsec < 1000000000"
    by (auto simp: wait_deadline_def Let_def split: if_splits)
  have "timeout_ms * 1000000 = (timeout_ms div 1000) * 1000000000 + (timeout_ms mod 1000) * 1000000"
    using div_mult_mod_eq [of timeout_ms 1000] by linarith
  with assms show "sec * 1000000000 + nsec = fst now * 1000000000 + snd now + timeout_ms * 1000000"
    by (auto simp: wait_deadline_def Let_def add_mult_distrib split: if_splits)
qed

end
