(* ===== verification/Slots.thy ===== *)
theory Slots
  imports Roole_Prelude
begin

text \<open>
  Arrays of slots with an \<open>active\<close> flag: the services of one type in src/core/service_registry.c,
  the records of src/node/execution_tracker.c and the subscribers of one event type in
  src/core/event_bus.c. An entry is stored in the first inactive slot, found by its key among the
  active ones and removed by clearing its flag; entries never move. The locale \<open>slot_table\<close> is the
  contract of the two keyed ones; what it gives is that the array represents a finite map.
\<close>

definition slot_of :: "('r \<Rightarrow> bool) \<Rightarrow> ('r \<Rightarrow> 'k) \<Rightarrow> 'k \<Rightarrow> 'r list \<Rightarrow> nat option" where
  "slot_of active key k rs = find_index (\<lambda>r. active r \<and> key r = k) rs"

definition free_slot :: "('r \<Rightarrow> bool) \<Rightarrow> 'r list \<Rightarrow> nat option" where
  "free_slot active rs = find_index (\<lambda>r. \<not> active r) rs"

definition slot_lookup :: "('r \<Rightarrow> bool) \<Rightarrow> ('r \<Rightarrow> 'k) \<Rightarrow> 'r list \<Rightarrow> 'k \<Rightarrow> 'r option" where
  "slot_lookup active key rs k = map_option ((!) rs) (slot_of active key k rs)"

definition slots_ok :: "('r \<Rightarrow> bool) \<Rightarrow> ('r \<Rightarrow> 'k) \<Rightarrow> 'r list \<Rightarrow> bool" where
  "slots_ok active key rs \<longleftrightarrow> distinct (map key (filter active rs))"

lemma slot_lookup_Nil [simp]: "slot_lookup active key [] k = None"
  by (simp add: slot_lookup_def slot_of_def)

lemma slot_lookup_Cons [simp]:
  "slot_lookup active key (r # rs) k =
     (if active r \<and> key r = k then Some r else slot_lookup active key rs k)"
  by (auto simp: slot_lookup_def slot_of_def option.map_comp comp_def)

lemma slot_lookup_None_iff:
  "slot_lookup active key rs k = None \<longleftrightarrow> k \<notin> key ` set (filter active rs)"
  by (induction rs) auto

lemma slot_lookup_SomeD:
  "slot_lookup active key rs k = Some r \<Longrightarrow> r \<in> set rs \<and> active r \<and> key r = k"
  by (induction rs) (auto split: if_splits)

lemma slot_of_None_iff: "slot_of active key k rs = None \<longleftrightarrow> slot_lookup active key rs k = None"
  by (simp add: slot_lookup_def)

lemma slot_of_SomeD:
  "slot_of active key k rs = Some i \<Longrightarrow> i < length rs \<and> active (rs ! i) \<and> key (rs ! i) = k"
  by (auto simp: slot_of_def dest: find_index_SomeD)

lemma free_slot_SomeD: "free_slot active rs = Some i \<Longrightarrow> i < length rs \<and> \<not> active (rs ! i)"
  by (auto simp: free_slot_def dest: find_index_SomeD)

lemma free_slot_None_iff: "free_slot active rs = None \<longleftrightarrow> (\<forall>r \<in> set rs. active r)"
  by (simp add: free_slot_def find_index_None_iff)

lemma free_slot_iff: "free_slot active rs \<noteq> None \<longleftrightarrow> length (filter active rs) < length rs"
proof -
  have "length (filter active rs) = length rs \<longleftrightarrow> filter active rs = rs"
    using filter_id_conv length_filter_less by (metis less_irrefl)
  then show ?thesis
    using length_filter_le [of active rs] by (auto simp: free_slot_None_iff filter_id_conv le_less)
qed

lemma keys_update_free:
  "i < length rs \<Longrightarrow> \<not> active (rs ! i) \<Longrightarrow> active r \<Longrightarrow>
   \<exists>us vs. filter active rs = us @ vs \<and> filter active (rs[i := r]) = us @ r # vs"
proof (induction rs arbitrary: i)
  case (Cons x rs)
  show ?case
  proof (cases i)
    case 0
    with Cons.prems show ?thesis by (intro exI [of _ "[]"] exI [of _ "filter active rs"]) simp
  next
    case (Suc j)
    with Cons.prems Cons.IH [of j] obtain us vs where
      "filter active rs = us @ vs" "filter active (rs[j := r]) = us @ r # vs" by auto
    with Suc show ?thesis
      by (cases "active x") (auto intro: exI [of _ "x # us"])
  qed
qed simp

lemma keys_update_used:
  "i < length rs \<Longrightarrow> active (rs ! i) \<Longrightarrow> \<exists>us vs. filter active rs = us @ rs ! i # vs
   \<and> filter active (rs[i := r]) = us @ (if active r then [r] else []) @ vs"
proof (induction rs arbitrary: i)
  case (Cons x rs)
  show ?case
  proof (cases i)
    case 0
    with Cons.prems show ?thesis by (intro exI [of _ "[]"] exI [of _ "filter active rs"]) simp
  next
    case (Suc j)
    with Cons.prems Cons.IH [of j] obtain us vs where
      "filter active rs = us @ rs ! j # vs"
      "filter active (rs[j := r]) = us @ (if active r then [r] else []) @ vs" by auto
    with Suc show ?thesis
      by (cases "active x") (auto intro: exI [of _ "x # us"])
  qed
qed simp

lemma slot_lookup_filter: "slot_lookup active key rs k = first_with key k (filter active rs)"
  by (induction rs) auto

lemma first_with_insert:
  "key r \<notin> key ` set (us @ vs) \<Longrightarrow>
   first_with key k (us @ r # vs) = (if k = key r then Some r else first_with key k (us @ vs))"
  by (induction us) auto

lemma first_with_delete:
  "distinct (map key (us @ x # vs)) \<Longrightarrow>
   first_with key k (us @ vs) = (if k = key x then None else first_with key k (us @ x # vs))"
  by (induction us) (auto simp: first_with_None_iff)

lemma first_with_replace:
  "distinct (map key (us @ x # vs)) \<Longrightarrow> key r = key x \<Longrightarrow>
   first_with key k (us @ r # vs) = (if k = key r then Some r else first_with key k (us @ x # vs))"
  by (induction us) auto

lemma slots_insert:
  assumes ok: "slots_ok active key rs" and i: "i < length rs" "\<not> active (rs ! i)"
    and r: "active r" "slot_lookup active key rs (key r) = None"
  shows "slots_ok active key (rs[i := r])"
    and "slot_lookup active key (rs[i := r]) = (slot_lookup active key rs)(key r \<mapsto> r)"
    and "length (filter active (rs[i := r])) = Suc (length (filter active rs))"
proof -
  obtain us vs where s: "filter active rs = us @ vs" "filter active (rs[i := r]) = us @ r # vs"
    using keys_update_free [OF i r(1)] by blast
  have new: "key r \<notin> key ` set (us @ vs)" using r(2) by (simp add: slot_lookup_None_iff flip: s(1))
  show "slots_ok active key (rs[i := r])" using ok s new by (auto simp: slots_ok_def)
  have "first_with key k (us @ r # vs) = (if k = key r then Some r else first_with key k (us @ vs))" for k
    using new by (rule first_with_insert)
  then show "slot_lookup active key (rs[i := r]) = (slot_lookup active key rs)(key r \<mapsto> r)"
    by (auto simp: slot_lookup_filter s)
  show "length (filter active (rs[i := r])) = Suc (length (filter active rs))" by (simp add: s)
qed

lemma slots_delete:
  assumes ok: "slots_ok active key rs" and i: "i < length rs" "active (rs ! i)" and r: "\<not> active r"
  shows "slots_ok active key (rs[i := r])"
    and "slot_lookup active key (rs[i := r]) = (slot_lookup active key rs)(key (rs ! i) := None)"
proof -
  obtain us vs where s: "filter active rs = us @ rs ! i # vs" "filter active (rs[i := r]) = us @ vs"
    using keys_update_used [of i rs active r] i r by auto
  show "slots_ok active key (rs[i := r])" using ok s by (auto simp: slots_ok_def)
  have "first_with key k (us @ vs) =
      (if k = key (rs ! i) then None else first_with key k (us @ rs ! i # vs))" for k
    using ok by (intro first_with_delete) (simp add: slots_ok_def s)
  then show "slot_lookup active key (rs[i := r]) = (slot_lookup active key rs)(key (rs ! i) := None)"
    by (auto simp: slot_lookup_filter s)
qed

lemma slots_replace:
  assumes ok: "slots_ok active key rs" and i: "i < length rs" "active (rs ! i)"
    and r: "active r" "key r = key (rs ! i)"
  shows "slots_ok active key (rs[i := r])"
    and "slot_lookup active key (rs[i := r]) = (slot_lookup active key rs)(key r \<mapsto> r)"
proof -
  obtain us vs where s: "filter active rs = us @ rs ! i # vs" "filter active (rs[i := r]) = us @ r # vs"
    using keys_update_used [of i rs active r] i r by auto
  show "slots_ok active key (rs[i := r])" using ok s r by (auto simp: slots_ok_def)
  have "first_with key k (us @ r # vs) =
      (if k = key r then Some r else first_with key k (us @ rs ! i # vs))" for k
    using ok r by (intro first_with_replace) (simp_all add: slots_ok_def s)
  then show "slot_lookup active key (rs[i := r]) = (slot_lookup active key rs)(key r \<mapsto> r)"
    by (auto simp: slot_lookup_filter s)
qed

section \<open>The contract\<close>

locale slot_store =
  fixes active :: "'r \<Rightarrow> bool" and key :: "'r \<Rightarrow> 'k" and valid :: "'r \<Rightarrow> bool"
    and put :: "'r list \<Rightarrow> 'r \<Rightarrow> 'r list option"
  assumes put_new: "valid r \<Longrightarrow> slot_of active key (key r) rs = None \<Longrightarrow> free_slot active rs = Some i \<Longrightarrow>
      put rs r = Some (rs[i := r])"
    and valid_active: "valid r \<Longrightarrow> active r"
    and put_full: "valid r \<Longrightarrow> slot_of active key (key r) rs = None \<Longrightarrow> free_slot active rs = None \<Longrightarrow>
      put rs r = None"
begin

abbreviation look :: "'r list \<Rightarrow> 'k \<Rightarrow> 'r option" where "look \<equiv> slot_lookup active key"

lemma put_iff:
  "valid r \<Longrightarrow> look rs (key r) = None \<Longrightarrow> put rs r \<noteq> None \<longleftrightarrow> length (filter active rs) < length rs"
  using put_new [of r rs] put_full [of r rs] free_slot_iff [of active rs]
  by (cases "free_slot active rs") (simp_all add: slot_of_None_iff)

lemma put_lookup:
  assumes "slots_ok active key rs" and "valid r" and "look rs (key r) = None" and "put rs r = Some rs'"
  shows "slots_ok active key rs' \<and> look rs' = (look rs)(key r \<mapsto> r) \<and> length rs' = length rs"
proof -
  from assms put_full [of r rs] obtain i where i: "free_slot active rs = Some i"
    by (cases "free_slot active rs") (simp_all add: slot_of_None_iff)
  with assms put_new [of r rs i] have "rs' = rs[i := r]" by (simp add: slot_of_None_iff)
  with slots_insert [OF assms(1), of i r] free_slot_SomeD [OF i] valid_active [OF assms(2)] assms(3)
  show ?thesis by simp
qed

end

text \<open>A store whose entries can be removed again.\<close>

locale slot_table = slot_store active key valid put
  for active :: "'r \<Rightarrow> bool" and key :: "'r \<Rightarrow> 'k" and valid :: "'r \<Rightarrow> bool"
    and put :: "'r list \<Rightarrow> 'r \<Rightarrow> 'r list option" +
  fixes del :: "'r list \<Rightarrow> 'k \<Rightarrow> 'r list option"
  assumes del_hit: "slot_of active key k rs = Some i \<Longrightarrow> \<exists>r'. del rs k = Some (rs[i := r']) \<and> \<not> active r'"
    and del_miss: "slot_of active key k rs = None \<Longrightarrow> del rs k = None"
begin

lemma del_iff: "del rs k \<noteq> None \<longleftrightarrow> look rs k \<noteq> None"
  using del_hit [of k rs] del_miss [of k rs]
  by (cases "slot_of active key k rs") (auto simp: slot_of_None_iff [symmetric])

lemma del_lookup:
  assumes "slots_ok active key rs" and "del rs k = Some rs'"
  shows "slots_ok active key rs' \<and> look rs' = (look rs)(k := None) \<and> length rs' = length rs"
proof -
  from assms del_miss [of k rs] obtain i where i: "slot_of active key k rs = Some i"
    by (cases "slot_of active key k rs") auto
  with assms del_hit [OF i] obtain r' where "rs' = rs[i := r']" "\<not> active r'" by auto
  with slots_delete [OF assms(1), of i r'] slot_of_SomeD [OF i] show ?thesis by simp
qed

end

end
