(* ===== verification/Exec_Tracker.thy ===== *)
theory Exec_Tracker
  imports Slots
begin

text \<open>
  src/node/execution_tracker.c: the executions a node is responsible for, a slot array with a
  counter of ids. The reader lock that \<open>execution_tracker_get\<close> keeps until the release is not part
  of the state; an id of 0 is \<open>invalid\<close> in every operation, as in the code. Adding returns 0 when
  the message has a bad length or there is no slot.
\<close>

datatype execution_status =
    EXEC_STATUS_PENDING | EXEC_STATUS_RUNNING | EXEC_STATUS_COMPLETED
  | EXEC_STATUS_FAILED | EXEC_STATUS_RETRYING | EXEC_STATUS_TIMEOUT | Exec_status_other u8

text \<open>A status arrives as a byte that is cast to the enum unchecked.\<close>

fun execution_status_byte :: "execution_status \<Rightarrow> u8" where
  "execution_status_byte EXEC_STATUS_PENDING = 0"
| "execution_status_byte EXEC_STATUS_RUNNING = 1"
| "execution_status_byte EXEC_STATUS_COMPLETED = 2"
| "execution_status_byte EXEC_STATUS_FAILED = 3"
| "execution_status_byte EXEC_STATUS_RETRYING = 4"
| "execution_status_byte EXEC_STATUS_TIMEOUT = 5"
| "execution_status_byte (Exec_status_other b) = b"

definition execution_status_of_byte :: "u8 \<Rightarrow> execution_status" where
  "execution_status_of_byte b =
     (if b = 0 then EXEC_STATUS_PENDING else if b = 1 then EXEC_STATUS_RUNNING
      else if b = 2 then EXEC_STATUS_COMPLETED else if b = 3 then EXEC_STATUS_FAILED
      else if b = 4 then EXEC_STATUS_RETRYING else if b = 5 then EXEC_STATUS_TIMEOUT
      else Exec_status_other b)"

lemma execution_status_byte_of [simp]: "execution_status_byte (execution_status_of_byte b) = b"
  by (simp add: execution_status_of_byte_def)

definition MAX_MESSAGE_SIZE :: nat where "MAX_MESSAGE_SIZE = 4096"

record execution_record =
  rec_exec_id :: execution_id
  rec_dag_id :: rule_id
  assigned_peer :: node_id
  rec_status :: execution_status
  submit_time_ms :: u64
  rec_start_time_ms :: u64
  complete_time_ms :: u64
  retry_count :: u8
  rec_max_retries :: u8
  rec_message :: bytes
  rec_active :: bool

record execution_tracker =
  tracker_records :: "execution_record list"
  next_exec_id :: execution_id

definition zero_record :: execution_record where
  "zero_record = \<lparr>rec_exec_id = 0, rec_dag_id = 0, assigned_peer = 0, rec_status = EXEC_STATUS_PENDING,
     submit_time_ms = 0, rec_start_time_ms = 0, complete_time_ms = 0, retry_count = 0,
     rec_max_retries = 0, rec_message = [], rec_active = False\<rparr>"

definition execution_tracker_init :: "nat \<Rightarrow> bool \<Rightarrow> bool \<Rightarrow> result_status \<times> execution_tracker option" where
  "execution_tracker_init capacity alloc_ok lock_ok =
     (if capacity = 0 then (RESULT_ERR_INVALID, None)
      else if \<not> alloc_ok then (RESULT_ERR_NOMEM, None)
      else if \<not> lock_ok then (RESULT_ERR_INVALID, None)
      else (RESULT_OK, Some \<lparr>tracker_records = replicate capacity zero_record, next_exec_id = 1\<rparr>))"

definition execution_tracker_destroy :: "execution_tracker \<Rightarrow> execution_tracker" where
  "execution_tracker_destroy t = t\<lparr>tracker_records := []\<rparr>"

definition put_record :: "execution_record list \<Rightarrow> execution_record \<Rightarrow> execution_record list option" where
  "put_record rs r = map_option (\<lambda>i. rs[i := r]) (free_slot rec_active rs)"

definition execution_tracker_add ::
  "u64 \<Rightarrow> execution_tracker \<Rightarrow> rule_id \<Rightarrow> node_id \<Rightarrow> bytes \<Rightarrow> u8 \<Rightarrow> execution_id \<times> execution_tracker" where
  "execution_tracker_add now t dag peer message retries =
     (if message = [] \<or> MAX_MESSAGE_SIZE < length message then (0, t)
      else case put_record (tracker_records t) (zero_record\<lparr>
          rec_exec_id := next_exec_id t, rec_dag_id := dag, assigned_peer := peer,
          rec_status := EXEC_STATUS_PENDING, submit_time_ms := now, retry_count := 0,
          rec_max_retries := retries, rec_active := True, rec_message := message\<rparr>) of
        None \<Rightarrow> (0, t)
      | Some rs \<Rightarrow> (next_exec_id t, t\<lparr>tracker_records := rs, next_exec_id := next_exec_id t + 1\<rparr>))"

abbreviation record_index :: "execution_record list \<Rightarrow> execution_id \<Rightarrow> nat option" where
  "record_index rs e \<equiv> slot_of rec_active rec_exec_id e rs"

definition set_status :: "u64 \<Rightarrow> execution_status \<Rightarrow> execution_record \<Rightarrow> execution_record" where
  "set_status now s r =
     (let r' = r\<lparr>rec_status := s\<rparr>
      in if s = EXEC_STATUS_RUNNING \<and> rec_status r = EXEC_STATUS_PENDING
         then r'\<lparr>rec_start_time_ms := now\<rparr>
         else if s = EXEC_STATUS_COMPLETED \<or> s = EXEC_STATUS_FAILED
         then r'\<lparr>complete_time_ms := now\<rparr> else r')"

definition execution_tracker_update_status ::
  "u64 \<Rightarrow> execution_tracker \<Rightarrow> execution_id \<Rightarrow> execution_status \<Rightarrow> result_status \<times> execution_tracker" where
  "execution_tracker_update_status now t e s =
     (if e = 0 then (RESULT_ERR_INVALID, t)
      else case record_index (tracker_records t) e of
        None \<Rightarrow> (RESULT_ERR_NOTFOUND, t)
      | Some i \<Rightarrow> (RESULT_OK, t\<lparr>tracker_records := (tracker_records t)
                               [i := set_status now s (tracker_records t ! i)]\<rparr>))"

definition execution_tracker_get :: "execution_tracker \<Rightarrow> execution_id \<Rightarrow> execution_record option" where
  "execution_tracker_get t e =
     (if e = 0 then None else map_option ((!) (tracker_records t)) (record_index (tracker_records t) e))"

definition drop_record :: "execution_record list \<Rightarrow> execution_id \<Rightarrow> execution_record list option" where
  "drop_record rs e = map_option (\<lambda>i. rs[i := (rs ! i)\<lparr>rec_active := False\<rparr>]) (record_index rs e)"

definition execution_tracker_remove ::
  "execution_tracker \<Rightarrow> execution_id \<Rightarrow> result_status \<times> execution_tracker" where
  "execution_tracker_remove t e =
     (if e = 0 then (RESULT_ERR_INVALID, t)
      else case drop_record (tracker_records t) e of
        None \<Rightarrow> (RESULT_ERR_NOTFOUND, t)
      | Some rs \<Rightarrow> (RESULT_OK, t\<lparr>tracker_records := rs\<rparr>))"

definition finished :: "execution_record \<Rightarrow> bool" where
  "finished r \<longleftrightarrow> rec_status r = EXEC_STATUS_COMPLETED \<or> rec_status r = EXEC_STATUS_FAILED"

fun get_by_worker :: "node_id \<Rightarrow> nat \<Rightarrow> execution_record list \<Rightarrow> execution_id list" where
  "get_by_worker w n [] = []"
| "get_by_worker w n (r # rs) =
     (if n = 0 then []
      else if rec_active r \<and> assigned_peer r = w \<and> rec_status r \<noteq> EXEC_STATUS_COMPLETED
        \<and> rec_status r \<noteq> EXEC_STATUS_FAILED
      then rec_exec_id r # get_by_worker w (n - 1) rs
      else get_by_worker w n rs)"

definition execution_tracker_get_by_worker :: "execution_tracker \<Rightarrow> node_id \<Rightarrow> nat \<Rightarrow> execution_id list" where
  "execution_tracker_get_by_worker t w max_count = get_by_worker w max_count (tracker_records t)"

definition CLEANUP_THRESHOLD_MS :: u64 where "CLEANUP_THRESHOLD_MS = 5 * 60 * 1000"

definition stale :: "u64 \<Rightarrow> execution_record \<Rightarrow> bool" where
  "stale now r \<longleftrightarrow> rec_active r
     \<and> (rec_status r = EXEC_STATUS_COMPLETED \<or> rec_status r = EXEC_STATUS_FAILED)
     \<and> complete_time_ms r > 0 \<and> now - complete_time_ms r > CLEANUP_THRESHOLD_MS"

definition execution_tracker_cleanup_completed :: "u64 \<Rightarrow> execution_tracker \<Rightarrow> nat \<times> execution_tracker" where
  "execution_tracker_cleanup_completed now t =
     (length (filter (stale now) (tracker_records t)),
      t\<lparr>tracker_records := map (\<lambda>r. if stale now r then r\<lparr>rec_active := False\<rparr> else r) (tracker_records t)\<rparr>)"

section \<open>A slot table\<close>

interpretation tracker_table: slot_table rec_active rec_exec_id rec_active put_record drop_record
  by unfold_locales (auto simp: put_record_def drop_record_def)

text \<open>The live records have distinct ids below the counter, none of them 0.\<close>

definition tracker_ok :: "execution_tracker \<Rightarrow> bool" where
  "tracker_ok t \<longleftrightarrow> slots_ok rec_active rec_exec_id (tracker_records t)
     \<and> (\<forall>r \<in> set (tracker_records t). rec_active r \<longrightarrow> 0 < rec_exec_id r \<and> rec_exec_id r < next_exec_id t)
     \<and> 0 < next_exec_id t"

definition in_flight :: "execution_tracker \<Rightarrow> nat" where
  "in_flight t = length (filter rec_active (tracker_records t))"

lemma tracker_get_lookup:
  assumes "tracker_ok t"
  shows "execution_tracker_get t e = slot_lookup rec_active rec_exec_id (tracker_records t) e"
proof -
  have "slot_lookup rec_active rec_exec_id (tracker_records t) 0 = None"
    using assms by (force simp: slot_lookup_None_iff tracker_ok_def)
  then show ?thesis
    by (cases "e = 0") (simp_all add: execution_tracker_get_def flip: slot_lookup_def)
qed

lemma tracker_get_range:
  "tracker_ok t \<Longrightarrow> execution_tracker_get t e = Some r \<Longrightarrow>
   rec_exec_id r = e \<and> rec_active r \<and> 0 < e \<and> e < next_exec_id t"
  by (auto simp: tracker_get_lookup tracker_ok_def dest!: slot_lookup_SomeD)

lemma less_Suc_word: "n \<noteq> -1 \<Longrightarrow> n < n + 1" for n :: u64
proof -
  assume "n \<noteq> -1"
  then have "1 + n \<noteq> 0" by (metis add.commute add_eq_0_iff2)
  then show ?thesis using unatSuc [of n] by (simp add: word_less_nat_alt add.commute)
qed

definition new_record :: "u64 \<Rightarrow> execution_tracker \<Rightarrow> rule_id \<Rightarrow> node_id \<Rightarrow> bytes \<Rightarrow> u8 \<Rightarrow> execution_record" where
  "new_record now t dag peer message retries = zero_record\<lparr>
     rec_exec_id := next_exec_id t, rec_dag_id := dag, assigned_peer := peer, submit_time_ms := now,
     rec_max_retries := retries, rec_message := message, rec_active := True\<rparr>"

text \<open>The counter must not have reached its maximum: then the id after it is 0.\<close>

lemma tracker_add_result:
  assumes ok: "tracker_ok t" and wrap: "next_exec_id t \<noteq> -1"
    and r_def: "r = new_record now t dag peer message retries"
  shows "if message \<noteq> [] \<and> length message \<le> MAX_MESSAGE_SIZE \<and> in_flight t < length (tracker_records t)
    then \<exists>rs. execution_tracker_add now t dag peer message retries =
           (next_exec_id t, t\<lparr>tracker_records := rs, next_exec_id := next_exec_id t + 1\<rparr>)
       \<and> tracker_ok (t\<lparr>tracker_records := rs, next_exec_id := next_exec_id t + 1\<rparr>)
       \<and> slot_lookup rec_active rec_exec_id rs =
           (slot_lookup rec_active rec_exec_id (tracker_records t))(next_exec_id t \<mapsto> r)
       \<and> length rs = length (tracker_records t)
    else execution_tracker_add now t dag peer message retries = (0, t)"
proof -
  have r: "rec_active r" "rec_exec_id r = next_exec_id t"
    by (simp_all add: r_def new_record_def)
  have new: "slot_lookup rec_active rec_exec_id (tracker_records t) (rec_exec_id r) = None"
    using ok by (force simp: slot_lookup_None_iff tracker_ok_def r)
  note iff = tracker_table.put_iff [OF r(1) new]
  have add: "execution_tracker_add now t dag peer message retries =
     (if message = [] \<or> MAX_MESSAGE_SIZE < length message then (0, t)
      else case put_record (tracker_records t) r of None \<Rightarrow> (0, t)
      | Some rs \<Rightarrow> (next_exec_id t, t\<lparr>tracker_records := rs, next_exec_id := next_exec_id t + 1\<rparr>))"
    by (simp add: execution_tracker_add_def r_def new_record_def zero_record_def)
  show ?thesis
  proof (cases "put_record (tracker_records t) r")
    case None
    with iff show ?thesis by (simp add: add in_flight_def)
  next
    case (Some rs)
    have put: "slots_ok rec_active rec_exec_id rs" "slot_lookup rec_active rec_exec_id rs =
        (slot_lookup rec_active rec_exec_id (tracker_records t))(next_exec_id t \<mapsto> r)"
        "length rs = length (tracker_records t)"
      using tracker_table.put_lookup [OF _ r(1) new Some] ok r(2) by (auto simp: tracker_ok_def)
    have "set rs \<subseteq> insert r (set (tracker_records t))"
      using Some set_update_subset_insert [of "tracker_records t" _ r] by (auto simp: put_record_def)
    moreover have "0 < rec_exec_id x \<and> rec_exec_id x < next_exec_id t + 1"
      if "x \<in> insert r (set (tracker_records t))" "rec_active x" for x
      using that ok r less_Suc_word [OF wrap] by (auto simp: tracker_ok_def)
    ultimately have "tracker_ok (t\<lparr>tracker_records := rs, next_exec_id := next_exec_id t + 1\<rparr>)"
      using ok put(1) less_Suc_word [OF wrap] by (auto simp: tracker_ok_def)
    with Some iff put show ?thesis by (auto simp: add in_flight_def intro!: exI [of _ rs])
  qed
qed

lemma set_status_frame [simp]:
  "rec_active (set_status now s r) = rec_active r" "rec_exec_id (set_status now s r) = rec_exec_id r"
  by (simp_all add: set_status_def Let_def)

lemma tracker_update_ok:
  assumes ok: "tracker_ok t"
  shows "tracker_ok (snd (execution_tracker_update_status now t e s))"
    and "execution_tracker_get (snd (execution_tracker_update_status now t e s)) k =
      (if k = e then map_option (set_status now s) (execution_tracker_get t e) else execution_tracker_get t k)"
proof -
  let ?t = "snd (execution_tracker_update_status now t e s)"
  have *: "tracker_ok ?t \<and> execution_tracker_get ?t k =
      (if k = e then map_option (set_status now s) (execution_tracker_get t e) else execution_tracker_get t k)"
  proof (cases "e = 0 \<or> record_index (tracker_records t) e = None")
    case True
    then have "?t = t" "execution_tracker_get t e = None"
      by (auto simp: execution_tracker_update_status_def execution_tracker_get_def)
    with ok show ?thesis by auto
  next
    case False
    then obtain i where i: "record_index (tracker_records t) e = Some i" and e: "e \<noteq> 0" by auto
    have t: "?t = t\<lparr>tracker_records := (tracker_records t)[i := set_status now s (tracker_records t ! i)]\<rparr>"
      using i e by (simp add: execution_tracker_update_status_def)
    note at = slot_of_SomeD [OF i]
    have rep: "slots_ok rec_active rec_exec_id (tracker_records ?t)"
      "slot_lookup rec_active rec_exec_id (tracker_records ?t) =
        (slot_lookup rec_active rec_exec_id (tracker_records t))(e \<mapsto> set_status now s (tracker_records t ! i))"
      using slots_replace [of rec_active rec_exec_id "tracker_records t" i] ok at
      by (simp_all add: t tracker_ok_def)
    have "tracker_ok ?t"
      using ok rep(1) at unfolding tracker_ok_def t
      by (auto dest!: set_update_subset_insert [THEN subsetD] nth_mem)
    moreover have "execution_tracker_get t e = Some (tracker_records t ! i)"
      using i e by (simp add: execution_tracker_get_def)
    ultimately show ?thesis using ok rep(2) by (simp add: tracker_get_lookup)
  qed
  then show "tracker_ok ?t" and "execution_tracker_get ?t k =
      (if k = e then map_option (set_status now s) (execution_tracker_get t e) else execution_tracker_get t k)"
    by blast+
qed

lemma tracker_remove_ok:
  assumes ok: "tracker_ok t"
  shows "tracker_ok (snd (execution_tracker_remove t e))"
    and "execution_tracker_get (snd (execution_tracker_remove t e)) k =
      (if k = e then None else execution_tracker_get t k)"
proof -
  let ?t = "snd (execution_tracker_remove t e)"
  have *: "tracker_ok ?t \<and> execution_tracker_get ?t k = (if k = e then None else execution_tracker_get t k)"
  proof (cases "e = 0 \<or> drop_record (tracker_records t) e = None")
    case True
    then have "?t = t" by (auto simp: execution_tracker_remove_def)
    moreover have "execution_tracker_get t e = None"
      using True by (auto simp: execution_tracker_get_def drop_record_def)
    ultimately show ?thesis using ok by auto
  next
    case False
    then obtain rs where rs: "drop_record (tracker_records t) e = Some rs" and e: "e \<noteq> 0" by auto
    have t: "?t = t\<lparr>tracker_records := rs\<rparr>" using rs e by (simp add: execution_tracker_remove_def)
    have del: "slots_ok rec_active rec_exec_id rs" "slot_lookup rec_active rec_exec_id rs =
        (slot_lookup rec_active rec_exec_id (tracker_records t))(e := None)"
      using tracker_table.del_lookup [OF _ rs] ok by (auto simp: tracker_ok_def)
    from rs obtain i where i: "record_index (tracker_records t) e = Some i"
      "rs = (tracker_records t)[i := (tracker_records t ! i)\<lparr>rec_active := False\<rparr>]"
      by (auto simp: drop_record_def)
    have "tracker_ok ?t"
      using ok del(1) unfolding tracker_ok_def t i(2)
      by (auto dest!: set_update_subset_insert [THEN subsetD])
    then show ?thesis using ok del(2) by (simp add: tracker_get_lookup t)
  qed
  then show "tracker_ok ?t" and "execution_tracker_get ?t k =
      (if k = e then None else execution_tracker_get t k)" by blast+
qed

lemma first_with_filter:
  "distinct (map key xs) \<Longrightarrow> first_with key k (filter P xs) =
     (case first_with key k xs of None \<Rightarrow> None | Some r \<Rightarrow> if P r then Some r else None)"
proof (induction xs)
  case (Cons x xs)
  show ?case
  proof (cases "key x = k")
    case True
    with Cons.prems have "k \<notin> key ` set xs" by simp
    then have "first_with key k (filter P xs) = None" by (auto simp: first_with_None_iff)
    with True show ?thesis by simp
  next
    case False
    with Cons show ?thesis by simp
  qed
qed simp

lemma tracker_cleanup_ok:
  assumes ok: "tracker_ok t"
  shows "tracker_ok (snd (execution_tracker_cleanup_completed now t))"
    and "execution_tracker_get (snd (execution_tracker_cleanup_completed now t)) k =
      (case execution_tracker_get t k of None \<Rightarrow> None | Some r \<Rightarrow> if stale now r then None else Some r)"
proof -
  let ?f = "\<lambda>r. if stale now r then r\<lparr>rec_active := False\<rparr> else r"
  let ?t = "snd (execution_tracker_cleanup_completed now t)"
  have t: "tracker_records ?t = map ?f (tracker_records t)" "next_exec_id ?t = next_exec_id t"
    by (simp_all add: execution_tracker_cleanup_completed_def)
  have fil: "filter rec_active (map ?f rs) = filter (\<lambda>r. \<not> stale now r) (filter rec_active rs)" for rs
    by (induction rs) (auto simp: stale_def)
  have d: "distinct (map rec_exec_id (filter rec_active (tracker_records t)))"
    using ok by (simp add: tracker_ok_def slots_ok_def)
  then have "slots_ok rec_active rec_exec_id (tracker_records ?t)"
    unfolding slots_ok_def t(1) fil by (rule distinct_map_filter)
  then show ok': "tracker_ok ?t"
    using ok unfolding tracker_ok_def t by (auto split: if_splits)
  show "execution_tracker_get ?t k =
      (case execution_tracker_get t k of None \<Rightarrow> None | Some r \<Rightarrow> if stale now r then None else Some r)"
    unfolding tracker_get_lookup [OF ok] tracker_get_lookup [OF ok'] slot_lookup_filter t(1) fil
      first_with_filter [OF d]
    by (simp split: option.split)
qed

section \<open>Properties\<close>

datatype tracker_op =
    Track rule_id node_id bytes u8
  | Change_status execution_id execution_status
  | Untrack execution_id
  | Cleanup

fun tracker_step :: "execution_tracker \<Rightarrow> u64 \<times> tracker_op \<Rightarrow> execution_id list \<times> execution_tracker" where
  "tracker_step t (now, Track dag peer message retries) =
     (case execution_tracker_add now t dag peer message retries of
        (e, t') \<Rightarrow> (if e = 0 then [] else [e], t'))"
| "tracker_step t (now, Change_status e s) = ([], snd (execution_tracker_update_status now t e s))"
| "tracker_step t (now, Untrack e) = ([], snd (execution_tracker_remove t e))"
| "tracker_step t (now, Cleanup) = ([], snd (execution_tracker_cleanup_completed now t))"

text \<open>The ids handed out in a run, and the tracker it leaves.\<close>

fun tracker_run :: "execution_tracker \<Rightarrow> (u64 \<times> tracker_op) list \<Rightarrow> execution_id list \<times> execution_tracker" where
  "tracker_run t [] = ([], t)"
| "tracker_run t (p # ps) =
     (case tracker_step t p of (es, t') \<Rightarrow> case tracker_run t' ps of (es', t'') \<Rightarrow> (es @ es', t''))"

lemma next_id_frame [simp]:
  "next_exec_id (snd (execution_tracker_update_status now t e s)) = next_exec_id t"
  "next_exec_id (snd (execution_tracker_remove t e)) = next_exec_id t"
  "next_exec_id (snd (execution_tracker_cleanup_completed now t)) = next_exec_id t"
  by (auto simp: execution_tracker_update_status_def execution_tracker_remove_def
      execution_tracker_cleanup_completed_def split: option.split)

lemma tracker_step_ok:
  assumes "tracker_ok t" and "next_exec_id t \<noteq> -1" and "tracker_step t p = (es, t')"
  shows "tracker_ok t' \<and> (es = [] \<and> next_exec_id t' = next_exec_id t
    \<or> es = [next_exec_id t] \<and> next_exec_id t' = next_exec_id t + 1)"
proof -
  obtain now q where p: "p = (now, q)" by (cases p)
  show ?thesis
  proof (cases q)
    case (Track dag peer message retries)
    have "next_exec_id t \<noteq> 0" using assms(1) by (simp add: tracker_ok_def word_gt_0)
    with tracker_add_result [OF assms(1,2) refl, where now = now and dag = dag and peer = peer and message = message
        and retries = retries] assms p Track show ?thesis
      by (auto split: if_splits)
  qed (use assms p tracker_update_ok tracker_remove_ok tracker_cleanup_ok in auto)
qed

lemma not_max_word: "unat n + 1 < 2 ^ 64 \<Longrightarrow> n \<noteq> -1" for n :: u64
  by (auto simp: unsigned_minus_1_eq_mask mask_eq_exp_minus_1)

lemma unat_plus_one: "unat n + 1 < 2 ^ 64 \<Longrightarrow> unat (n + 1) = unat n + 1" for n :: u64
  by (simp add: unat_word_ariths)

text \<open>C21: Until the 64-bit counter runs out, the ids handed out by any sequence of additions, status
  changes, removals and clean-ups are consecutive numbers: an id is never used twice, not even
  after its execution is gone, and never is the invalid id 0. The live records keep distinct ids.\<close>

theorem execution_ids_never_reused:
  assumes "tracker_ok t" and "tracker_run t ps = (es, t')" and "unat (next_exec_id t) + length ps < 2 ^ 64"
  shows "tracker_ok t' \<and> map unat es = [unat (next_exec_id t) ..< unat (next_exec_id t')]
    \<and> distinct es \<and> 0 \<notin> set es \<and> unat (next_exec_id t') = unat (next_exec_id t) + length es"
proof -
  have main: "tracker_ok t' \<and> map unat es = [unat (next_exec_id t) ..< unat (next_exec_id t')]
    \<and> unat (next_exec_id t) \<le> unat (next_exec_id t')"
    using assms
  proof (induction ps arbitrary: t es)
    case (Cons p ps)
    obtain es1 t1 es2 where s: "tracker_step t p = (es1, t1)" "tracker_run t1 ps = (es2, t')" "es = es1 @ es2"
      using Cons.prems(2) by (auto split: prod.splits)
    have n: "unat (next_exec_id t) + 1 < 2 ^ 64" using Cons.prems(3) by simp
    note st = tracker_step_ok [OF Cons.prems(1) not_max_word [OF n] s(1)]
    then have "tracker_ok t' \<and> map unat es2 = [unat (next_exec_id t1) ..< unat (next_exec_id t')]
        \<and> unat (next_exec_id t1) \<le> unat (next_exec_id t')"
      using Cons.prems(3) unat_plus_one [OF n] by (intro Cons.IH [OF _ s(2)]) auto
    with st s(3) unat_plus_one [OF n] show ?case by (auto simp: upt_conv_Cons)
  qed simp
  then have "distinct (map unat es)" and len: "length es = unat (next_exec_id t') - unat (next_exec_id t)"
    by (simp_all, metis length_map length_upt)
  then have "distinct es" by (metis distinct_map)
  moreover have "0 \<notin> set es"
  proof
    assume "0 \<in> set es"
    then have "unat (0 :: u64) \<in> set (map unat es)" by (metis image_eqI set_map)
    with main assms(1) show False by (auto simp: tracker_ok_def word_less_nat_alt)
  qed
  ultimately show ?thesis using main len by simp
qed

definition sample_tracker :: execution_tracker where
  "sample_tracker = \<lparr>tracker_records = replicate 2 zero_record, next_exec_id = 1\<rparr>"

lemma sample_tracker_ok: "tracker_ok sample_tracker"
  by (auto simp: sample_tracker_def tracker_ok_def slots_ok_def zero_record_def)

theorem execution_ids_never_reused_witness:
  "fst (tracker_run sample_tracker [(5, Track 7 1 [1] 0), (6, Untrack 1), (7, Track 7 1 [2] 0)]) = [1, 2]
   \<and> distinct (fst (tracker_run sample_tracker [(5, Track 7 1 [1] 0), (6, Untrack 1), (7, Track 7 1 [2] 0)]))"
proof -
  have run: "fst (tracker_run sample_tracker [(5, Track 7 1 [1] 0), (6, Untrack 1), (7, Track 7 1 [2] 0)]) = [1, 2]"
    by (simp add: sample_tracker_def execution_tracker_add_def put_record_def free_slot_def zero_record_def
        execution_tracker_remove_def drop_record_def slot_of_def MAX_MESSAGE_SIZE_def eval_nat_numeral)
  obtain es t' where r: "tracker_run sample_tracker [(5, Track 7 1 [1] 0), (6, Untrack 1), (7, Track 7 1 [2] 0)]
      = (es, t')" by (cases "tracker_run sample_tracker [(5, Track 7 1 [1] 0), (6, Untrack 1), (7, Track 7 1 [2] 0)]")
  from execution_ids_never_reused [OF sample_tracker_ok r] have "distinct es"
    by (simp add: sample_tracker_def)
  with run r show ?thesis by simp
qed

text \<open>C20: Adding an execution succeeds exactly when its message has between 1 and 4096 bytes and a
  slot is free; it is then found, pending, under a new id, and all other executions are as before.
  A status change affects only the named execution, and the clean-up removes exactly the completed
  or failed executions whose end lies more than five minutes back, so one that is running stays.\<close>

theorem execution_tracker_spec:
  assumes "tracker_ok t" and "next_exec_id t \<noteq> -1"
  shows "(fst (execution_tracker_add now t dag peer message retries) \<noteq> 0 \<longleftrightarrow>
       message \<noteq> [] \<and> length message \<le> 4096 \<and> in_flight t < length (tracker_records t))
    \<and> (\<forall>k. execution_tracker_get (snd (execution_tracker_add now t dag peer message retries)) k =
        (if k = fst (execution_tracker_add now t dag peer message retries) \<and> k \<noteq> 0
         then Some (new_record now t dag peer message retries) else execution_tracker_get t k))
    \<and> (\<forall>k. execution_tracker_get (snd (execution_tracker_update_status now t e s)) k =
        (if k = e then map_option (set_status now s) (execution_tracker_get t e)
         else execution_tracker_get t k))
    \<and> (\<forall>k. execution_tracker_get (snd (execution_tracker_cleanup_completed now t)) k =
        (case execution_tracker_get t k of
           None \<Rightarrow> None
         | Some r \<Rightarrow> if finished r \<and> 0 < complete_time_ms r \<and> now - complete_time_ms r > 300000
                   then None else Some r))"
proof -
  let ?add = "execution_tracker_add now t dag peer message retries"
  have nz: "next_exec_id t \<noteq> 0" using assms(1) by (simp add: tracker_ok_def word_gt_0)
  have get0: "execution_tracker_get t' 0 = None" for t' by (simp add: execution_tracker_get_def)
  have add: "(fst ?add \<noteq> 0 \<longleftrightarrow>
       message \<noteq> [] \<and> length message \<le> 4096 \<and> in_flight t < length (tracker_records t))
    \<and> (\<forall>k. execution_tracker_get (snd ?add) k =
        (if k = fst ?add \<and> k \<noteq> 0 then Some (new_record now t dag peer message retries)
         else execution_tracker_get t k))"
  proof (cases "message \<noteq> [] \<and> length message \<le> MAX_MESSAGE_SIZE \<and> in_flight t < length (tracker_records t)")
    case True
    with tracker_add_result [OF assms refl, where now = now and dag = dag and peer = peer
        and message = message and retries = retries] obtain rs where
      rs: "?add = (next_exec_id t, t\<lparr>tracker_records := rs, next_exec_id := next_exec_id t + 1\<rparr>)"
        "tracker_ok (t\<lparr>tracker_records := rs, next_exec_id := next_exec_id t + 1\<rparr>)"
        "slot_lookup rec_active rec_exec_id rs = (slot_lookup rec_active rec_exec_id (tracker_records t))
           (next_exec_id t \<mapsto> new_record now t dag peer message retries)"
      by auto
    then show ?thesis
      using True nz assms(1) by (auto simp: tracker_get_lookup MAX_MESSAGE_SIZE_def)
  next
    case False
    with tracker_add_result [OF assms refl, where now = now and dag = dag and peer = peer
        and message = message and retries = retries] have "?add = (0, t)" by (simp split: if_splits)
    with False show ?thesis by (auto simp: MAX_MESSAGE_SIZE_def)
  qed
  have "stale now r \<longleftrightarrow> finished r \<and> 0 < complete_time_ms r \<and> now - complete_time_ms r > 300000"
    if "execution_tracker_get t k = Some r" for k r
    using tracker_get_range [OF assms(1) that] by (auto simp: stale_def finished_def CLEANUP_THRESHOLD_MS_def)
  then show ?thesis
    using add tracker_update_ok(2) [OF assms(1)] tracker_cleanup_ok(2) [OF assms(1)]
    by (simp split: option.split)
qed

theorem execution_tracker_spec_witness:
  "fst (execution_tracker_add 5 sample_tracker 7 3 [1, 2] 0) \<noteq> 0
   \<and> execution_tracker_get (snd (execution_tracker_cleanup_completed 9 sample_tracker)) 1 = None"
proof -
  have "in_flight sample_tracker < length (tracker_records sample_tracker)"
    by (simp add: in_flight_def sample_tracker_def zero_record_def)
  moreover have "next_exec_id sample_tracker \<noteq> -1" by (simp add: sample_tracker_def)
  moreover have "execution_tracker_get sample_tracker 1 = None"
    by (simp add: tracker_get_lookup sample_tracker_ok slot_lookup_None_iff)
      (auto simp: sample_tracker_def zero_record_def)
  ultimately show ?thesis
    using execution_tracker_spec [OF sample_tracker_ok, of 5 7 3 "[1, 2]" 0]
      execution_tracker_spec [OF sample_tracker_ok, of 9 7 3 "[1, 2]" 0] by simp
qed

end
