(* ===== verification/Dag.thy ===== *)
theory Dag
  imports Roole_Common Tables
begin

text \<open>
  The DAG data model of include/roole/dag.h and the catalog of src/dag/dag_catalog.c. The steps of
  a DAG are the first \<open>step_count\<close> slots of its array. A step's dependency array has 16 slots of
  which \<open>dependency_count\<close> are used; the count is not always checked against the array, so reading
  beyond it is an outcome of \<open>dag_validate\<close>. Configuration data is owned: the catalog stores a
  copy, and whether each allocation of a copy succeeds is the argument \<open>malloc_ok\<close>.
\<close>

definition MAX_DAG_NAME :: nat where "MAX_DAG_NAME = 64"
definition MAX_DAG_STEPS :: nat where "MAX_DAG_STEPS = 128"
definition MAX_STEP_NAME :: nat where "MAX_STEP_NAME = 64"
definition MAX_STEP_DEPENDENCIES :: nat where "MAX_STEP_DEPENDENCIES = 16"

lemmas dag_limits =
  MAX_DAG_NAME_def MAX_DAG_STEPS_def MAX_STEP_NAME_def MAX_STEP_DEPENDENCIES_def

record dag_step =
  step_id :: u32
  step_name :: string
  function_name :: string
  config_data :: "bytes option"
  config_len :: nat
  dependencies :: "u32 list"
  dependency_count :: nat
  timeout_ms :: u32
  max_retries :: u8

record dag =
  dag_id :: rule_id
  dag_name :: string
  dag_version :: u64
  dag_steps :: "dag_step list"
  created_at_ms :: u64
  updated_at_ms :: u64

abbreviation step_count :: "dag \<Rightarrow> nat" where
  "step_count d \<equiv> length (dag_steps d)"

section \<open>The catalog\<close>

record dag_catalog =
  dags :: "dag list"
  catalog_capacity :: nat
  change_callback :: bool
  change_calls :: "nat list"

definition dag_catalog_init :: "nat \<Rightarrow> bool \<Rightarrow> bool \<Rightarrow> result_status \<times> dag_catalog option" where
  "dag_catalog_init capacity alloc_ok lock_ok =
     (if capacity = 0 then (RESULT_ERR_INVALID, None)
      else if \<not> alloc_ok then (RESULT_ERR_NOMEM, None)
      else if \<not> lock_ok then (RESULT_ERR_INVALID, None)
      else (RESULT_OK, Some \<lparr>dags = [], catalog_capacity = capacity, change_callback = False,
                             change_calls = []\<rparr>))"

definition dag_catalog_set_change_callback :: "dag_catalog \<Rightarrow> bool \<Rightarrow> dag_catalog" where
  "dag_catalog_set_change_callback c cb = c\<lparr>change_callback := cb\<rparr>"

definition dag_catalog_destroy :: "dag_catalog \<Rightarrow> dag_catalog" where
  "dag_catalog_destroy c = c\<lparr>dags := [], catalog_capacity := 0\<rparr>"

definition dag_index :: "dag_catalog \<Rightarrow> rule_id \<Rightarrow> nat option" where
  "dag_index c i = find_index (\<lambda>d. dag_id d = i) (dags c)"

definition changed :: "dag_catalog \<Rightarrow> dag_catalog" where
  "changed c = (if change_callback c then c\<lparr>change_calls := change_calls c @ [length (dags c)]\<rparr> else c)"

definition needs_copy :: "dag_step \<Rightarrow> bool" where
  "needs_copy s \<longleftrightarrow> config_data s \<noteq> None \<and> 0 < config_len s"

text \<open>\<open>malloc_ok i\<close>: the copy of step \<open>i\<close>'s configuration can be allocated. An add gives up at the
  first failure; an update goes on, leaving the step without data (and with its length).\<close>

definition dag_catalog_add ::
  "(nat \<Rightarrow> bool) \<Rightarrow> dag_catalog \<Rightarrow> dag \<Rightarrow> result_status \<times> dag_catalog" where
  "dag_catalog_add malloc_ok c d =
     (case dag_index c (dag_id d) of
        Some i \<Rightarrow> (RESULT_ERR_EXISTS, c)
      | None \<Rightarrow>
          if catalog_capacity c \<le> length (dags c) then (RESULT_ERR_FULL, c)
          else if \<exists>i \<in> {0..<step_count d}. needs_copy (dag_steps d ! i) \<and> \<not> malloc_ok i
          then (RESULT_ERR_NOMEM, c)
          else (RESULT_OK, changed (c\<lparr>dags := dags c @ [d]\<rparr>)))"

definition copied_step :: "(nat \<Rightarrow> bool) \<Rightarrow> nat \<times> dag_step \<Rightarrow> dag_step" where
  "copied_step malloc_ok = (\<lambda>(i, s).
     if needs_copy s \<and> \<not> malloc_ok i then s\<lparr>config_data := None\<rparr> else s)"

definition dag_catalog_update ::
  "u64 \<Rightarrow> (nat \<Rightarrow> bool) \<Rightarrow> dag_catalog \<Rightarrow> dag \<Rightarrow> result_status \<times> dag_catalog" where
  "dag_catalog_update now malloc_ok c d =
     (case dag_index c (dag_id d) of
        None \<Rightarrow> (RESULT_ERR_NOTFOUND, c)
      | Some i \<Rightarrow> (RESULT_OK, c\<lparr>dags := (dags c)[i := d\<lparr>
          dag_steps := map (copied_step malloc_ok) (zip [0..<step_count d] (dag_steps d)),
          updated_at_ms := now\<rparr>]\<rparr>))"

definition dag_catalog_remove :: "dag_catalog \<Rightarrow> rule_id \<Rightarrow> result_status \<times> dag_catalog" where
  "dag_catalog_remove c i =
     (case dag_index c i of
        None \<Rightarrow> (RESULT_ERR_NOTFOUND, c)
      | Some k \<Rightarrow> (RESULT_OK, changed (c\<lparr>dags := remove_at k (dags c)\<rparr>)))"

definition dag_catalog_get :: "dag_catalog \<Rightarrow> rule_id \<Rightarrow> dag option" where
  "dag_catalog_get c i = map_option ((!) (dags c)) (dag_index c i)"

definition dag_catalog_list :: "dag_catalog \<Rightarrow> nat \<Rightarrow> rule_id list" where
  "dag_catalog_list c max_count = map dag_id (take (min (length (dags c)) max_count) (dags c))"

section \<open>Validation\<close>

definition find_step :: "dag \<Rightarrow> u32 \<Rightarrow> nat option" where
  "find_step d i = find_index (\<lambda>s. step_id s = i) (dag_steps d)"

text \<open>The dependency loop: None when all are steps of the DAG, otherwise why it stopped.\<close>

fun check_dependencies :: "dag \<Rightarrow> nat \<Rightarrow> u32 list \<Rightarrow> (c_error + result_status) option" where
  "check_dependencies d 0 deps = None"
| "check_dependencies d (Suc n) [] = Some (Inl Out_of_bounds)"
| "check_dependencies d (Suc n) (x # deps) =
     (if find_step d x = None then Some (Inr RESULT_ERR_INVALID) else check_dependencies d n deps)"

fun check_steps :: "dag \<Rightarrow> dag_step list \<Rightarrow> c_error + result_status" where
  "check_steps d [] = Inr RESULT_OK"
| "check_steps d (s # ss) =
     (case check_dependencies d (dependency_count s) (dependencies s) of
        Some r \<Rightarrow> r | None \<Rightarrow> check_steps d ss)"

definition dag_validate :: "dag \<Rightarrow> c_error + result_status" where
  "dag_validate d =
     (if step_count d = 0 \<or> MAX_DAG_STEPS < step_count d then Inr RESULT_ERR_INVALID
      else check_steps d (dag_steps d))"

section \<open>The catalog is a keyed table\<close>

abbreviation catalog_ok :: "dag_catalog \<Rightarrow> bool" where
  "catalog_ok c \<equiv> table_ok dag_id (dags c) (catalog_capacity c)"

lemma dag_index_SomeD:
  "dag_index c k = Some i \<Longrightarrow> i < length (dags c) \<and> dag_id (dags c ! i) = k"
  unfolding dag_index_def by (auto dest: find_index_SomeD)

lemma dag_index_None_iff: "dag_index c k = None \<longleftrightarrow> k \<notin> dag_id ` set (dags c)"
  by (auto simp: dag_index_def find_index_None_iff)

lemma changed_simps [simp]:
  "dags (changed c) = dags c" "catalog_capacity (changed c) = catalog_capacity c"
  by (simp_all add: changed_def)

lemma catalog_get_first_with: "dag_catalog_get c k = first_with dag_id k (dags c)"
  by (simp add: dag_catalog_get_def first_with_def dag_index_def)

interpretation catalog_table: keyed_table dags catalog_capacity dag_id
  "dag_catalog_add (\<lambda>_. True)" dag_catalog_remove
proof unfold_locales
  fix t :: dag_catalog and r :: dag and k :: rule_id
  show "catalog_capacity (snd (dag_catalog_add (\<lambda>_. True) t r)) = catalog_capacity t"
    by (simp add: dag_catalog_add_def split: option.split)
  show "catalog_capacity (snd (dag_catalog_remove t k)) = catalog_capacity t"
    by (simp add: dag_catalog_remove_def split: option.split)
  show "fst (dag_catalog_add (\<lambda>_. True) t r) = RESULT_OK \<and>
      map dag_id (dags (snd (dag_catalog_add (\<lambda>_. True) t r))) = map dag_id (dags t) @ [dag_id r]"
    if "dag_id r \<notin> dag_id ` set (dags t)" "length (dags t) < catalog_capacity t"
    using that dag_index_None_iff [of t "dag_id r"] by (simp add: dag_catalog_add_def)
  show "dag_catalog_add (\<lambda>_. True) t r = (RESULT_ERR_FULL, t)"
    if "dag_id r \<notin> dag_id ` set (dags t)" "catalog_capacity t \<le> length (dags t)"
    using that dag_index_None_iff [of t "dag_id r"] by (simp add: dag_catalog_add_def)
  show "map dag_id (dags (snd (dag_catalog_add (\<lambda>_. True) t r))) = map dag_id (dags t)"
    if "dag_id r \<in> dag_id ` set (dags t)"
    using that dag_index_None_iff [of t "dag_id r"]
    by (cases "dag_index t (dag_id r)") (simp_all add: dag_catalog_add_def)
  show "first_with dag_id k (dags (snd (dag_catalog_add (\<lambda>_. True) t r))) = first_with dag_id k (dags t)"
    if "distinct (map dag_id (dags t))" "k \<noteq> dag_id r"
    using that by (auto simp: dag_catalog_add_def first_with_append split: option.split)
  show "fst (dag_catalog_remove t k) = RESULT_OK \<and> (\<exists>i<length (dags t).
      dag_id (dags t ! i) = k \<and> dags (snd (dag_catalog_remove t k)) = remove_at i (dags t))"
    if "distinct (map dag_id (dags t))" "k \<in> dag_id ` set (dags t)"
    using that dag_index_None_iff [of t k]
    by (auto simp: dag_catalog_remove_def dest!: dag_index_SomeD split: option.split)
  show "dag_catalog_remove t k = (RESULT_ERR_NOTFOUND, t)"
    if "k \<notin> dag_id ` set (dags t)"
    using that dag_index_None_iff [of t k] by (simp add: dag_catalog_remove_def)
qed

section \<open>Properties\<close>

lemma catalog_add_result:
  "dag_catalog_add malloc_ok c d =
    (if dag_catalog_get c (dag_id d) \<noteq> None then (RESULT_ERR_EXISTS, c)
     else if catalog_capacity c \<le> length (dags c) then (RESULT_ERR_FULL, c)
     else if \<exists>i < step_count d. needs_copy (dag_steps d ! i) \<and> \<not> malloc_ok i then (RESULT_ERR_NOMEM, c)
     else (RESULT_OK, changed (c\<lparr>dags := dags c @ [d]\<rparr>)))"
  by (auto simp: dag_catalog_add_def dag_catalog_get_def split: option.split)

lemma catalog_append_get:
  "dag_catalog_get c (dag_id d) = None \<Longrightarrow>
   dag_catalog_get (changed (c\<lparr>dags := dags c @ [d]\<rparr>)) k =
     (if k = dag_id d then Some d else dag_catalog_get c k)"
  by (auto simp: catalog_get_first_with first_with_append split: option.split)

lemma catalog_append_ok:
  "catalog_ok c \<Longrightarrow> dag_catalog_get c (dag_id d) = None \<Longrightarrow> length (dags c) < catalog_capacity c \<Longrightarrow>
   catalog_ok (changed (c\<lparr>dags := dags c @ [d]\<rparr>))"
  by (auto simp: table_ok_def catalog_get_first_with first_with_None_iff)

lemma copied_all [simp]: "map (copied_step (\<lambda>_. True)) (zip [0..<length ss] ss) = ss"
  by (rule nth_equalityI) (simp_all add: copied_step_def)

lemma catalog_update_get:
  assumes "catalog_ok c"
  shows "dag_catalog_get (snd (dag_catalog_update now (\<lambda>_. True) c d)) k =
      (if k = dag_id d \<and> dag_catalog_get c k \<noteq> None then Some (d\<lparr>updated_at_ms := now\<rparr>)
       else dag_catalog_get c k)"
    and "catalog_ok (snd (dag_catalog_update now malloc_ok c d))"
proof -
  show "dag_catalog_get (snd (dag_catalog_update now (\<lambda>_. True) c d)) k =
      (if k = dag_id d \<and> dag_catalog_get c k \<noteq> None then Some (d\<lparr>updated_at_ms := now\<rparr>)
       else dag_catalog_get c k)"
  proof (cases "dag_index c (dag_id d)")
    case None
    then show ?thesis by (auto simp: dag_catalog_update_def dag_catalog_get_def)
  next
    case (Some i)
    have "d\<lparr>dag_steps := dag_steps d, updated_at_ms := now\<rparr> = d\<lparr>updated_at_ms := now\<rparr>" by (cases d) simp
    with Some have upd: "snd (dag_catalog_update now (\<lambda>_. True) c d)
        = c\<lparr>dags := (dags c)[i := d\<lparr>updated_at_ms := now\<rparr>]\<rparr>"
      by (simp add: dag_catalog_update_def)
    from Some have old: "dag_catalog_get c (dag_id d) \<noteq> None" by (simp add: dag_catalog_get_def)
    show ?thesis
      using dag_index_SomeD [OF Some] assms old
      by (auto simp: upd catalog_get_first_with first_with_update table_ok_def)
  qed
  show "catalog_ok (snd (dag_catalog_update now malloc_ok c d))"
  proof (cases "dag_index c (dag_id d)")
    case None
    with assms show ?thesis by (simp add: dag_catalog_update_def)
  next
    case (Some i)
    with dag_index_SomeD [OF Some] assms show ?thesis
      by (simp add: dag_catalog_update_def table_ok_def map_update_same)
  qed
qed

text \<open>C39: The DAG catalog is a bounded map. Adding succeeds exactly for a new id, while there is room and
  memory for the copies of the configurations, and then only that id maps to the new DAG; a failed add
  leaves every entry. Updating, when its copies can be allocated, replaces the DAG of an existing id
  (stamping the time) and nothing else; removing makes only that id unknown. All three keep ids
  distinct and the count within the capacity.\<close>

theorem dag_catalog_spec:
  assumes "catalog_ok c"
  shows "(fst (dag_catalog_add malloc_ok c d) = RESULT_OK \<longleftrightarrow>
       dag_catalog_get c (dag_id d) = None \<and> length (dags c) < catalog_capacity c
       \<and> (\<forall>i < step_count d. needs_copy (dag_steps d ! i) \<longrightarrow> malloc_ok i))
    \<and> (\<forall>k. dag_catalog_get (snd (dag_catalog_add malloc_ok c d)) k =
         (if fst (dag_catalog_add malloc_ok c d) = RESULT_OK \<and> k = dag_id d then Some d
          else dag_catalog_get c k))
    \<and> (\<forall>k. dag_catalog_get (snd (dag_catalog_update now (\<lambda>_. True) c d)) k =
         (if k = dag_id d \<and> dag_catalog_get c k \<noteq> None then Some (d\<lparr>updated_at_ms := now\<rparr>)
          else dag_catalog_get c k))
    \<and> (\<forall>k. dag_catalog_get (snd (dag_catalog_remove c i)) k =
         (if k = i then None else dag_catalog_get c k))
    \<and> catalog_ok (snd (dag_catalog_add malloc_ok c d))
    \<and> catalog_ok (snd (dag_catalog_update now malloc_ok c d))
    \<and> catalog_ok (snd (dag_catalog_remove c i))"
proof -
  have "dag_catalog_get (snd (dag_catalog_remove c i)) k = (if k = i then None else dag_catalog_get c k)" for k
    using catalog_table.lookup_del [OF assms] by (simp add: catalog_get_first_with)
  moreover have "catalog_ok (snd (dag_catalog_remove c i))"
    by (rule catalog_table.del_ok [OF assms])
  moreover have "catalog_ok (snd (dag_catalog_add malloc_ok c d))"
    using assms catalog_append_ok [OF assms] by (simp add: catalog_add_result)
  moreover have "dag_catalog_get (snd (dag_catalog_add malloc_ok c d)) k =
      (if fst (dag_catalog_add malloc_ok c d) = RESULT_OK \<and> k = dag_id d then Some d
       else dag_catalog_get c k)" for k
    using catalog_append_get [of c d k] by (auto simp: catalog_add_result)
  moreover have "fst (dag_catalog_add malloc_ok c d) = RESULT_OK \<longleftrightarrow>
       dag_catalog_get c (dag_id d) = None \<and> length (dags c) < catalog_capacity c
       \<and> (\<forall>i < step_count d. needs_copy (dag_steps d ! i) \<longrightarrow> malloc_ok i)"
    by (auto simp: catalog_add_result)
  ultimately show ?thesis
    using catalog_update_get [OF assms] by blast
qed

definition simple_step :: "u32 \<Rightarrow> u32 list \<Rightarrow> dag_step" where
  "simple_step i deps = \<lparr>step_id = i, step_name = ''s'', function_name = ''f'', config_data = None,
     config_len = 0, dependencies = deps @ replicate (16 - length deps) 0, dependency_count = length deps,
     timeout_ms = 100, max_retries = 3\<rparr>"

definition simple_dag :: "rule_id \<Rightarrow> dag_step list \<Rightarrow> dag" where
  "simple_dag i ss = \<lparr>dag_id = i, dag_name = ''d'', dag_version = 1, dag_steps = ss,
     created_at_ms = 0, updated_at_ms = 0\<rparr>"

theorem dag_catalog_spec_witness:
  "let c = \<lparr>dags = [], catalog_capacity = 2, change_callback = True, change_calls = []\<rparr>
   in dag_catalog_get (snd (dag_catalog_add (\<lambda>_. True) c (simple_dag 7 []))) 7 = Some (simple_dag 7 [])"
  using dag_catalog_spec [of "\<lparr>dags = [], catalog_capacity = 2, change_callback = True, change_calls = []\<rparr>"
      "\<lambda>_. True" "simple_dag 7 []" 9 1]
  by (simp add: table_ok_def simple_dag_def Let_def catalog_get_first_with)

lemma check_dependencies_iff:
  "n \<le> length deps \<Longrightarrow> check_dependencies d n deps = None \<longleftrightarrow> (\<forall>x \<in> set (take n deps). find_step d x \<noteq> None)"
  by (induction d n deps rule: check_dependencies.induct) auto

lemma check_dependencies_Some:
  "n \<le> length deps \<Longrightarrow> check_dependencies d n deps = Some r \<Longrightarrow> r = Inr RESULT_ERR_INVALID"
  by (induction d n deps rule: check_dependencies.induct) (auto split: if_splits)

lemma find_step_None_iff: "find_step d x = None \<longleftrightarrow> x \<notin> step_id ` set (dag_steps d)"
  by (auto simp: find_step_def find_index_None_iff)

definition used_dependencies :: "dag_step \<Rightarrow> u32 list" where
  "used_dependencies s = take (dependency_count s) (dependencies s)"

lemma check_steps_spec:
  assumes "\<forall>s \<in> set ss. dependency_count s \<le> length (dependencies s)"
  shows "check_steps d ss = Inr (if \<forall>s \<in> set ss. set (used_dependencies s) \<subseteq> step_id ` set (dag_steps d)
    then RESULT_OK else RESULT_ERR_INVALID)"
  using assms
proof (induction ss)
  case (Cons s ss)
  have n: "dependency_count s \<le> length (dependencies s)" using Cons.prems by simp
  show ?case
  proof (cases "check_dependencies d (dependency_count s) (dependencies s)")
    case None
    with check_dependencies_iff [OF n, of d] Cons show ?thesis
      by (auto simp: used_dependencies_def find_step_None_iff subset_iff)
  next
    case (Some r)
    then have "\<not> set (used_dependencies s) \<subseteq> step_id ` set (dag_steps d)"
      using check_dependencies_iff [OF n, of d]
      by (auto simp: used_dependencies_def find_step_None_iff subset_iff)
    with Some check_dependencies_Some [OF n Some] show ?thesis by auto
  qed
qed simp

text \<open>What \<open>dag_validate\<close> decides, as long as the dependency counts lie within the arrays: the number of
  steps, and that every dependency of every step is the id of some step. It never looks for cycles.\<close>

lemma dag_validate_iff:
  assumes "\<forall>s \<in> set (dag_steps d). dependency_count s \<le> length (dependencies s)"
  shows "dag_validate d = Inr (if 1 \<le> step_count d \<and> step_count d \<le> 128
      \<and> (\<forall>s \<in> set (dag_steps d). set (used_dependencies s) \<subseteq> step_id ` set (dag_steps d))
    then RESULT_OK else RESULT_ERR_INVALID)"
proof -
  have "step_count d = 0 \<or> MAX_DAG_STEPS < step_count d \<longleftrightarrow> \<not> (1 \<le> step_count d \<and> step_count d \<le> 128)"
    by (cases "dag_steps d") (auto simp: MAX_DAG_STEPS_def)
  then show ?thesis
    unfolding dag_validate_def check_steps_spec [OF assms] by (simp only: if_not_P if_P split: if_split) blast
qed

end
