(* ===== verification/Dag_Serial.thy ===== *)
theory Dag_Serial
  imports Dag Wire
begin

text \<open>
  \<open>dag_serialize\<close> and \<open>dag_deserialize\<close> of src/dag/dag_catalog.c. The writer computes the size it
  needs first and writes nothing (returns 0, the empty list here) when the buffer is smaller; it
  trusts the counts of the steps, so reading beyond a dependency array or a configuration block is
  an outcome. The reader is a chain of checked reads over the bytes that are left (\<open>ptr\<close> to
  \<open>end\<close>); each can end it with \<open>RESULT_ERR_INVALID\<close>, a failed allocation with
  \<open>RESULT_ERR_NOMEM\<close>. \<open>malloc_ok i\<close>: the configuration of step \<open>i\<close> can be allocated.
\<close>

section \<open>Writing\<close>

definition step_size :: "dag_step \<Rightarrow> nat" where
  "step_size s = 4 + (4 + length (step_name s)) + (4 + length (function_name s)) + 4
     + dependency_count s * 4 + 4 + 1 + 4 + config_len s"

definition required_size :: "dag \<Rightarrow> nat" where
  "required_size d = 4 + 8 + 4 + length (dag_name d) + 4 + sum_list (map step_size (dag_steps d))"

definition put_string :: "string \<Rightarrow> bytes" where
  "put_string s = write_u32_net (word_of_nat (length s)) @ map byte_of s"

definition config_bytes :: "dag_step \<Rightarrow> bytes" where
  "config_bytes s = (case config_data s of
     Some data \<Rightarrow> if 0 < config_len s then take (config_len s) data else []
   | None \<Rightarrow> [])"

definition serialize_step :: "dag_step \<Rightarrow> bytes" where
  "serialize_step s =
     write_u32_net (step_id s) @ put_string (step_name s) @ put_string (function_name s)
     @ write_u32_net (word_of_nat (dependency_count s))
     @ concat (map write_u32_net (used_dependencies s))
     @ write_u32_net (timeout_ms s) @ [max_retries s]
     @ write_u32_net (word_of_nat (config_len s)) @ config_bytes s"

text \<open>The counts the writer trusts: dependencies and configuration lie within their arrays.\<close>

definition step_readable :: "dag_step \<Rightarrow> bool" where
  "step_readable s \<longleftrightarrow> dependency_count s \<le> length (dependencies s)
     \<and> (case config_data s of None \<Rightarrow> True | Some data \<Rightarrow> config_len s \<le> length data)"

definition dag_serialize :: "dag \<Rightarrow> nat \<Rightarrow> c_error + bytes" where
  "dag_serialize d buffer_size =
     (if buffer_size < required_size d then Inr []
      else if \<not> list_all step_readable (dag_steps d) then Inl Out_of_bounds
      else Inr (write_u32_net (dag_id d) @ write_u64_net (dag_version d) @ put_string (dag_name d)
        @ write_u32_net (word_of_nat (step_count d))
        @ concat (map serialize_step (dag_steps d))))"

section \<open>Reading\<close>

type_synonym 'a reader = "bytes \<Rightarrow> result_status + 'a \<times> bytes"

definition take_u8 :: "u8 reader" where
  "take_u8 bs = (case bs of [] \<Rightarrow> Inl RESULT_ERR_INVALID | b # rest \<Rightarrow> Inr (b, rest))"

definition take_u32 :: "u32 reader" where
  "take_u32 bs =
     (if length bs < 4 then Inl RESULT_ERR_INVALID else Inr (read_u32_net bs, drop 4 bs))"

definition take_u64 :: "u64 reader" where
  "take_u64 bs =
     (if length bs < 8 then Inl RESULT_ERR_INVALID else Inr (read_u64_net bs, drop 8 bs))"

definition take_name :: "nat \<Rightarrow> string reader" where
  "take_name array_size bs = and_then (take_u32 bs) (\<lambda>(len, bs).
     if array_size \<le> unat len \<or> length bs < unat len then Inl RESULT_ERR_INVALID
     else Inr (get_string (take (unat len) bs), drop (unat len) bs))"

fun take_dependencies :: "nat \<Rightarrow> u32 list reader" where
  "take_dependencies 0 bs = Inr ([], bs)"
| "take_dependencies (Suc n) bs = and_then (take_u32 bs) (\<lambda>(dep, bs).
     and_then (take_dependencies n bs) (\<lambda>(deps, bs). Inr (dep # deps, bs)))"

definition take_config :: "bool \<Rightarrow> nat \<Rightarrow> bytes option reader" where
  "take_config malloc_ok len bs =
     (if len = 0 then Inr (None, bs)
      else if length bs < len then Inl RESULT_ERR_INVALID
      else if \<not> malloc_ok then Inl RESULT_ERR_NOMEM
      else Inr (Some (take len bs), drop len bs))"

definition deserialize_step :: "bool \<Rightarrow> dag_step reader" where
  "deserialize_step malloc_ok bs =
     and_then (take_u32 bs) (\<lambda>(i, bs).
     and_then (take_name MAX_STEP_NAME bs) (\<lambda>(name, bs).
     and_then (take_name MAX_STEP_NAME bs) (\<lambda>(func, bs).
     and_then (take_u32 bs) (\<lambda>(n, bs).
     if MAX_STEP_DEPENDENCIES < unat n then Inl RESULT_ERR_INVALID
     else and_then (take_dependencies (unat n) bs) (\<lambda>(deps, bs).
     and_then (take_u32 bs) (\<lambda>(timeout, bs).
     and_then (take_u8 bs) (\<lambda>(retries, bs).
     and_then (take_u32 bs) (\<lambda>(len, bs).
     and_then (take_config malloc_ok (unat len) bs) (\<lambda>(data, bs).
     Inr (\<lparr>step_id = i, step_name = name, function_name = func, config_data = data,
           config_len = unat len,
           dependencies = deps @ replicate (MAX_STEP_DEPENDENCIES - unat n) 0,
           dependency_count = unat n, timeout_ms = timeout, max_retries = retries\<rparr>, bs))))))))))"

fun deserialize_steps :: "(nat \<Rightarrow> bool) \<Rightarrow> nat \<Rightarrow> nat \<Rightarrow> dag_step list reader" where
  "deserialize_steps malloc_ok i 0 bs = Inr ([], bs)"
| "deserialize_steps malloc_ok i (Suc n) bs =
     and_then (deserialize_step (malloc_ok i) bs) (\<lambda>(s, bs).
     and_then (deserialize_steps malloc_ok (Suc i) n bs) (\<lambda>(ss, bs). Inr (s # ss, bs)))"

definition dag_deserialize :: "u64 \<Rightarrow> (nat \<Rightarrow> bool) \<Rightarrow> bytes \<Rightarrow> result_status + dag" where
  "dag_deserialize now malloc_ok buffer =
     (if length buffer < 16 then Inl RESULT_ERR_INVALID
      else and_then (take_u32 buffer) (\<lambda>(i, bs).
      and_then (take_u64 bs) (\<lambda>(version, bs).
      and_then (take_name MAX_DAG_NAME bs) (\<lambda>(name, bs).
      and_then (take_u32 bs) (\<lambda>(n, bs).
      if MAX_DAG_STEPS < unat n then Inl RESULT_ERR_INVALID
      else and_then (deserialize_steps malloc_ok 0 (unat n) bs) (\<lambda>(ss, bs).
      Inr \<lparr>dag_id = i, dag_name = name, dag_version = version, dag_steps = ss,
           created_at_ms = now, updated_at_ms = now\<rparr>))))))"

section \<open>Well-formed DAGs\<close>

definition config_ok :: "dag_step \<Rightarrow> bool" where
  "config_ok s \<longleftrightarrow> (case config_data s of None \<Rightarrow> config_len s = 0
     | Some data \<Rightarrow> 0 < config_len s \<and> length data = config_len s) \<and> config_len s < 2 ^ 32"

definition step_ok :: "dag_step \<Rightarrow> bool" where
  "step_ok s \<longleftrightarrow> c_string (step_name s) \<and> length (step_name s) < MAX_STEP_NAME
     \<and> c_string (function_name s) \<and> length (function_name s) < MAX_STEP_NAME
     \<and> dependency_count s \<le> MAX_STEP_DEPENDENCIES
     \<and> length (dependencies s) = MAX_STEP_DEPENDENCIES
     \<and> drop (dependency_count s) (dependencies s)
         = replicate (MAX_STEP_DEPENDENCIES - dependency_count s) 0
     \<and> config_ok s"

definition dag_ok :: "dag \<Rightarrow> bool" where
  "dag_ok d \<longleftrightarrow> c_string (dag_name d) \<and> length (dag_name d) < MAX_DAG_NAME
     \<and> step_count d \<le> MAX_DAG_STEPS \<and> list_all step_ok (dag_steps d)"

section \<open>Every reader undoes its writer\<close>

lemma take_u8_Cons [simp]: "take_u8 (b # rest) = Inr (b, rest)"
  by (simp add: take_u8_def)

lemma take_u32_write [simp]: "take_u32 (write_u32_net v @ rest) = Inr (v, rest)"
  by (simp add: take_u32_def)

lemma take_u64_write [simp]: "take_u64 (write_u64_net v @ rest) = Inr (v, rest)"
  by (simp add: take_u64_def)

lemma unat_short: "n < 2 ^ 32 \<Longrightarrow> unat (word_of_nat n :: u32) = n"
  by (simp add: unat_word_of_nat)

lemma take_name_put [simp]:
  "c_string s \<Longrightarrow> length s < n \<Longrightarrow> n \<le> 64 \<Longrightarrow> take_name n (put_string s @ rest) = Inr (s, rest)"
  by (simp add: take_name_def put_string_def unat_short)

lemma take_dependencies_write [simp]:
  "take_dependencies (length deps) (concat (map write_u32_net deps) @ rest) = Inr (deps, rest)"
  by (induction deps) simp_all

lemma take_config_write [simp]:
  "config_ok s \<Longrightarrow> take_config True (config_len s) (config_bytes s @ rest) = Inr (config_data s, rest)"
  by (auto simp: config_ok_def take_config_def config_bytes_def split: option.splits)

lemma config_ok_len: "config_ok s \<Longrightarrow> config_len s < 2 ^ 32"
  by (simp add: config_ok_def)

lemma deserialize_serialize_step [simp]:
  assumes "step_ok s"
  shows "deserialize_step True (serialize_step s @ rest) = Inr (s, rest)"
proof -
  define n where "n = dependency_count s"
  have n: "n \<le> MAX_STEP_DEPENDENCIES" "length (used_dependencies s) = n"
      "n < 2 ^ 32"
    using assms by (simp_all add: step_ok_def used_dependencies_def n_def MAX_STEP_DEPENDENCIES_def)
  have deps: "used_dependencies s @ replicate (MAX_STEP_DEPENDENCIES - n) 0 = dependencies s"
    using assms unfolding step_ok_def used_dependencies_def n_def
    by (metis append_take_drop_id)
  have td: "take_dependencies n (concat (map write_u32_net (used_dependencies s)) @ bs)
      = Inr (used_dependencies s, bs)" for bs
    using take_dependencies_write [of "used_dependencies s" bs] n by simp
  have c: "config_len s < 2 ^ 32" "config_ok s" using assms by (simp_all add: step_ok_def config_ok_def)
  have "unat (word_of_nat n :: u32) = n" "unat (word_of_nat (config_len s) :: u32) = config_len s"
    using n c by (simp_all only: unat_short)
  moreover have "c_string (step_name s)" "length (step_name s) < MAX_STEP_NAME"
      "c_string (function_name s)" "length (function_name s) < MAX_STEP_NAME" "MAX_STEP_NAME \<le> 64"
    using assms by (simp_all add: step_ok_def MAX_STEP_NAME_def)
  ultimately show ?thesis
    using n(1) by (simp add: deserialize_step_def serialize_step_def td deps c flip: n_def)
qed

lemma deserialize_serialize_steps:
  "list_all step_ok ss \<Longrightarrow>
   deserialize_steps (\<lambda>_. True) i (length ss) (concat (map serialize_step ss) @ rest) = Inr (ss, rest)"
  by (induction ss arbitrary: i) simp_all

lemma length_concat_write [simp]: "length (concat (map write_u32_net xs)) = 4 * length xs"
  by (induction xs) auto

lemma length_serialize_step: "step_ok s \<Longrightarrow> length (serialize_step s) = step_size s"
  by (auto simp: serialize_step_def step_size_def put_string_def config_bytes_def step_ok_def
      config_ok_def used_dependencies_def split: option.splits)

lemma step_ok_readable: "step_ok s \<Longrightarrow> step_readable s"
  by (auto simp: step_ok_def config_ok_def step_readable_def split: option.splits)

lemma dag_roundtrip_fact:
  assumes "dag_ok d" and "required_size d \<le> buffer_size"
  shows "\<exists>bs. dag_serialize d buffer_size = Inr bs \<and> length bs = required_size d
    \<and> dag_deserialize now (\<lambda>_. True) bs = Inr (d\<lparr>created_at_ms := now, updated_at_ms := now\<rparr>)"
proof -
  have ok: "list_all step_ok (dag_steps d)" and name: "c_string (dag_name d)"
      "length (dag_name d) < MAX_DAG_NAME" "MAX_DAG_NAME \<le> 64"
    and count: "step_count d \<le> MAX_DAG_STEPS" "step_count d < 2 ^ 32"
    using assms(1) by (simp_all add: dag_ok_def MAX_DAG_NAME_def MAX_DAG_STEPS_def)
  define bs where "bs = write_u32_net (dag_id d) @ write_u64_net (dag_version d)
    @ put_string (dag_name d) @ write_u32_net (word_of_nat (step_count d))
    @ concat (map serialize_step (dag_steps d))"
  have "list_all step_readable (dag_steps d)"
    using ok by (auto simp: list_all_iff step_ok_readable)
  then have "dag_serialize d buffer_size = Inr bs"
    using assms(2) by (simp add: dag_serialize_def bs_def)
  moreover have "map (length \<circ> serialize_step) (dag_steps d) = map step_size (dag_steps d)"
    using ok by (auto simp: list_all_iff length_serialize_step)
  then have "sum_list (map (length \<circ> serialize_step) (dag_steps d)) = sum_list (map step_size (dag_steps d))"
    by (rule arg_cong)
  then have "length bs = required_size d"
    by (simp add: bs_def required_size_def put_string_def length_concat)
  moreover have "dag_deserialize now (\<lambda>_. True) bs = Inr (d\<lparr>created_at_ms := now, updated_at_ms := now\<rparr>)"
    using name count deserialize_serialize_steps [OF ok, of 0 "[]"] unat_short [OF count(2)]
    by (simp add: dag_deserialize_def bs_def)
  ultimately show ?thesis by blast
qed

text \<open>C12: A well-formed DAG survives the wire: written into a buffer that is large enough it takes
  exactly the computed size, and reading it back gives the DAG, with both timestamps set to the
  time of reading.\<close>

theorem dag_roundtrip:
  assumes "dag_ok d" and "required_size d \<le> buffer_size"
  shows "\<exists>bs. dag_serialize d buffer_size = Inr bs \<and> length bs = required_size d
    \<and> dag_deserialize now (\<lambda>_. True) bs = Inr (d\<lparr>created_at_ms := now, updated_at_ms := now\<rparr>)"
  using assms by (rule dag_roundtrip_fact)

lemma dag_serialize_ok:
  "list_all step_readable (dag_steps d) \<Longrightarrow> required_size d \<le> n \<Longrightarrow>
   dag_serialize d n = Inr (write_u32_net (dag_id d) @ write_u64_net (dag_version d)
     @ put_string (dag_name d) @ write_u32_net (word_of_nat (step_count d))
     @ concat (map serialize_step (dag_steps d)))"
  by (simp add: dag_serialize_def)

definition sample_dag :: dag where
  "sample_dag = simple_dag 7 [simple_step 1 [], simple_step 2 [1]]"

lemma sample_dag_ok: "dag_ok sample_dag" "required_size sample_dag \<le> 200"
  by (simp_all add: dag_ok_def sample_dag_def simple_dag_def simple_step_def step_ok_def config_ok_def
      c_string_def dag_limits required_size_def step_size_def)

theorem dag_roundtrip_witness:
  "\<exists>bs. dag_serialize sample_dag 200 = Inr bs \<and> length bs = required_size sample_dag
    \<and> dag_deserialize 5 (\<lambda>_. True) bs = Inr (sample_dag\<lparr>created_at_ms := 5, updated_at_ms := 5\<rparr>)"
  using dag_roundtrip [OF sample_dag_ok] .

section \<open>What arrives is well formed\<close>

lemma unat_less_32: "unat (x :: u32) < 2 ^ 32"
  using unsigned_less [of x, where 'a = nat] by simp

lemma length_get_string: "length (get_string bs) \<le> length bs"
  by (simp add: get_string_def length_takeWhile_le)

lemma take_name_ok:
  "take_name n bs = Inr (s, rest) \<Longrightarrow> c_string s \<and> length s < n"
  by (auto simp: take_name_def and_then_Inr_iff split: if_splits prod.splits
      intro!: le_less_trans [OF length_get_string])

lemma take_dependencies_length:
  "take_dependencies n bs = Inr (deps, rest) \<Longrightarrow> length deps = n"
  by (induction n arbitrary: bs deps) (auto simp: and_then_Inr_iff)

lemma take_config_ok:
  "take_config m n bs = Inr (data, rest) \<Longrightarrow>
   (case data of None \<Rightarrow> n = 0 | Some x \<Rightarrow> 0 < n \<and> length x = n)"
  by (auto simp: take_config_def split: if_splits)

lemma deserialize_step_ok:
  assumes "deserialize_step m bs = Inr (s, rest)"
  shows "step_ok s"
  using assms unfolding deserialize_step_def
  by (auto simp: and_then_Inr_iff step_ok_def config_ok_def used_dependencies_def unat_less_32 [simplified]
      dest!: take_dependencies_length take_config_ok take_name_ok split: if_splits option.splits)

lemma deserialize_steps_ok:
  "deserialize_steps m i n bs = Inr (ss, rest) \<Longrightarrow> length ss = n \<and> list_all step_ok ss"
proof (induction n arbitrary: i bs ss)
  case (Suc n)
  then show ?case
    by (fastforce simp: and_then_Inr_iff dest: deserialize_step_ok)
qed simp

text \<open>C40: Whatever bytes arrive, a DAG that is read successfully is well formed: its names are
  terminated within their arrays, it has at most 128 steps of at most 16 dependencies, and its
  configuration blocks have their announced length. So it can be validated and written out again
  without reading outside an array.\<close>

theorem dag_deserialize_sound:
  assumes "dag_deserialize now malloc_ok bs = Inr d"
  shows "dag_ok d \<and> (\<exists>r. dag_validate d = Inr r)
    \<and> (\<exists>out. dag_serialize d (required_size d) = Inr out \<and> length out = required_size d)"
proof -
  from assms obtain n bs1 bs2 bs3 bs4 where
    st: "deserialize_steps malloc_ok 0 (unat (n :: u32)) bs1 = Inr (dag_steps d, bs2)"
      "\<not> MAX_DAG_STEPS < unat n" and name: "take_name MAX_DAG_NAME bs3 = Inr (dag_name d, bs4)"
    unfolding dag_deserialize_def by (auto simp: and_then_Inr_iff split: if_splits prod.splits)
  have ok: "dag_ok d"
    using deserialize_steps_ok [OF st(1)] st(2) take_name_ok [OF name] by (simp add: dag_ok_def)
  have r: "list_all step_readable (dag_steps d)"
    using ok by (auto simp: dag_ok_def list_all_iff step_ok_readable)
  have v: "\<exists>r. dag_validate d = Inr r"
    using check_steps_spec [of "dag_steps d" d] r
    by (auto simp: dag_validate_def list_all_iff step_readable_def)
  have "map (length \<circ> serialize_step) (dag_steps d) = map step_size (dag_steps d)"
    using ok by (auto simp: dag_ok_def list_all_iff length_serialize_step)
  then have "sum_list (map (length \<circ> serialize_step) (dag_steps d)) = sum_list (map step_size (dag_steps d))"
    by (rule arg_cong)
  with ok v dag_serialize_ok [OF r order_refl] show ?thesis
    by (simp add: required_size_def put_string_def length_concat)
qed

theorem dag_deserialize_sound_witness:
  "\<exists>bs d. dag_deserialize 5 (\<lambda>_. True) bs = Inr d \<and> dag_ok d \<and> step_count d = 1"
proof -
  define bs :: bytes where "bs = [0,0,0,7, 0,0,0,0,0,0,0,1, 0,0,0,1, 100, 0,0,0,1,
    0,0,0,5, 0,0,0,1, 115, 0,0,0,1, 102, 0,0,0,0, 0,0,0,9, 3, 0,0,0,2, 1,2]"
  have "\<exists>d. dag_deserialize 5 (\<lambda>_. True) bs = Inr d \<and> step_count d = 1"
    by (simp add: bs_def dag_deserialize_def take_u32_def take_u64_def take_name_def take_u8_def
        deserialize_step_def take_config_def read_net_defs dag_limits)
  with dag_deserialize_sound show ?thesis by blast
qed

text \<open>A step whose configuration was lost (its copy could not be allocated during an update)
  keeps its length, and then the writer announces bytes it does not write: a DAG ending in such a
  step is always rejected by its reader.\<close>

theorem lost_config_unreadable:
  assumes "list_all step_ok ss" and "step_ok (s\<lparr>config_len := 0\<rparr>)" and "config_data s = None"
    and "0 < config_len s" and "config_len s < 2 ^ 32" and "dag_ok (d\<lparr>dag_steps := []\<rparr>)"
    and "dag_steps d = ss @ [s]" and "step_count d \<le> 128" and "required_size d \<le> n"
  shows "\<exists>bs. dag_serialize d n = Inr bs \<and> length bs < required_size d
    \<and> dag_deserialize now (\<lambda>_. True) bs = Inl RESULT_ERR_INVALID"
proof -
  have sf: "c_string (step_name s)" "length (step_name s) < MAX_STEP_NAME" "c_string (function_name s)"
      "length (function_name s) < MAX_STEP_NAME" "MAX_STEP_NAME \<le> 64"
      "dependency_count s \<le> MAX_STEP_DEPENDENCIES" "length (dependencies s) = MAX_STEP_DEPENDENCIES"
    using assms(2) by (simp_all add: step_ok_def MAX_STEP_NAME_def)
  have used: "length (used_dependencies s) = dependency_count s" "dependency_count s < 2 ^ 32"
    using sf by (simp_all add: used_dependencies_def MAX_STEP_DEPENDENCIES_def)
  have td: "take_dependencies (dependency_count s) (concat (map write_u32_net (used_dependencies s)) @ bs)
      = Inr (used_dependencies s, bs)" for bs
    using take_dependencies_write [of "used_dependencies s" bs] used by simp
  have c: "take_config True (config_len s) (config_bytes s) = Inl RESULT_ERR_INVALID"
    using assms(3,4) by (simp add: take_config_def config_bytes_def)
  have fail: "deserialize_step True (serialize_step s) = Inl RESULT_ERR_INVALID"
    using sf unat_short [OF used(2)] unat_short [OF assms(5)]
    by (simp add: deserialize_step_def serialize_step_def td c)
  have steps: "list_all step_ok ts \<Longrightarrow> deserialize_steps (\<lambda>_. True) i (Suc (length ts))
      (concat (map serialize_step ts) @ serialize_step s) = Inl RESULT_ERR_INVALID" for ts i
    by (induction ts arbitrary: i) (simp_all add: fail)
  have "step_readable s" using assms(3) sf by (simp add: step_readable_def)
  then have r: "list_all step_readable (dag_steps d)"
    using assms(1,7) by (auto simp: list_all_iff intro: step_ok_readable)
  have name: "c_string (dag_name d)" "length (dag_name d) < MAX_DAG_NAME" "MAX_DAG_NAME \<le> 64"
    using assms(6) by (simp_all add: dag_ok_def MAX_DAG_NAME_def)
  have count: "length (dag_steps d) \<le> MAX_DAG_STEPS" "length (dag_steps d) < 2 ^ 32"
    using assms(8) by (simp_all add: MAX_DAG_STEPS_def)
  have "map (length \<circ> serialize_step) ss = map step_size ss"
    using assms(1) by (auto simp: list_all_iff length_serialize_step)
  then have "sum_list (map (length \<circ> serialize_step) ss) = sum_list (map step_size ss)"
    by (rule arg_cong)
  moreover have "length (serialize_step s) < step_size s"
    using assms(3,4) used by (simp add: serialize_step_def step_size_def put_string_def config_bytes_def)
  moreover have "dag_deserialize now (\<lambda>_. True) (write_u32_net (dag_id d) @ write_u64_net (dag_version d)
      @ put_string (dag_name d) @ write_u32_net (word_of_nat (step_count d))
      @ concat (map serialize_step (dag_steps d))) = Inl RESULT_ERR_INVALID"
    using name count unat_short [OF count(2)] steps [OF assms(1), of 0] assms(7)
    by (simp add: dag_deserialize_def)
  ultimately show ?thesis
    using dag_serialize_ok [OF r assms(9)] assms(7)
    by (simp add: required_size_def put_string_def length_concat)
qed

theorem lost_config_unreadable_witness:
  "\<exists>bs. dag_serialize (simple_dag 7 [(simple_step 1 [])\<lparr>config_len := 5\<rparr>]) 200 = Inr bs
    \<and> dag_deserialize 9 (\<lambda>_. True) bs = Inl RESULT_ERR_INVALID"
proof -
  have "step_ok ((simple_step 1 [])\<lparr>config_len := 5, config_len := 0\<rparr>)"
    by (simp add: simple_step_def step_ok_def config_ok_def c_string_def dag_limits)
  moreover have "dag_ok ((simple_dag 7 [(simple_step 1 [])\<lparr>config_len := 5\<rparr>])\<lparr>dag_steps := []\<rparr>)"
    by (simp add: simple_dag_def dag_ok_def c_string_def dag_limits)
  moreover have "required_size (simple_dag 7 [(simple_step 1 [])\<lparr>config_len := 5\<rparr>]) \<le> 200"
    by (simp add: simple_dag_def simple_step_def required_size_def step_size_def)
  ultimately show ?thesis
    using lost_config_unreadable [of "[]" "(simple_step 1 [])\<lparr>config_len := 5\<rparr>"
        "simple_dag 7 [(simple_step 1 [])\<lparr>config_len := 5\<rparr>]" 200 9]
    by (auto simp: simple_dag_def simple_step_def)
qed

end
