(* ===== verification/Dag_Exec.thy ===== *)
theory Dag_Exec
  imports Dag_Serial
begin

text \<open>
  src/dag/dag_executor.c. The executor repeats passes over the steps and runs every step whose
  dependencies are completed, until all are or a pass runs none. The context is that of
  include/roole/dag.h with one field added, \<open>executed\<close>: the indices of the steps in the order in
  which they were marked completed, which no operation reads. \<open>dag_execute_step\<close> is the code's stub:
  it copies the input to the output. Reading a dependency beyond its array is the outcome
  \<open>Inl Out_of_bounds\<close>.
\<close>

datatype dag_exec_status =
    DAG_EXEC_STATUS_PENDING | DAG_EXEC_STATUS_RUNNING
  | DAG_EXEC_STATUS_COMPLETED | DAG_EXEC_STATUS_FAILED

record dag_execution_context =
  context_exec_id :: execution_id
  context_dag :: dag
  input_data :: bytes
  output_data :: "bytes option"
  output_len :: nat
  output_capacity :: nat
  exec_status :: dag_exec_status
  start_time_ms :: u64
  end_time_ms :: u64
  step_completed :: "bool list"
  executed :: "nat list"

fun dependencies_met :: "dag_execution_context \<Rightarrow> nat \<Rightarrow> u32 list \<Rightarrow> c_error + bool" where
  "dependencies_met ctx 0 deps = Inr True"
| "dependencies_met ctx (Suc n) [] = Inl Out_of_bounds"
| "dependencies_met ctx (Suc n) (x # deps) =
     (case find_step (context_dag ctx) x of
        None \<Rightarrow> Inr False
      | Some j \<Rightarrow> if step_completed ctx ! j then dependencies_met ctx n deps else Inr False)"

definition step_dependencies_met :: "dag_execution_context \<Rightarrow> dag_step \<Rightarrow> c_error + bool" where
  "step_dependencies_met ctx s = dependencies_met ctx (dependency_count s) (dependencies s)"

definition dag_execute_step ::
  "dag_execution_context \<Rightarrow> dag_step \<Rightarrow> result_status \<times> dag_execution_context" where
  "dag_execute_step ctx s =
     (RESULT_OK,
      case output_data ctx of
        Some out \<Rightarrow>
          if length (input_data ctx) \<le> output_capacity ctx
          then ctx\<lparr>output_data := Some (input_data ctx @ drop (length (input_data ctx)) out),
                   output_len := length (input_data ctx)\<rparr>
          else ctx
      | None \<Rightarrow> ctx)"

definition mark_completed :: "nat \<Rightarrow> dag_execution_context \<Rightarrow> dag_execution_context" where
  "mark_completed i ctx = ctx\<lparr>step_completed := (step_completed ctx)[i := True],
     executed := executed ctx @ [i]\<rparr>"

definition exec_failed :: "u64 \<Rightarrow> dag_execution_context \<Rightarrow> dag_execution_context" where
  "exec_failed now ctx = ctx\<lparr>exec_status := DAG_EXEC_STATUS_FAILED, end_time_ms := now\<rparr>"

text \<open>One pass over the given step indices; \<open>n\<close> is \<open>completed_steps\<close>, \<open>p\<close> is \<open>progress_made\<close>.\<close>

fun execute_pass :: "u64 \<Rightarrow> nat list \<Rightarrow> dag_execution_context \<Rightarrow> nat \<Rightarrow> bool \<Rightarrow>
    c_error + result_status \<times> dag_execution_context \<times> nat \<times> bool" where
  "execute_pass now [] ctx n p = Inr (RESULT_OK, ctx, n, p)"
| "execute_pass now (i # is) ctx n p =
     (if step_completed ctx ! i then execute_pass now is ctx n p
      else case step_dependencies_met ctx (dag_steps (context_dag ctx) ! i) of
        Inl e \<Rightarrow> Inl e
      | Inr met \<Rightarrow>
          if \<not> met then execute_pass now is ctx n p
          else (case dag_execute_step ctx (dag_steps (context_dag ctx) ! i) of (r, ctx1) \<Rightarrow>
            if r \<noteq> RESULT_OK then Inr (RESULT_ERR_INVALID, exec_failed now ctx1, n, p)
            else execute_pass now is (mark_completed i ctx1) (Suc n) True))"

lemma execute_pass_progress:
  "execute_pass now is ctx n p = Inr (r, ctx', n', p') \<Longrightarrow> n \<le> n' \<and> (p' \<longrightarrow> p \<or> n < n')"
proof (induction now "is" ctx n p rule: execute_pass.induct)
  case (2 now i "is" ctx n p)
  then show ?case
    by (fastforce simp: dag_execute_step_def split: if_splits sum.splits)
qed simp

function execute_loop :: "u64 \<Rightarrow> nat \<Rightarrow> dag_execution_context \<Rightarrow> nat \<Rightarrow>
    c_error + result_status \<times> dag_execution_context" where
  "execute_loop now total_steps ctx n =
     (if total_steps \<le> n
      then Inr (RESULT_OK, ctx\<lparr>exec_status := DAG_EXEC_STATUS_COMPLETED, end_time_ms := now\<rparr>)
      else case execute_pass now [0..<total_steps] ctx n False of
        Inl e \<Rightarrow> Inl e
      | Inr (r, ctx', n', p) \<Rightarrow>
          if r \<noteq> RESULT_OK then Inr (r, ctx')
          else if \<not> p then Inr (RESULT_ERR_INVALID, exec_failed now ctx')
          else execute_loop now total_steps ctx' n')"
  by pat_completeness auto
termination
  by (relation "measure (\<lambda>(now, total_steps, ctx, n). total_steps - n)") (auto dest!: execute_pass_progress)

declare execute_loop.simps [simp del]

definition dag_execute :: "u64 \<Rightarrow> u64 \<Rightarrow> dag_execution_context \<Rightarrow>
    c_error + result_status \<times> dag_execution_context" where
  "dag_execute start_now end_now ctx =
     execute_loop end_now (step_count (context_dag ctx))
       (ctx\<lparr>exec_status := DAG_EXEC_STATUS_RUNNING, start_time_ms := start_now,
            step_completed := replicate MAX_DAG_STEPS False, executed := []\<rparr>) 0"

section \<open>Specification\<close>

text \<open>What has to run before what, by step index: \<open>(j, i)\<close> when step \<open>i\<close> depends on step \<open>j\<close>.\<close>

definition depends :: "dag \<Rightarrow> (nat \<times> nat) set" where
  "depends d = {(j, i). i < step_count d \<and>
     (\<exists>x \<in> set (used_dependencies (dag_steps d ! i)). find_step d x = Some j)}"

definition dependencies_known :: "dag \<Rightarrow> bool" where
  "dependencies_known d \<longleftrightarrow>
     (\<forall>s \<in> set (dag_steps d). set (used_dependencies s) \<subseteq> step_id ` set (dag_steps d))"

text \<open>The steps that can run at all: all their dependencies exist and can run.\<close>

inductive runnable :: "dag \<Rightarrow> nat \<Rightarrow> bool" for d where
  "i < step_count d \<Longrightarrow>
   (\<And>x. x \<in> set (used_dependencies (dag_steps d ! i)) \<Longrightarrow> \<exists>j. find_step d x = Some j \<and> runnable d j) \<Longrightarrow>
   runnable d i"

definition deps_in :: "dag \<Rightarrow> nat \<Rightarrow> nat set \<Rightarrow> bool" where
  "deps_in d i js \<longleftrightarrow>
     (\<forall>x \<in> set (used_dependencies (dag_steps d ! i)). \<exists>j \<in> js. find_step d x = Some j)"

definition counts_ok :: "dag \<Rightarrow> bool" where
  "counts_ok d \<longleftrightarrow> step_count d \<le> MAX_DAG_STEPS
     \<and> (\<forall>s \<in> set (dag_steps d). dependency_count s \<le> length (dependencies s))"

text \<open>The loop invariant: the trace lists the completed steps, each after its dependencies.\<close>

definition exec_inv :: "dag \<Rightarrow> dag_execution_context \<Rightarrow> nat \<Rightarrow> bool" where
  "exec_inv d ctx n \<longleftrightarrow> context_dag ctx = d \<and> length (step_completed ctx) = MAX_DAG_STEPS
     \<and> distinct (executed ctx) \<and> set (executed ctx) \<subseteq> {..<step_count d} \<and> n = length (executed ctx)
     \<and> (\<forall>i < step_count d. step_completed ctx ! i \<longleftrightarrow> i \<in> set (executed ctx))
     \<and> (\<forall>k < length (executed ctx). deps_in d (executed ctx ! k) (set (take k (executed ctx))))"

lemma find_step_less: "find_step d x = Some j \<Longrightarrow> j < step_count d"
  by (auto simp: find_step_def)

lemma dependencies_met_iff:
  assumes "exec_inv d ctx m"
  shows "n \<le> length deps \<Longrightarrow> dependencies_met ctx n deps =
    Inr (\<forall>x \<in> set (take n deps). \<exists>j \<in> set (executed ctx). find_step d x = Some j)"
proof (induction n arbitrary: deps)
  case (Suc n)
  then obtain x ds where deps: "deps = x # ds" by (cases deps) auto
  show ?case
    using Suc assms find_step_less [of d x]
    by (auto simp: deps exec_inv_def split: option.splits)
qed simp

lemma step_dependencies_met_eq:
  "exec_inv d ctx m \<Longrightarrow> counts_ok d \<Longrightarrow> i < step_count d \<Longrightarrow>
   step_dependencies_met ctx (dag_steps d ! i) = Inr (deps_in d i (set (executed ctx)))"
  unfolding step_dependencies_met_def
  by (subst dependencies_met_iff) (auto simp: counts_ok_def deps_in_def used_dependencies_def)

lemma execute_step_frame:
  obtains ctx1 where "dag_execute_step ctx s = (RESULT_OK, ctx1)"
    "context_dag ctx1 = context_dag ctx" "step_completed ctx1 = step_completed ctx"
    "executed ctx1 = executed ctx"
  by (cases "output_data ctx") (auto simp: dag_execute_step_def)

lemma deps_in_mono: "deps_in d i js \<Longrightarrow> js \<subseteq> js' \<Longrightarrow> deps_in d i js'"
  by (auto simp: deps_in_def)

lemma mark_completed_inv:
  assumes inv: "exec_inv d ctx n" and i: "i < step_count d" "\<not> step_completed ctx ! i"
    and deps: "deps_in d i (set (executed ctx))" and size: "step_count d \<le> MAX_DAG_STEPS"
    and ctx1: "context_dag ctx1 = context_dag ctx" "step_completed ctx1 = step_completed ctx"
      "executed ctx1 = executed ctx"
  shows "exec_inv d (mark_completed i ctx1) (Suc n)"
  using assms by (auto simp: exec_inv_def mark_completed_def nth_list_update nth_append less_Suc_eq)

text \<open>A pass keeps the invariant and cannot fail; without progress it changed nothing, and then no
  step of the pass was ready.\<close>

lemma execute_pass_inv:
  assumes "counts_ok d"
  shows "exec_inv d ctx n \<Longrightarrow> set is \<subseteq> {..<step_count d} \<Longrightarrow>
    \<exists>ctx' n' p'. execute_pass now is ctx n p = Inr (RESULT_OK, ctx', n', p') \<and> exec_inv d ctx' n'
      \<and> (p \<longrightarrow> p') \<and> (\<not> p' \<longrightarrow> ctx' = ctx \<and> n' = n \<and> (\<forall>i \<in> set is. i \<notin> set (executed ctx) \<longrightarrow>
           \<not> deps_in d i (set (executed ctx))))"
proof (induction "is" arbitrary: ctx n p)
  case (Cons i "is")
  have i: "i < step_count d" and "set is \<subseteq> {..<step_count d}" using Cons.prems by auto
  note IH = Cons.IH [OF _ this(2)]
  have d: "context_dag ctx = d" "step_completed ctx ! i \<longleftrightarrow> i \<in> set (executed ctx)"
    using Cons.prems(1) i by (simp_all add: exec_inv_def)
  show ?case
  proof (cases "step_completed ctx ! i \<or> \<not> deps_in d i (set (executed ctx))")
    case True
    with IH [OF Cons.prems(1), of p] d step_dependencies_met_eq [OF Cons.prems(1) assms i]
    show ?thesis by auto
  next
    case False
    obtain ctx1 where c1: "dag_execute_step ctx (dag_steps d ! i) = (RESULT_OK, ctx1)"
      "context_dag ctx1 = context_dag ctx" "step_completed ctx1 = step_completed ctx"
      "executed ctx1 = executed ctx" by (rule execute_step_frame)
    have "exec_inv d (mark_completed i ctx1) (Suc n)"
      using mark_completed_inv [OF Cons.prems(1) i] False assms c1 by (simp add: counts_ok_def)
    from IH [OF this, of True] False d c1(1) step_dependencies_met_eq [OF Cons.prems(1) assms i]
    show ?thesis by auto
  qed
qed simp

definition all_executed :: "dag \<Rightarrow> dag_execution_context \<Rightarrow> bool" where
  "all_executed d ctx \<longleftrightarrow> set (executed ctx) = {..<step_count d}"

lemma exec_inv_full: "exec_inv d ctx n \<Longrightarrow> step_count d \<le> n \<longleftrightarrow> all_executed d ctx"
proof -
  assume inv: "exec_inv d ctx n"
  then have "card (set (executed ctx)) = n" "set (executed ctx) \<subseteq> {..<step_count d}"
    by (simp_all add: exec_inv_def distinct_card)
  then show ?thesis
    unfolding all_executed_def
    by (metis card_lessThan card_mono card_subset_eq finite_lessThan le_antisym order_refl)
qed

lemma stuck_not_runnable:
  assumes "runnable d i" and "\<forall>i < step_count d. i \<notin> set (executed ctx) \<longrightarrow>
    \<not> deps_in d i (set (executed ctx))"
  shows "i \<in> set (executed ctx)"
  using assms(1)
proof (induction rule: runnable.induct)
  case (1 i)
  then have "deps_in d i (set (executed ctx))" by (fastforce simp: deps_in_def)
  with 1 assms(2) show ?case by blast
qed

lemma executed_runnable:
  assumes inv: "exec_inv d ctx n"
  shows "k < length (executed ctx) \<Longrightarrow> runnable d (executed ctx ! k)"
proof (induction k rule: less_induct)
  case (less k)
  have i: "executed ctx ! k < step_count d"
    using inv less.prems nth_mem by (fastforce simp: exec_inv_def)
  show ?case
  proof (rule runnable.intros [OF i])
    fix x assume x: "x \<in> set (used_dependencies (dag_steps d ! (executed ctx ! k)))"
    with inv less.prems obtain j where "j \<in> set (take k (executed ctx))" and j: "find_step d x = Some j"
      unfolding exec_inv_def deps_in_def by blast
    then obtain m where "m < k" "j = executed ctx ! m"
      using less.prems by (auto simp: in_set_conv_nth)
    with less j show "\<exists>j. find_step d x = Some j \<and> runnable d j" by auto
  qed
qed

text \<open>What the loop returns, from any state that satisfies the invariant.\<close>

definition exec_result :: "dag \<Rightarrow> c_error + result_status \<times> dag_execution_context \<Rightarrow> bool" where
  "exec_result d res \<longleftrightarrow> (\<exists>ctx n.
     exec_inv d ctx n \<and>
     (if \<forall>i < step_count d. runnable d i
      then res = Inr (RESULT_OK, ctx) \<and> all_executed d ctx \<and> exec_status ctx = DAG_EXEC_STATUS_COMPLETED
      else res = Inr (RESULT_ERR_INVALID, ctx) \<and> exec_status ctx = DAG_EXEC_STATUS_FAILED))"

lemma exec_inv_stamp [simp]:
  "exec_inv d (ctx\<lparr>exec_status := st, end_time_ms := t\<rparr>) n = exec_inv d ctx n"
  "all_executed d (ctx\<lparr>exec_status := st, end_time_ms := t\<rparr>) = all_executed d ctx"
  by (simp_all add: exec_inv_def all_executed_def)

lemma all_executed_runnable:
  "exec_inv d ctx n \<Longrightarrow> all_executed d ctx \<Longrightarrow> i < step_count d \<Longrightarrow> runnable d i"
  by (metis all_executed_def executed_runnable in_set_conv_nth lessThan_iff)

lemma execute_loop_result:
  assumes "counts_ok d"
  shows "exec_inv d ctx n \<Longrightarrow> exec_result d (execute_loop now (step_count d) ctx n)"
proof (induction "step_count d - n" arbitrary: ctx n rule: less_induct)
  case less
  show ?case
  proof (cases "step_count d \<le> n")
    case True
    with less.prems exec_inv_full [OF less.prems] all_executed_runnable [OF less.prems] show ?thesis
      unfolding exec_result_def
      by (intro exI [of _ "ctx\<lparr>exec_status := DAG_EXEC_STATUS_COMPLETED, end_time_ms := now\<rparr>"] exI [of _ n])
        (auto simp: execute_loop.simps)
  next
    case False
    obtain ctx' n' p' where pass: "execute_pass now [0..<step_count d] ctx n False = Inr (RESULT_OK, ctx', n', p')"
        "exec_inv d ctx' n'" and stuck: "\<not> p' \<Longrightarrow> ctx' = ctx \<and> n' = n \<and> (\<forall>i < step_count d.
           i \<notin> set (executed ctx) \<longrightarrow> \<not> deps_in d i (set (executed ctx)))"
      using execute_pass_inv [OF assms less.prems, of "[0..<step_count d]" now False] by fastforce
    show ?thesis
    proof (cases p')
      case True
      with execute_pass_progress [OF pass(1)] False have "step_count d - n' < step_count d - n" by auto
      from less.hyps [OF this pass(2)] True False pass(1) show ?thesis
        by (simp add: execute_loop.simps [of _ _ _ n])
    next
      case F: False
      have "\<not> all_executed d ctx" using False exec_inv_full [OF less.prems] by simp
      moreover have "set (executed ctx) \<subseteq> {..<step_count d}" using less.prems by (simp add: exec_inv_def)
      ultimately have "\<exists>i < step_count d. \<not> runnable d i"
        using stuck [OF F] stuck_not_runnable [of d _ ctx] unfolding all_executed_def by blast
      with less.prems F False pass(1) stuck [OF F] show ?thesis
        unfolding exec_result_def
        by (intro exI [of _ "exec_failed now ctx"] exI [of _ n])
          (auto simp: execute_loop.simps [of _ _ _ n] exec_failed_def)
    qed
  qed
qed

lemma depends_less: "(j, i) \<in> depends d \<Longrightarrow> j < step_count d \<and> i < step_count d"
  by (auto simp: depends_def find_step_less)

lemma finite_depends: "finite (depends d)"
  by (rule finite_subset [of _ "{..<step_count d} \<times> {..<step_count d}"])
    (auto dest: depends_less)

lemma runnable_no_cycle: "runnable d i \<Longrightarrow> (i, i) \<notin> (depends d)\<^sup>+"
proof (induction rule: runnable.induct)
  case (1 i)
  show ?case
  proof
    assume "(i, i) \<in> (depends d)\<^sup>+"
    then obtain j where j: "(i, j) \<in> (depends d)\<^sup>*" "(j, i) \<in> depends d"
      by (blast dest: tranclD2)
    then have "(j, j) \<in> (depends d)\<^sup>+" by (metis rtrancl_into_trancl2)
    moreover from j(2) obtain x where "x \<in> set (used_dependencies (dag_steps d ! i))" "find_step d x = Some j"
      unfolding depends_def by blast
    ultimately show False using 1(2) by fastforce
  qed
qed

lemma all_runnable_iff:
  "(\<forall>i < step_count d. runnable d i) \<longleftrightarrow> dependencies_known d \<and> acyclic (depends d)"
proof (intro iffI conjI)
  assume all: "\<forall>i < step_count d. runnable d i"
  show "dependencies_known d"
    unfolding dependencies_known_def
  proof (intro ballI subsetI)
    fix s x assume s: "s \<in> set (dag_steps d)" and x: "x \<in> set (used_dependencies s)"
    then obtain i where i: "i < step_count d" "dag_steps d ! i = s" by (auto simp: in_set_conv_nth)
    with all have "runnable d i" by blast
    then have "find_step d x \<noteq> None" using x i by cases auto
    then show "x \<in> step_id ` set (dag_steps d)" by (simp add: find_step_None_iff)
  qed
  show "acyclic (depends d)"
  proof (rule acyclicI, intro allI notI)
    fix i assume cyc: "(i, i) \<in> (depends d)\<^sup>+"
    then obtain j where "(j, i) \<in> depends d" by (blast dest: tranclD2)
    with all have "runnable d i" by (auto dest: depends_less)
    with runnable_no_cycle cyc show False by blast
  qed
next
  assume ok: "dependencies_known d \<and> acyclic (depends d)"
  then have "wf (depends d)" by (simp add: finite_acyclic_wf finite_depends)
  then have "i < step_count d \<longrightarrow> runnable d i" for i
  proof (induction i rule: wf_induct_rule)
    case (less i)
    show ?case
    proof (intro impI runnable.intros)
      fix x assume i: "i < step_count d" and x: "x \<in> set (used_dependencies (dag_steps d ! i))"
      then have "x \<in> step_id ` set (dag_steps d)"
        using ok nth_mem [OF i] unfolding dependencies_known_def by blast
      then have "find_step d x \<noteq> None" unfolding find_step_None_iff by blast
      then obtain j where j: "find_step d x = Some j" by blast
      with i x have "(j, i) \<in> depends d" by (auto simp: depends_def)
      with less.IH j find_step_less [OF j] show "\<exists>j. find_step d x = Some j \<and> runnable d j" by blast
    qed
  qed
  then show "\<forall>i < step_count d. runnable d i" by blast
qed

lemma dag_execute_result:
  assumes "counts_ok (context_dag ctx)"
  shows "exec_result (context_dag ctx) (dag_execute t0 t1 ctx)"
  unfolding dag_execute_def using assms
  by (intro execute_loop_result) (auto simp: exec_inv_def counts_ok_def)

text \<open>C10: A DAG run ends (the executor is a total function) and succeeds exactly when every
  dependency names a step and the dependency relation has no cycle; otherwise it returns an
  error with status FAILED.\<close>

theorem dag_execute_succeeds_iff:
  assumes "counts_ok (context_dag ctx)"
  shows "\<exists>r ctx'. dag_execute t0 t1 ctx = Inr (r, ctx')
    \<and> (r = RESULT_OK \<longleftrightarrow> dependencies_known (context_dag ctx) \<and> acyclic (depends (context_dag ctx)))
    \<and> (if r = RESULT_OK then exec_status ctx' = DAG_EXEC_STATUS_COMPLETED
       else r = RESULT_ERR_INVALID \<and> exec_status ctx' = DAG_EXEC_STATUS_FAILED)"
  using dag_execute_result [OF assms, of t0 t1]
  unfolding exec_result_def all_runnable_iff by (simp split: if_splits) blast+

definition context_for :: "dag \<Rightarrow> dag_execution_context" where
  "context_for d = \<lparr>context_exec_id = 1, context_dag = d, input_data = [1, 2], output_data = Some [0, 0, 0],
     output_len = 0, output_capacity = 3, exec_status = DAG_EXEC_STATUS_PENDING, start_time_ms = 0,
     end_time_ms = 0, step_completed = [], executed = []\<rparr>"

theorem dag_execute_succeeds_iff_witness:
  "\<exists>r ctx'. dag_execute 5 6 (context_for sample_dag) = Inr (r, ctx')
    \<and> (r = RESULT_OK \<longleftrightarrow> dependencies_known sample_dag \<and> acyclic (depends sample_dag))"
proof -
  have "counts_ok (context_dag (context_for sample_dag))"
    by (simp add: counts_ok_def context_for_def sample_dag_def simple_dag_def simple_step_def
        MAX_DAG_STEPS_def)
  from dag_execute_succeeds_iff [OF this, of 5 6] show ?thesis by (auto simp: context_for_def)
qed

text \<open>C11: A successful run executes every step exactly once, each after all the steps it depends
  on (a topological order); a failed run executed only steps whose dependencies ran before.\<close>

theorem dag_execute_topological:
  assumes "counts_ok (context_dag ctx)" and "dag_execute t0 t1 ctx = Inr (r, ctx')"
  shows "distinct (executed ctx')
    \<and> (r = RESULT_OK \<longrightarrow> set (executed ctx') = {..<step_count (context_dag ctx)})
    \<and> (\<forall>k < length (executed ctx').
         \<forall>x \<in> set (used_dependencies (dag_steps (context_dag ctx) ! (executed ctx' ! k))).
           \<exists>m < k. find_step (context_dag ctx) x = Some (executed ctx' ! m))"
proof -
  define d where "d = context_dag ctx"
  from dag_execute_result [OF assms(1), of t0 t1] assms(2) obtain n where
    inv: "exec_inv d ctx' n" and all: "r = RESULT_OK \<longrightarrow> all_executed d ctx'"
    unfolding exec_result_def d_def by (auto split: if_splits)
  have "\<exists>m < k. find_step d x = Some (executed ctx' ! m)"
    if k: "k < length (executed ctx')" and x: "x \<in> set (used_dependencies (dag_steps d ! (executed ctx' ! k)))" for k x
  proof -
    from inv k x obtain j where "j \<in> set (take k (executed ctx'))" "find_step d x = Some j"
      unfolding exec_inv_def deps_in_def by blast
    with k show ?thesis by (auto simp: in_set_conv_nth)
  qed
  with inv all show ?thesis by (simp add: exec_inv_def all_executed_def flip: d_def)
qed

lemma find_step_sample:
  "find_step sample_dag x = (if x = 1 then Some 0 else if x = 2 then Some 1 else None)"
  by (auto simp: find_step_def sample_dag_def simple_dag_def simple_step_def)

lemma execute_reversed:
  "\<exists>ctx'. dag_execute 5 6 (context_for (simple_dag 7 [simple_step 2 [1], simple_step 1 []]))
     = Inr (RESULT_OK, ctx') \<and> executed ctx' = [1, 0]"
  by (simp add: dag_execute_def context_for_def simple_dag_def simple_step_def execute_loop.simps
      step_dependencies_met_def find_step_def MAX_DAG_STEPS_def upt_rec dag_execute_step_def
      mark_completed_def eval_nat_numeral)

theorem dag_execute_topological_witness:
  "\<exists>ctx'. dag_execute 5 6 (context_for (simple_dag 7 [simple_step 2 [1], simple_step 1 []]))
     = Inr (RESULT_OK, ctx') \<and> executed ctx' = [1, 0] \<and> set (executed ctx') = {..<2}"
proof -
  obtain ctx' where run: "dag_execute 5 6 (context_for (simple_dag 7 [simple_step 2 [1], simple_step 1 []]))
     = Inr (RESULT_OK, ctx')" "executed ctx' = [1, 0]" using execute_reversed by blast
  have "counts_ok (context_dag (context_for (simple_dag 7 [simple_step 2 [1], simple_step 1 []])))"
    by (simp add: counts_ok_def context_for_def simple_dag_def simple_step_def MAX_DAG_STEPS_def)
  from dag_execute_topological [OF this run(1)] run show ?thesis
    by (auto simp: context_for_def simple_dag_def)
qed

text \<open>C38: For a DAG that deserves the name, its dependencies having no cycle (which \<open>dag_validate\<close> does not
  check itself), and whose dependency counts lie within the arrays: \<open>dag_validate\<close> accepts it exactly when
  it has between 1 and 128 steps and every dependency is the id of some step, and rejects it as invalid
  otherwise; and what it accepts is exactly what runs: among the DAGs of 1 to 128 steps, every execution
  of an accepted one succeeds and every execution of a rejected one fails.\<close>

theorem dag_validate_decides:
  assumes "\<forall>s \<in> set (dag_steps d). dependency_count s \<le> length (dependencies s)" and "acyclic (depends d)"
  shows "dag_validate d = Inr (if step_count d \<in> {1..128} \<and> dependencies_known d then RESULT_OK else RESULT_ERR_INVALID)
    \<and> (\<forall>t0 t1 ctx. context_dag ctx = d \<and> step_count d \<in> {1..128} \<longrightarrow>
         (\<exists>r ctx'. dag_execute t0 t1 ctx = Inr (r, ctx') \<and> Inr r = dag_validate d
           \<and> exec_status ctx' = (if r = RESULT_OK then DAG_EXEC_STATUS_COMPLETED else DAG_EXEC_STATUS_FAILED)))"
proof -
  have valid: "dag_validate d = Inr (if step_count d \<in> {1..128} \<and> dependencies_known d then RESULT_OK else RESULT_ERR_INVALID)"
    unfolding dag_validate_iff [OF assms(1)] by (simp add: dependencies_known_def conj_assoc)
  moreover have "\<exists>r ctx'. dag_execute t0 t1 ctx = Inr (r, ctx') \<and> Inr r = dag_validate d
      \<and> exec_status ctx' = (if r = RESULT_OK then DAG_EXEC_STATUS_COMPLETED else DAG_EXEC_STATUS_FAILED)"
    if ctx: "context_dag ctx = d" and n: "step_count d \<in> {1..128}" for t0 t1 ctx
  proof -
    have "counts_ok (context_dag ctx)" using assms(1) ctx n by (simp add: counts_ok_def MAX_DAG_STEPS_def)
    from dag_execute_result [OF this, of t0 t1] show ?thesis
      unfolding exec_result_def all_runnable_iff ctx using assms(2) n valid by (auto split: if_splits)
  qed
  ultimately show ?thesis by blast
qed

theorem dag_validate_decides_witness:
  "dag_validate (simple_dag 1 [simple_step 5 [], simple_step 6 [5]]) = Inr RESULT_OK
    \<and> dag_validate (simple_dag 1 [simple_step 5 [6]]) = Inr RESULT_ERR_INVALID"
proof -
  have "depends (simple_dag 1 [simple_step 5 [], simple_step 6 [5]]) \<subseteq> {(0, 1)}"
    by (auto simp: depends_def simple_dag_def simple_step_def used_dependencies_def find_step_def less_Suc_eq)
  moreover have "find_step (simple_dag 1 [simple_step 5 [6]]) x = Some j \<Longrightarrow> x = 5" for x j
    by (simp add: simple_dag_def simple_step_def find_step_def split: if_splits)
  then have "depends (simple_dag 1 [simple_step 5 [6]]) = {}"
    by (fastforce simp: depends_def used_dependencies_def simple_dag_def simple_step_def)
  moreover have none: "acyclic ({} :: (nat \<times> nat) set)" by (simp add: acyclic_def)
  then have "acyclic {(0, 1) :: nat \<times> nat}" by (simp add: acyclic_insert)
  ultimately have "acyclic (depends (simple_dag 1 [simple_step 5 [], simple_step 6 [5]]))"
    "acyclic (depends (simple_dag 1 [simple_step 5 [6]]))"
    using none by (auto dest: acyclic_subset [rotated])
  with dag_validate_decides [of "simple_dag 1 [simple_step 5 [], simple_step 6 [5]]"]
    dag_validate_decides [of "simple_dag 1 [simple_step 5 [6]]"]
  show ?thesis
    by (simp add: dependencies_known_def) (simp add: simple_dag_def simple_step_def used_dependencies_def)
qed

definition self_dependent :: dag where
  "self_dependent = simple_dag 1 [simple_step 5 [5]]"

text \<open>Validation does not look for cycles, so a DAG can be valid and yet never run: a validated
  DAG is executed successfully exactly when it is acyclic, and one whose only step depends on
  itself is accepted and always fails.\<close>

theorem validated_dag_may_be_stuck:
  assumes "counts_ok (context_dag ctx)" and "dag_validate (context_dag ctx) = Inr RESULT_OK"
  shows "((\<exists>ctx'. dag_execute t0 t1 ctx = Inr (RESULT_OK, ctx')) \<longleftrightarrow> acyclic (depends (context_dag ctx)))
    \<and> dag_validate self_dependent = Inr RESULT_OK
    \<and> (\<exists>ctx'. dag_execute t0 t1 (context_for self_dependent) = Inr (RESULT_ERR_INVALID, ctx'))"
proof -
  have "dependencies_known (context_dag ctx)"
    using assms by (auto simp: dag_validate_def check_steps_spec counts_ok_def dependencies_known_def
        split: if_splits)
  with dag_execute_result [OF assms(1), of t0 t1]
  have "(\<exists>ctx'. dag_execute t0 t1 ctx = Inr (RESULT_OK, ctx')) \<longleftrightarrow> acyclic (depends (context_dag ctx))"
    unfolding exec_result_def all_runnable_iff by (auto split: if_splits)
  moreover have "dag_validate self_dependent = Inr RESULT_OK"
    by (simp add: self_dependent_def simple_dag_def simple_step_def dag_validate_def find_step_def
        MAX_DAG_STEPS_def)
  moreover have "(0, 0) \<in> depends self_dependent"
    by (simp add: depends_def self_dependent_def simple_dag_def simple_step_def used_dependencies_def
        find_step_def)
  then have "\<not> acyclic (depends self_dependent)" by (auto simp: acyclic_def)
  with dag_execute_result [of "context_for self_dependent" t0 t1]
  have "\<exists>ctx'. dag_execute t0 t1 (context_for self_dependent) = Inr (RESULT_ERR_INVALID, ctx')"
    unfolding exec_result_def all_runnable_iff
    by (auto simp: counts_ok_def context_for_def self_dependent_def simple_dag_def simple_step_def
        MAX_DAG_STEPS_def)
  ultimately show ?thesis by blast
qed

theorem validated_dag_may_be_stuck_witness:
  "dag_validate self_dependent = Inr RESULT_OK
    \<and> (\<exists>ctx'. dag_execute 1 2 (context_for self_dependent) = Inr (RESULT_ERR_INVALID, ctx'))"
proof -
  have "counts_ok (context_dag (context_for self_dependent))"
    by (simp add: counts_ok_def context_for_def self_dependent_def simple_dag_def simple_step_def
        MAX_DAG_STEPS_def)
  moreover have "dag_validate (context_dag (context_for self_dependent)) = Inr RESULT_OK"
    by (simp add: context_for_def self_dependent_def simple_dag_def simple_step_def dag_validate_def
        find_step_def MAX_DAG_STEPS_def)
  ultimately show ?thesis using validated_dag_may_be_stuck by blast
qed

end
