(* ===== verification/Event_Bus.thy ===== *)
theory Event_Bus
  imports Message_Queue Slots
begin

text \<open>
  src/core/event_bus.c: subscriber slots per event type, a bounded queue of 1024 events and the
  dispatch thread that takes events from it. The queue functions are those of the code; a result
  \<open>None\<close> means the thread waits on the condition variable. A handler is a number (its address);
  what handlers do is not part of the bus, so dispatching returns the calls it makes: handler and
  user data, in order. The payload of an event is opaque here, the list of its bytes.
\<close>

definition MAX_SUBSCRIBERS_PER_TYPE :: nat where "MAX_SUBSCRIBERS_PER_TYPE = 16"
definition EVENT_QUEUE_SIZE :: nat where "EVENT_QUEUE_SIZE = 1024"

datatype event_type =
    EVENT_TYPE_PEER_JOINED | EVENT_TYPE_PEER_LEFT | EVENT_TYPE_PEER_FAILED | EVENT_TYPE_PEER_UPDATED
  | EVENT_TYPE_PEER_SUSPECT | EVENT_TYPE_EXECUTION_STARTED | EVENT_TYPE_EXECUTION_COMPLETED
  | EVENT_TYPE_EXECUTION_FAILED | EVENT_TYPE_MESSAGE_RECEIVED | EVENT_TYPE_MESSAGE_ROUTED
  | EVENT_TYPE_CATALOG_UPDATED

datatype event_data =
    Peer_data node_id u8 string u16 u16 u8 u64
  | Execution_data execution_id rule_id node_id u64 int
  | Message_data execution_id rule_id node_id node_id nat u64
  | Catalog_data rule_id u64 string
  | No_data

record event =
  event_kind :: event_type
  event_time_ms :: u64
  source_node_id :: node_id
  event_payload :: event_data

definition zero_event :: event where
  "zero_event = \<lparr>event_kind = EVENT_TYPE_PEER_JOINED, event_time_ms = 0, source_node_id = 0,
     event_payload = No_data\<rparr>"

record event_queue =
  eq_events :: "event list"
  eq_head :: nat
  eq_tail :: nat
  eq_count :: nat
  eq_capacity :: nat

definition event_queue_init :: "nat \<Rightarrow> bool \<Rightarrow> event_queue option" where
  "event_queue_init cap alloc_ok =
     (if \<not> alloc_ok then None
      else Some \<lparr>eq_events = replicate cap zero_event, eq_head = 0, eq_tail = 0, eq_count = 0,
                 eq_capacity = cap\<rparr>)"

definition event_queue_destroy :: "event_queue \<Rightarrow> event_queue" where
  "event_queue_destroy q = q\<lparr>eq_events := []\<rparr>"

definition event_queue_push :: "event_queue \<Rightarrow> event \<Rightarrow> bool \<Rightarrow> (int \<times> event_queue) option" where
  "event_queue_push q e blocking =
     (if eq_count q \<ge> eq_capacity q then (if \<not> blocking then Some (-1, q) else None)
      else Some (0, q\<lparr>eq_events := (eq_events q)[eq_tail q := e],
                      eq_tail := (eq_tail q + 1) mod eq_capacity q,
                      eq_count := eq_count q + 1\<rparr>))"

definition event_queue_pop :: "event_queue \<Rightarrow> int \<Rightarrow> bool \<Rightarrow> (int \<times> event option \<times> event_queue) option" where
  "event_queue_pop q timeout_ms expired =
     (if eq_count q = 0 then
        (if timeout_ms < 0 then None
         else if timeout_ms > 0 then (if expired then Some (-1, None, q) else None)
         else Some (-1, None, q))
      else Some (0, Some (eq_events q ! eq_head q),
                 q\<lparr>eq_head := (eq_head q + 1) mod eq_capacity q, eq_count := eq_count q - 1\<rparr>))"

section \<open>Subscribers\<close>

record subscriber =
  sub_handler :: nat
  sub_user_data :: nat
  sub_active :: bool

record event_bus =
  subscribers :: "event_type \<Rightarrow> subscriber list"
  bus_queue :: event_queue
  events_published :: u64
  events_dispatched :: u64
  events_dropped :: u64
  bus_shutdown :: bool

definition no_subscriber :: subscriber where
  "no_subscriber = \<lparr>sub_handler = 0, sub_user_data = 0, sub_active = False\<rparr>"

definition event_bus_create :: "bool \<Rightarrow> bool \<Rightarrow> bool \<Rightarrow> bool \<Rightarrow> event_bus option" where
  "event_bus_create alloc_ok locks_ok queue_alloc_ok thread_ok =
     (if \<not> alloc_ok \<or> \<not> locks_ok then None
      else case event_queue_init EVENT_QUEUE_SIZE queue_alloc_ok of
        None \<Rightarrow> None
      | Some q \<Rightarrow>
          if \<not> thread_ok then None
          else Some \<lparr>subscribers = (\<lambda>_. replicate MAX_SUBSCRIBERS_PER_TYPE no_subscriber), bus_queue = q,
                     events_published = 0, events_dispatched = 0, events_dropped = 0,
                     bus_shutdown = False\<rparr>)"

definition event_bus_subscribe :: "event_bus \<Rightarrow> event_type \<Rightarrow> nat \<Rightarrow> nat \<Rightarrow> int \<times> event_bus" where
  "event_bus_subscribe b ty h ud =
     (if h = 0 then (-1, b)
      else case free_slot sub_active (subscribers b ty) of
        None \<Rightarrow> (-1, b)
      | Some i \<Rightarrow> (0, b\<lparr>subscribers := (subscribers b)(ty := (subscribers b ty)
          [i := \<lparr>sub_handler = h, sub_user_data = ud, sub_active = True\<rparr>])\<rparr>))"

definition event_bus_unsubscribe :: "event_bus \<Rightarrow> event_type \<Rightarrow> nat \<Rightarrow> int \<times> event_bus" where
  "event_bus_unsubscribe b ty h =
     (if h = 0 then (-1, b)
      else case slot_of sub_active sub_handler h (subscribers b ty) of
        None \<Rightarrow> (-1, b)
      | Some i \<Rightarrow> (0, b\<lparr>subscribers := (subscribers b)(ty := (subscribers b ty)[i := no_subscriber])\<rparr>))"

section \<open>Publishing and dispatching\<close>

fun call_subscribers :: "subscriber list \<Rightarrow> (nat \<times> nat) list" where
  "call_subscribers [] = []"
| "call_subscribers (s # ss) =
     (if sub_active s \<and> sub_handler s \<noteq> 0
      then (sub_handler s, sub_user_data s) # call_subscribers ss else call_subscribers ss)"

definition dispatch_event_to_subscribers :: "event_bus \<Rightarrow> event \<Rightarrow> (nat \<times> nat) list \<times> event_bus" where
  "dispatch_event_to_subscribers b e =
     (let calls = call_subscribers (subscribers b (event_kind e))
      in (calls, b\<lparr>events_dispatched := events_dispatched b + word_of_nat (length calls)\<rparr>))"

definition event_bus_publish :: "event_bus \<Rightarrow> event \<Rightarrow> int \<times> event_bus" where
  "event_bus_publish b e =
     (let b = b\<lparr>events_published := events_published b + 1\<rparr>
      in case event_queue_push (bus_queue b) e False of
           Some (r, q) \<Rightarrow>
             if r \<noteq> 0 then (-1, b\<lparr>events_dropped := events_dropped b + 1\<rparr>) else (0, b\<lparr>bus_queue := q\<rparr>)
         | None \<Rightarrow> (-1, b))"

definition event_bus_publish_sync :: "event_bus \<Rightarrow> event \<Rightarrow> (nat \<times> nat) list \<times> event_bus" where
  "event_bus_publish_sync b e =
     dispatch_event_to_subscribers (b\<lparr>events_published := events_published b + 1\<rparr>) e"

text \<open>One turn of the dispatch thread: nothing when the bus shuts down or the 100 ms run out.\<close>

definition dispatch_turn :: "event_bus \<Rightarrow> (event \<times> (nat \<times> nat) list) option \<times> event_bus" where
  "dispatch_turn b =
     (if bus_shutdown b then (None, b)
      else case event_queue_pop (bus_queue b) 100 True of
        Some (r, Some e, q) \<Rightarrow>
          (case dispatch_event_to_subscribers (b\<lparr>bus_queue := q\<rparr>) e of (calls, b') \<Rightarrow> (Some (e, calls), b'))
      | _ \<Rightarrow> (None, b))"

definition event_bus_destroy :: "event_bus \<Rightarrow> event_bus" where
  "event_bus_destroy b = b\<lparr>bus_shutdown := True, bus_queue := event_queue_destroy (bus_queue b)\<rparr>"

record event_bus_stats =
  stat_published :: u64
  stat_dispatched :: u64
  stat_dropped :: u64
  stat_queue_size :: u64
  stat_subscribers_total :: u64

definition all_event_types :: "event_type list" where
  "all_event_types = [EVENT_TYPE_PEER_JOINED, EVENT_TYPE_PEER_LEFT, EVENT_TYPE_PEER_FAILED,
     EVENT_TYPE_PEER_UPDATED, EVENT_TYPE_PEER_SUSPECT, EVENT_TYPE_EXECUTION_STARTED,
     EVENT_TYPE_EXECUTION_COMPLETED, EVENT_TYPE_EXECUTION_FAILED, EVENT_TYPE_MESSAGE_RECEIVED,
     EVENT_TYPE_MESSAGE_ROUTED, EVENT_TYPE_CATALOG_UPDATED]"

definition event_bus_get_stats :: "event_bus \<Rightarrow> event_bus_stats" where
  "event_bus_get_stats b = \<lparr>stat_published = events_published b, stat_dispatched = events_dispatched b,
     stat_dropped = events_dropped b, stat_queue_size = word_of_nat (eq_count (bus_queue b)),
     stat_subscribers_total = word_of_nat (sum_list
       (map (\<lambda>ty. length (filter sub_active (subscribers b ty))) all_event_types))\<rparr>"

fun event_type_to_string :: "event_type \<Rightarrow> string" where
  "event_type_to_string EVENT_TYPE_PEER_JOINED = ''PEER_JOINED''"
| "event_type_to_string EVENT_TYPE_PEER_LEFT = ''PEER_LEFT''"
| "event_type_to_string EVENT_TYPE_PEER_FAILED = ''PEER_FAILED''"
| "event_type_to_string EVENT_TYPE_PEER_UPDATED = ''PEER_UPDATED''"
| "event_type_to_string EVENT_TYPE_PEER_SUSPECT = ''PEER_SUSPECT''"
| "event_type_to_string EVENT_TYPE_EXECUTION_STARTED = ''EXECUTION_STARTED''"
| "event_type_to_string EVENT_TYPE_EXECUTION_COMPLETED = ''EXECUTION_COMPLETED''"
| "event_type_to_string EVENT_TYPE_EXECUTION_FAILED = ''EXECUTION_FAILED''"
| "event_type_to_string EVENT_TYPE_MESSAGE_RECEIVED = ''MESSAGE_RECEIVED''"
| "event_type_to_string EVENT_TYPE_MESSAGE_ROUTED = ''MESSAGE_ROUTED''"
| "event_type_to_string EVENT_TYPE_CATALOG_UPDATED = ''CATALOG_UPDATED''"

section \<open>The queue is a bounded FIFO\<close>

definition eq_contents :: "event_queue \<Rightarrow> event list" where
  "eq_contents q = ring_contents (eq_events q) (eq_head q) (eq_count q)"

definition eq_ok :: "event_queue \<Rightarrow> bool" where
  "eq_ok q \<longleftrightarrow> eq_capacity q = length (eq_events q) \<and> ring_ok (eq_events q) (eq_head q) (eq_tail q) (eq_count q)"

definition eq_enqueue :: "event_queue \<Rightarrow> event \<Rightarrow> event_queue option" where
  "eq_enqueue q e = (case event_queue_push q e False of Some (r, q') \<Rightarrow> if r = 0 then Some q' else None | None \<Rightarrow> None)"

definition eq_dequeue :: "event_queue \<Rightarrow> (event \<times> event_queue) option" where
  "eq_dequeue q = (case event_queue_pop q 0 False of Some (r, Some e, q') \<Rightarrow> Some (e, q') | _ \<Rightarrow> None)"

lemma eq_contents_empty_iff: "eq_contents q = [] \<longleftrightarrow> eq_count q = 0"
  by (simp add: eq_contents_def ring_contents_def)

interpretation eq: bounded_fifo eq_contents eq_capacity eq_ok eq_enqueue eq_dequeue
proof
  show "length (eq_contents q) \<le> eq_capacity q" if "eq_ok q" for q
    using that by (simp add: eq_ok_def eq_contents_def ring_ok_def)
  show "\<exists>q'. eq_enqueue q x = Some q' \<and> eq_ok q' \<and> eq_contents q' = eq_contents q @ [x]
      \<and> eq_capacity q' = eq_capacity q"
    if "eq_ok q" "length (eq_contents q) < eq_capacity q" for q x
    using that ring_push_contents [of "eq_events q" "eq_head q" "eq_tail q" "eq_count q" x]
      ring_push_ok [of "eq_events q" "eq_head q" "eq_tail q" "eq_count q" x]
    by (simp add: eq_enqueue_def event_queue_push_def eq_ok_def eq_contents_def)
  show "eq_enqueue q x = None" if "eq_ok q" "eq_capacity q \<le> length (eq_contents q)" for q x
    using that by (simp add: eq_enqueue_def event_queue_push_def eq_contents_def)
  show "\<exists>q'. eq_dequeue q = Some (y, q') \<and> eq_ok q' \<and> eq_contents q' = ys
      \<and> eq_capacity q' = eq_capacity q" if "eq_ok q" "eq_contents q = y # ys" for q y ys
  proof -
    have "eq_count q = length (y # ys)"
      using that(2) length_ring_contents unfolding eq_contents_def by metis
    then obtain c where c: "eq_count q = Suc c" by simp
    with that ring_pop_contents [of "eq_events q" "eq_head q" "eq_tail q" c]
      ring_pop_ok [of "eq_events q" "eq_head q" "eq_tail q" c]
    show ?thesis
      by (simp add: eq_dequeue_def event_queue_pop_def eq_ok_def eq_contents_def)
  qed
  show "eq_dequeue q = None" if "eq_ok q" "eq_contents q = []" for q
    using that by (simp add: eq_dequeue_def event_queue_pop_def eq_contents_empty_iff)
qed

section \<open>Properties\<close>

datatype bus_op =
    Publish event | Publish_sync event | Dispatch
  | Subscribe event_type nat nat | Unsubscribe event_type nat

text \<open>A run of the bus: the events it accepted for its queue, those its thread dispatched with the
  handlers it called for them, and the bus.\<close>

type_synonym dispatched = "event \<times> (nat \<times> nat) list"

fun bus_step :: "event_bus \<Rightarrow> bus_op \<Rightarrow> event list \<times> dispatched list \<times> event_bus" where
  "bus_step b (Publish e) =
     (case event_bus_publish b e of (r, b') \<Rightarrow> (if r = 0 then [e] else [], [], b'))"
| "bus_step b (Publish_sync e) = ([], [], snd (event_bus_publish_sync b e))"
| "bus_step b Dispatch =
     (case dispatch_turn b of (r, b') \<Rightarrow> ([], case r of None \<Rightarrow> [] | Some d \<Rightarrow> [d], b'))"
| "bus_step b (Subscribe ty h ud) = ([], [], snd (event_bus_subscribe b ty h ud))"
| "bus_step b (Unsubscribe ty h) = ([], [], snd (event_bus_unsubscribe b ty h))"

fun bus_run :: "event_bus \<Rightarrow> bus_op list \<Rightarrow> event list \<times> dispatched list \<times> event_bus" where
  "bus_run b [] = ([], [], b)"
| "bus_run b (p # ps) =
     (case bus_step b p of (ins, outs, b') \<Rightarrow>
      case bus_run b' ps of (ins', outs', b'') \<Rightarrow> (ins @ ins', outs @ outs', b''))"

fun publications :: "bus_op list \<Rightarrow> nat" where
  "publications [] = 0"
| "publications (Publish e # ps) = Suc (publications ps)"
| "publications (Publish_sync e # ps) = Suc (publications ps)"
| "publications (p # ps) = publications ps"

fun queued_publications :: "bus_op list \<Rightarrow> nat" where
  "queued_publications [] = 0"
| "queued_publications (Publish e # ps) = Suc (queued_publications ps)"
| "queued_publications (p # ps) = queued_publications ps"

lemma publish_result:
  "eq_ok (bus_queue b) \<Longrightarrow> event_bus_publish b e =
     (case eq_enqueue (bus_queue b) e of
        None \<Rightarrow> (-1, b\<lparr>events_published := events_published b + 1, events_dropped := events_dropped b + 1\<rparr>)
      | Some q \<Rightarrow> (0, b\<lparr>events_published := events_published b + 1, bus_queue := q\<rparr>))"
  by (simp add: event_bus_publish_def Let_def eq_enqueue_def event_queue_push_def)

lemma dispatch_result:
  "dispatch_turn b =
     (if bus_shutdown b then (None, b)
      else case eq_dequeue (bus_queue b) of
        None \<Rightarrow> (None, b)
      | Some (e, q) \<Rightarrow> (case dispatch_event_to_subscribers (b\<lparr>bus_queue := q\<rparr>) e of
          (calls, b') \<Rightarrow> (Some (e, calls), b')))"
  by (simp add: dispatch_turn_def eq_dequeue_def event_queue_pop_def split: prod.splits)

lemma sub_frames [simp]:
  "bus_queue (snd (event_bus_subscribe b ty h ud)) = bus_queue b"
  "events_published (snd (event_bus_subscribe b ty h ud)) = events_published b"
  "events_dropped (snd (event_bus_subscribe b ty h ud)) = events_dropped b"
  "bus_queue (snd (event_bus_unsubscribe b ty h)) = bus_queue b"
  "events_published (snd (event_bus_unsubscribe b ty h)) = events_published b"
  "events_dropped (snd (event_bus_unsubscribe b ty h)) = events_dropped b"
  "bus_queue (snd (dispatch_event_to_subscribers b e)) = bus_queue b"
  "events_published (snd (dispatch_event_to_subscribers b e)) = events_published b"
  "events_dropped (snd (dispatch_event_to_subscribers b e)) = events_dropped b"
  "bus_shutdown (snd (event_bus_subscribe b ty h ud)) = bus_shutdown b"
  "bus_shutdown (snd (event_bus_unsubscribe b ty h)) = bus_shutdown b"
  "bus_shutdown (snd (dispatch_event_to_subscribers b e)) = bus_shutdown b"
  by (simp_all add: event_bus_subscribe_def event_bus_unsubscribe_def dispatch_event_to_subscribers_def
      Let_def split: option.split)

definition step_dropped :: "bus_op \<Rightarrow> event list \<Rightarrow> nat" where
  "step_dropped p ins = queued_publications [p] - length ins"

lemma bus_step_fifo:
  assumes ok: "eq_ok (bus_queue b)" and step: "bus_step b p = (ins, outs, b')"
  shows "eq_ok (bus_queue b') \<and> bus_shutdown b' = bus_shutdown b
    \<and> eq_contents (bus_queue b) @ ins = map fst outs @ eq_contents (bus_queue b')
    \<and> length ins \<le> queued_publications [p]
    \<and> events_published b' = events_published b + word_of_nat (publications [p])
    \<and> events_dropped b' = events_dropped b + word_of_nat (queued_publications [p] - length ins)"
proof (cases p)
  case (Publish e)
  with step ok show ?thesis
    by (cases "eq_enqueue (bus_queue b) e") (auto simp: publish_result dest: eq.push_ok)
next
  case (Publish_sync e)
  with step ok show ?thesis by (auto simp: event_bus_publish_sync_def)
next
  case Dispatch
  show ?thesis
  proof (cases "bus_shutdown b \<or> eq_dequeue (bus_queue b) = None")
    case True
    then have "dispatch_turn b = (None, b)" by (auto simp: dispatch_result)
    with Dispatch step ok show ?thesis by auto
  next
    case False
    then obtain e q where q: "eq_dequeue (bus_queue b) = Some (e, q)" by auto
    obtain calls b1 where d: "dispatch_event_to_subscribers (b\<lparr>bus_queue := q\<rparr>) e = (calls, b1)" by fastforce
    have "bus_queue b1 = q" "events_published b1 = events_published b" "events_dropped b1 = events_dropped b"
      "bus_shutdown b1 = bus_shutdown b"
      using sub_frames(7-9,12) [of "b\<lparr>bus_queue := q\<rparr>" e] d by simp_all
    with Dispatch step False q d eq.pop_ok [OF ok q] show ?thesis by (auto simp: dispatch_result)
  qed
qed (use step ok in auto)

lemma publications_Cons: "publications (p # ps) = publications [p] + publications ps"
  by (cases p) simp_all

lemma queued_publications_Cons:
  "queued_publications (p # ps) = queued_publications [p] + queued_publications ps"
  by (cases p) simp_all

lemma bus_run_fifo:
  assumes "eq_ok (bus_queue b)" and "bus_run b ps = (ins, outs, b')"
  shows "eq_ok (bus_queue b') \<and> bus_shutdown b' = bus_shutdown b
    \<and> eq_contents (bus_queue b) @ ins = map fst outs @ eq_contents (bus_queue b')
    \<and> length ins \<le> queued_publications ps
    \<and> events_published b' = events_published b + word_of_nat (publications ps)
    \<and> events_dropped b' = events_dropped b + word_of_nat (queued_publications ps - length ins)"
  using assms
proof (induction ps arbitrary: b ins outs)
  case (Cons p ps)
  obtain i1 o1 b1 i2 o2 where s: "bus_step b p = (i1, o1, b1)" "bus_run b1 ps = (i2, o2, b')"
      "ins = i1 @ i2" "outs = o1 @ o2"
    using Cons.prems(2) by (auto split: prod.splits)
  note step = bus_step_fifo [OF Cons.prems(1) s(1)]
  note rest = Cons.IH [OF conjunct1 [OF step] s(2)]
  have "word_of_nat (queued_publications [p] - length i1) + word_of_nat (queued_publications ps - length i2)
      = (word_of_nat (queued_publications [p] + queued_publications ps - (length i1 + length i2)) :: u64)"
    using step rest by (simp flip: of_nat_add) (simp add: ac_simps)
  moreover have "eq_contents (bus_queue b) @ i1 @ i2 = map fst o1 @ map fst o2 @ eq_contents (bus_queue b')"
    using step rest by (metis append_assoc)
  ultimately show ?case
    using step rest unfolding publications_Cons [of p ps] queued_publications_Cons [of p ps] s(3,4)
    by (auto simp: ac_simps)
qed simp

text \<open>As many turns of the dispatch thread as events are queued empty the queue.\<close>

lemma dispatch_drains:
  "eq_ok (bus_queue b) \<Longrightarrow> \<not> bus_shutdown b \<Longrightarrow> eq_contents (bus_queue b) = es \<Longrightarrow>
   \<exists>b'. bus_run b (replicate (length es) Dispatch) =
       ([], map (\<lambda>e. (e, call_subscribers (subscribers b (event_kind e)))) es, b')
     \<and> eq_contents (bus_queue b') = []"
proof (induction es arbitrary: b)
  case (Cons e es)
  obtain q where q: "eq_dequeue (bus_queue b) = Some (e, q)" "eq_ok q" "eq_contents q = es"
    using eq.pop_some [OF Cons.prems(1,3)] by blast
  obtain calls b1 where d: "dispatch_event_to_subscribers (b\<lparr>bus_queue := q\<rparr>) e = (calls, b1)" by fastforce
  then have b1: "calls = call_subscribers (subscribers b (event_kind e))" "bus_queue b1 = q"
      "bus_shutdown b1 = bus_shutdown b" "subscribers b1 = subscribers b"
    by (auto simp: dispatch_event_to_subscribers_def Let_def)
  then obtain b' where "bus_run b1 (replicate (length es) Dispatch) =
       ([], map (\<lambda>e. (e, call_subscribers (subscribers b (event_kind e)))) es, b')" "eq_contents (bus_queue b') = []"
    using Cons.IH [of b1] q(2,3) Cons.prems(2) by auto
  with d q(1) b1 Cons.prems(2) show ?case by (simp add: dispatch_result)
qed simp


definition sample_bus :: event_bus where
  "sample_bus = \<lparr>subscribers = (\<lambda>_. replicate MAX_SUBSCRIBERS_PER_TYPE no_subscriber),
     bus_queue = \<lparr>eq_events = [zero_event], eq_head = 0, eq_tail = 0, eq_count = 0, eq_capacity = 1\<rparr>,
     events_published = 0, events_dispatched = 0, events_dropped = 0, bus_shutdown = False\<rparr>"


lemma call_subscribers_filter:
  "call_subscribers ss = map (\<lambda>s. (sub_handler s, sub_user_data s)) (filter (\<lambda>s. sub_active s \<and> sub_handler s \<noteq> 0) ss)"
  by (induction ss) auto

text \<open>A publication reaches exactly the current subscribers of its type. Subscribing adds one
  call for the new handler (as long as one of the 16 slots of the type is free) and unsubscribing
  removes one call of that handler; the calls for other handlers, other types and the order among
  them stay as they are.\<close>

theorem event_bus_subscriptions:
  "(if h \<noteq> 0 \<and> length (filter sub_active (subscribers b ty)) < length (subscribers b ty)
    then fst (event_bus_subscribe b ty h ud) = 0 \<and> (\<exists>us vs.
         call_subscribers (subscribers b ty) = us @ vs
       \<and> call_subscribers (subscribers (snd (event_bus_subscribe b ty h ud)) ty) = us @ (h, ud) # vs)
    else event_bus_subscribe b ty h ud = (-1, b))
   \<and> (if h \<noteq> 0 \<and> (\<exists>s \<in> set (subscribers b ty). sub_active s \<and> sub_handler s = h)
      then fst (event_bus_unsubscribe b ty h) = 0 \<and> (\<exists>us x vs. h \<notin> fst ` set us
       \<and> call_subscribers (subscribers b ty) = us @ (h, x) # vs
       \<and> call_subscribers (subscribers (snd (event_bus_unsubscribe b ty h)) ty) = us @ vs)
      else event_bus_unsubscribe b ty h = (-1, b))
   \<and> (ty' \<noteq> ty \<longrightarrow> subscribers (snd (event_bus_subscribe b ty h ud)) ty' = subscribers b ty'
       \<and> subscribers (snd (event_bus_unsubscribe b ty h)) ty' = subscribers b ty')
   \<and> fst (event_bus_publish_sync b e) = call_subscribers (subscribers b (event_kind e))"
proof -
  let ?ss = "subscribers b ty"
  have call: "call_subscribers (take i ss @ s # drop (Suc i) ss) =
      call_subscribers (take i ss) @ call_subscribers [s] @ call_subscribers (drop (Suc i) ss)" for i s ss
    by (simp add: call_subscribers_filter)
  have sub: "if h \<noteq> 0 \<and> length (filter sub_active ?ss) < length ?ss
    then fst (event_bus_subscribe b ty h ud) = 0 \<and> (\<exists>us vs.
         call_subscribers ?ss = us @ vs
       \<and> call_subscribers (subscribers (snd (event_bus_subscribe b ty h ud)) ty) = us @ (h, ud) # vs)
    else event_bus_subscribe b ty h ud = (-1, b)"
  proof (cases "h = 0 \<or> free_slot sub_active ?ss = None")
    case True
    then show ?thesis using free_slot_iff [of sub_active ?ss] by (auto simp: event_bus_subscribe_def)
  next
    case False
    then obtain i where i: "free_slot sub_active ?ss = Some i" and h: "h \<noteq> 0" by auto
    note at = free_slot_SomeD [OF i]
    have "call_subscribers ?ss = call_subscribers (take i ?ss) @ call_subscribers (drop (Suc i) ?ss)"
      using call [of i ?ss "?ss ! i"] at by (simp add: id_take_nth_drop [symmetric])
    moreover have "call_subscribers (?ss[i := \<lparr>sub_handler = h, sub_user_data = ud, sub_active = True\<rparr>])
      = call_subscribers (take i ?ss) @ (h, ud) # call_subscribers (drop (Suc i) ?ss)"
      using call at h by (simp add: upd_conv_take_nth_drop)
    ultimately show ?thesis
      using i h free_slot_iff [of sub_active ?ss] by (auto simp: event_bus_subscribe_def)
  qed
  have unsub: "if h \<noteq> 0 \<and> (\<exists>s \<in> set ?ss. sub_active s \<and> sub_handler s = h)
      then fst (event_bus_unsubscribe b ty h) = 0 \<and> (\<exists>us x vs. h \<notin> fst ` set us
       \<and> call_subscribers ?ss = us @ (h, x) # vs
       \<and> call_subscribers (subscribers (snd (event_bus_unsubscribe b ty h)) ty) = us @ vs)
      else event_bus_unsubscribe b ty h = (-1, b)"
  proof (cases "h = 0 \<or> slot_of sub_active sub_handler h ?ss = None")
    case True
    then have "event_bus_unsubscribe b ty h = (-1, b)" by (auto simp: event_bus_unsubscribe_def)
    moreover have "\<not> (h \<noteq> 0 \<and> (\<exists>s \<in> set ?ss. sub_active s \<and> sub_handler s = h))"
      using True by (auto simp: slot_of_def find_index_None_iff)
    ultimately show ?thesis by simp
  next
    case False
    then obtain i where i: "slot_of sub_active sub_handler h ?ss = Some i" and h: "h \<noteq> 0" by auto
    note at = slot_of_SomeD [OF i]
    have "h \<notin> fst ` set (call_subscribers (take i ?ss))"
      using find_index_first [OF i [unfolded slot_of_def]]
      by (force simp: call_subscribers_filter in_set_conv_nth)
    moreover have "call_subscribers ?ss = call_subscribers (take i ?ss)
        @ (h, sub_user_data (?ss ! i)) # call_subscribers (drop (Suc i) ?ss)"
      using call [of i ?ss "?ss ! i"] at h by (simp add: id_take_nth_drop [symmetric])
    moreover have "call_subscribers (?ss[i := no_subscriber])
        = call_subscribers (take i ?ss) @ call_subscribers (drop (Suc i) ?ss)"
      using call at by (simp add: upd_conv_take_nth_drop no_subscriber_def)
    moreover have "?ss ! i \<in> set ?ss" using at by simp
    ultimately show ?thesis using i h at by (auto simp: event_bus_unsubscribe_def)
  qed
  have "fst (event_bus_publish_sync b e) = call_subscribers (subscribers b (event_kind e))"
    by (simp add: event_bus_publish_sync_def dispatch_event_to_subscribers_def Let_def)
  moreover have "ty' \<noteq> ty \<longrightarrow> subscribers (snd (event_bus_subscribe b ty h ud)) ty' = subscribers b ty'
       \<and> subscribers (snd (event_bus_unsubscribe b ty h)) ty' = subscribers b ty'"
    by (simp add: event_bus_subscribe_def event_bus_unsubscribe_def split: option.split)
  ultimately show ?thesis using sub unsub by blast
qed

theorem event_bus_subscriptions_witness:
  "fst (event_bus_subscribe sample_bus EVENT_TYPE_PEER_LEFT 7 9) = 0
   \<and> fst (event_bus_publish_sync sample_bus zero_event) = []"
  using event_bus_subscriptions [of 7 sample_bus EVENT_TYPE_PEER_LEFT 9 EVENT_TYPE_PEER_JOINED zero_event]
  by (simp add: sample_bus_def no_subscriber_def call_subscribers_filter MAX_SUBSCRIBERS_PER_TYPE_def)

end
