(* ===== verification/Node_State.thy ===== *)
theory Node_State
  imports Peer_Pool Message_Queue Exec_Tracker Dag_Exec Event_Bus
begin

text \<open>
  The node state of include/roole/node_state.h, what the RPC handlers (src/node/node_handlers.c)
  and the executor threads (src/node/node_executor.c) share. Its accessors return the fields. Three
  fields are observations: the bytes sent to other nodes over their data channels
  (\<open>data_sent\<close>), and \<open>bad_unlocks\<close>, the number of times \<open>peer_pool_release\<close> was called by a
  thread that does not hold the lock, because the \<open>peer_pool_get\<close> before it returned NULL (unlocking
  such a mutex is undefined for POSIX; the model counts it and goes on). The statistics
  \<open>messages_processed\<close> and \<open>messages_failed\<close> are fields that no code under src/ writes; the
  metrics of a node are in \<open>Node_Metrics\<close>.
\<close>

record node_identity =
  id_node_id :: node_id
  id_node_type :: node_type
  id_cluster_name :: string
  bind_addr :: string
  id_gossip_port :: u16
  id_data_port :: u16
  id_ingress_port :: u16
  id_metrics_port :: u16

record node_state =
  ns_identity :: node_identity
  ns_caps :: node_capabilities
  ns_catalog :: dag_catalog
  ns_pool :: peer_pool
  ns_tracker :: execution_tracker
  ns_queue :: message_queue
  ns_view :: cluster_view
  ns_bus :: "event_bus option"
  active_executions :: u32
  messages_processed :: u64
  messages_failed :: u64
  data_sent :: "(node_id \<times> bytes) list"
  bad_unlocks :: nat

abbreviation self_id :: "node_state \<Rightarrow> node_id" where
  "self_id s \<equiv> id_node_id (ns_identity s)"

definition FUNC_ID_SUBMIT_MESSAGE :: u8 where "FUNC_ID_SUBMIT_MESSAGE = 0x25"
definition FUNC_ID_GET_STATUS :: u8 where "FUNC_ID_GET_STATUS = 0x35"
definition FUNC_ID_LIST_DAGS :: u8 where "FUNC_ID_LIST_DAGS = 0x34"
definition FUNC_ID_ADD_DAG :: u8 where "FUNC_ID_ADD_DAG = 0x30"
definition FUNC_ID_PROCESS_MESSAGE :: u8 where "FUNC_ID_PROCESS_MESSAGE = 0x26"
definition FUNC_ID_EXECUTION_UPDATE :: u8 where "FUNC_ID_EXECUTION_UPDATE = 0x22"
definition FUNC_ID_SYNC_CATALOG :: u8 where "FUNC_ID_SYNC_CATALOG = 0x23"
definition RPC_STATUS_UNKNOWN :: u8 where "RPC_STATUS_UNKNOWN = 0xFF"
definition RPC_STATUS_NETWORK :: u8 where "RPC_STATUS_NETWORK = 0x04"

text \<open>\<open>event_bus_publish\<close> when there is a bus.\<close>

definition publish :: "event \<Rightarrow> node_state \<Rightarrow> node_state" where
  "publish ev s = (case ns_bus s of None \<Rightarrow> s | Some b \<Rightarrow> s\<lparr>ns_bus := Some (snd (event_bus_publish b ev))\<rparr>)"

definition set_exec_status :: "u64 \<Rightarrow> execution_id \<Rightarrow> execution_status \<Rightarrow> node_state \<Rightarrow> node_state" where
  "set_exec_status now e st s =
     s\<lparr>ns_tracker := snd (execution_tracker_update_status now (ns_tracker s) e st)\<rparr>"

definition release_unheld :: "node_state \<Rightarrow> node_state" where
  "release_unheld s = s\<lparr>bad_unlocks := Suc (bad_unlocks s)\<rparr>"

text \<open>A request to a peer: packed into the channel's send buffer (which may be too small for it),
  then one \<open>send\<close>.\<close>

definition send_to_peer ::
  "node_id \<Rightarrow> rpc_channel \<Rightarrow> bool \<Rightarrow> u32 \<Rightarrow> u8 \<Rightarrow> bytes \<Rightarrow> node_state \<Rightarrow> c_error + node_state" where
  "send_to_peer peer ch send_ok request_id func payload s =
     (case rpc_pack_message (tx_buffer_size ch) (self_id s) request_id RPC_TYPE_REQUEST
             RPC_STATUS_UNKNOWN func payload of
        Inl e \<Rightarrow> Inl e
      | Inr msg \<Rightarrow> Inr (if send_ok then s\<lparr>data_sent := data_sent s @ [(peer, msg)]\<rparr> else s))"

lemma publish_frame [frame_simps]:
  "ns_identity (publish ev s) = ns_identity s" "ns_caps (publish ev s) = ns_caps s"
  "ns_catalog (publish ev s) = ns_catalog s" "ns_pool (publish ev s) = ns_pool s"
  "ns_tracker (publish ev s) = ns_tracker s" "ns_queue (publish ev s) = ns_queue s"
  "ns_view (publish ev s) = ns_view s" "data_sent (publish ev s) = data_sent s"
  "bad_unlocks (publish ev s) = bad_unlocks s" "messages_failed (publish ev s) = messages_failed s"
  "active_executions (publish ev s) = active_executions s"
  "messages_processed (publish ev s) = messages_processed s"
  by (simp_all add: publish_def split: option.split)

lemma set_exec_status_frame [frame_simps]:
  "ns_identity (set_exec_status now e st s) = ns_identity s"
  "ns_catalog (set_exec_status now e st s) = ns_catalog s"
  "ns_pool (set_exec_status now e st s) = ns_pool s"
  "ns_queue (set_exec_status now e st s) = ns_queue s"
  "ns_tracker (set_exec_status now e st s) =
     snd (execution_tracker_update_status now (ns_tracker s) e st)"
  "bad_unlocks (set_exec_status now e st s) = bad_unlocks s"
  "data_sent (set_exec_status now e st s) = data_sent s"
  "active_executions (set_exec_status now e st s) = active_executions s"
  by (simp_all add: set_exec_status_def)

end
