(* ===== verification/Node_Handlers.thy ===== *)
theory Node_Handlers
  imports Node_State
begin

text \<open>
  src/node/node_handlers.c: the RPC handlers of a node. A handler either answers its request with a
  status and a payload, or waits because the message queue is full (with the state it has reached;
  the RPC thread is then stuck in \<open>pthread_cond_wait\<close>), or touches memory outside an array. The
  answer leaves through \<open>rpc_send_async_response\<close>. Request integers are read as the host stores
  them, except in \<open>handle_add_dag\<close>, which reads network order. Allocations and sends that can fail
  are Boolean arguments.
\<close>

datatype reply = Reply u8 bytes node_state | Blocks node_state | Fault c_error

definition reply_state :: "reply \<Rightarrow> node_state option" where
  "reply_state r = (case r of Reply st p s \<Rightarrow> Some s | Blocks s \<Rightarrow> Some s | Fault e \<Rightarrow> None)"

definition handler_answer ::
  "rpc_channel \<Rightarrow> rpc_async_context \<Rightarrow> reply \<Rightarrow> send_result list \<Rightarrow> c_error + (int \<times> bytes) option" where
  "handler_answer ch ctx r sends =
     (case r of
        Reply status payload s \<Rightarrow> rpc_send_async_response ch ctx status payload sends
      | Blocks s \<Rightarrow> Inr None
      | Fault e \<Rightarrow> Inl e)"

section \<open>Submission of a message\<close>

text \<open>The selection of the executing node: this node if it can execute, else the least loaded.\<close>

definition submit_target :: "(rat \<Rightarrow> rat) \<Rightarrow> node_state \<Rightarrow> node_id" where
  "submit_target rnd s =
     (if can_execute (ns_caps s) \<noteq> 0 then self_id s
      else if can_route (ns_caps s) \<noteq> 0 then peer_pool_select_least_loaded rnd (ns_pool s)
      else 0)"

definition submit_local ::
  "u64 \<Rightarrow> rpc_async_context \<Rightarrow> execution_id \<Rightarrow> rule_id \<Rightarrow> bytes \<Rightarrow> node_state \<Rightarrow> reply + node_state" where
  "submit_local now ctx exec_id dag message s =
     (case message_queue_push (ns_queue s) \<lparr>q_exec_id = exec_id, q_dag_id = dag, q_message_data = message,
             q_message_len = length message, q_received_at_ms = now, q_sender_id = ctx_sender_id ctx\<rparr> of
        None \<Rightarrow> Inl (Blocks s)
      | Some q \<Rightarrow> Inr (s\<lparr>ns_queue := q\<rparr>))"

definition submit_remote ::
  "u64 \<Rightarrow> bool \<Rightarrow> bool \<Rightarrow> rpc_async_context \<Rightarrow> execution_id \<Rightarrow> rule_id \<Rightarrow> bytes \<Rightarrow> node_id \<Rightarrow> node_state \<Rightarrow>
   reply + node_state" where
  "submit_remote now malloc_ok send_ok ctx exec_id dag message target s =
     (case peer_pool_get (ns_pool s) target of
        None \<Rightarrow> Inl (Reply RPC_STATUS_INTERNAL_ERROR []
                      (release_unheld (set_exec_status now exec_id EXEC_STATUS_FAILED s)))
      | Some peer \<Rightarrow>
          (case p_data_channel peer of
             None \<Rightarrow> Inl (Reply RPC_STATUS_INTERNAL_ERROR [] (set_exec_status now exec_id EXEC_STATUS_FAILED s))
           | Some ch \<Rightarrow>
               if \<not> malloc_ok then Inl (Reply RPC_STATUS_INTERNAL_ERROR [] s)
               else (case send_to_peer target ch send_ok (ucast exec_id) FUNC_ID_PROCESS_MESSAGE
                       (host_u64 exec_id @ host_u32 dag @ host_u16 (ctx_sender_id ctx) @ message) s of
                   Inl e \<Rightarrow> Inl (Fault e)
                 | Inr s' \<Rightarrow>
                     if \<not> send_ok
                     then Inl (Reply RPC_STATUS_NETWORK [] (set_exec_status now exec_id EXEC_STATUS_FAILED s'))
                     else Inr s')))"

text \<open>The handler up to the point where the message has been handed over: an answer, or the id of
  the execution and the state.\<close>

definition submit_route ::
  "u64 \<Rightarrow> (rat \<Rightarrow> rat) \<Rightarrow> bool \<Rightarrow> bool \<Rightarrow> rpc_async_context \<Rightarrow> bytes \<Rightarrow> node_state \<Rightarrow>
   reply + execution_id \<times> node_state" where
  "submit_route now rnd malloc_ok send_ok ctx in_data s =
     (if length in_data < 4 then Inl (Reply RPC_STATUS_BAD_ARGUMENT [] s)
      else let dag = load_u32 in_data; message = drop 4 in_data; target = submit_target rnd s
      in if dag_catalog_get (ns_catalog s) dag = None then Inl (Reply RPC_STATUS_FUNC_NOT_FOUND [] s)
         else if can_execute (ns_caps s) = 0 \<and> target = 0 then Inl (Reply RPC_STATUS_INTERNAL_ERROR [] s)
         else case execution_tracker_add now (ns_tracker s) dag target message 3 of
           (exec_id, t) \<Rightarrow>
             if exec_id = 0 then Inl (Reply RPC_STATUS_INTERNAL_ERROR [] s)
             else let s = s\<lparr>ns_tracker := t\<rparr>
             in case (if target = self_id s then submit_local now ctx exec_id dag message s
                      else submit_remote now malloc_ok send_ok ctx exec_id dag message target s) of
                  Inl r \<Rightarrow> Inl r
                | Inr s \<Rightarrow> Inr (exec_id, s))"

text \<open>The rest: mark the execution as running and answer with its id.\<close>

definition submit_finish :: "u64 \<Rightarrow> execution_id \<Rightarrow> node_state \<Rightarrow> reply" where
  "submit_finish now exec_id s =
     Reply RPC_STATUS_SUCCESS (host_u64 exec_id @ [execution_status_byte EXEC_STATUS_RUNNING])
       (set_exec_status now exec_id EXEC_STATUS_RUNNING s)"

definition handle_submit_message ::
  "u64 \<Rightarrow> (rat \<Rightarrow> rat) \<Rightarrow> bool \<Rightarrow> bool \<Rightarrow> rpc_async_context \<Rightarrow> bytes \<Rightarrow> node_state \<Rightarrow> reply" where
  "handle_submit_message now rnd malloc_ok send_ok ctx in_data s =
     (case submit_route now rnd malloc_ok send_ok ctx in_data s of
        Inl r \<Rightarrow> r | Inr (exec_id, s') \<Rightarrow> submit_finish now exec_id s')"

section \<open>Queries and updates\<close>

definition handle_get_execution_status :: "bytes \<Rightarrow> node_state \<Rightarrow> reply" where
  "handle_get_execution_status in_data s =
     (if length in_data \<noteq> 8 then Reply RPC_STATUS_BAD_ARGUMENT [] s
      else case execution_tracker_get (ns_tracker s) (load_u64 in_data) of
        None \<Rightarrow> Reply RPC_STATUS_FUNC_NOT_FOUND [] s
      | Some r \<Rightarrow> Reply RPC_STATUS_SUCCESS [execution_status_byte (rec_status r)] s)"

definition MAX_DAGS :: nat where "MAX_DAGS = 1024"

definition handle_list_dags :: "bool \<Rightarrow> bytes \<Rightarrow> node_state \<Rightarrow> reply" where
  "handle_list_dags malloc_ok in_data s =
     (let ids = dag_catalog_list (ns_catalog s) MAX_DAGS
      in if \<not> malloc_ok then Reply RPC_STATUS_INTERNAL_ERROR [] s
         else Reply RPC_STATUS_SUCCESS
                (host_u32 (word_of_nat (length ids)) @ concat (map host_u32 ids)) s)"

definition handle_process_message :: "u64 \<Rightarrow> bytes \<Rightarrow> node_state \<Rightarrow> reply" where
  "handle_process_message now in_data s =
     (if length in_data < 14 then Reply RPC_STATUS_BAD_ARGUMENT [] s
      else let message = drop 14 in_data
      in if MAX_MESSAGE_SIZE < length message then Fault Out_of_bounds
         else case message_queue_push (ns_queue s)
                \<lparr>q_exec_id = load_u64 in_data, q_dag_id = load_u32 (drop 8 in_data),
                 q_message_data = message, q_message_len = length message, q_received_at_ms = now,
                 q_sender_id = load_u16 (drop 12 in_data)\<rparr> of
           None \<Rightarrow> Blocks s
         | Some q \<Rightarrow> Reply RPC_STATUS_SUCCESS [1] (s\<lparr>ns_queue := q\<rparr>))"

definition handle_execution_update :: "u64 \<Rightarrow> bytes \<Rightarrow> node_state \<Rightarrow> reply" where
  "handle_execution_update now in_data s =
     (if length in_data \<noteq> 9 then Reply RPC_STATUS_BAD_ARGUMENT [] s
      else Reply RPC_STATUS_SUCCESS [1]
             (set_exec_status now (load_u64 in_data) (execution_status_of_byte (in_data ! 8)) s))"

text \<open>The result of storing the DAG is only logged: the sender gets an acknowledgement anyway.\<close>

definition handle_sync_catalog :: "u64 \<Rightarrow> (nat \<Rightarrow> bool) \<Rightarrow> (nat \<Rightarrow> bool) \<Rightarrow> bytes \<Rightarrow> node_state \<Rightarrow> reply" where
  "handle_sync_catalog now malloc_ok copy_ok in_data s =
     (case dag_deserialize now malloc_ok in_data of
        Inl e \<Rightarrow> Reply RPC_STATUS_BAD_ARGUMENT [] s
      | Inr d \<Rightarrow>
          (case dag_catalog_add copy_ok (ns_catalog s) d of
             (r, c) \<Rightarrow>
               let c' = (if r = RESULT_ERR_EXISTS then snd (dag_catalog_update now copy_ok c d) else c)
               in Reply RPC_STATUS_SUCCESS [1] (s\<lparr>ns_catalog := c'\<rparr>)))"

section \<open>Registration of a DAG\<close>

definition stage_step :: "u32 \<Rightarrow> nat \<Rightarrow> u32 list \<Rightarrow> dag_step" where
  "stage_step stage_id num_deps deps =
     \<lparr>step_id = stage_id, step_name = ''stage_'' @ utoa (unat stage_id),
      function_name = ''process_stage_'' @ utoa (unat stage_id), config_data = None, config_len = 0,
      dependencies = deps @ replicate (MAX_STEP_DEPENDENCIES - length deps) 0,
      dependency_count = num_deps, timeout_ms = 30000, max_retries = 3\<rparr>"

text \<open>One stage: at most 16 dependencies are read, but the announced number is kept.\<close>

definition parse_stage :: "dag_step reader" where
  "parse_stage bs =
     and_then (take_u32 bs) (\<lambda>(stage_id, bs).
     and_then (take_u32 bs) (\<lambda>(num_deps, bs).
     and_then (take_dependencies (min (unat num_deps) MAX_STEP_DEPENDENCIES) bs) (\<lambda>(deps, bs).
     Inr (stage_step stage_id (unat num_deps) deps, bs))))"

fun parse_stages :: "nat \<Rightarrow> dag_step list reader" where
  "parse_stages 0 bs = Inr ([], bs)"
| "parse_stages (Suc n) bs =
     and_then (parse_stage bs) (\<lambda>(s, bs). and_then (parse_stages n bs) (\<lambda>(ss, bs). Inr (s # ss, bs)))"

text \<open>The parser of the payload. The step count is the announced one; a record cannot hold a count
  above its 128 steps, so that case, which \<open>dag_validate\<close> rejects first, is rejected here.\<close>

definition parse_dag :: "u64 \<Rightarrow> bytes \<Rightarrow> result_status + dag" where
  "parse_dag now in_data =
     and_then (take_u32 in_data) (\<lambda>(i, bs).
     and_then (take_name MAX_DAG_NAME bs) (\<lambda>(name, bs).
     and_then (take_u32 bs) (\<lambda>(num_stages, bs).
     and_then (parse_stages (min (unat num_stages) MAX_DAG_STEPS) bs) (\<lambda>(ss, bs).
     if MAX_DAG_STEPS < unat num_stages then Inl RESULT_ERR_INVALID
     else Inr \<lparr>dag_id = i, dag_name = strcpy_to MAX_DAG_NAME name, dag_version = 1, dag_steps = ss,
               created_at_ms = now, updated_at_ms = now\<rparr>))))"

definition MAX_PEERS :: nat where "MAX_PEERS = 512"

definition sync_targets :: "node_state \<Rightarrow> node_id list" where
  "sync_targets s = map m_node_id (collect_upto (\<lambda>m. m_node_type m = NODE_TYPE_WORKER
     \<and> m_status m = NODE_STATUS_ALIVE \<and> m_node_id m \<noteq> self_id s) MAX_PEERS (members (ns_view s)))"

definition sync_worker :: "(node_id \<Rightarrow> bool) \<Rightarrow> rule_id \<Rightarrow> bytes \<Rightarrow> node_id \<Rightarrow> node_state \<Rightarrow> c_error + node_state" where
  "sync_worker send_ok dag buffer w s =
     (case peer_pool_get (ns_pool s) w of
        None \<Rightarrow> Inr (release_unheld s)
      | Some peer \<Rightarrow>
          (case p_data_channel peer of
             None \<Rightarrow> Inr s
           | Some ch \<Rightarrow> send_to_peer w ch (send_ok w) dag FUNC_ID_SYNC_CATALOG buffer s))"

fun sync_workers :: "(node_id \<Rightarrow> bool) \<Rightarrow> rule_id \<Rightarrow> bytes \<Rightarrow> node_id list \<Rightarrow> node_state \<Rightarrow> c_error + node_state" where
  "sync_workers send_ok dag buffer [] s = Inr s"
| "sync_workers send_ok dag buffer (w # ws) s =
     and_then (sync_worker send_ok dag buffer w s) (sync_workers send_ok dag buffer ws)"

definition catalog_event :: "u64 \<Rightarrow> dag \<Rightarrow> node_state \<Rightarrow> event" where
  "catalog_event now d s = \<lparr>event_kind = EVENT_TYPE_CATALOG_UPDATED, event_time_ms = now,
     source_node_id = self_id s,
     event_payload = Catalog_data (dag_id d) (dag_version d) (strcpy_to 64 (dag_name d))\<rparr>"

definition propagate_dag :: "u64 \<Rightarrow> (node_id \<Rightarrow> bool) \<Rightarrow> dag \<Rightarrow> node_state \<Rightarrow> reply" where
  "propagate_dag now send_ok d s =
     (case and_then (dag_serialize d 8192) (\<lambda>buffer.
             if buffer = [] then Inr s
             else sync_workers send_ok (dag_id d) buffer (sync_targets s) s) of
        Inl e \<Rightarrow> Fault e
      | Inr s' \<Rightarrow> Reply RPC_STATUS_SUCCESS [1] (publish (catalog_event now d s') s'))"

definition handle_add_dag :: "u64 \<Rightarrow> (node_id \<Rightarrow> bool) \<Rightarrow> bytes \<Rightarrow> node_state \<Rightarrow> reply" where
  "handle_add_dag now send_ok in_data s =
     (case parse_dag now in_data of
        Inl e \<Rightarrow> Reply RPC_STATUS_BAD_ARGUMENT [] s
      | Inr d \<Rightarrow>
          (case dag_validate d of
             Inl e \<Rightarrow> Fault e
           | Inr v \<Rightarrow>
               if v \<noteq> RESULT_OK then Reply RPC_STATUS_BAD_ARGUMENT [] s
               else (case dag_catalog_add (\<lambda>_. True) (ns_catalog s) d of
                   (r, c) \<Rightarrow>
                     if r \<noteq> RESULT_OK then Reply RPC_STATUS_INTERNAL_ERROR [] s
                     else propagate_dag now send_ok d (s\<lparr>ns_catalog := c\<rparr>))))"

end
