(* ===== verification/Node_Executor.thy ===== *)
theory Node_Executor
  imports Node_Handlers
begin

text \<open>
  src/node/node_executor.c: one turn of an executor thread. It takes a message from the queue, runs
  its DAG and reports the status: to the tracker when the message's sender is this node, else to the
  sender over its data channel. A turn that finds the queue empty ends after its timeout. The metrics
  a turn updates and the threads that run it are in \<open>Executor_Loop\<close>; clock reads of one turn
  give the same time.
\<close>

definition execution_event :: "u64 \<Rightarrow> event_type \<Rightarrow> message \<Rightarrow> int \<Rightarrow> node_state \<Rightarrow> event" where
  "execution_event now kind m code s = \<lparr>event_kind = kind, event_time_ms = now, source_node_id = self_id s,
     event_payload = Execution_data (q_exec_id m) (q_dag_id m) (self_id s) now code\<rparr>"

text \<open>\<open>status_code\<close> of a failed execution: the numeric value of the result.\<close>

definition RESULT_ERR_INVALID_CODE :: int where "RESULT_ERR_INVALID_CODE = -2"

definition exec_context :: "message \<Rightarrow> dag \<Rightarrow> dag_execution_context" where
  "exec_context m d = \<lparr>context_exec_id = q_exec_id m, context_dag = d,
     input_data = take (q_message_len m) (q_message_data m), output_data = Some (replicate 4096 0),
     output_len = 0, output_capacity = 4096, exec_status = DAG_EXEC_STATUS_PENDING, start_time_ms = 0,
     end_time_ms = 0, step_completed = [], executed = []\<rparr>"

text \<open>Running the DAG: the status to report, and the state with its events.\<close>

definition run_message :: "u64 \<Rightarrow> bool \<Rightarrow> message \<Rightarrow> dag \<Rightarrow> node_state \<Rightarrow> c_error + execution_status \<times> node_state" where
  "run_message now output_ok m d s =
     (if \<not> output_ok then Inr (EXEC_STATUS_FAILED, s)
      else case dag_execute now now (exec_context m d) of
        Inl e \<Rightarrow> Inl e
      | Inr (r, ctx) \<Rightarrow>
          if r = RESULT_OK
          then Inr (EXEC_STATUS_COMPLETED,
                 publish (execution_event now EVENT_TYPE_EXECUTION_COMPLETED m 0 s) s)
          else Inr (EXEC_STATUS_FAILED,
                 publish (execution_event now EVENT_TYPE_EXECUTION_FAILED m RESULT_ERR_INVALID_CODE s) s))"

definition report_status ::
  "u64 \<Rightarrow> bool \<Rightarrow> message \<Rightarrow> execution_status \<Rightarrow> node_state \<Rightarrow> c_error + node_state" where
  "report_status now send_ok m st s =
     (if q_sender_id m \<noteq> self_id s then
        (case peer_pool_get (ns_pool s) (q_sender_id m) of
           None \<Rightarrow> Inr (release_unheld s)
         | Some sender \<Rightarrow>
             (case p_data_channel sender of
                None \<Rightarrow> Inr s
              | Some ch \<Rightarrow> send_to_peer (q_sender_id m) ch send_ok (ucast (q_exec_id m))
                             FUNC_ID_EXECUTION_UPDATE (host_u64 (q_exec_id m) @ [execution_status_byte st]) s))
      else Inr (set_exec_status now (q_exec_id m) st s))"

definition process_message ::
  "u64 \<Rightarrow> bool \<Rightarrow> bool \<Rightarrow> message \<Rightarrow> node_state \<Rightarrow> c_error + node_state" where
  "process_message now output_ok send_ok m s =
     (let s = publish (execution_event now EVENT_TYPE_EXECUTION_STARTED m 0 s) s;
          s = s\<lparr>active_executions := active_executions s + 1\<rparr>
      in case dag_catalog_get (ns_catalog s) (q_dag_id m) of
           None \<Rightarrow> Inr (s\<lparr>active_executions := active_executions s - 1\<rparr>)
         | Some d \<Rightarrow>
             and_then (run_message now output_ok m d s) (\<lambda>(st, s).
             and_then (report_status now send_ok m st s) (\<lambda>s.
             Inr (s\<lparr>active_executions := active_executions s - 1\<rparr>))))"

text \<open>One turn of the loop of \<open>node_executor_thread_fn\<close>.\<close>

definition executor_turn :: "u64 \<Rightarrow> bool \<Rightarrow> bool \<Rightarrow> node_state \<Rightarrow> c_error + node_state" where
  "executor_turn now output_ok send_ok s =
     (case message_queue_pop (ns_queue s) 1000 True of
        Some (r, Some m, q) \<Rightarrow> if r = RESULT_OK then process_message now output_ok send_ok m (s\<lparr>ns_queue := q\<rparr>) else Inr s
      | _ \<Rightarrow> Inr s)"

section \<open>What a turn reports\<close>

text \<open>The status of a run: the DAG's steps can all run, and the output buffer could be allocated.\<close>

definition run_status :: "bool \<Rightarrow> dag \<Rightarrow> execution_status" where
  "run_status output_ok d =
     (if output_ok \<and> (\<forall>i < step_count d. runnable d i) then EXEC_STATUS_COMPLETED else EXEC_STATUS_FAILED)"

lemma run_message_status:
  assumes "counts_ok d"
  shows "\<exists>s'. run_message now output_ok m d s = Inr (run_status output_ok d, s')
    \<and> ns_identity s' = ns_identity s \<and> ns_pool s' = ns_pool s \<and> ns_tracker s' = ns_tracker s
    \<and> ns_catalog s' = ns_catalog s \<and> ns_queue s' = ns_queue s
    \<and> bad_unlocks s' = bad_unlocks s \<and> data_sent s' = data_sent s
    \<and> active_executions s' = active_executions s"
proof -
  have "counts_ok (context_dag (exec_context m d))" using assms by (simp add: exec_context_def)
  from dag_execute_result [OF this, of now now] show ?thesis
    unfolding exec_result_def run_message_def run_status_def
    by (cases "output_ok"; cases "\<forall>i < step_count d. runnable d i")
      (auto simp: exec_context_def frame_simps)
qed

text \<open>What \<open>process_message\<close> does to the tracker, the pool's lock and the channels.\<close>

definition process_effect :: "u64 \<Rightarrow> bool \<Rightarrow> message \<Rightarrow> execution_status \<Rightarrow> node_state \<Rightarrow> node_state \<Rightarrow> bool" where
  "process_effect now send_ok m st s s' \<longleftrightarrow>
     (if q_sender_id m = self_id s
      then ns_tracker s' = snd (execution_tracker_update_status now (ns_tracker s) (q_exec_id m) st)
         \<and> bad_unlocks s' = bad_unlocks s
      else ns_tracker s' = ns_tracker s
         \<and> bad_unlocks s' = bad_unlocks s + (if peer_pool_get (ns_pool s) (q_sender_id m) = None then 1 else 0))"

lemma process_message_effect:
  assumes cat: "dag_catalog_get (ns_catalog s) (q_dag_id m) = Some d" "counts_ok d"
    and chans: "\<forall>p \<in> set (peers (ns_pool s)). \<forall>ch. p_data_channel p = Some ch \<longrightarrow> 21 \<le> tx_buffer_size ch"
  shows "\<exists>s'. process_message now output_ok send_ok m s = Inr s'
    \<and> process_effect now send_ok m (run_status output_ok d) s s'
    \<and> ns_queue s' = ns_queue s \<and> ns_catalog s' = ns_catalog s \<and> ns_identity s' = ns_identity s
    \<and> ns_pool s' = ns_pool s \<and> active_executions s' = active_executions s"
proof -
  define s1 where "s1 = (publish (execution_event now EVENT_TYPE_EXECUTION_STARTED m 0 s) s)
    \<lparr>active_executions := active_executions s + 1\<rparr>"
  have s1: "ns_identity s1 = ns_identity s" "ns_pool s1 = ns_pool s" "ns_tracker s1 = ns_tracker s"
      "ns_catalog s1 = ns_catalog s" "ns_queue s1 = ns_queue s" "bad_unlocks s1 = bad_unlocks s"
      "active_executions s1 = active_executions s + 1"
    by (simp_all add: s1_def frame_simps)
  obtain s2 where run: "run_message now output_ok m d s1 = Inr (run_status output_ok d, s2)"
    and s2: "ns_identity s2 = ns_identity s1" "ns_pool s2 = ns_pool s1" "ns_tracker s2 = ns_tracker s1"
      "ns_catalog s2 = ns_catalog s1" "ns_queue s2 = ns_queue s1" "bad_unlocks s2 = bad_unlocks s1"
      "active_executions s2 = active_executions s1"
    using run_message_status [OF cat(2), of now output_ok m s1] by blast
  have "\<exists>s3. report_status now send_ok m (run_status output_ok d) s2 = Inr s3
    \<and> process_effect now send_ok m (run_status output_ok d) s2 s3
    \<and> ns_queue s3 = ns_queue s2 \<and> ns_catalog s3 = ns_catalog s2 \<and> ns_identity s3 = ns_identity s2
    \<and> ns_pool s3 = ns_pool s2 \<and> active_executions s3 = active_executions s2"
  proof (cases "q_sender_id m = self_id s2")
    case True
    then show ?thesis by (simp add: report_status_def process_effect_def frame_simps)
  next
    case False
    show ?thesis
    proof (cases "peer_pool_get (ns_pool s2) (q_sender_id m)")
      case None
      with False show ?thesis by (simp add: report_status_def process_effect_def release_unheld_def)
    next
      case (Some p)
      then have "p \<in> set (peers (ns_pool s))"
        using s1 s2 by (auto simp: peer_pool_get_def peer_index_def dest!: find_index_less)
      with chans False Some show ?thesis
        by (cases "p_data_channel p")
          (auto simp: report_status_def process_effect_def send_to_peer_def rpc_pack_message_def
            RPC_HEADER_SIZE_def)
    qed
  qed
  then show ?thesis
    using run s1 s2 cat(1)
    by (auto simp: process_message_def Let_def process_effect_def frame_simps simp flip: s1_def)
qed

end
