(* ===== verification/Node_Properties.thy ===== *)
theory Node_Properties
  imports Node_Executor
begin

text \<open>
  Properties of the request handlers together with the executor threads: what becomes of a
  submitted message, how a DAG reaches the workers, and where the buffers involved are too small.
\<close>

section \<open>A submitted message on the node that executes it\<close>

definition submitted_message :: "u64 \<Rightarrow> rpc_async_context \<Rightarrow> bytes \<Rightarrow> node_state \<Rightarrow> message" where
  "submitted_message now ctx in_data s =
     \<lparr>q_exec_id = next_exec_id (ns_tracker s), q_dag_id = load_u32 in_data, q_message_data = drop 4 in_data,
      q_message_len = length (drop 4 in_data), q_received_at_ms = now, q_sender_id = ctx_sender_id ctx\<rparr>"

lemma submitted_message_fields [simp]:
  "q_exec_id (submitted_message now ctx in_data s) = next_exec_id (ns_tracker s)"
  "q_dag_id (submitted_message now ctx in_data s) = load_u32 in_data"
  "q_sender_id (submitted_message now ctx in_data s) = ctx_sender_id ctx"
  by (simp_all add: submitted_message_def)

text \<open>The conditions under which a node accepts a message for local execution.\<close>

definition can_submit :: "bytes \<Rightarrow> node_state \<Rightarrow> bool" where
  "can_submit in_data s \<longleftrightarrow> 4 < length in_data \<and> length in_data \<le> 4100 \<and> can_execute (ns_caps s) \<noteq> 0
     \<and> dag_catalog_get (ns_catalog s) (load_u32 in_data) \<noteq> None
     \<and> tracker_ok (ns_tracker s) \<and> next_exec_id (ns_tracker s) \<noteq> -1
     \<and> in_flight (ns_tracker s) < length (tracker_records (ns_tracker s))
     \<and> mq_ok (ns_queue s) \<and> length (mq_contents (ns_queue s)) < mq_capacity (ns_queue s)"

lemma submit_route_local:
  assumes "can_submit in_data s"
  shows "\<exists>s1. submit_route now rnd malloc_ok send_ok ctx in_data s = Inr (next_exec_id (ns_tracker s), s1)
    \<and> tracker_ok (ns_tracker s1)
    \<and> execution_tracker_get (ns_tracker s1) (next_exec_id (ns_tracker s)) =
        Some (new_record now (ns_tracker s) (load_u32 in_data) (self_id s) (drop 4 in_data) 3)
    \<and> mq_ok (ns_queue s1)
    \<and> mq_contents (ns_queue s1) = mq_contents (ns_queue s) @ [submitted_message now ctx in_data s]
    \<and> ns_catalog s1 = ns_catalog s \<and> ns_pool s1 = ns_pool s \<and> ns_identity s1 = ns_identity s
    \<and> bad_unlocks s1 = bad_unlocks s"
proof -
  let ?t = "ns_tracker s" let ?e = "next_exec_id ?t"
  have c: "4 < length in_data" "length in_data \<le> 4100" "can_execute (ns_caps s) \<noteq> 0"
      "dag_catalog_get (ns_catalog s) (load_u32 in_data) \<noteq> None" "tracker_ok ?t" "?e \<noteq> -1"
      "in_flight ?t < length (tracker_records ?t)" "mq_ok (ns_queue s)"
      "length (mq_contents (ns_queue s)) < mq_capacity (ns_queue s)"
    using assms unfolding can_submit_def by auto
  have len: "drop 4 in_data \<noteq> []" "length (drop 4 in_data) \<le> MAX_MESSAGE_SIZE"
    using c by (simp_all add: MAX_MESSAGE_SIZE_def)
  obtain rs where add: "execution_tracker_add now ?t (load_u32 in_data) (self_id s) (drop 4 in_data) 3 =
        (?e, ?t\<lparr>tracker_records := rs, next_exec_id := ?e + 1\<rparr>)"
      "tracker_ok (?t\<lparr>tracker_records := rs, next_exec_id := ?e + 1\<rparr>)"
      "slot_lookup rec_active rec_exec_id rs = (slot_lookup rec_active rec_exec_id (tracker_records ?t))
         (?e \<mapsto> new_record now ?t (load_u32 in_data) (self_id s) (drop 4 in_data) 3)"
    using tracker_add_result [OF c(5,6) refl, where now = now and dag = "load_u32 in_data"
        and peer = "self_id s" and message = "drop 4 in_data" and retries = 3] len c(7) by auto
  have nz: "?e \<noteq> 0" using c(5) by (simp add: tracker_ok_def word_gt_0)
  obtain q where q: "message_queue_push (ns_queue s) (submitted_message now ctx in_data s) = Some q" "mq_ok q"
      "mq_contents q = mq_contents (ns_queue s) @ [submitted_message now ctx in_data s]"
    using mq.push_room [OF c(8,9)] by blast
  have "submit_route now rnd malloc_ok send_ok ctx in_data s =
      Inr (?e, s\<lparr>ns_tracker := ?t\<lparr>tracker_records := rs, next_exec_id := ?e + 1\<rparr>, ns_queue := q\<rparr>)"
    using c nz add(1) q(1)
    by (simp add: submit_route_def Let_def submit_target_def submit_local_def submitted_message_def)
  then show ?thesis
    using add(2,3) q(2,3) by (auto simp: tracker_get_lookup)
qed

lemma executor_turn_pop:
  assumes "mq_ok (ns_queue s)" and "mq_contents (ns_queue s) = m # ms"
  shows "\<exists>q. executor_turn now output_ok send_ok s = process_message now output_ok send_ok m (s\<lparr>ns_queue := q\<rparr>)
    \<and> mq_ok q \<and> mq_contents q = ms \<and> mq_capacity q = mq_capacity (ns_queue s)"
proof -
  have n: "mq_count (ns_queue s) \<noteq> 0" using assms(2) mq_contents_empty_iff [of "ns_queue s"] by simp
  obtain q where "message_queue_take (ns_queue s) = (m, q)" "mq_ok q" "mq_contents q = ms"
      "mq_capacity q = mq_capacity (ns_queue s)"
    using mq_take_step [OF assms] by (metis prod.sel(2))
  with n show ?thesis by (auto simp: executor_turn_def message_queue_pop_def)
qed

definition channels_large :: "nat \<Rightarrow> peer_pool \<Rightarrow> bool" where
  "channels_large n pool \<longleftrightarrow> list_all (\<lambda>p. case p_data_channel p of None \<Rightarrow> True | Some ch \<Rightarrow> n \<le> tx_buffer_size ch) (peers pool)"

text \<open>The state after the executor has run the message just submitted to an idle node.\<close>

lemma run_submitted:
  assumes q: "mq_ok (ns_queue s)" "mq_contents (ns_queue s) = [m]"
    and cat: "dag_catalog_get (ns_catalog s) (q_dag_id m) = Some d" "counts_ok d"
    and ch: "channels_large 21 (ns_pool s)"
  shows "\<exists>s'. executor_turn now output_ok send_ok s = Inr s'
    \<and> process_effect now send_ok m (run_status output_ok d) s s'"
proof -
  obtain q' where turn: "executor_turn now output_ok send_ok s = process_message now output_ok send_ok m (s\<lparr>ns_queue := q'\<rparr>)"
    using executor_turn_pop [OF q] by blast
  have "\<forall>p \<in> set (peers (ns_pool s)). \<forall>c. p_data_channel p = Some c \<longrightarrow> 21 \<le> tx_buffer_size c"
    using ch by (auto simp: channels_large_def list_all_iff)
  with process_message_effect [of "s\<lparr>ns_queue := q'\<rparr>" m d now output_ok send_ok] cat show ?thesis
    by (auto simp: turn process_effect_def)
qed

lemma update_status_get_status:
  assumes "tracker_ok t" and "execution_tracker_get t e = Some r"
  shows "map_option rec_status (execution_tracker_get (snd (execution_tracker_update_status now t e st)) e) = Some st"
  using assms by (simp add: tracker_update_ok(2)) (simp add: set_status_def Let_def)

definition status_of :: "node_state \<Rightarrow> execution_id \<Rightarrow> execution_status option" where
  "status_of s e = map_option rec_status (execution_tracker_get (ns_tracker s) e)"

text \<open>What becomes of a message submitted to an idle node that executes it itself: the client is
  told the new id and RUNNING, and the next executor turn runs the DAG. The execution then is
  COMPLETED or FAILED, as the DAG's steps can all run or not, only if the request context names
  this node as the sender. The context's sender is never set by the RPC layer, so with any other
  value the result goes to a peer (or an unlock of a mutex not held) and the execution stays
  RUNNING.\<close>

theorem local_submission_outcome:
  assumes "can_submit in_data s" and "mq_contents (ns_queue s) = []"
    and "dag_catalog_get (ns_catalog s) (load_u32 in_data) = Some d" and "counts_ok d"
    and "channels_large 21 (ns_pool s)"
  shows "\<exists>s1 s2. handle_submit_message t1 rnd malloc_ok send_ok ctx in_data s =
      Reply RPC_STATUS_SUCCESS (host_u64 (next_exec_id (ns_tracker s)) @ [1]) s1
    \<and> executor_turn t2 output_ok send_ok2 s1 = Inr s2
    \<and> status_of s1 (next_exec_id (ns_tracker s)) = Some EXEC_STATUS_RUNNING
    \<and> status_of s2 (next_exec_id (ns_tracker s)) =
        Some (if ctx_sender_id ctx = self_id s then run_status output_ok d else EXEC_STATUS_RUNNING)
    \<and> bad_unlocks s2 = bad_unlocks s + (if ctx_sender_id ctx \<noteq> self_id s
        \<and> peer_pool_get (ns_pool s) (ctx_sender_id ctx) = None then 1 else 0)"
proof -
  let ?e = "next_exec_id (ns_tracker s)"
  obtain s1 where route: "submit_route t1 rnd malloc_ok send_ok ctx in_data s = Inr (?e, s1)"
    and s1: "tracker_ok (ns_tracker s1)" "execution_tracker_get (ns_tracker s1) ?e =
        Some (new_record t1 (ns_tracker s) (load_u32 in_data) (self_id s) (drop 4 in_data) 3)"
      "mq_ok (ns_queue s1)" "mq_contents (ns_queue s1) = [submitted_message t1 ctx in_data s]"
      "ns_catalog s1 = ns_catalog s" "ns_pool s1 = ns_pool s" "ns_identity s1 = ns_identity s"
      "bad_unlocks s1 = bad_unlocks s"
    using submit_route_local [OF assms(1), of t1 rnd malloc_ok send_ok ctx] assms(2) by auto
  define s2 where "s2 = set_exec_status t1 ?e EXEC_STATUS_RUNNING s1"
  have run: "handle_submit_message t1 rnd malloc_ok send_ok ctx in_data s =
      Reply RPC_STATUS_SUCCESS (host_u64 ?e @ [1]) s2"
    by (simp add: handle_submit_message_def route submit_finish_def s2_def)
  have st: "status_of s2 ?e = Some EXEC_STATUS_RUNNING" "tracker_ok (ns_tracker s2)"
    using update_status_get_status [OF s1(1,2), of t1 EXEC_STATUS_RUNNING] tracker_update_ok(1) [OF s1(1)]
    by (simp_all add: s2_def status_of_def frame_simps)
  then obtain r where r: "execution_tracker_get (ns_tracker s2) ?e = Some r" by (auto simp: status_of_def)
  have f: "ns_catalog s2 = ns_catalog s" "ns_pool s2 = ns_pool s" "ns_identity s2 = ns_identity s"
      "bad_unlocks s2 = bad_unlocks s" "ns_queue s2 = ns_queue s1"
    using s1 by (simp_all add: s2_def frame_simps)
  obtain s3 where turn: "executor_turn t2 output_ok send_ok2 s2 = Inr s3"
      "process_effect t2 send_ok2 (submitted_message t1 ctx in_data s) (run_status output_ok d) s2 s3"
    using run_submitted [of s2 "submitted_message t1 ctx in_data s" d t2 output_ok send_ok2] s1 f assms(3-5)
    by auto
  have "status_of s3 ?e = Some (if ctx_sender_id ctx = self_id s then run_status output_ok d else EXEC_STATUS_RUNNING)"
    using turn(2) st(1) update_status_get_status [OF st(2) r] f
    by (simp add: process_effect_def status_of_def)
  moreover have "bad_unlocks s3 = bad_unlocks s + (if ctx_sender_id ctx \<noteq> self_id s
        \<and> peer_pool_get (ns_pool s) (ctx_sender_id ctx) = None then 1 else 0)"
    using turn(2) f by (auto simp: process_effect_def split: if_splits)
  ultimately show ?thesis using run turn(1) st(1) by blast
qed

definition sample_node :: node_state where
  "sample_node = \<lparr>
     ns_identity = \<lparr>id_node_id = 9, id_node_type = NODE_TYPE_ROUTER,
       id_cluster_name = ''test'', bind_addr = ''10.0.0.9'',
       id_gossip_port = 7000, id_data_port = 8000, id_ingress_port = 9000, id_metrics_port = 9100\<rparr>,
     ns_caps = \<lparr>has_ingress = 1, can_execute = 1, can_route = 1\<rparr>,
     ns_catalog = \<lparr>dags = [sample_dag], catalog_capacity = 4, change_callback = False, change_calls = []\<rparr>,
     ns_pool = \<lparr>peers = [], pool_capacity = 8, pp_closed = []\<rparr>,
     ns_tracker = sample_tracker,
     ns_queue = \<lparr>mq_messages = [zero_message], mq_head = 0, mq_tail = 0, mq_capacity = 1, mq_count = 0\<rparr>,
     ns_view = \<lparr>members = [], view_capacity = 8\<rparr>, ns_bus = None, active_executions = 0,
     messages_processed = 0, messages_failed = 0, data_sent = [], bad_unlocks = 0\<rparr>"

lemma sample_node_submit:
  "can_submit [7, 0, 0, 0, 1, 2] sample_node" "mq_contents (ns_queue sample_node) = []"
  "dag_catalog_get (ns_catalog sample_node) (load_u32 [7, 0, 0, 0, 1, 2]) = Some sample_dag"
  "counts_ok sample_dag" "channels_large 21 (ns_pool sample_node)"
proof -
  have l: "load_u32 [7, 0, 0, 0, 1, 2] = 7" by (simp add: load_u32_def)
  show cat: "dag_catalog_get (ns_catalog sample_node) (load_u32 [7, 0, 0, 0, 1, 2]) = Some sample_dag"
    unfolding l by (simp add: sample_node_def catalog_get_first_with)
      (simp add: sample_dag_def simple_dag_def)
  show "mq_contents (ns_queue sample_node) = []" by (simp add: sample_node_def mq_contents_def)
  show "counts_ok sample_dag"
    by (simp add: counts_ok_def sample_dag_def simple_dag_def simple_step_def MAX_DAG_STEPS_def)
  show "channels_large 21 (ns_pool sample_node)" by (simp add: channels_large_def sample_node_def)
  have "tracker_ok (ns_tracker sample_node)" using sample_tracker_ok by (simp add: sample_node_def)
  moreover have "mq_ok (ns_queue sample_node)" by (simp add: sample_node_def mq_ok_def ring_ok_def)
  moreover have "in_flight (ns_tracker sample_node) < length (tracker_records (ns_tracker sample_node))"
    "next_exec_id (ns_tracker sample_node) \<noteq> -1" "can_execute (ns_caps sample_node) \<noteq> 0"
    "length (mq_contents (ns_queue sample_node)) < mq_capacity (ns_queue sample_node)"
    by (simp_all add: sample_node_def in_flight_def sample_tracker_def zero_record_def mq_contents_def)
  ultimately show "can_submit [7, 0, 0, 0, 1, 2] sample_node"
    using cat by (simp add: can_submit_def)
qed

theorem local_submission_outcome_witness:
  "\<exists>s1 s2. executor_turn 6 True True s1 = Inr s2
    \<and> status_of s1 (next_exec_id (ns_tracker sample_node)) = Some EXEC_STATUS_RUNNING
    \<and> status_of s2 (next_exec_id (ns_tracker sample_node)) = Some EXEC_STATUS_RUNNING
    \<and> bad_unlocks s2 = 1"
proof -
  have "self_id sample_node = 9" "peer_pool_get (ns_pool sample_node) 0 = None" "bad_unlocks sample_node = 0"
    by (simp_all add: sample_node_def peer_pool_get_def peer_index_def)
  with local_submission_outcome [OF sample_node_submit, of 5 "\<lambda>x. x" True True
      "\<lparr>ctx_request_id = 1, ctx_func_id = FUNC_ID_SUBMIT_MESSAGE, ctx_sender_id = 0\<rparr>" 6 True True]
  show ?thesis by auto
qed

text \<open>The submission handler hands the message over before it marks the execution as running. If
  an executor finishes the message in between, the late mark overwrites its result: the execution
  ends as RUNNING, and no clean-up ever removes it.\<close>

theorem late_running_mark:
  assumes "can_submit in_data s" and "mq_contents (ns_queue s) = []"
    and "dag_catalog_get (ns_catalog s) (load_u32 in_data) = Some d" and "counts_ok d"
    and "channels_large 21 (ns_pool s)" and "ctx_sender_id ctx = self_id s"
  shows "\<exists>s1 s2 s3. submit_route t1 rnd malloc_ok send_ok ctx in_data s =
      Inr (next_exec_id (ns_tracker s), s1)
    \<and> executor_turn t2 output_ok send_ok2 s1 = Inr s2
    \<and> status_of s2 (next_exec_id (ns_tracker s)) = Some (run_status output_ok d)
    \<and> submit_finish t3 (next_exec_id (ns_tracker s)) s2 =
        Reply RPC_STATUS_SUCCESS (host_u64 (next_exec_id (ns_tracker s)) @ [1]) s3
    \<and> status_of s3 (next_exec_id (ns_tracker s)) = Some EXEC_STATUS_RUNNING
    \<and> status_of (s3\<lparr>ns_tracker := snd (execution_tracker_cleanup_completed t4 (ns_tracker s3))\<rparr>)
        (next_exec_id (ns_tracker s)) = Some EXEC_STATUS_RUNNING"
proof -
  let ?e = "next_exec_id (ns_tracker s)"
  obtain s1 where route: "submit_route t1 rnd malloc_ok send_ok ctx in_data s = Inr (?e, s1)"
    and s1: "tracker_ok (ns_tracker s1)" "execution_tracker_get (ns_tracker s1) ?e =
        Some (new_record t1 (ns_tracker s) (load_u32 in_data) (self_id s) (drop 4 in_data) 3)"
      "mq_ok (ns_queue s1)" "mq_contents (ns_queue s1) = [submitted_message t1 ctx in_data s]"
      "ns_catalog s1 = ns_catalog s" "ns_pool s1 = ns_pool s" "ns_identity s1 = ns_identity s"
    using submit_route_local [OF assms(1), of t1 rnd malloc_ok send_ok ctx] assms(2) by auto
  obtain s2 where turn: "executor_turn t2 output_ok send_ok2 s1 = Inr s2"
      "process_effect t2 send_ok2 (submitted_message t1 ctx in_data s) (run_status output_ok d) s1 s2"
    using run_submitted [of s1 "submitted_message t1 ctx in_data s" d t2 output_ok send_ok2] s1 assms(3-5)
    by auto
  have t2: "ns_tracker s2 = snd (execution_tracker_update_status t2 (ns_tracker s1) ?e (run_status output_ok d))"
    using turn(2) assms(6) s1(7) by (simp add: process_effect_def)
  have st2: "status_of s2 ?e = Some (run_status output_ok d)" "tracker_ok (ns_tracker s2)"
    using update_status_get_status [OF s1(1,2)] tracker_update_ok(1) [OF s1(1)]
    by (simp_all add: t2 status_of_def)
  then obtain r where r: "execution_tracker_get (ns_tracker s2) ?e = Some r" by (auto simp: status_of_def)
  define s3 where "s3 = set_exec_status t3 ?e EXEC_STATUS_RUNNING s2"
  have st3: "status_of s3 ?e = Some EXEC_STATUS_RUNNING" "tracker_ok (ns_tracker s3)"
    using update_status_get_status [OF st2(2) r] tracker_update_ok(1) [OF st2(2)]
    by (simp_all add: s3_def status_of_def frame_simps)
  then obtain r3 where r3: "execution_tracker_get (ns_tracker s3) ?e = Some r3" "rec_status r3 = EXEC_STATUS_RUNNING"
    by (auto simp: status_of_def)
  then have "\<not> stale t4 r3" by (simp add: stale_def)
  with r3 have "status_of (s3\<lparr>ns_tracker := snd (execution_tracker_cleanup_completed t4 (ns_tracker s3))\<rparr>) ?e
      = Some EXEC_STATUS_RUNNING"
    by (simp add: status_of_def tracker_cleanup_ok(2) [OF st3(2)])
  with route turn(1) st2(1) st3(1) show ?thesis by (auto simp: submit_finish_def s3_def)
qed

theorem late_running_mark_witness:
  "\<exists>s1 s2. executor_turn 6 True True s1 = Inr s2
    \<and> status_of s2 (next_exec_id (ns_tracker sample_node)) = Some (run_status True sample_dag)
    \<and> status_of (set_exec_status 7 (next_exec_id (ns_tracker sample_node)) EXEC_STATUS_RUNNING s2)
        (next_exec_id (ns_tracker sample_node)) = Some EXEC_STATUS_RUNNING"
proof -
  have "ctx_sender_id \<lparr>ctx_request_id = 1, ctx_func_id = FUNC_ID_SUBMIT_MESSAGE, ctx_sender_id = 9\<rparr> = self_id sample_node"
    by (simp add: sample_node_def)
  from late_running_mark [OF sample_node_submit this, of 5 "\<lambda>x. x" True True 6 True True 7 8]
  show ?thesis by (auto simp: submit_finish_def)
qed

section \<open>From a router to a worker\<close>

text \<open>Routing a message to another node delivers it as long as it fits the channel: with a send
  buffer of 4096 bytes, messages of up to 4070 bytes arrive at the worker's queue exactly as they
  were submitted (or wait there for room) and are acknowledged; messages of 4071 bytes and more,
  which the tracker still accepts, make the packing write beyond the buffer.\<close>

theorem routed_message_arrives:
  assumes peer: "peer_pool_get (ns_pool s) target = Some p" "p_data_channel p = Some ch" "tx_buffer_size ch = 4096"
    and msg: "message \<noteq> []" "length message \<le> 4096"
  shows "if 4070 < length message
    then submit_remote now True True ctx exec_id dag message target s = Inl (Fault Out_of_bounds)
    else \<exists>s' out payload. submit_remote now True True ctx exec_id dag message target s = Inr s'
      \<and> data_sent s' = data_sent s @ [(target, out)] \<and> drop RPC_HEADER_SIZE out = payload
      \<and> ns_tracker s' = ns_tracker s
      \<and> (\<forall>w. mq_ok (ns_queue w) \<longrightarrow>
           (if length (mq_contents (ns_queue w)) = mq_capacity (ns_queue w)
            then handle_process_message now2 payload w = Blocks w
            else \<exists>q. handle_process_message now2 payload w = Reply RPC_STATUS_SUCCESS [1] (w\<lparr>ns_queue := q\<rparr>)
              \<and> mq_contents q = mq_contents (ns_queue w) @ [\<lparr>q_exec_id = exec_id, q_dag_id = dag,
                  q_message_data = message, q_message_len = length message, q_received_at_ms = now2,
                  q_sender_id = ctx_sender_id ctx\<rparr>]))"
proof -
  define payload where "payload = host_u64 exec_id @ host_u32 dag @ host_u16 (ctx_sender_id ctx) @ message"
  have len: "length payload = 14 + length message" by (simp add: payload_def)
  show ?thesis
  proof (cases "4070 < length message")
    case True
    with peer len show ?thesis
      by (simp add: submit_remote_def send_to_peer_def rpc_pack_message_def RPC_HEADER_SIZE_def
          flip: payload_def)
  next
    case False
    define out where "out = write_u32_net (word_of_nat (RPC_HEADER_SIZE + length payload))
      @ write_u32_net (ucast exec_id) @ host_u16 (self_id s)
      @ [type_status_byte RPC_TYPE_REQUEST RPC_STATUS_UNKNOWN] @ [FUNC_ID_PROCESS_MESSAGE] @ payload"
    have rem: "submit_remote now True True ctx exec_id dag message target s =
        Inr (s\<lparr>data_sent := data_sent s @ [(target, out)]\<rparr>)"
      using False peer len
      by (simp add: submit_remote_def send_to_peer_def rpc_pack_message_def RPC_HEADER_SIZE_def out_def
          flip: payload_def)
    have out: "drop RPC_HEADER_SIZE out = payload" by (simp add: out_def RPC_HEADER_SIZE_def)
    have rd: "load_u64 payload = exec_id" "load_u32 (drop 8 payload) = dag"
        "load_u16 (drop 12 payload) = ctx_sender_id ctx" "drop 14 payload = message"
      by (simp_all add: payload_def)
    have handle: "handle_process_message now2 payload w =
        (case message_queue_push (ns_queue w) \<lparr>q_exec_id = exec_id, q_dag_id = dag, q_message_data = message,
            q_message_len = length message, q_received_at_ms = now2, q_sender_id = ctx_sender_id ctx\<rparr> of
           None \<Rightarrow> Blocks w | Some q \<Rightarrow> Reply RPC_STATUS_SUCCESS [1] (w\<lparr>ns_queue := q\<rparr>))" for w
      using msg(2) len by (simp add: handle_process_message_def Let_def rd MAX_MESSAGE_SIZE_def)
    have "if length (mq_contents (ns_queue w)) = mq_capacity (ns_queue w)
          then handle_process_message now2 payload w = Blocks w
          else \<exists>q. handle_process_message now2 payload w = Reply RPC_STATUS_SUCCESS [1] (w\<lparr>ns_queue := q\<rparr>)
            \<and> mq_contents q = mq_contents (ns_queue w) @ [\<lparr>q_exec_id = exec_id, q_dag_id = dag,
                q_message_data = message, q_message_len = length message, q_received_at_ms = now2,
                q_sender_id = ctx_sender_id ctx\<rparr>]" if w: "mq_ok (ns_queue w)" for w
    proof (cases "length (mq_contents (ns_queue w)) = mq_capacity (ns_queue w)")
      case True
      with mq.push_full [OF w] show ?thesis by (simp add: handle)
    next
      case F: False
      with mq.bounded [OF w] have "length (mq_contents (ns_queue w)) < mq_capacity (ns_queue w)" by simp
      from mq.push_room [OF w this] obtain q where
        "message_queue_push (ns_queue w) \<lparr>q_exec_id = exec_id, q_dag_id = dag, q_message_data = message,
            q_message_len = length message, q_received_at_ms = now2, q_sender_id = ctx_sender_id ctx\<rparr> = Some q"
        "mq_contents q = mq_contents (ns_queue w) @ [\<lparr>q_exec_id = exec_id, q_dag_id = dag,
            q_message_data = message, q_message_len = length message, q_received_at_ms = now2,
            q_sender_id = ctx_sender_id ctx\<rparr>]" by blast
      with F show ?thesis by (auto simp: handle intro!: exI [of _ q])
    qed
    with False rem out show ?thesis by auto
  qed
qed

definition wide_channel :: rpc_channel where
  "wide_channel = \<lparr>socket_fd = 5, channel_type = RPC_CHANNEL_DATA, rx_buffer = [], rx_data_len = 0,
     tx_buffer_size = 4096\<rparr>"

definition router_node :: node_state where
  "router_node = sample_node\<lparr>ns_pool := \<lparr>peers = [(new_peer 0 3 ''10.0.0.3'' 7000 8000)
     \<lparr>p_data_channel := Some wide_channel\<rparr>], pool_capacity = 8, pp_closed = []\<rparr>\<rparr>"

lemma router_node_peer:
  "peer_pool_get (ns_pool router_node) 3 = Some ((new_peer 0 3 ''10.0.0.3'' 7000 8000)
     \<lparr>p_data_channel := Some wide_channel\<rparr>)"
  by (simp add: peer_pool_get_def peer_index_def router_node_def sample_node_def new_peer_def)

theorem routed_message_arrives_witness:
  "\<exists>ctx. submit_remote 1 True True ctx 1 7 (replicate 4071 0) 3 router_node = Inl (Fault Out_of_bounds)
   \<and> (\<exists>s'. submit_remote 1 True True ctx 1 7 [1] 3 router_node = Inr s')"
  using routed_message_arrives [OF router_node_peer, of wide_channel "replicate 4071 0" 1
      "\<lparr>ctx_request_id = 1, ctx_func_id = FUNC_ID_SUBMIT_MESSAGE, ctx_sender_id = 9\<rparr>" 1 7 2]
    routed_message_arrives [OF router_node_peer, of wide_channel "[1]" 1
      "\<lparr>ctx_request_id = 1, ctx_func_id = FUNC_ID_SUBMIT_MESSAGE, ctx_sender_id = 9\<rparr>" 1 7 2]
  by (auto simp: wide_channel_def)

text \<open>What a worker does with a serialised DAG: it has the DAG afterwards, with the time of its
  arrival, if it knew the id or had room; a full catalog stores nothing and answers the same.\<close>

lemma sync_stored:
  assumes "dag_ok d" and "required_size d \<le> 8192" and "catalog_ok (ns_catalog w)"
  shows "\<exists>buffer w'. dag_serialize d 8192 = Inr buffer \<and> length buffer = required_size d
    \<and> handle_sync_catalog now (\<lambda>_. True) (\<lambda>_. True) buffer w = Reply RPC_STATUS_SUCCESS [1] w'
    \<and> (\<forall>k. dag_catalog_get (ns_catalog w') k =
        (if k = dag_id d \<and> (dag_catalog_get (ns_catalog w) k \<noteq> None
             \<or> length (dags (ns_catalog w)) < catalog_capacity (ns_catalog w))
         then Some (d\<lparr>created_at_ms := now, updated_at_ms := now\<rparr>)
         else dag_catalog_get (ns_catalog w) k))"
proof -
  obtain bs where bs: "dag_serialize d 8192 = Inr bs" "length bs = required_size d"
      "dag_deserialize now (\<lambda>_. True) bs = Inr (d\<lparr>created_at_ms := now, updated_at_ms := now\<rparr>)"
    using dag_roundtrip_fact [OF assms(1,2)] by blast
  let ?d = "d\<lparr>created_at_ms := now, updated_at_ms := now\<rparr>"
  let ?c = "ns_catalog w"
  show ?thesis
  proof (cases "dag_catalog_get ?c (dag_id d) = None")
    case None: True
    show ?thesis
    proof (cases "length (dags ?c) < catalog_capacity ?c")
      case True
      with None bs catalog_append_get [of ?c ?d] show ?thesis
        by (simp add: handle_sync_catalog_def catalog_add_result)
    next
      case False
      with None bs show ?thesis by (auto simp: handle_sync_catalog_def catalog_add_result)
    qed
  next
    case False
    with bs catalog_update_get(1) [OF assms(3), of now ?d] show ?thesis
      by (auto simp: handle_sync_catalog_def catalog_add_result)
  qed
qed

end
