(* ===== verification/Service_Registry.thy ===== *)
theory Service_Registry
  imports Slots Roole_Common
begin

text \<open>
  src/core/service_registry.c: for each of 8 service types, 16 slots of named pointers. The
  \<open>_slots\<close> functions are what runs under the lock of one type; a pointer is a nonzero number.
  A name is copied into 64 bytes, but compared in full. The functions return 0 or -1 as in the
  code; an out-of-range type is rejected before any lock is taken.
\<close>

definition MAX_SERVICES_PER_TYPE :: nat where "MAX_SERVICES_PER_TYPE = 16"
definition MAX_SERVICE_NAME :: nat where "MAX_SERVICE_NAME = 64"

datatype service_type =
    SERVICE_TYPE_NODE_STATE | SERVICE_TYPE_RPC_SERVER | SERVICE_TYPE_EVENT_BUS
  | SERVICE_TYPE_METRICS | SERVICE_TYPE_DAG_CATALOG | SERVICE_TYPE_CLUSTER_VIEW
  | SERVICE_TYPE_PEER_POOL | SERVICE_TYPE_EXECUTOR_POOL

record service_entry =
  service_name :: string
  service_ptr :: nat
  service_active :: bool

record service_registry =
  services :: "service_type \<Rightarrow> service_entry list"

definition empty_service :: service_entry where
  "empty_service = \<lparr>service_name = [], service_ptr = 0, service_active = False\<rparr>"

definition service_registry_create :: "bool \<Rightarrow> bool \<Rightarrow> service_registry option" where
  "service_registry_create alloc_ok locks_ok =
     (if alloc_ok \<and> locks_ok
      then Some \<lparr>services = (\<lambda>_. replicate MAX_SERVICES_PER_TYPE empty_service)\<rparr> else None)"

definition register_slots :: "service_entry list \<Rightarrow> string \<Rightarrow> nat \<Rightarrow> service_entry list option" where
  "register_slots es name ptr =
     (if slot_of service_active service_name name es \<noteq> None then None
      else case free_slot service_active es of
        None \<Rightarrow> None
      | Some i \<Rightarrow> Some (es[i := \<lparr>service_name = copy_chars (MAX_SERVICE_NAME - 1) name,
                                  service_ptr = ptr, service_active = True\<rparr>]))"

definition unregister_slots :: "service_entry list \<Rightarrow> string \<Rightarrow> service_entry list option" where
  "unregister_slots es name =
     (case slot_of service_active service_name name es of
        None \<Rightarrow> None
      | Some i \<Rightarrow> Some (es[i := (es ! i)\<lparr>service_active := False, service_ptr := 0\<rparr>]))"

definition store_slots ::
  "service_registry \<Rightarrow> service_type \<Rightarrow> service_entry list option \<Rightarrow> int \<times> service_registry" where
  "store_slots reg ty r = (case r of
     None \<Rightarrow> (-1, reg) | Some es \<Rightarrow> (0, reg\<lparr>services := (services reg)(ty := es)\<rparr>))"

definition service_registry_register ::
  "service_registry \<Rightarrow> service_type \<Rightarrow> string \<Rightarrow> nat \<Rightarrow> int \<times> service_registry" where
  "service_registry_register reg ty name ptr =
     (if ptr = 0 then (-1, reg) else store_slots reg ty (register_slots (services reg ty) name ptr))"

definition service_registry_unregister ::
  "service_registry \<Rightarrow> service_type \<Rightarrow> string \<Rightarrow> int \<times> service_registry" where
  "service_registry_unregister reg ty name =
     store_slots reg ty (unregister_slots (services reg ty) name)"

definition service_registry_get :: "service_registry \<Rightarrow> service_type \<Rightarrow> string \<Rightarrow> nat" where
  "service_registry_get reg ty name =
     (case slot_of service_active service_name name (services reg ty) of
        None \<Rightarrow> 0 | Some i \<Rightarrow> service_ptr (services reg ty ! i))"

section \<open>A slot table\<close>

definition short_name :: "string \<Rightarrow> bool" where
  "short_name s \<longleftrightarrow> c_string s \<and> length s < MAX_SERVICE_NAME"

definition service_valid :: "service_entry \<Rightarrow> bool" where
  "service_valid e \<longleftrightarrow> service_active e \<and> short_name (service_name e)"

lemma copy_short: "short_name s \<Longrightarrow> copy_chars (MAX_SERVICE_NAME - 1) s = s"
  by (simp add: short_name_def copy_chars_take MAX_SERVICE_NAME_def)

interpretation services_table: slot_table service_active service_name service_valid
  "\<lambda>es e. register_slots es (service_name e) (service_ptr e)" unregister_slots
proof unfold_locales
  show "register_slots es (service_name e) (service_ptr e) = Some (es[i := e])"
    if "service_valid e" "slot_of service_active service_name (service_name e) es = None"
      "free_slot service_active es = Some i" for e es i
    using that copy_short [of "service_name e"] by (cases e) (simp add: register_slots_def service_valid_def)
qed (auto simp: register_slots_def unregister_slots_def service_valid_def)

definition registry_ok :: "service_registry \<Rightarrow> bool" where
  "registry_ok reg \<longleftrightarrow> (\<forall>ty. slots_ok service_active service_name (services reg ty)
     \<and> length (services reg ty) = MAX_SERVICES_PER_TYPE)"

definition services_used :: "service_registry \<Rightarrow> service_type \<Rightarrow> nat" where
  "services_used reg ty = length (filter service_active (services reg ty))"

abbreviation lookup_service :: "service_registry \<Rightarrow> service_type \<Rightarrow> string \<Rightarrow> service_entry option" where
  "lookup_service reg ty \<equiv> slot_lookup service_active service_name (services reg ty)"

lemma get_lookup:
  "service_registry_get reg ty name = (case lookup_service reg ty name of None \<Rightarrow> 0 | Some e \<Rightarrow> service_ptr e)"
  by (simp add: service_registry_get_def slot_lookup_def split: option.split)

lemma register_lookup:
  assumes "registry_ok reg" and "short_name name" and "ptr \<noteq> 0" and "lookup_service reg ty name = None"
  shows "(fst (service_registry_register reg ty name ptr) = 0 \<longleftrightarrow> services_used reg ty < 16)
    \<and> (fst (service_registry_register reg ty name ptr) = 0 \<longrightarrow>
         registry_ok (snd (service_registry_register reg ty name ptr))
       \<and> (\<forall>ty'. ty' \<noteq> ty \<longrightarrow>
            services (snd (service_registry_register reg ty name ptr)) ty' = services reg ty')
       \<and> lookup_service (snd (service_registry_register reg ty name ptr)) ty =
           (lookup_service reg ty)(name \<mapsto> \<lparr>service_name = name, service_ptr = ptr, service_active = True\<rparr>))"
proof -
  define e where "e = \<lparr>service_name = name, service_ptr = ptr, service_active = True\<rparr>"
  have v: "service_valid e" "service_name e = name" "service_ptr e = ptr"
    using assms(2) by (simp_all add: e_def service_valid_def)
  have t: "slots_ok service_active service_name (services reg ty)"
      "length (services reg ty) = MAX_SERVICES_PER_TYPE"
    using assms(1) by (simp_all add: registry_ok_def)
  note put = services_table.put_lookup [OF t(1) v(1), unfolded v(2,3), OF assms(4)]
  note iff = services_table.put_iff [OF v(1), of "services reg ty", unfolded v(2,3), OF assms(4)]
  show ?thesis
  proof (cases "register_slots (services reg ty) name ptr")
    case None
    with iff t(2) assms(3) show ?thesis
      by (simp add: service_registry_register_def store_slots_def services_used_def MAX_SERVICES_PER_TYPE_def)
  next
    case (Some es)
    with iff t(2) assms(1,3) put [OF Some] show ?thesis
      by (simp add: service_registry_register_def store_slots_def services_used_def e_def registry_ok_def
          MAX_SERVICES_PER_TYPE_def)
  qed
qed

text \<open>C37: For names that fit their field the registry is a map per service type: an unused name can
  be registered exactly while fewer than 16 services of the type are, a used one never; after a
  registration only that name of that type is found, with the registered pointer, and after an
  unregistration it is not found any more.\<close>

theorem service_registry_is_map:
  assumes "registry_ok reg" and "short_name name" and "ptr \<noteq> 0"
  shows "(fst (service_registry_register reg ty name ptr) = 0 \<longleftrightarrow>
       lookup_service reg ty name = None \<and> services_used reg ty < 16)
    \<and> (\<forall>ty' n. service_registry_get (snd (service_registry_register reg ty name ptr)) ty' n =
        (if fst (service_registry_register reg ty name ptr) = 0 \<and> ty' = ty \<and> n = name then ptr
         else service_registry_get reg ty' n))
    \<and> (\<forall>ty' n. service_registry_get (snd (service_registry_unregister reg ty name)) ty' n =
        (if ty' = ty \<and> n = name then 0 else service_registry_get reg ty' n))
    \<and> registry_ok (snd (service_registry_register reg ty name ptr))
    \<and> registry_ok (snd (service_registry_unregister reg ty name))"
proof -
  have un: "(\<forall>ty' n. service_registry_get (snd (service_registry_unregister reg ty name)) ty' n =
        (if ty' = ty \<and> n = name then 0 else service_registry_get reg ty' n))
    \<and> registry_ok (snd (service_registry_unregister reg ty name))"
  proof (cases "unregister_slots (services reg ty) name")
    case None
    then have "lookup_service reg ty name = None" using services_table.del_iff by blast
    with None assms(1) show ?thesis
      by (auto simp: service_registry_unregister_def store_slots_def get_lookup)
  next
    case (Some es)
    with services_table.del_lookup [OF _ Some] assms(1) show ?thesis
      by (auto simp: service_registry_unregister_def store_slots_def get_lookup registry_ok_def)
  qed
  show ?thesis
  proof (cases "lookup_service reg ty name")
    case None
    show ?thesis
    proof (cases "services_used reg ty < 16")
      case True
      then have ok: "fst (service_registry_register reg ty name ptr) = 0"
        using register_lookup [OF assms(1-3) None] by blast
      with register_lookup [OF assms(1-3) None] have
        look: "lookup_service (snd (service_registry_register reg ty name ptr)) ty = (lookup_service reg ty)
          (name \<mapsto> \<lparr>service_name = name, service_ptr = ptr, service_active = True\<rparr>)" and
        rest: "registry_ok (snd (service_registry_register reg ty name ptr))" and
        other: "ty' \<noteq> ty \<Longrightarrow> services (snd (service_registry_register reg ty name ptr)) ty' = services reg ty'"
          for ty'
        by blast+
      have "service_registry_get (snd (service_registry_register reg ty name ptr)) ty' n =
          (if ty' = ty \<and> n = name then ptr else service_registry_get reg ty' n)" for ty' n
        using look other [of ty'] by (cases "ty' = ty") (simp_all add: get_lookup)
      with ok rest un None True show ?thesis by simp
    next
      case False
      with register_lookup [OF assms(1-3) None] have "fst (service_registry_register reg ty name ptr) \<noteq> 0" by blast
      then have "snd (service_registry_register reg ty name ptr) = reg"
        by (auto simp: service_registry_register_def store_slots_def split: option.splits)
      with register_lookup [OF assms(1-3) None] False un assms(1) show ?thesis by auto
    qed
  next
    case (Some e)
    then have "service_registry_register reg ty name ptr = (-1, reg)"
      using assms(3) by (auto simp: service_registry_register_def register_slots_def slot_lookup_def store_slots_def)
    with Some un assms(1) show ?thesis by simp
  qed
qed

definition fresh_registry :: service_registry where
  "fresh_registry = \<lparr>services = (\<lambda>_. replicate MAX_SERVICES_PER_TYPE empty_service)\<rparr>"

lemma fresh_registry_ok: "registry_ok fresh_registry"
  by (simp add: registry_ok_def fresh_registry_def slots_ok_def empty_service_def)

theorem service_registry_is_map_witness:
  "service_registry_get (snd (service_registry_register fresh_registry SERVICE_TYPE_METRICS ''main'' 42))
     SERVICE_TYPE_METRICS ''main'' = 42"
proof -
  have "lookup_service fresh_registry SERVICE_TYPE_METRICS ''main'' = None"
    and "services_used fresh_registry SERVICE_TYPE_METRICS < 16"
    by (simp_all add: slot_lookup_None_iff services_used_def fresh_registry_def empty_service_def)
  moreover have "short_name ''main''" by (simp add: short_name_def c_string_def MAX_SERVICE_NAME_def)
  ultimately show ?thesis
    using service_registry_is_map [OF fresh_registry_ok, of "''main''" 42 SERVICE_TYPE_METRICS] by simp
qed

text \<open>A name that does not fit is stored cut off and compared in full: it is registered with
  success, is never found under its own name, and can be registered again and again until the
  slots of the type are used up.\<close>

theorem long_service_name_lost:
  assumes "registry_ok reg" and "c_string name" and "64 \<le> length name" and "ptr \<noteq> 0"
    and "lookup_service reg ty name = None" and "services_used reg ty < 16"
  shows "fst (service_registry_register reg ty name ptr) = 0
    \<and> service_registry_get (snd (service_registry_register reg ty name ptr)) ty name = 0
    \<and> services_used (snd (service_registry_register reg ty name ptr)) ty = Suc (services_used reg ty)"
proof -
  have len: "length (services reg ty) = MAX_SERVICES_PER_TYPE" using assms(1) by (simp add: registry_ok_def)
  with assms(6) obtain i where i: "free_slot service_active (services reg ty) = Some i"
    using free_slot_iff [of service_active "services reg ty"]
    by (auto simp: services_used_def MAX_SERVICES_PER_TYPE_def)
  define e where "e = \<lparr>service_name = copy_chars (MAX_SERVICE_NAME - 1) name, service_ptr = ptr,
    service_active = True\<rparr>"
  have e: "service_active e" "service_name e \<noteq> name"
    using copy_chars_length [of "MAX_SERVICE_NAME - 1" name] assms(3) by (auto simp: e_def MAX_SERVICE_NAME_def)
  have run: "service_registry_register reg ty name ptr =
      (0, reg\<lparr>services := (services reg)(ty := (services reg ty)[i := e])\<rparr>)"
    using assms(4,5) i by (simp add: service_registry_register_def register_slots_def store_slots_def
        slot_of_None_iff e_def)
  note free = free_slot_SomeD [OF i]
  obtain us vs where s: "filter service_active (services reg ty) = us @ vs"
      "filter service_active ((services reg ty)[i := e]) = us @ e # vs"
    using keys_update_free [of i "services reg ty" service_active e] free e by blast
  have "lookup_service reg ty name = None" by fact
  then have "name \<notin> service_name ` set (us @ e # vs)"
    using e(2) by (auto simp: slot_lookup_None_iff s(1) simp del: set_filter)
  then have "slot_lookup service_active service_name ((services reg ty)[i := e]) name = None"
    by (simp add: slot_lookup_None_iff s(2) del: set_filter)
  then show ?thesis using s by (simp add: run get_lookup services_used_def)
qed

theorem long_service_name_lost_witness:
  "fst (service_registry_register fresh_registry SERVICE_TYPE_METRICS (replicate 64 CHR ''a'') 42) = 0
   \<and> service_registry_get (snd (service_registry_register fresh_registry SERVICE_TYPE_METRICS
       (replicate 64 CHR ''a'') 42)) SERVICE_TYPE_METRICS (replicate 64 CHR ''a'') = 0"
proof -
  have "lookup_service fresh_registry SERVICE_TYPE_METRICS (replicate 64 CHR ''a'') = None"
    and "services_used fresh_registry SERVICE_TYPE_METRICS < 16"
    by (simp_all add: slot_lookup_None_iff services_used_def fresh_registry_def empty_service_def)
  then show ?thesis
    using long_service_name_lost [OF fresh_registry_ok, of "replicate 64 CHR ''a''" 42 SERVICE_TYPE_METRICS]
    by (simp add: c_string_def)
qed

section \<open>The registry of the process\<close>

text \<open>The registries that exist, by address, and the pointer \<open>g_global_registry\<close>. The locks of a
  registry and its memory go together.\<close>

record registry_heap =
  live_registries :: "nat \<Rightarrow> service_registry option"
  g_global_registry :: nat

definition service_registry_global :: "registry_heap \<Rightarrow> nat" where
  "service_registry_global h = g_global_registry h"

definition service_registry_set_global :: "nat \<Rightarrow> registry_heap \<Rightarrow> registry_heap" where
  "service_registry_set_global registry h = h\<lparr>g_global_registry := registry\<rparr>"

definition service_registry_destroy :: "nat \<Rightarrow> registry_heap \<Rightarrow> registry_heap" where
  "service_registry_destroy registry h =
     (if registry = 0 then h else h\<lparr>live_registries := (live_registries h)(registry := None)\<rparr>)"

text \<open>How every user of the process registry finds a service. Reading a destroyed registry is an error.\<close>

definition find_service :: "registry_heap \<Rightarrow> service_type \<Rightarrow> string \<Rightarrow> c_error + nat" where
  "find_service h ty name =
     (let registry = service_registry_global h
      in if registry = 0 then Inr 0
         else case live_registries h registry of
             None \<Rightarrow> Inl Out_of_bounds
           | Some reg \<Rightarrow> Inr (service_registry_get reg ty name))"

text \<open>Taking the process registry down is safe in one order only: clear the pointer, then destroy.\<close>

lemma global_shutdown_order:
  assumes "service_registry_global h = p" and "p \<noteq> 0"
  shows "find_service (service_registry_destroy p (service_registry_set_global 0 h)) ty name = Inr 0"
    and "find_service (service_registry_destroy p h) ty name = Inl Out_of_bounds"
  using assms
  by (simp_all add: find_service_def service_registry_global_def service_registry_set_global_def
      service_registry_destroy_def)

end
