(* ===== verification/Node_Service.thy ===== *)
theory Node_Service
  imports Config Node_Properties Service_Registry
begin

text \<open>
  How a node serves requests: its capabilities from the configuration (src/node/node_capabilities.c),
  its table of RPC handlers and the start of its servers (src/node/node_rpc.c), and what the event
  loop of src/core/rpc.c does with one request: look the handler up, run it, answer. The handler
  functions are the constructors of \<open>node_handler\<close>; \<open>run_handler\<close> calls the models of
  src/node/node_handlers.c. The sentinel that ends the C array is the end of the list.
\<close>

section \<open>Capabilities\<close>

definition node_detect_capabilities_ex :: "roole_config \<Rightarrow> node_identity \<Rightarrow> node_capabilities \<times> node_identity" where
  "node_detect_capabilities_ex config ident =
     (let caps = \<lparr>has_ingress = 0, can_execute = 0, can_route = 0\<rparr>;
          (caps, ident) =
            (if ingress_addr (ports config) \<noteq> [] then
               (case config_parse_address (ingress_addr (ports config)) of (ingress_ip, ingress_port) \<Rightarrow>
                  if ingress_port > 0 then (caps\<lparr>has_ingress := 1\<rparr>, ident\<lparr>id_ingress_port := ingress_port\<rparr>)
                  else (caps, ident\<lparr>id_ingress_port := 0\<rparr>))
             else (caps, ident\<lparr>id_ingress_port := 0\<rparr>));
          caps = caps\<lparr>can_execute := 1\<rparr>;
          caps = (if has_ingress caps \<noteq> 0 then caps\<lparr>can_route := 1\<rparr> else caps\<lparr>can_route := 1\<rparr>)
      in (caps, ident))"

section \<open>The service table\<close>

datatype node_handler =
    H_submit_message | H_get_execution_status | H_list_dags | H_add_dag
  | H_process_message | H_execution_update | H_sync_catalog

record rpc_service_entry =
  se_func_id :: u8
  se_handler :: node_handler
  max_response_len :: nat

definition node_build_rpc_service_table_ex :: "bool \<Rightarrow> node_capabilities \<Rightarrow> rpc_service_entry list option" where
  "node_build_rpc_service_table_ex calloc_ok caps =
     (if \<not> calloc_ok then None
      else Some
        ((if has_ingress caps \<noteq> 0 then
            [\<lparr>se_func_id = FUNC_ID_SUBMIT_MESSAGE, se_handler = H_submit_message, max_response_len = 8192\<rparr>,
             \<lparr>se_func_id = FUNC_ID_GET_STATUS, se_handler = H_get_execution_status, max_response_len = 16\<rparr>,
             \<lparr>se_func_id = FUNC_ID_LIST_DAGS, se_handler = H_list_dags, max_response_len = 4096\<rparr>,
             \<lparr>se_func_id = FUNC_ID_ADD_DAG, se_handler = H_add_dag, max_response_len = 8192\<rparr>]
          else []) @
         [\<lparr>se_func_id = FUNC_ID_PROCESS_MESSAGE, se_handler = H_process_message, max_response_len = 8192\<rparr>,
          \<lparr>se_func_id = FUNC_ID_EXECUTION_UPDATE, se_handler = H_execution_update, max_response_len = 16\<rparr>,
          \<lparr>se_func_id = FUNC_ID_SYNC_CATALOG, se_handler = H_sync_catalog, max_response_len = 8192\<rparr>]))"

definition dispatch_table :: "rpc_service_entry list \<Rightarrow> node_handler service_table" where
  "dispatch_table = map (\<lambda>e. (se_func_id e, se_handler e))"

datatype rpc_server = Router_server u16 u16 | Worker_server u16

text \<open>The registrations and the server that is started; the servers' loops return when they stop.
  \<open>state_ptr\<close> and \<open>table_ptr\<close> are the pointers that are registered.\<close>

definition node_start_rpc_servers_ex ::
  "node_identity \<Rightarrow> node_capabilities \<Rightarrow> nat \<Rightarrow> nat \<Rightarrow> service_registry option \<Rightarrow> rpc_server \<times> service_registry option" where
  "node_start_rpc_servers_ex ident caps state_ptr table_ptr registry =
     (if has_ingress caps \<noteq> 0 then Router_server (id_data_port ident) (id_ingress_port ident)
      else Worker_server (id_data_port ident),
      map_option (\<lambda>reg.
        let reg = snd (service_registry_register reg SERVICE_TYPE_NODE_STATE ''main'' state_ptr)
        in snd (service_registry_register reg SERVICE_TYPE_RPC_SERVER ''service_table'' table_ptr)) registry)"

section \<open>One request\<close>

text \<open>The outcomes of the calls a handler makes.\<close>

record request_env =
  re_now :: u64
  re_round :: "rat \<Rightarrow> rat"
  re_malloc_ok :: bool
  re_send_ok :: "node_id \<Rightarrow> bool"
  re_alloc_ok :: "nat \<Rightarrow> bool"
  re_copy_ok :: "nat \<Rightarrow> bool"

fun run_handler :: "request_env \<Rightarrow> node_handler \<Rightarrow> rpc_async_context \<Rightarrow> bytes \<Rightarrow> node_state \<Rightarrow> reply" where
  "run_handler env H_submit_message ctx in_data s =
     handle_submit_message (re_now env) (re_round env) (re_malloc_ok env)
       (re_send_ok env (submit_target (re_round env) s)) ctx in_data s"
| "run_handler env H_get_execution_status ctx in_data s = handle_get_execution_status in_data s"
| "run_handler env H_list_dags ctx in_data s = handle_list_dags (re_malloc_ok env) in_data s"
| "run_handler env H_add_dag ctx in_data s = handle_add_dag (re_now env) (re_send_ok env) in_data s"
| "run_handler env H_process_message ctx in_data s = handle_process_message (re_now env) in_data s"
| "run_handler env H_execution_update ctx in_data s = handle_execution_update (re_now env) in_data s"
| "run_handler env H_sync_catalog ctx in_data s = handle_sync_catalog (re_now env) (re_alloc_ok env) (re_copy_ok env) in_data s"

text \<open>
  The body of the request loop. Answering frees the context; a handler returns what answering
  returned, and when that is not 0 the loop answers once more, with the context it no longer has.
\<close>

datatype served = Answered bytes | Blocked | Overrun | Use_after_free

definition answer_request ::
  "rpc_channel \<Rightarrow> rpc_async_context \<Rightarrow> u8 \<Rightarrow> bytes \<Rightarrow> send_result list \<Rightarrow> bool \<Rightarrow> served" where
  "answer_request ch ctx status payload sends answer_again =
     (case rpc_send_async_response ch ctx status payload sends of
        Inl e \<Rightarrow> Overrun
      | Inr None \<Rightarrow> Blocked
      | Inr (Some (ret, out)) \<Rightarrow> if ret \<noteq> 0 \<and> answer_again then Use_after_free else Answered out)"

definition serve_request ::
  "request_env \<Rightarrow> node_handler service_table \<Rightarrow> rpc_channel \<Rightarrow> rpc_async_context \<Rightarrow> bytes \<Rightarrow> send_result list \<Rightarrow>
   node_state \<Rightarrow> served \<times> node_state" where
  "serve_request env table ch ctx in_payload sends s =
     (case find_handler table (ctx_func_id ctx) of
        None \<Rightarrow> (answer_request ch ctx RPC_STATUS_FUNC_NOT_FOUND [] sends False, s)
      | Some h \<Rightarrow>
          (case run_handler env h ctx in_payload s of
             Reply status payload s' \<Rightarrow> (answer_request ch ctx status payload sends True, s')
           | Blocks s' \<Rightarrow> (Blocked, s')
           | Fault e \<Rightarrow> (Overrun, s)))"

section \<open>What a configuration makes of a node\<close>

definition usable_port :: "string \<Rightarrow> bool" where
  "usable_port addr \<longleftrightarrow> addr \<noteq> [] \<and> 0 < snd (config_parse_address addr)"

lemma capabilities [simp]:
  "has_ingress (fst (node_detect_capabilities_ex config ident)) = (if usable_port (ingress_addr (ports config)) then 1 else 0)"
  "can_execute (fst (node_detect_capabilities_ex config ident)) = 1"
  "can_route (fst (node_detect_capabilities_ex config ident)) = 1"
  by (auto simp: node_detect_capabilities_ex_def usable_port_def Let_def split: prod.split)

lemmas func_id_defs = FUNC_ID_SUBMIT_MESSAGE_def FUNC_ID_GET_STATUS_def FUNC_ID_LIST_DAGS_def FUNC_ID_ADD_DAG_def
  FUNC_ID_PROCESS_MESSAGE_def FUNC_ID_EXECUTION_UPDATE_def FUNC_ID_SYNC_CATALOG_def

definition node_table :: "roole_config \<Rightarrow> node_identity \<Rightarrow> node_handler service_table" where
  "node_table config ident =
     dispatch_table (the (node_build_rpc_service_table_ex True (fst (node_detect_capabilities_ex config ident))))"

text \<open>C30: A node whose configuration has no usable ingress port serves its peers and nobody else: every
  request for another function, the client functions included, is answered with FUNC_NOT_FOUND
  under the request's own id and leaves the node as it was; and its server is the one that opens
  the data port only.\<close>

theorem worker_rejects_clients:
  assumes "\<not> usable_port (ingress_addr (ports config))" and "RPC_HEADER_SIZE \<le> tx_buffer_size ch"
    and "ctx_func_id ctx \<notin> {FUNC_ID_PROCESS_MESSAGE, FUNC_ID_EXECUTION_UPDATE, FUNC_ID_SYNC_CATALOG}"
  shows "serve_request env (node_table config ident) ch ctx in_payload [Sent RPC_HEADER_SIZE] s =
      (Answered (wire \<lparr>c_node_id = ctx_sender_id ctx, c_request_id = ctx_request_id ctx, c_type = RPC_TYPE_RESPONSE,
         c_status = RPC_STATUS_FUNC_NOT_FOUND, c_func_id = ctx_func_id ctx, c_payload = []\<rparr>), s)
    \<and> fst (node_start_rpc_servers_ex ident (fst (node_detect_capabilities_ex config ident)) p q reg)
        = Worker_server (id_data_port ident)"
proof -
  let ?c = "\<lparr>c_node_id = ctx_sender_id ctx, c_request_id = ctx_request_id ctx, c_type = RPC_TYPE_RESPONSE,
    c_status = RPC_STATUS_FUNC_NOT_FOUND, c_func_id = ctx_func_id ctx, c_payload = []\<rparr>"
  have "find_handler (node_table config ident) (ctx_func_id ctx) = None"
    using assms(1,3) by (auto simp: node_table_def node_build_rpc_service_table_ex_def dispatch_table_def)
  moreover have "rpc_send_async_response ch ctx RPC_STATUS_FUNC_NOT_FOUND [] [Sent RPC_HEADER_SIZE] = Inr (Some (0, wire ?c))"
    using assms(2) pack_eq_wire [of ?c "tx_buffer_size ch"] length_wire [of ?c]
    by (cases "wire ?c") (simp_all add: rpc_send_async_response_def RPC_HEADER_SIZE_def)
  ultimately show ?thesis
    using assms(1) by (simp add: serve_request_def answer_request_def node_start_rpc_servers_ex_def)
qed

definition some_env :: request_env where
  "some_env = \<lparr>re_now = 50, re_round = id, re_malloc_ok = True, re_send_ok = (\<lambda>_. True), re_alloc_ok = (\<lambda>_. True),
     re_copy_ok = (\<lambda>_. True)\<rparr>"

definition gateway_config :: roole_config where
  "gateway_config = sample_config\<lparr>ports := (ports sample_config)\<lparr>ingress_addr := ''127.0.0.1:7300''\<rparr>\<rparr>"

lemma sample_ports: "\<not> usable_port (ingress_addr (ports sample_config))" "usable_port (ingress_addr (ports gateway_config))"
proof -
  show "\<not> usable_port (ingress_addr (ports sample_config))" by (simp add: usable_port_def sample_config_def)
  have "config_parse_address (''127.0.0.1'' @ CHR '':'' # utoa 7300) = (''127.0.0.1'', word_of_nat 7300)"
    by (rule parse_printed_address) (simp_all add: c_string_def)
  moreover have "''127.0.0.1:7300'' = ''127.0.0.1'' @ CHR '':'' # utoa 7300"
    by (simp add: utoa.simps digit_char_def char_of_def bit_0)
  ultimately show "usable_port (ingress_addr (ports gateway_config))"
    by (simp add: usable_port_def gateway_config_def)
qed

theorem worker_rejects_clients_witness:
  "snd (serve_request some_env (node_table sample_config (ns_identity sample_node)) sample_channel
      \<lparr>ctx_request_id = 5, ctx_func_id = FUNC_ID_ADD_DAG, ctx_sender_id = 0\<rparr> [1, 2, 3] [Sent RPC_HEADER_SIZE] sample_node)
   = sample_node"
proof -
  have "RPC_HEADER_SIZE \<le> tx_buffer_size sample_channel" by (simp add: sample_channel_def RPC_HEADER_SIZE_def)
  moreover have "ctx_func_id \<lparr>ctx_request_id = 5, ctx_func_id = FUNC_ID_ADD_DAG, ctx_sender_id = 0\<rparr>
      \<notin> {FUNC_ID_PROCESS_MESSAGE, FUNC_ID_EXECUTION_UPDATE, FUNC_ID_SYNC_CATALOG}"
    by (simp add: func_id_defs)
  ultimately show ?thesis
    using worker_rejects_clients [OF sample_ports(1), of sample_channel
        "\<lparr>ctx_request_id = 5, ctx_func_id = FUNC_ID_ADD_DAG, ctx_sender_id = 0\<rparr>" some_env] by simp
qed

section \<open>Submissions are never routed\<close>

lemma submit_local_frame:
  "submit_local now ctx e dag message s = Inr s' \<Longrightarrow>
     data_sent s' = data_sent s \<and> ns_pool s' = ns_pool s \<and> bad_unlocks s' = bad_unlocks s"
  "submit_local now ctx e dag message s = Inl r \<Longrightarrow> r = Blocks s"
  by (auto simp: submit_local_def split: option.splits)

text \<open>Capability detection switches execution on for every configuration, so the least-loaded selection
  of a submission is unreachable: whatever a client submits to whichever node, the node picks
  itself, and the handler answers or blocks on its own queue without having sent anything to
  another node or touched the peer pool.\<close>

theorem submissions_run_here:
  assumes "ns_caps s = fst (node_detect_capabilities_ex config ident)"
  shows "submit_target rnd s = self_id s
    \<and> (\<exists>s'. reply_state (handle_submit_message now rnd malloc_ok send_ok ctx in_data s) = Some s'
        \<and> data_sent s' = data_sent s \<and> ns_pool s' = ns_pool s \<and> bad_unlocks s' = bad_unlocks s)"
proof -
  have target: "submit_target rnd s = self_id s" by (simp add: submit_target_def assms)
  obtain e t where add: "execution_tracker_add now (ns_tracker s) (load_u32 in_data) (self_id s) (drop 4 in_data) 3 = (e, t)"
    by (rule prod.exhaust)
  let ?s = "s\<lparr>ns_tracker := t\<rparr>"
  show ?thesis
    using submit_local_frame [of now ctx e "load_u32 in_data" "drop 4 in_data" ?s]
    by (cases "submit_local now ctx e (load_u32 in_data) (drop 4 in_data) ?s")
      (auto simp: target handle_submit_message_def submit_route_def add Let_def reply_state_def submit_finish_def frame_simps)
qed

theorem submissions_run_here_witness:
  "\<exists>s'. reply_state (handle_submit_message 1 id True True \<lparr>ctx_request_id = 1, ctx_func_id = FUNC_ID_SUBMIT_MESSAGE,
      ctx_sender_id = 7\<rparr> [7, 0, 0, 0, 1, 2] router_node) = Some s' \<and> data_sent s' = []"
proof -
  have "ns_caps router_node = fst (node_detect_capabilities_ex gateway_config ident)" for ident
    using sample_ports(2) capabilities [of gateway_config ident]
    by (intro node_capabilities.equality) (simp_all add: router_node_def sample_node_def)
  from submissions_run_here [OF this, of id 1 True True _ "[7, 0, 0, 0, 1, 2]"] show ?thesis
    by (auto simp: router_node_def sample_node_def)
qed

section \<open>Answers that do not leave\<close>

text \<open>When the answer of a handler cannot be sent, its context is freed and then used again: answering
  removes and frees the context whether or not \<open>send\<close> worked, the handler passes the failure on, and
  the request loop answers a second time with the same context. This holds for every handler and
  every answer that fits the channel; the one request that is safe is for an unknown function.\<close>

theorem failed_answer_uses_freed_context:
  assumes "find_handler table (ctx_func_id ctx) = Some h" and "run_handler env h ctx in_payload s = Reply status payload s'"
    and "RPC_HEADER_SIZE + length payload \<le> tx_buffer_size ch" and "sends = map Sent ns @ [Send_failed]"
    and "0 \<notin> set ns" and "sum_list ns < RPC_HEADER_SIZE + length payload"
  shows "serve_request env table ch ctx in_payload sends s = (Use_after_free, s')"
proof -
  have partial: "send_response (map Sent ns @ [Send_failed]) bs = Some (-1, take (sum_list ns) bs)"
    if "sum_list ns < length bs" "0 \<notin> set ns" for ns and bs :: bytes
    using that
  proof (induction ns arbitrary: bs)
    case (Cons n ns)
    then have "send_response (map Sent ns @ [Send_failed]) (drop n bs) = Some (-1, take (sum_list ns) (drop n bs))" by auto
    with Cons.prems show ?case by (auto simp: take_add)
  qed simp
  let ?c = "\<lparr>c_node_id = ctx_sender_id ctx, c_request_id = ctx_request_id ctx, c_type = RPC_TYPE_RESPONSE,
    c_status = status, c_func_id = ctx_func_id ctx, c_payload = payload\<rparr>"
  have "sum_list ns < length (wire ?c)" using assms(6) by (simp add: length_wire)
  from partial [OF this assms(5)]
  have "rpc_send_async_response ch ctx status payload sends = Inr (Some (-1, take (sum_list ns) (wire ?c)))"
    using pack_eq_wire [of ?c "tx_buffer_size ch"] assms(3,4) by (simp add: rpc_send_async_response_def)
  with assms(1,2) show ?thesis by (simp add: serve_request_def answer_request_def)
qed

theorem failed_answer_uses_freed_context_witness:
  "fst (serve_request some_env (node_table gateway_config (ns_identity sample_node)) sample_channel
      \<lparr>ctx_request_id = 5, ctx_func_id = FUNC_ID_GET_STATUS, ctx_sender_id = 0\<rparr> [] [Sent 4, Send_failed] sample_node)
   = Use_after_free"
proof -
  let ?ctx = "\<lparr>ctx_request_id = 5, ctx_func_id = FUNC_ID_GET_STATUS, ctx_sender_id = 0\<rparr>"
  have "find_handler (node_table gateway_config (ns_identity sample_node)) (ctx_func_id ?ctx) = Some H_get_execution_status"
    using sample_ports(2)
    by (simp add: node_table_def node_build_rpc_service_table_ex_def dispatch_table_def func_id_defs)
  moreover have "run_handler some_env H_get_execution_status ?ctx [] sample_node = Reply RPC_STATUS_BAD_ARGUMENT [] sample_node"
    by (simp add: handle_get_execution_status_def)
  moreover have "RPC_HEADER_SIZE + length ([] :: bytes) \<le> tx_buffer_size sample_channel" "0 \<notin> set [4 :: nat]"
    "sum_list [4] < RPC_HEADER_SIZE + length ([] :: bytes)" "[Sent 4, Send_failed] = map Sent [4] @ [Send_failed]"
    by (simp_all add: sample_channel_def RPC_HEADER_SIZE_def)
  ultimately show ?thesis
    using failed_answer_uses_freed_context [of _ ?ctx H_get_execution_status some_env "[]" sample_node RPC_STATUS_BAD_ARGUMENT "[]"
        sample_node sample_channel "[Sent 4, Send_failed]" "[4]"] by simp
qed

text \<open>Listing the catalog: a router answers with the number of its DAGs and their ids, and the answer
  leaves whole exactly when 16 bytes and four per DAG fit the channel's buffer. The event loop gives
  its channels 4096 bytes, room for 1020 ids, while a catalog lists up to 1024: beyond 1020 the
  answer is written past the buffer.\<close>

theorem list_dags_answer:
  assumes "usable_port (ingress_addr (ports config))" and "ctx_func_id ctx = FUNC_ID_LIST_DAGS" and "re_malloc_ok env"
    and "n = min (length (dags (ns_catalog s))) 1024"
  shows "serve_request env (node_table config ident) ch ctx in_payload [Sent (16 + 4 * n)] s =
    (if 16 + 4 * n \<le> tx_buffer_size ch
     then Answered (wire \<lparr>c_node_id = ctx_sender_id ctx, c_request_id = ctx_request_id ctx, c_type = RPC_TYPE_RESPONSE,
         c_status = RPC_STATUS_SUCCESS, c_func_id = FUNC_ID_LIST_DAGS,
         c_payload = host_u32 (word_of_nat n) @ concat (map (host_u32 \<circ> dag_id) (take n (dags (ns_catalog s))))\<rparr>)
     else Overrun, s)"
proof -
  let ?payload = "host_u32 (word_of_nat n) @ concat (map (host_u32 \<circ> dag_id) (take n (dags (ns_catalog s))))"
  let ?c = "\<lparr>c_node_id = ctx_sender_id ctx, c_request_id = ctx_request_id ctx, c_type = RPC_TYPE_RESPONSE,
    c_status = RPC_STATUS_SUCCESS, c_func_id = FUNC_ID_LIST_DAGS, c_payload = ?payload\<rparr>"
  have "find_handler (node_table config ident) (ctx_func_id ctx) = Some H_list_dags"
    using assms(1,2) by (simp add: node_table_def node_build_rpc_service_table_ex_def dispatch_table_def func_id_defs)
  moreover have "run_handler env H_list_dags ctx in_payload s = Reply RPC_STATUS_SUCCESS ?payload s"
    using assms(3,4) by (simp add: handle_list_dags_def dag_catalog_list_def MAX_DAGS_def Let_def comp_def)
  moreover have ids: "length (concat (map (host_u32 \<circ> dag_id) ds)) = 4 * length ds" for ds
    by (induction ds) (simp_all add: host_u32_def)
  have len: "length ?payload = 4 + 4 * n"
    using assms(4) unfolding length_append ids by (simp add: host_u32_def)
  then have "length (wire ?c) = 16 + 4 * n" by (simp add: length_wire RPC_HEADER_SIZE_def)
  then have "send_response [Sent (16 + 4 * n)] (wire ?c) = Some (0, wire ?c)"
    by (cases "wire ?c") simp_all
  then have "rpc_send_async_response ch ctx RPC_STATUS_SUCCESS ?payload [Sent (16 + 4 * n)] =
      (if 16 + 4 * n \<le> tx_buffer_size ch then Inr (Some (0, wire ?c)) else Inl Out_of_bounds)"
    using pack_eq_wire [of ?c "tx_buffer_size ch"] len assms(2)
    by (simp add: rpc_send_async_response_def RPC_HEADER_SIZE_def) (simp add: rpc_pack_message_def RPC_HEADER_SIZE_def)
  ultimately show ?thesis by (simp add: serve_request_def answer_request_def)
qed

theorem list_dags_answer_witness:
  "fst (serve_request some_env (node_table gateway_config (ns_identity sample_node)) sample_channel
      \<lparr>ctx_request_id = 5, ctx_func_id = FUNC_ID_LIST_DAGS, ctx_sender_id = 0\<rparr> [] [Sent 4100]
      (sample_node\<lparr>ns_catalog := (ns_catalog sample_node)\<lparr>dags := replicate 1021 sample_dag\<rparr>\<rparr>)) = Overrun"
proof -
  let ?s = "sample_node\<lparr>ns_catalog := (ns_catalog sample_node)\<lparr>dags := replicate 1021 sample_dag\<rparr>\<rparr>"
  have "ctx_func_id \<lparr>ctx_request_id = 5, ctx_func_id = FUNC_ID_LIST_DAGS, ctx_sender_id = 0\<rparr> = FUNC_ID_LIST_DAGS"
    "re_malloc_ok some_env" "1021 = min (length (dags (ns_catalog ?s))) 1024"
    by (simp_all add: some_env_def)
  from list_dags_answer [OF sample_ports(2) this, of "ns_identity sample_node" sample_channel "[]"]
  show ?thesis by (simp add: sample_channel_def)
qed

end
