(* ===== verification/Rpc_Server.thy ===== *)
theory Rpc_Server
  imports Node_Service Runs
begin

text \<open>
  The request server of src/core/rpc.c: its listening sockets, the epoll loop with its accept and
  connection branches, and \<open>rpc_worker_run\<close> and \<open>rpc_router_run\<close> around them. The descriptors the
  process holds are \<open>srv_fds\<close>; the channels that are allocated are \<open>srv_channels\<close>, by address. What
  the kernel and the allocator return is part of an event; bytes that have arrived and were not read
  stay in \<open>srv_kernel\<close>. Reading a channel that was freed is the outcome \<open>Freed_channel\<close>.
\<close>

definition MAX_CHANNEL_TYPES :: nat where "MAX_CHANNEL_TYPES = 3"

section \<open>Listening sockets\<close>

record rpc_listener =
  lis_fd :: int
  lis_type :: rpc_channel_type
  lis_port :: u16

record multi_listener =
  listeners :: "rpc_listener list"
  lis_count :: nat
  epoll_fd :: int

record socket_calls =
  sk_fd :: int
  sk_reuse_ok :: bool
  sk_nonblock_ok :: bool
  sk_bind_ok :: bool
  sk_listen_ok :: bool
  sk_epoll_ok :: bool

definition close_fd :: "int \<Rightarrow> int set \<Rightarrow> int set" where
  "close_fd fd fds = fds - {fd}"

definition rpc_multi_listener_init ::
  "int \<Rightarrow> multi_listener \<Rightarrow> int set \<Rightarrow> int \<times> multi_listener \<times> int set" where
  "rpc_multi_listener_init efd ml fds =
     (let ml = ml\<lparr>lis_count := 0, epoll_fd := efd\<rparr>
      in if efd = -1 then (-1, ml, fds)
         else (0, ml\<lparr>listeners := map (\<lambda>l. l\<lparr>lis_fd := -1, lis_port := 0\<rparr>) (listeners ml)\<rparr>, insert efd fds))"

definition rpc_multi_listener_add ::
  "socket_calls \<Rightarrow> rpc_channel_type \<Rightarrow> u16 \<Rightarrow> multi_listener \<times> int set \<Rightarrow> int \<times> multi_listener \<times> int set" where
  "rpc_multi_listener_add sk type port = (\<lambda>(ml, fds).
     if MAX_CHANNEL_TYPES \<le> lis_count ml then (-1, ml, fds)
     else if sk_fd sk = -1 then (-1, ml, fds)
     else
       let fds = insert (sk_fd sk) fds
       in if \<not> sk_reuse_ok sk then (-1, ml, close_fd (sk_fd sk) fds)
          else if \<not> sk_nonblock_ok sk then (-1, ml, close_fd (sk_fd sk) fds)
          else if \<not> sk_bind_ok sk then (-1, ml, close_fd (sk_fd sk) fds)
          else if \<not> sk_listen_ok sk then (-1, ml, close_fd (sk_fd sk) fds)
          else if \<not> sk_epoll_ok sk then (-1, ml, close_fd (sk_fd sk) fds)
          else (0, ml\<lparr>listeners := (listeners ml)[lis_count ml := \<lparr>lis_fd = sk_fd sk, lis_type = type, lis_port = port\<rparr>],
                      lis_count := Suc (lis_count ml)\<rparr>, fds))"

definition rpc_multi_listener_destroy :: "multi_listener \<Rightarrow> int set \<Rightarrow> int set" where
  "rpc_multi_listener_destroy ml fds =
     (let fds = foldl (\<lambda>fds l. if lis_fd l \<noteq> -1 then close_fd (lis_fd l) fds else fds) fds
                  (take (lis_count ml) (listeners ml))
      in if epoll_fd ml \<noteq> -1 then close_fd (epoll_fd ml) fds else fds)"

section \<open>The event loop\<close>

record rpc_server_state =
  srv_listener :: multi_listener
  srv_channels :: "u64 \<Rightarrow> rpc_channel option"
  srv_fds :: "int set"
  srv_kernel :: "int \<Rightarrow> bytes list"
  srv_registry :: "service_registry option"
  srv_counter :: nat
  srv_node :: node_state
  srv_sent :: "(int \<times> bytes) list"

text \<open>One \<open>accept\<close> that returned a descriptor, and the calls that follow it.\<close>

record accepted =
  ac_fd :: int
  ac_nonblock_ok :: bool
  ac_ptr :: "u64 option"
  ac_rx_ok :: bool
  ac_tx_ok :: bool
  ac_garbage :: bytes
  ac_epoll_ok :: bool

text \<open>An event of \<open>epoll_wait\<close> with what happens while it is handled: the connections that wait to
  be accepted, the segments that have arrived, the outcomes of the calls that serve a request.\<close>

record epoll_event =
  ev_data :: u64
  ev_hup :: bool
  ev_in :: bool
  ev_accepts :: "accepted list"
  ev_segments :: "bytes list"
  ev_after :: read_end
  ev_malloc :: "nat \<Rightarrow> node_id option"
  ev_env :: "nat \<Rightarrow> request_env"
  ev_sends :: "nat \<Rightarrow> send_result list"

datatype server_stop = Loop_blocked | Handler_fault | Freed_channel

definition get_service_table ::
  "(nat \<Rightarrow> node_handler service_table option) \<Rightarrow> service_registry option \<Rightarrow> node_handler service_table option" where
  "get_service_table tables registry =
     (case registry of
        None \<Rightarrow> None
      | Some reg \<Rightarrow> tables (service_registry_get reg SERVICE_TYPE_RPC_SERVER ''service_table''))"

definition set_service_table :: "nat \<Rightarrow> service_registry option \<Rightarrow> service_registry option" where
  "set_service_table table =
     map_option (\<lambda>reg. snd (service_registry_register reg SERVICE_TYPE_RPC_SERVER ''service_table'' table))"

text \<open>\<open>events[i].data.fd\<close>: the low half of the data, read as an \<open>int\<close>.\<close>

definition data_fd :: "u64 \<Rightarrow> int" where
  "data_fd d = sint (ucast d :: u32)"

definition listener_of :: "multi_listener \<Rightarrow> u64 \<Rightarrow> rpc_listener option" where
  "listener_of ml d = first_with lis_fd (data_fd d) (take (lis_count ml) (listeners ml))"

fun accept_loop :: "rpc_channel_type \<Rightarrow> accepted list \<Rightarrow> rpc_server_state \<Rightarrow> rpc_server_state" where
  "accept_loop type [] s = s"
| "accept_loop type (a # as) s =
     (if \<not> ac_nonblock_ok a then accept_loop type as s
      else case ac_ptr a of
        None \<Rightarrow> accept_loop type as s
      | Some p \<Rightarrow>
          (case rpc_channel_init (ac_fd a) type MAX_BUFFER_SIZE (ac_rx_ok a) (ac_tx_ok a) (ac_garbage a) of
             None \<Rightarrow> accept_loop type as s
           | Some ch \<Rightarrow>
               if \<not> ac_epoll_ok a then accept_loop type as s
               else accept_loop type as
                 (s\<lparr>srv_channels := (srv_channels s)(p \<mapsto> ch), srv_fds := insert (ac_fd a) (srv_fds s),
                    srv_kernel := (srv_kernel s)(ac_fd a := [])\<rparr>)))"

text \<open>The requests of one event are served one after the other.\<close>

fun serve_requests ::
  "(nat \<Rightarrow> request_env) \<Rightarrow> (nat \<Rightarrow> send_result list) \<Rightarrow> node_handler service_table \<Rightarrow> rpc_channel \<Rightarrow> nat \<Rightarrow>
   (rpc_async_context \<times> bytes) list \<Rightarrow> node_state \<Rightarrow> server_stop + bytes \<times> node_state" where
  "serve_requests env sends table ch k [] n = Inr ([], n)"
| "serve_requests env sends table ch k ((ctx, payload) # rs) n =
     (case serve_request (env k) table ch ctx payload (sends k) n of
        (Answered out, n) \<Rightarrow>
          and_then (serve_requests env sends table ch (Suc k) rs n) (\<lambda>(more, n). Inr (out @ more, n))
      | (Blocked, n) \<Rightarrow> Inl Loop_blocked
      | (_, n) \<Rightarrow> Inl Handler_fault)"

definition connection_event ::
  "(nat \<Rightarrow> node_handler service_table option) \<Rightarrow> epoll_event \<Rightarrow> u64 \<Rightarrow> rpc_channel \<Rightarrow> rpc_server_state \<Rightarrow>
   server_stop + rpc_server_state" where
  "connection_event tables ev p ch s =
     (let table = get_service_table tables (srv_registry s);
          fd = socket_fd ch
      in case rpc_connection_event table (ev_malloc ev) (srv_counter s) (ev_hup ev) (ev_in ev)
              (srv_kernel s fd @ ev_segments ev) (ev_after ev) ch of
          (ch', requests, left, hang_up) \<Rightarrow>
            and_then (serve_requests (ev_env ev) (ev_sends ev) (case table of None \<Rightarrow> [] | Some t \<Rightarrow> t) ch (srv_counter s)
                (map (\<lambda>(c, payload, h). (c, payload)) requests) (srv_node s))
              (\<lambda>(out, n). Inr (s\<lparr>
                srv_channels := (if hang_up then (srv_channels s)(p := None) else (srv_channels s)(p \<mapsto> ch')),
                srv_fds := (if hang_up then close_fd fd (srv_fds s) else srv_fds s),
                srv_kernel := (srv_kernel s)(fd := left),
                srv_counter := srv_counter s + length requests,
                srv_node := n, srv_sent := srv_sent s @ [(fd, out)]\<rparr>)))"

definition handle_event ::
  "(nat \<Rightarrow> node_handler service_table option) \<Rightarrow> epoll_event \<Rightarrow> rpc_server_state \<Rightarrow> server_stop + rpc_server_state" where
  "handle_event tables ev s =
     (case listener_of (srv_listener s) (ev_data ev) of
        Some l \<Rightarrow> Inr (accept_loop (lis_type l) (ev_accepts ev) s)
      | None \<Rightarrow>
          (case srv_channels s (ev_data ev) of
             None \<Rightarrow> Inl Freed_channel
           | Some ch \<Rightarrow> connection_event tables ev (ev_data ev) ch s))"

fun handle_events ::
  "(nat \<Rightarrow> node_handler service_table option) \<Rightarrow> epoll_event list \<Rightarrow> rpc_server_state \<Rightarrow> server_stop + rpc_server_state" where
  "handle_events tables [] s = Inr s"
| "handle_events tables (ev # evs) s = and_then (handle_event tables ev s) (handle_events tables evs)"

text \<open>The loop: in each turn the shutdown flag is read, \<open>epoll_wait\<close> returns, and the flag is read
  again. While turns are given the loop is in \<open>epoll_wait\<close> (None); 0 is its return.\<close>

datatype epoll_result = Interrupted | Wait_failed | Events "epoll_event list"

record loop_turn =
  flag_before :: bool
  turn_result :: epoll_result
  flag_after :: bool

fun event_loop ::
  "(nat \<Rightarrow> node_handler service_table option) \<Rightarrow> bool \<Rightarrow> loop_turn list \<Rightarrow> rpc_server_state \<Rightarrow>
   server_stop + int option \<times> rpc_server_state" where
  "event_loop tables node [] s = Inr (None, s)"
| "event_loop tables node (t # ts) s =
     (if node \<and> flag_before t then Inr (Some 0, s)
      else case turn_result t of
        Interrupted \<Rightarrow> event_loop tables node ts s
      | Wait_failed \<Rightarrow> Inr (Some 0, s)
      | Events evs \<Rightarrow>
          if node \<and> flag_after t then Inr (Some 0, s)
          else and_then (handle_events tables evs s) (event_loop tables node ts))"

definition node_registered :: "service_registry option \<Rightarrow> bool" where
  "node_registered registry = (case registry of
     None \<Rightarrow> False | Some reg \<Rightarrow> service_registry_get reg SERVICE_TYPE_NODE_STATE ''main'' \<noteq> 0)"

definition rpc_multi_channel_event_loop ::
  "(nat \<Rightarrow> node_handler service_table option) \<Rightarrow> nat \<Rightarrow> loop_turn list \<Rightarrow> rpc_server_state \<Rightarrow>
   server_stop + int option \<times> rpc_server_state" where
  "rpc_multi_channel_event_loop tables table turns s =
     (let s = s\<lparr>srv_registry := set_service_table table (srv_registry s)\<rparr>
      in event_loop tables (node_registered (srv_registry s)) turns s)"

text \<open>The two servers. A run that is still waiting has no result yet.\<close>

definition run_listener ::
  "(nat \<Rightarrow> node_handler service_table option) \<Rightarrow> nat \<Rightarrow> loop_turn list \<Rightarrow> int \<times> multi_listener \<times> int set \<Rightarrow>
   rpc_server_state \<Rightarrow> server_stop + int option \<times> rpc_server_state" where
  "run_listener tables table turns = (\<lambda>(result, ml, fds) s.
     if result \<noteq> 0 then Inr (Some (-1), s\<lparr>srv_listener := ml, srv_fds := rpc_multi_listener_destroy ml fds\<rparr>)
     else and_then (rpc_multi_channel_event_loop tables table turns (s\<lparr>srv_listener := ml, srv_fds := fds\<rparr>)) (\<lambda>(r, s).
       Inr (r, if r = None then s else s\<lparr>srv_fds := rpc_multi_listener_destroy (srv_listener s) (srv_fds s)\<rparr>)))"

definition rpc_worker_run ::
  "(nat \<Rightarrow> node_handler service_table option) \<Rightarrow> int \<Rightarrow> socket_calls \<Rightarrow> u16 \<Rightarrow> nat \<Rightarrow> loop_turn list \<Rightarrow>
   rpc_server_state \<Rightarrow> server_stop + int option \<times> rpc_server_state" where
  "rpc_worker_run tables efd sk data_port table turns s =
     (case rpc_multi_listener_init efd (srv_listener s) (srv_fds s) of
        (result, ml, fds) \<Rightarrow>
          if result \<noteq> 0 then Inr (Some (-1), s\<lparr>srv_listener := ml\<rparr>)
          else run_listener tables table turns (rpc_multi_listener_add sk RPC_CHANNEL_DATA data_port (ml, fds)) s)"

definition rpc_router_run ::
  "(nat \<Rightarrow> node_handler service_table option) \<Rightarrow> int \<Rightarrow> socket_calls \<Rightarrow> socket_calls \<Rightarrow> u16 \<Rightarrow> u16 \<Rightarrow> nat \<Rightarrow>
   loop_turn list \<Rightarrow> rpc_server_state \<Rightarrow> server_stop + int option \<times> rpc_server_state" where
  "rpc_router_run tables efd sk1 sk2 data_port ingress_port table turns s =
     (case rpc_multi_listener_init efd (srv_listener s) (srv_fds s) of
        (result, ml, fds) \<Rightarrow>
          if result \<noteq> 0 then Inr (Some (-1), s\<lparr>srv_listener := ml\<rparr>)
          else case rpc_multi_listener_add sk1 RPC_CHANNEL_DATA data_port (ml, fds) of
            (result, ml, fds) \<Rightarrow>
              if result \<noteq> 0
              then Inr (Some (-1), s\<lparr>srv_listener := ml, srv_fds := rpc_multi_listener_destroy ml fds\<rparr>)
              else run_listener tables table turns
                     (rpc_multi_listener_add sk2 RPC_CHANNEL_INGRESS ingress_port (ml, fds)) s)"

section \<open>What an event does to a channel\<close>

definition channel_sound :: "rpc_channel \<Rightarrow> bool" where
  "channel_sound ch \<longleftrightarrow> length (rx_buffer ch) = MAX_BUFFER_SIZE \<and> rx_data_len ch < MAX_BUFFER_SIZE
     \<and> tx_buffer_size ch = MAX_BUFFER_SIZE"

text \<open>The fields an operation on the receive buffer leaves alone, and the bound it keeps.\<close>

definition same_channel :: "rpc_channel \<Rightarrow> rpc_channel \<Rightarrow> bool" where
  "same_channel ch ch' \<longleftrightarrow> channel_ok ch' \<and> length (rx_buffer ch') = length (rx_buffer ch)
     \<and> tx_buffer_size ch' = tx_buffer_size ch \<and> socket_fd ch' = socket_fd ch"

lemma same_channel_trans: "same_channel a b \<Longrightarrow> same_channel b c \<Longrightarrow> same_channel a c"
  by (simp add: same_channel_def)

lemma rx_append_same:
  "channel_ok ch \<Longrightarrow> rx_data_len ch + length bs \<le> length (rx_buffer ch) \<Longrightarrow> same_channel ch (rx_append bs ch)"
  using rx_append_pending [of ch bs] by (simp add: same_channel_def) (simp add: rx_append_def)

lemma read_loop_same:
  "channel_ok ch \<Longrightarrow> rpc_read_loop segs after ch = (ch', left, eof) \<Longrightarrow> same_channel ch ch'"
proof (induction segs arbitrary: ch)
  case Nil
  then show ?case by (simp add: same_channel_def)
next
  case (Cons seg segs)
  let ?space = "length (rx_buffer ch) - rx_data_len ch"
  consider "length (rx_buffer ch) \<le> rx_data_len ch" | "rx_data_len ch < length (rx_buffer ch)" "?space < length seg"
    | "rx_data_len ch < length (rx_buffer ch)" "length seg \<le> ?space" by linarith
  then show ?case
  proof cases
    case 1
    with Cons.prems show ?thesis by (simp add: same_channel_def)
  next
    case 2
    with Cons.prems show ?thesis by (auto simp: Let_def intro!: rx_append_same)
  next
    case 3
    then have a: "same_channel ch (rx_append seg ch)" using Cons.prems(1) by (intro rx_append_same) simp_all
    then have "channel_ok (rx_append seg ch)" by (simp add: same_channel_def)
    with 3 Cons.prems(2) have "same_channel (rx_append seg ch) ch'" by (auto simp: Let_def intro: Cons.IH)
    with a show ?thesis by (rule same_channel_trans)
  qed
qed

lemma frames_used: "rpc_frames malloc k bs = (rs, used, e) \<Longrightarrow> used \<le> length bs"
proof (induction malloc k bs arbitrary: rs used e rule: rpc_frames.induct)
  case (1 malloc k bs)
  show ?case
  proof (cases "used = 0")
    case False
    then obtain h g where "rpc_unpack_header bs = Some h" "\<not> length bs < unat (h_total_len h)"
      "malloc k = Some g" "\<not> length bs < RPC_HEADER_SIZE"
      using "1.prems" by (subst (asm) rpc_frames.simps) (auto split: if_splits option.splits)
    moreover obtain rs' used' e' where "rpc_frames malloc (Suc k) (drop (unat (h_total_len h)) bs) = (rs', used', e')"
      by (rule prod_cases3)
    ultimately show ?thesis
      using "1.prems" "1.IH" [of h g rs' used' e'] by (subst (asm) rpc_frames.simps) auto
  qed simp
qed

lemma compact_same: "channel_ok ch \<Longrightarrow> n \<le> rx_data_len ch \<Longrightarrow> same_channel ch (compact n ch)"
  using compact_pending [of ch n] by (simp add: same_channel_def) (simp add: compact_def Let_def)

lemma process_same:
  assumes "channel_ok ch" and "process_buffered_data table malloc k ch = (ch', rs)"
  shows "same_channel ch ch'"
proof -
  obtain fs used e where f: "rpc_frames malloc k (take (rx_data_len ch) (rx_buffer ch)) = (fs, used, e)"
    by (rule prod_cases3)
  then have "used \<le> rx_data_len ch" using frames_used [OF f] by simp
  with assms f compact_same [OF assms(1)] show ?thesis
    by (auto simp: process_buffered_data_def same_channel_def channel_ok_def split: option.splits frames_end.splits)
qed

text \<open>An event keeps a channel that stays open sound, with room in its buffer.\<close>

lemma connection_keeps:
  assumes "channel_sound ch"
    and "rpc_connection_event table malloc k hup inp segs after ch = (ch', rs, left, False)"
  shows "channel_sound ch' \<and> socket_fd ch' = socket_fd ch"
proof -
  have ok: "channel_ok ch" using assms(1) by (simp add: channel_ok_def channel_sound_def)
  obtain ch1 l eof where r: "rpc_read_loop segs after ch = (ch1, l, eof)" by (rule prod_cases3)
  note s1 = read_loop_same [OF ok r]
  obtain ch2 rs2 where p: "process_buffered_data table malloc k ch1 = (ch2, rs2)" by fastforce
  have "same_channel ch1 ch2" using s1 p by (intro process_same) (simp_all add: same_channel_def)
  with s1 have s2: "same_channel ch ch2" by (rule same_channel_trans)
  show ?thesis
    using assms s1 s2 r p
    by (cases inp) (auto simp: rpc_connection_event_def Let_def channel_sound_def same_channel_def channel_ok_def
        split: if_splits)
qed

lemma new_channel_sound:
  "rpc_channel_init fd type MAX_BUFFER_SIZE a b g = Some ch \<Longrightarrow> channel_sound ch \<and> socket_fd ch = fd"
  by (auto simp: rpc_channel_init_def channel_sound_def MAX_BUFFER_SIZE_def split: if_splits)

section \<open>Descriptors and channels while the loop runs\<close>

definition listener_fds :: "multi_listener \<Rightarrow> int set" where
  "listener_fds ml = lis_fd ` set (take (lis_count ml) (listeners ml))"

definition channel_fds :: "rpc_server_state \<Rightarrow> int set" where
  "channel_fds s = {fd. \<exists>p ch. srv_channels s p = Some ch \<and> socket_fd ch = fd}"

lemma channel_fds_frame [simp]: "channel_fds (s\<lparr>srv_fds := fds\<rparr>) = channel_fds s"
  by (simp add: channel_fds_def)

lemma channel_fdsI: "srv_channels s p = Some ch \<Longrightarrow> socket_fd ch \<in> channel_fds s"
  by (auto simp: channel_fds_def)

lemma channel_fds_upd:
  assumes "srv_channels t = (srv_channels s)(p \<mapsto> ch)"
  shows "srv_channels s p = None \<Longrightarrow> channel_fds t = insert (socket_fd ch) (channel_fds s)"
    and "srv_channels s p = Some ch0 \<Longrightarrow> socket_fd ch0 = socket_fd ch \<Longrightarrow> channel_fds t = channel_fds s"
  unfolding channel_fds_def assms by (simp_all, safe, auto, (metis option.distinct(1) option.inject)+)

abbreviation own_fds :: "multi_listener \<Rightarrow> int set" where
  "own_fds ml \<equiv> insert (epoll_fd ml) (listener_fds ml)"

text \<open>Besides \<open>base\<close>, what the process held before, there are exactly the epoll descriptor, the
  listening sockets and one socket for each channel, and the channels are sound. The address of a
  channel may well read as the descriptor of a listener: its events then go to the listener.\<close>

definition server_ok :: "int set \<Rightarrow> rpc_server_state \<Rightarrow> bool" where
  "server_ok base s \<longleftrightarrow>
     srv_fds s = base \<union> own_fds (srv_listener s) \<union> channel_fds s
     \<and> base \<inter> own_fds (srv_listener s) = {} \<and> channel_fds s \<inter> (base \<union> own_fds (srv_listener s)) = {}
     \<and> (\<forall>p q a b. srv_channels s p = Some a \<longrightarrow> srv_channels s q = Some b \<longrightarrow> socket_fd a = socket_fd b \<longrightarrow> p = q)
     \<and> (\<forall>p ch. srv_channels s p = Some ch \<longrightarrow> channel_sound ch)"

text \<open>What the kernel and the allocator guarantee: a new descriptor is not in use, and a new block is
  not one that is still allocated.\<close>

fun accepts_fresh :: "rpc_channel_type \<Rightarrow> accepted list \<Rightarrow> rpc_server_state \<Rightarrow> bool" where
  "accepts_fresh type [] s = True"
| "accepts_fresh type (a # as) s =
     (ac_fd a \<notin> srv_fds s
      \<and> (case ac_ptr a of None \<Rightarrow> True | Some p \<Rightarrow> srv_channels s p = None)
      \<and> accepts_fresh type as (accept_loop type [a] s))"

fun events_fresh ::
  "(nat \<Rightarrow> node_handler service_table option) \<Rightarrow> epoll_event list \<Rightarrow> rpc_server_state \<Rightarrow> bool" where
  "events_fresh tables [] s = True"
| "events_fresh tables (ev # evs) s =
     ((case listener_of (srv_listener s) (ev_data ev) of None \<Rightarrow> True | Some l \<Rightarrow> accepts_fresh (lis_type l) (ev_accepts ev) s)
      \<and> (case handle_event tables ev s of Inl _ \<Rightarrow> True | Inr s' \<Rightarrow> events_fresh tables evs s'))"

text \<open>\<open>epoll_wait\<close> reports only what is registered, and a connection at most once. (Two events may name
  one listener: a connection whose address has the listener's descriptor in its low half does.)\<close>

definition registered :: "rpc_server_state \<Rightarrow> u64 \<Rightarrow> bool" where
  "registered s d \<longleftrightarrow> listener_of (srv_listener s) d \<noteq> None \<or> srv_channels s d \<noteq> None"

definition delivered ::
  "(nat \<Rightarrow> node_handler service_table option) \<Rightarrow> epoll_event list \<Rightarrow> rpc_server_state \<Rightarrow> bool" where
  "delivered tables evs s \<longleftrightarrow>
     distinct (map ev_data (filter (\<lambda>ev. listener_of (srv_listener s) (ev_data ev) = None) evs))
     \<and> list_all (\<lambda>ev. registered s (ev_data ev)) evs
     \<and> events_fresh tables evs s"

inductive server_turn ::
  "(nat \<Rightarrow> node_handler service_table option) \<Rightarrow> rpc_server_state \<Rightarrow> rpc_server_state \<Rightarrow> bool" for tables where
  "delivered tables evs s \<Longrightarrow> handle_events tables evs s = Inr t \<Longrightarrow> server_turn tables s t"

lemma accept_one:
  assumes "server_ok base s" and "accepts_fresh type [a] s"
  shows "server_ok base (accept_loop type [a] s)"
proof (cases "ac_ptr a")
  case (Some p)
  show ?thesis
  proof (cases "rpc_channel_init (ac_fd a) type MAX_BUFFER_SIZE (ac_rx_ok a) (ac_tx_ok a) (ac_garbage a)")
    case ch: (Some ch)
    note new = new_channel_sound [OF ch]
    let ?s = "s\<lparr>srv_channels := (srv_channels s)(p \<mapsto> ch), srv_fds := insert (ac_fd a) (srv_fds s),
      srv_kernel := (srv_kernel s)(ac_fd a := [])\<rparr>"
    have fresh: "ac_fd a \<notin> srv_fds s" "srv_channels s p = None"
      using assms(2) Some by simp_all
    have "channel_fds ?s = insert (ac_fd a) (channel_fds s)"
      using channel_fds_upd(1) [of ?s s p ch] fresh(2) new by simp
    moreover have ne: "socket_fd b \<noteq> ac_fd a" if "srv_channels s q = Some b" for q b
      using assms(1) fresh(1) channel_fdsI [OF that] by (auto simp: server_ok_def)
    ultimately have "server_ok base ?s"
      using assms(1) fresh new unfolding server_ok_def by (auto split: if_splits dest: ne)
    with assms(1) Some ch show ?thesis by simp
  qed (use assms(1) Some in simp)
qed (use assms(1) in simp)

lemma accept_loop_Cons: "accept_loop type (a # as) s = accept_loop type as (accept_loop type [a] s)"
  by (auto split: option.splits)

lemma accept_loop_frame:
  "srv_listener (accept_loop type as s) = srv_listener s"
  "accepts_fresh type as s \<Longrightarrow> srv_channels s q \<noteq> None \<Longrightarrow> srv_channels (accept_loop type as s) q \<noteq> None"
proof -
  show "srv_listener (accept_loop type as s) = srv_listener s"
    by (induction type as s rule: accept_loop.induct) (auto split: option.splits)
  show "srv_channels (accept_loop type as s) q \<noteq> None" if "accepts_fresh type as s" "srv_channels s q \<noteq> None"
    using that
  proof (induction as arbitrary: s)
    case (Cons a as)
    then have "srv_channels (accept_loop type [a] s) q \<noteq> None" by (auto split: option.splits)
    with Cons show ?case by (subst accept_loop_Cons) simp
  qed simp
qed

lemma accept_loop_ok: "server_ok base s \<Longrightarrow> accepts_fresh type as s \<Longrightarrow> server_ok base (accept_loop type as s)"
proof (induction as arbitrary: s)
  case (Cons a as)
  have "accepts_fresh type [a] s" using Cons.prems(2) by simp
  from accept_one [OF Cons.prems(1) this] have "server_ok base (accept_loop type [a] s)" .
  with Cons show ?case by (subst accept_loop_Cons) simp
qed simp

lemma connection_event_ok:
  assumes "server_ok base s" and "srv_channels s p = Some ch" and "connection_event tables ev p ch s = Inr t"
  shows "server_ok base t \<and> srv_listener t = srv_listener s \<and> (\<forall>q. q \<noteq> p \<longrightarrow> srv_channels t q = srv_channels s q)"
proof -
  obtain ch' rs left hang where r: "rpc_connection_event (get_service_table tables (srv_registry s)) (ev_malloc ev)
      (srv_counter s) (ev_hup ev) (ev_in ev) (srv_kernel s (socket_fd ch) @ ev_segments ev) (ev_after ev) ch =
      (ch', rs, left, hang)" by (rule prod_cases4)
  have t: "srv_listener t = srv_listener s"
    "srv_channels t = (if hang then (srv_channels s)(p := None) else (srv_channels s)(p \<mapsto> ch'))"
    "srv_fds t = (if hang then close_fd (socket_fd ch) (srv_fds s) else srv_fds s)"
    using assms(3) r by (auto simp: connection_event_def Let_def and_then_Inr_iff)
  have one: "socket_fd b \<noteq> socket_fd ch" if "srv_channels s q = Some b" "q \<noteq> p" for q b
    using assms(1,2) that unfolding server_ok_def by metis
  have sound: "channel_sound ch" using assms(1,2) unfolding server_ok_def by blast
  have mine: "socket_fd ch \<notin> base \<union> own_fds (srv_listener s)"
    using assms(1) channel_fdsI [OF assms(2)] unfolding server_ok_def by blast
  have "server_ok base t"
  proof (cases hang)
    case True
    have "channel_fds t = channel_fds s - {socket_fd ch}"
      using one assms(2) by (auto simp: channel_fds_def t(2) True) (metis option.inject)
    then show ?thesis
      using assms(1) mine True unfolding server_ok_def t close_fd_def by (auto split: if_splits)
  next
    case False
    with r have "rpc_connection_event (get_service_table tables (srv_registry s)) (ev_malloc ev) (srv_counter s)
      (ev_hup ev) (ev_in ev) (srv_kernel s (socket_fd ch) @ ev_segments ev) (ev_after ev) ch = (ch', rs, left, False)" by simp
    from connection_keeps [OF sound this] have new: "channel_sound ch'" "socket_fd ch' = socket_fd ch" by auto
    have "channel_fds t = channel_fds s"
      using channel_fds_upd(2) [of t s p ch' ch] t(2) False assms(2) new(2) by simp
    then show ?thesis
      using assms(1) sound new False unfolding server_ok_def t by (auto split: if_splits dest: one)
  qed
  with t show ?thesis by auto
qed

text \<open>One event: nothing freed is read, and what the events after it name is still there.\<close>

lemma handle_event_ok:
  assumes "server_ok base s" and "delivered tables (ev # evs) s"
  shows "handle_event tables ev s \<noteq> Inl Freed_channel
    \<and> (\<forall>t. handle_event tables ev s = Inr t \<longrightarrow>
          server_ok base t \<and> delivered tables evs t \<and> srv_listener t = srv_listener s)"
proof (cases "listener_of (srv_listener s) (ev_data ev)")
  case (Some l)
  then have h: "handle_event tables ev s = Inr (accept_loop (lis_type l) (ev_accepts ev) s)"
    by (simp add: handle_event_def)
  have f: "accepts_fresh (lis_type l) (ev_accepts ev) s" using assms(2) Some by (simp add: delivered_def)
  show ?thesis
    using accept_loop_ok [OF assms(1) f] accept_loop_frame(2) [OF f] assms(2) h Some
    by (auto simp: delivered_def registered_def list_all_iff accept_loop_frame(1))
next
  case None
  then obtain ch where ch: "srv_channels s (ev_data ev) = Some ch"
    using assms(2) by (auto simp: delivered_def registered_def)
  with None have h: "handle_event tables ev s = connection_event tables ev (ev_data ev) ch s"
    by (simp add: handle_event_def)
  have "delivered tables evs t" if "connection_event tables ev (ev_data ev) ch s = Inr t" for t
  proof -
    have "registered t (ev_data e)" if "e \<in> set evs" for e
    proof -
      have "listener_of (srv_listener s) (ev_data e) \<noteq> None \<or> ev_data e \<noteq> ev_data ev" "registered s (ev_data e)"
        using assms(2) that None by (auto simp: delivered_def list_all_iff image_iff)
      then show ?thesis
        using connection_event_ok [OF assms(1) ch \<open>connection_event tables ev (ev_data ev) ch s = Inr t\<close>]
        by (auto simp: registered_def)
    qed
    moreover have "srv_listener t = srv_listener s"
      using connection_event_ok [OF assms(1) ch that] by blast
    ultimately show ?thesis using assms(2) that h None by (simp add: delivered_def list_all_iff)
  qed
  moreover have "serve_requests env sends table c k rs n \<noteq> Inl Freed_channel" for env sends table c k rs n
    by (induction env sends table c k rs n rule: serve_requests.induct)
      (auto split: prod.splits served.splits sum.splits elim!: and_then.elims)
  then have "connection_event tables ev (ev_data ev) ch s \<noteq> Inl Freed_channel"
    by (auto simp: connection_event_def Let_def split: prod.splits elim!: and_then.elims)
  ultimately show ?thesis using connection_event_ok [OF assms(1) ch] h by metis
qed

lemma handle_events_ok:
  "server_ok base s \<Longrightarrow> delivered tables evs s \<Longrightarrow> handle_events tables evs s \<noteq> Inl Freed_channel
    \<and> (\<forall>t. handle_events tables evs s = Inr t \<longrightarrow> server_ok base t \<and> srv_listener t = srv_listener s)"
proof (induction evs arbitrary: s)
  case (Cons ev evs)
  show ?case
  proof (cases "handle_event tables ev s")
    case (Inl e)
    then show ?thesis using handle_event_ok [OF Cons.prems] by simp
  next
    case (Inr u)
    then have "server_ok base u" "delivered tables evs u" "srv_listener u = srv_listener s"
      using handle_event_ok [OF Cons.prems] by blast+
    with Cons.IH [of u] Inr show ?thesis by (metis and_then.simps(2) handle_events.simps(2))
  qed
qed simp

interpretation server_runs: run_invariant "server_turn tables" "server_ok base" for tables base
  by unfold_locales (auto elim!: server_turn.cases dest: handle_events_ok)

text \<open>The conditions of the kernel along the turns of a loop.\<close>

fun turns_ok ::
  "(nat \<Rightarrow> node_handler service_table option) \<Rightarrow> loop_turn list \<Rightarrow> rpc_server_state \<Rightarrow> bool" where
  "turns_ok tables [] s = True"
| "turns_ok tables (t # ts) s =
     (case turn_result t of
        Events evs \<Rightarrow> delivered tables evs s
          \<and> (case handle_events tables evs s of Inl _ \<Rightarrow> True | Inr s' \<Rightarrow> turns_ok tables ts s')
      | _ \<Rightarrow> turns_ok tables ts s)"

definition loop_sound :: "int set \<Rightarrow> multi_listener \<Rightarrow> server_stop + int option \<times> rpc_server_state \<Rightarrow> bool" where
  "loop_sound base ml r \<longleftrightarrow> (case r of
     Inl e \<Rightarrow> e \<noteq> Freed_channel
   | Inr (code, t) \<Rightarrow> server_ok base t \<and> srv_listener t = ml \<and> code \<in> {None, Some 0})"

lemma loop_sound_Inr: "loop_sound base ml (Inr (code, t)) \<longleftrightarrow> server_ok base t \<and> srv_listener t = ml \<and> code \<in> {None, Some 0}"
  by (simp add: loop_sound_def)

lemma event_loop_ok:
  "server_ok base s \<Longrightarrow> turns_ok tables ts s \<Longrightarrow> srv_listener s = ml \<Longrightarrow> loop_sound base ml (event_loop tables node ts s)"
proof (induction ts arbitrary: s)
  case (Cons t ts)
  show ?case
  proof (cases "turn_result t")
    case (Events evs)
    then have d: "delivered tables evs s" using Cons.prems(2) by simp
    note batch = handle_events_ok [OF Cons.prems(1) d]
    show ?thesis
    proof (cases "handle_events tables evs s")
      case (Inl e)
      then show ?thesis using batch Cons.prems(1,3) Events by (auto simp: loop_sound_def)
    next
      case (Inr u)
      then have "server_ok base u" "srv_listener u = srv_listener s" using batch by blast+
      moreover have "turns_ok tables ts u" using Cons.prems(2) Events Inr by simp
      ultimately have "loop_sound base ml (event_loop tables node ts u)" using Cons.IH [of u] Cons.prems(3) by simp
      then show ?thesis using Inr Events Cons.prems(1,3) by (simp add: loop_sound_Inr)
    qed
  qed (use Cons in \<open>auto simp: loop_sound_Inr\<close>)
qed (simp add: loop_sound_Inr)

lemma destroy_eq: "-1 \<notin> own_fds ml \<Longrightarrow> rpc_multi_listener_destroy ml fds = fds - own_fds ml"
proof -
  have "-1 \<notin> lis_fd ` set ls \<Longrightarrow>
      foldl (\<lambda>fds l. if lis_fd l \<noteq> -1 then close_fd (lis_fd l) fds else fds) fds ls = fds - lis_fd ` set ls" for ls fds
    by (induction ls arbitrary: fds) (auto simp: close_fd_def)
  from this [of "take (lis_count ml) (listeners ml)"] show "-1 \<notin> own_fds ml \<Longrightarrow> ?thesis"
    by (auto simp: rpc_multi_listener_destroy_def listener_fds_def close_fd_def Let_def)
qed

text \<open>A server before it starts: no channel, room for the listeners.\<close>

definition idle :: "int set \<Rightarrow> rpc_server_state \<Rightarrow> bool" where
  "idle base s \<longleftrightarrow> srv_fds s = base \<and> srv_channels s = (\<lambda>_. None) \<and> length (listeners (srv_listener s)) = 3"

definition add_ok :: "socket_calls \<Rightarrow> bool" where
  "add_ok sk \<longleftrightarrow> sk_fd sk \<noteq> -1 \<and> sk_reuse_ok sk \<and> sk_nonblock_ok sk \<and> sk_bind_ok sk \<and> sk_listen_ok sk \<and> sk_epoll_ok sk"

lemma listener_add:
  assumes "lis_count ml < 3" and "lis_count ml < length (listeners ml)" and "sk_fd sk \<notin> fds"
  shows "rpc_multi_listener_add sk ty port (ml, fds) =
    (if add_ok sk
     then (0, ml\<lparr>listeners := (listeners ml)[lis_count ml := \<lparr>lis_fd = sk_fd sk, lis_type = ty, lis_port = port\<rparr>],
                  lis_count := Suc (lis_count ml)\<rparr>, insert (sk_fd sk) fds)
     else (-1, ml, fds))"
  using assms by (auto simp: rpc_multi_listener_add_def add_ok_def MAX_CHANNEL_TYPES_def close_fd_def Let_def)

definition router_listener :: "int \<Rightarrow> int \<Rightarrow> int \<Rightarrow> u16 \<Rightarrow> u16 \<Rightarrow> multi_listener \<Rightarrow> multi_listener" where
  "router_listener efd fd1 fd2 data_port ingress_port ml = ml\<lparr>
     listeners := (map (\<lambda>l. l\<lparr>lis_fd := -1, lis_port := 0\<rparr>) (listeners ml))
       [0 := \<lparr>lis_fd = fd1, lis_type = RPC_CHANNEL_DATA, lis_port = data_port\<rparr>,
        1 := \<lparr>lis_fd = fd2, lis_type = RPC_CHANNEL_INGRESS, lis_port = ingress_port\<rparr>],
     lis_count := 2, epoll_fd := efd\<rparr>"

definition router_started ::
  "int \<Rightarrow> int \<Rightarrow> int \<Rightarrow> u16 \<Rightarrow> u16 \<Rightarrow> nat \<Rightarrow> rpc_server_state \<Rightarrow> rpc_server_state" where
  "router_started efd fd1 fd2 data_port ingress_port table s = s\<lparr>
     srv_listener := router_listener efd fd1 fd2 data_port ingress_port (srv_listener s),
     srv_fds := insert fd2 (insert fd1 (insert efd (srv_fds s))),
     srv_registry := set_service_table table (srv_registry s)\<rparr>"

lemma router_listener_fds:
  assumes "length (listeners ml) = 3"
  shows "listener_fds (router_listener efd fd1 fd2 p1 p2 ml) = {fd1, fd2}"
    "epoll_fd (router_listener efd fd1 fd2 p1 p2 ml) = efd"
proof -
  obtain a b c where "listeners ml = [a, b, c]" using assms by (auto simp: numeral_3_eq_3 length_Suc_conv)
  then show "listener_fds (router_listener efd fd1 fd2 p1 p2 ml) = {fd1, fd2}"
    by (auto simp: listener_fds_def router_listener_def)
qed (simp add: router_listener_def)

lemma router_started_ok:
  assumes "idle base s" and "efd \<notin> base" and "fd1 \<notin> base" and "fd2 \<notin> base"
  shows "server_ok base (router_started efd fd1 fd2 p1 p2 table s)"
  using assms router_listener_fds [of "srv_listener s" efd fd1 fd2 p1 p2]
  by (simp add: idle_def server_ok_def router_started_def channel_fds_def) auto

text \<open>Setting the router's listeners up either succeeds or closes what it opened.\<close>

lemma router_run_cases:
  assumes "idle base s" and "efd \<notin> base" and "-1 \<notin> base"
    and "sk_fd sk1 \<notin> insert efd base" and "sk_fd sk2 \<notin> {efd, sk_fd sk1} \<union> base"
    and t_def: "t = router_started efd (sk_fd sk1) (sk_fd sk2) p1 p2 table s"
  shows "if efd \<noteq> -1 \<and> add_ok sk1 \<and> add_ok sk2
    then rpc_router_run tables efd sk1 sk2 p1 p2 table turns s =
      and_then (event_loop tables (node_registered (srv_registry t)) turns t) (\<lambda>(r, s).
        Inr (r, if r = None then s else s\<lparr>srv_fds := rpc_multi_listener_destroy (srv_listener s) (srv_fds s)\<rparr>))
    else \<exists>s'. rpc_router_run tables efd sk1 sk2 p1 p2 table turns s = Inr (Some (-1), s')
        \<and> srv_fds s' = base \<and> srv_channels s' = srv_channels s"
proof -
  define ml0 where "ml0 = (srv_listener s)\<lparr>lis_count := 0, epoll_fd := efd,
    listeners := map (\<lambda>l. l\<lparr>lis_fd := -1, lis_port := 0\<rparr>) (listeners (srv_listener s))\<rparr>"
  define ml1 where "ml1 = ml0\<lparr>listeners := (listeners ml0)[0 := \<lparr>lis_fd = sk_fd sk1, lis_type = RPC_CHANNEL_DATA, lis_port = p1\<rparr>],
    lis_count := 1\<rparr>"
  have s: "srv_fds s = base" "length (listeners (srv_listener s)) = 3" using assms(1) by (simp_all add: idle_def)
  have init: "rpc_multi_listener_init efd (srv_listener s) base =
      (if efd = -1 then (-1, (srv_listener s)\<lparr>lis_count := 0, epoll_fd := efd\<rparr>, base) else (0, ml0, insert efd base))"
    by (simp add: rpc_multi_listener_init_def ml0_def)
  have add1: "rpc_multi_listener_add sk1 RPC_CHANNEL_DATA p1 (ml0, insert efd base) =
      (if add_ok sk1 then (0, ml1, insert (sk_fd sk1) (insert efd base)) else (-1, ml0, insert efd base))"
    using listener_add [of ml0 sk1 "insert efd base"] s(2) assms(4) by (simp add: ml0_def ml1_def)
  have add2: "rpc_multi_listener_add sk2 RPC_CHANNEL_INGRESS p2 (ml1, insert (sk_fd sk1) (insert efd base)) =
      (if add_ok sk2 then (0, router_listener efd (sk_fd sk1) (sk_fd sk2) p1 p2 (srv_listener s),
         insert (sk_fd sk2) (insert (sk_fd sk1) (insert efd base)))
       else (-1, ml1, insert (sk_fd sk1) (insert efd base)))"
    using listener_add [of ml1 sk2 "insert (sk_fd sk1) (insert efd base)"] s(2) assms(5)
    by (simp add: router_listener_def ml0_def ml1_def numeral_2_eq_2)
  have shut0: "rpc_multi_listener_destroy ml0 (insert efd base) = base" if "efd \<noteq> -1"
    using that assms(2) by (subst destroy_eq) (auto simp: listener_fds_def ml0_def)
  obtain a b c where "listeners (srv_listener s) = [a, b, c]"
    using s(2) by (auto simp: numeral_3_eq_3 length_Suc_conv)
  then have shut1: "rpc_multi_listener_destroy ml1 (insert (sk_fd sk1) (insert efd base)) = base" if "efd \<noteq> -1" "add_ok sk1"
    using that assms(2,4) by (subst destroy_eq) (auto simp: listener_fds_def add_ok_def ml0_def ml1_def)
  show ?thesis
  proof (cases "efd = -1")
    case True
    then show ?thesis using s(1) by (simp add: rpc_router_run_def rpc_multi_listener_init_def)
  next
    case False
    have loop: "rpc_multi_channel_event_loop tables table turns (s\<lparr>
          srv_listener := router_listener efd (sk_fd sk1) (sk_fd sk2) p1 p2 (srv_listener s),
          srv_fds := insert (sk_fd sk2) (insert (sk_fd sk1) (insert efd base))\<rparr>) =
        event_loop tables (node_registered (srv_registry t)) turns t"
      by (simp add: rpc_multi_channel_event_loop_def t_def router_started_def s(1))
    from False shut0 shut1 show ?thesis
      by (cases "add_ok sk1"; cases "add_ok sk2")
        (simp_all add: rpc_router_run_def s(1) init run_listener_def add1 add2 loop)
  qed
qed

text \<open>C9: The descriptors of a router, when \<open>accept\<close> returns descriptors and \<open>malloc\<close> blocks that are not
  in use and \<open>epoll_wait\<close> reports what is registered, each connection once: started with none of its
  own, the router never reads a channel it has freed, whatever connections are made, sent over and
  dropped. While it runs it holds, besides what the process held before, exactly its epoll
  descriptor, its two listening sockets and one socket for each connection, all different. When it
  returns it has closed the three: after a failed start nothing is left open; after a shutdown
  exactly the sockets of the connections that were still open are, which nobody closes any more.\<close>

theorem router_descriptors:
  assumes "idle base s" and "efd \<notin> base" and "-1 \<notin> base"
    and "sk_fd sk1 \<notin> insert efd base" and "sk_fd sk2 \<notin> {efd, sk_fd sk1} \<union> base"
    and "turns_ok tables turns (router_started efd (sk_fd sk1) (sk_fd sk2) data_port ingress_port table s)"
  shows "case rpc_router_run tables efd sk1 sk2 data_port ingress_port table turns s of
      Inl e \<Rightarrow> e \<noteq> Freed_channel
    | Inr (r, s') \<Rightarrow>
        (\<forall>p q a b. srv_channels s' p = Some a \<and> srv_channels s' q = Some b \<and> socket_fd a = socket_fd b \<longrightarrow> p = q)
        \<and> (case r of
            None \<Rightarrow> srv_fds s' = base \<union> {efd, sk_fd sk1, sk_fd sk2} \<union> channel_fds s'
              \<and> channel_fds s' \<inter> (base \<union> {efd, sk_fd sk1, sk_fd sk2}) = {}
          | Some code \<Rightarrow> srv_fds s' = base \<union> channel_fds s' \<and> channel_fds s' \<inter> base = {}
              \<and> (code \<noteq> 0 \<longrightarrow> channel_fds s' = {}))"
proof (cases "efd \<noteq> -1 \<and> add_ok sk1 \<and> add_ok sk2")
  case False
  with router_run_cases [OF assms(1-5) refl, where tables = tables and turns = turns and table = table
      and ?p1.0 = data_port and ?p2.0 = ingress_port]
  obtain s' where "rpc_router_run tables efd sk1 sk2 data_port ingress_port table turns s = Inr (Some (-1), s')"
    "srv_fds s' = base" "srv_channels s' = srv_channels s" by (simp only: if_False) blast
  with assms(1) show ?thesis by (simp add: idle_def channel_fds_def)
next
  case True
  let ?t = "router_started efd (sk_fd sk1) (sk_fd sk2) data_port ingress_port table s"
  let ?node = "node_registered (srv_registry ?t)"
  have run: "rpc_router_run tables efd sk1 sk2 data_port ingress_port table turns s =
      and_then (event_loop tables ?node turns ?t) (\<lambda>(r, s).
        Inr (r, if r = None then s else s\<lparr>srv_fds := rpc_multi_listener_destroy (srv_listener s) (srv_fds s)\<rparr>))"
    using router_run_cases [OF assms(1-5) refl, where tables = tables and turns = turns and table = table
      and ?p1.0 = data_port and ?p2.0 = ingress_port] True by simp
  have ok: "server_ok base ?t" using assms by (intro router_started_ok) auto
  have "length (listeners (srv_listener s)) = 3" using assms(1) by (simp add: idle_def)
  note own = router_listener_fds [OF this, of efd "sk_fd sk1" "sk_fd sk2" data_port ingress_port]
  then have mine: "own_fds (srv_listener ?t) = {efd, sk_fd sk1, sk_fd sk2}" by (simp add: router_started_def)
  have "-1 \<notin> own_fds (srv_listener ?t)" using True own by (simp add: router_started_def add_ok_def)
  from destroy_eq [OF this]
  have closed_all: "rpc_multi_listener_destroy (srv_listener ?t) (srv_fds u) = base \<union> channel_fds u"
    if "server_ok base u" "srv_listener u = srv_listener ?t" for u
    using that unfolding server_ok_def by auto
  show ?thesis
  proof (cases "event_loop tables ?node turns ?t")
    case (Inl e)
    then show ?thesis unfolding run using event_loop_ok [OF ok assms(6) refl, of ?node] by (simp add: loop_sound_def)
  next
    case (Inr rs)
    then obtain r u where u: "event_loop tables ?node turns ?t = Inr (r, u)" by (cases rs) simp
    then have s: "server_ok base u" "srv_listener u = srv_listener ?t" "r \<in> {None, Some 0}"
      using event_loop_ok [OF ok assms(6) refl, of ?node] by (simp_all add: loop_sound_def)
    have held: "srv_fds u = base \<union> {efd, sk_fd sk1, sk_fd sk2} \<union> channel_fds u"
        "channel_fds u \<inter> (base \<union> {efd, sk_fd sk1, sk_fd sk2}) = {}"
      using s(1) unfolding server_ok_def s(2) mine by blast+
    have "\<forall>p q a b. srv_channels u p = Some a \<and> srv_channels u q = Some b \<and> socket_fd a = socket_fd b \<longrightarrow> p = q"
      using s(1) unfolding server_ok_def by blast
    then show ?thesis
      unfolding run u using held closed_all [OF s(1,2)] s(2,3) by (auto split: option.splits)
  qed
qed

definition idle_server :: rpc_server_state where
  "idle_server = \<lparr>
     srv_listener = \<lparr>listeners = replicate 3 \<lparr>lis_fd = 77, lis_type = RPC_CHANNEL_DATA, lis_port = 7\<rparr>,
       lis_count = 9, epoll_fd = 0\<rparr>,
     srv_channels = (\<lambda>_. None), srv_fds = {0, 1, 2}, srv_kernel = (\<lambda>_. []), srv_registry = None,
     srv_counter = 0, srv_node = sample_node, srv_sent = []\<rparr>"

definition good_socket :: "int \<Rightarrow> socket_calls" where
  "good_socket fd = \<lparr>sk_fd = fd, sk_reuse_ok = True, sk_nonblock_ok = True, sk_bind_ok = True, sk_listen_ok = True,
     sk_epoll_ok = True\<rparr>"

definition new_connection :: "int \<Rightarrow> u64 \<Rightarrow> accepted" where
  "new_connection fd p = \<lparr>ac_fd = fd, ac_nonblock_ok = True, ac_ptr = Some p, ac_rx_ok = True, ac_tx_ok = True,
     ac_garbage = [], ac_epoll_ok = True\<rparr>"

definition accept_event :: "u64 \<Rightarrow> accepted list \<Rightarrow> epoll_event" where
  "accept_event d as = \<lparr>ev_data = d, ev_hup = False, ev_in = True, ev_accepts = as, ev_segments = [],
     ev_after = Would_block, ev_malloc = (\<lambda>_. None), ev_env = (\<lambda>_. some_env), ev_sends = (\<lambda>_. [])\<rparr>"

abbreviation sample_turns :: "loop_turn list" where
  "sample_turns \<equiv> [\<lparr>flag_before = False, turn_result = Events [accept_event 5 [new_connection 9 0x1000]], flag_after = False\<rparr>,
     \<lparr>flag_before = False, turn_result = Wait_failed, flag_after = False\<rparr>]"

lemma idle_server_idle: "idle {0, 1, 2} idle_server"
  by (simp add: idle_def idle_server_def)

lemma sample_data_fd: "data_fd 5 = 5" "data_fd 0x1000 = 4096"
  by (simp_all add: data_fd_def)

lemma sample_listener:
  "listener_of (srv_listener (router_started 3 4 5 7000 7100 8 idle_server)) 5 =
     Some \<lparr>lis_fd = 5, lis_type = RPC_CHANNEL_INGRESS, lis_port = 7100\<rparr>"
  "listener_of (srv_listener (router_started 3 4 5 7000 7100 8 idle_server)) 0x1000 = None"
  by (simp_all add: listener_of_def router_started_def router_listener_def idle_server_def sample_data_fd
      numeral_3_eq_3 numeral_2_eq_2 del: numeral_eq_iff)

lemma sample_turns_ok: "turns_ok (\<lambda>_. None) sample_turns (router_started 3 4 5 7000 7100 8 idle_server)"
  by (simp add: delivered_def registered_def accept_event_def new_connection_def sample_listener handle_event_def)
    (simp add: router_started_def idle_server_def)

theorem router_descriptors_witness:
  "\<exists>s'. rpc_router_run (\<lambda>_. None) 3 (good_socket 4) (good_socket 5) 7000 7100 8 sample_turns idle_server = Inr (Some 0, s')
    \<and> srv_fds s' = {0, 1, 2} \<union> channel_fds s' \<and> channel_fds s' = {9}"
proof -
  have "sk_fd (good_socket 4) \<notin> insert 3 {0, 1, 2}" "sk_fd (good_socket 5) \<notin> {3, sk_fd (good_socket 4)} \<union> {0, 1, 2}"
    "turns_ok (\<lambda>_. None) sample_turns
       (router_started 3 (sk_fd (good_socket 4)) (sk_fd (good_socket 5)) 7000 7100 8 idle_server)"
    using sample_turns_ok by (simp_all add: good_socket_def)
  note facts = router_descriptors [OF idle_server_idle _ _ this]
  let ?s = "router_started 3 4 5 7000 7100 8 idle_server"
  let ?t = "accept_loop RPC_CHANNEL_INGRESS [new_connection 9 0x1000] ?s"
  have "event_loop (\<lambda>_. None) node sample_turns ?s = Inr (Some 0, ?t)" for node
    by (simp add: handle_event_def sample_listener) (simp add: accept_event_def sample_listener)
  moreover have "channel_fds ?t = {9}"
    by (simp add: channel_fds_def new_connection_def rpc_channel_init_def MAX_BUFFER_SIZE_def)
      (simp add: router_started_def idle_server_def)
  ultimately obtain u where u: "\<And>node. event_loop (\<lambda>_. None) node sample_turns ?s = Inr (Some 0, u)" "channel_fds u = {9}"
    by blast
  have "(3 :: int) \<noteq> -1 \<and> add_ok (good_socket 4) \<and> add_ok (good_socket 5)" "sk_fd (good_socket 4) = 4" "sk_fd (good_socket 5) = 5"
    by (simp_all add: good_socket_def add_ok_def)
  then have "rpc_router_run (\<lambda>_. None) 3 (good_socket 4) (good_socket 5) 7000 7100 8 sample_turns idle_server
      = Inr (Some 0, u\<lparr>srv_fds := rpc_multi_listener_destroy (srv_listener u) (srv_fds u)\<rparr>)"
    using router_run_cases [OF idle_server_idle _ _ _ _ refl, of 3 "good_socket 4" "good_socket 5" "\<lambda>_. None" 7000 7100 8 sample_turns]
      u(1) by (simp del: event_loop.simps)
  then have "\<exists>s'. rpc_router_run (\<lambda>_. None) 3 (good_socket 4) (good_socket 5) 7000 7100 8 sample_turns idle_server
      = Inr (Some 0, s') \<and> channel_fds s' = {9}" using u(2) by simp
  with facts show ?thesis by auto
qed

end
