(* ===== verification/Remote_Calls.thy ===== *)
theory Remote_Calls
  imports Rpc_Server
begin

text \<open>
  The composition of src/core/rpc.c with the handlers of src/node/node_handlers.c: what the server
  of \<open>Rpc_Server\<close> sends back for the calls that arrive on one connection, against a specification
  that runs the handlers on whole calls.
\<close>

section \<open>A remote call, from bytes to bytes\<close>

text \<open>What the server means to do with a sequence of calls: run the handler of each on the state the
  one before it left, and answer under the call's own request and function id. None when a handler
  blocks or faults, or when a reply does not fit the send buffer.\<close>

definition reply_to :: "node_id \<Rightarrow> rpc_call \<Rightarrow> u8 \<Rightarrow> bytes \<Rightarrow> rpc_call" where
  "reply_to sender c status payload = \<lparr>c_node_id = sender, c_request_id = c_request_id c, c_type = RPC_TYPE_RESPONSE,
     c_status = status, c_func_id = c_func_id c, c_payload = payload\<rparr>"

definition answer_call ::
  "request_env \<Rightarrow> node_handler service_table \<Rightarrow> node_id \<Rightarrow> rpc_call \<Rightarrow> node_state \<Rightarrow> (rpc_call \<times> node_state) option" where
  "answer_call env table sender c n =
     (case find_handler table (c_func_id c) of
        None \<Rightarrow> Some (reply_to sender c RPC_STATUS_FUNC_NOT_FOUND [], n)
      | Some h \<Rightarrow>
          (case run_handler env h \<lparr>ctx_request_id = c_request_id c, ctx_func_id = c_func_id c, ctx_sender_id = sender\<rparr>
                  (c_payload c) n of
             Reply status payload n' \<Rightarrow>
               if RPC_HEADER_SIZE + length payload \<le> MAX_BUFFER_SIZE then Some (reply_to sender c status payload, n') else None
           | _ \<Rightarrow> None))"

fun answer_calls ::
  "(nat \<Rightarrow> request_env) \<Rightarrow> node_handler service_table \<Rightarrow> (nat \<Rightarrow> node_id) \<Rightarrow> nat \<Rightarrow> rpc_call list \<Rightarrow> node_state \<Rightarrow>
   (rpc_call list \<times> node_state) option" where
  "answer_calls env table g k [] n = Some ([], n)"
| "answer_calls env table g k (c # cs) n =
     (case answer_call (env k) table (g k) c n of
        None \<Rightarrow> None
      | Some (r, n) \<Rightarrow> map_option (\<lambda>(rs, n). (r # rs, n)) (answer_calls env table g (Suc k) cs n))"

lemma answer_calls_append:
  "answer_calls env table g k (cs @ ds) n = Some (rs, n') \<Longrightarrow>
   \<exists>rs1 n1 rs2. answer_calls env table g k cs n = Some (rs1, n1)
     \<and> answer_calls env table g (k + length cs) ds n1 = Some (rs2, n') \<and> rs = rs1 @ rs2"
proof (induction cs arbitrary: k n rs)
  case (Cons c cs)
  then obtain r n0 rs0 where "answer_call (env k) table (g k) c n = Some (r, n0)"
    "answer_calls env table g (Suc k) (cs @ ds) n0 = Some (rs0, n')" "rs = r # rs0"
    by (auto split: option.splits)
  with Cons.IH [of "Suc k" n0 rs0] show ?case by auto
qed simp

text \<open>The results of \<open>send\<close> for one answer when the kernel takes all of it, in any number of pieces.\<close>

fun sent_bytes :: "send_result \<Rightarrow> nat" where
  "sent_bytes (Sent n) = n"
| "sent_bytes _ = 0"

definition takes_all :: "send_result list \<Rightarrow> bool" where
  "takes_all rs \<longleftrightarrow> Send_failed \<notin> set rs \<and> Sent 0 \<notin> set rs \<and> MAX_BUFFER_SIZE \<le> sum_list (map sent_bytes rs)"

lemma send_all:
  "Send_failed \<notin> set rs \<Longrightarrow> Sent 0 \<notin> set rs \<Longrightarrow> length bs \<le> sum_list (map sent_bytes rs) \<Longrightarrow>
   send_response rs bs = Some (0, bs)"
proof (induction rs arbitrary: bs)
  case (Cons r rs)
  show ?case
  proof (cases r)
    case (Sent n)
    then have "send_response rs (drop n bs) = Some (0, drop n bs)" using Cons.prems by (intro Cons.IH) auto
    with Sent Cons.prems(2) show ?thesis by auto
  qed (use Cons in auto)
qed simp

lemma takes_all_whole: "takes_all [Sent MAX_BUFFER_SIZE]"
  by (simp add: takes_all_def MAX_BUFFER_SIZE_def)

lemma answer_whole:
  assumes "tx_buffer_size ch = MAX_BUFFER_SIZE" and "RPC_HEADER_SIZE + length payload \<le> MAX_BUFFER_SIZE"
    and "takes_all rs"
  shows "answer_request ch \<lparr>ctx_request_id = c_request_id c, ctx_func_id = c_func_id c, ctx_sender_id = sender\<rparr>
    status payload rs again = Answered (wire (reply_to sender c status payload))"
proof -
  let ?r = "reply_to sender c status payload"
  have "length (wire ?r) \<le> MAX_BUFFER_SIZE"
    using assms(2) length_wire [of ?r] by (simp add: reply_to_def)
  then have "send_response rs (wire ?r) = Some (0, wire ?r)"
    using assms(3) by (intro send_all) (simp_all add: takes_all_def)
  moreover have "rpc_pack_message (tx_buffer_size ch) sender (c_request_id c) RPC_TYPE_RESPONSE status (c_func_id c) payload =
      Inr (wire ?r)"
    using pack_eq_wire [of ?r MAX_BUFFER_SIZE] assms by (simp add: reply_to_def)
  ultimately show ?thesis
    by (simp add: answer_request_def rpc_send_async_response_def del: send_response.simps)
qed

lemma serve_one:
  assumes "tx_buffer_size ch = MAX_BUFFER_SIZE" and "answer_call env table sender c n = Some (r, n')"
    and "takes_all rs"
  shows "serve_request env table ch \<lparr>ctx_request_id = c_request_id c, ctx_func_id = c_func_id c, ctx_sender_id = sender\<rparr>
    (c_payload c) rs n = (Answered (wire r), n')"
proof -
  have "RPC_HEADER_SIZE + length ([] :: bytes) \<le> MAX_BUFFER_SIZE" by (simp add: RPC_HEADER_SIZE_def MAX_BUFFER_SIZE_def)
  then show ?thesis
    using assms(2) answer_whole [OF assms(1) _ assms(3), of "[]" c sender] answer_whole [OF assms(1) _ assms(3), of _ c sender]
    by (auto simp: serve_request_def answer_call_def split: option.splits reply.splits if_splits)
qed

lemma serve_received:
  "tx_buffer_size ch = MAX_BUFFER_SIZE \<Longrightarrow> \<forall>k. takes_all (sends k) \<Longrightarrow>
   answer_calls env table g k cs n = Some (rs, n') \<Longrightarrow>
   serve_requests env sends table ch k (received g k cs) n = Inr (stream rs, n')"
proof (induction cs arbitrary: k n rs)
  case (Cons c cs)
  then obtain r n0 rs0 where "answer_call (env k) table (g k) c n = Some (r, n0)"
    "answer_calls env table g (Suc k) cs n0 = Some (rs0, n')" "rs = r # rs0"
    by (auto split: option.splits)
  with Cons serve_one [OF Cons.prems(1), of "env k" table "g k" c n r n0 "sends k"] show ?case by simp
qed simp

text \<open>The events of one connection whose peer sends \<open>evs\<close>, with the results of the sends for each
  answer; \<open>data_event\<close> is the case of a kernel that takes every answer at once.\<close>

definition data_event_with ::
  "(nat \<Rightarrow> send_result list) \<Rightarrow> u64 \<Rightarrow> (nat \<Rightarrow> node_id) \<Rightarrow> (nat \<Rightarrow> request_env) \<Rightarrow> bytes list \<Rightarrow> epoll_event" where
  "data_event_with sends p g env segs = \<lparr>ev_data = p, ev_hup = False, ev_in = True, ev_accepts = [], ev_segments = segs,
     ev_after = Would_block, ev_malloc = (\<lambda>k. Some (g k)), ev_env = env, ev_sends = sends\<rparr>"

definition data_event :: "u64 \<Rightarrow> (nat \<Rightarrow> node_id) \<Rightarrow> (nat \<Rightarrow> request_env) \<Rightarrow> bytes list \<Rightarrow> epoll_event" where
  "data_event = data_event_with (\<lambda>_. [Sent MAX_BUFFER_SIZE])"

lemma data_event_step:
  assumes "srv_channels s p = Some ch" and "listener_of (srv_listener s) p = None"
    and "get_service_table tables (srv_registry s) = Some table" and "srv_kernel s (socket_fd ch) = []"
    and "tx_buffer_size ch = MAX_BUFFER_SIZE" and "\<forall>k. takes_all (sends k)"
    and "rpc_connection_event (Some table) (\<lambda>k. Some (g k)) (srv_counter s) False True segs Would_block ch =
      (ch', map (with_handler table) (received g (srv_counter s) cs), [], False)"
    and "answer_calls env table g (srv_counter s) cs (srv_node s) = Some (rs, n')"
  shows "handle_event tables (data_event_with sends p g env segs) s = Inr (s\<lparr>srv_channels := (srv_channels s)(p \<mapsto> ch'),
    srv_kernel := (srv_kernel s)(socket_fd ch := []), srv_counter := srv_counter s + length cs, srv_node := n',
    srv_sent := srv_sent s @ [(socket_fd ch, stream rs)]\<rparr>)"
proof -
  have "map (\<lambda>(c, payload, h). (c, payload)) (map (with_handler table) xs) = xs" for xs
    by (induction xs) auto
  then show ?thesis
    using assms(1-4,7) serve_received [OF assms(5,6,8)]
    by (simp add: handle_event_def connection_event_def data_event_with_def Let_def)
qed

text \<open>A connection that serves calls: open, empty, known to the loop.\<close>

definition serving :: "(nat \<Rightarrow> node_handler service_table option) \<Rightarrow> node_handler service_table \<Rightarrow> u64 \<Rightarrow> rpc_channel \<Rightarrow>
    rpc_server_state \<Rightarrow> bool" where
  "serving tables table p ch s \<longleftrightarrow> srv_channels s p = Some ch \<and> listener_of (srv_listener s) p = None
     \<and> get_service_table tables (srv_registry s) = Some table \<and> srv_kernel s (socket_fd ch) = []
     \<and> tx_buffer_size ch = MAX_BUFFER_SIZE \<and> length (rx_buffer ch) = MAX_BUFFER_SIZE \<and> channel_ok ch"

text \<open>Such a connection on descriptor \<open>fd\<close> with nothing left of an earlier call.\<close>

definition awaiting :: "(nat \<Rightarrow> node_handler service_table option) \<Rightarrow> node_handler service_table \<Rightarrow> u64 \<Rightarrow> int \<Rightarrow>
    rpc_server_state \<Rightarrow> bool" where
  "awaiting tables table p fd s \<longleftrightarrow>
     (case srv_channels s p of None \<Rightarrow> False
      | Some ch \<Rightarrow> serving tables table p ch s \<and> socket_fd ch = fd \<and> rx_data_len ch = 0)"

lemma awaiting_channel:
  "awaiting tables table p fd s \<longleftrightarrow> (\<exists>ch. serving tables table p ch s \<and> socket_fd ch = fd \<and> rx_data_len ch = 0)"
  by (auto simp: awaiting_def serving_def split: option.splits)

lemma event_socket:
  "channel_ok ch \<Longrightarrow> rpc_connection_event (Some table) malloc k False True segs after ch = (ch', rs, left, False) \<Longrightarrow>
   socket_fd ch' = socket_fd ch \<and> tx_buffer_size ch' = tx_buffer_size ch"
proof -
  assume ok: "channel_ok ch" and ev: "rpc_connection_event (Some table) malloc k False True segs after ch = (ch', rs, left, False)"
  obtain ch1 l eof where r: "rpc_read_loop segs after ch = (ch1, l, eof)" by (rule prod_cases3)
  note s1 = read_loop_same [OF ok r]
  obtain ch2 rs2 where p: "process_buffered_data (Some table) malloc k ch1 = (ch2, rs2)" by fastforce
  have "same_channel ch1 ch2" using s1 p by (intro process_same) (simp_all add: same_channel_def)
  with s1 have "same_channel ch ch2" by (rule same_channel_trans)
  with s1 r p ev show ?thesis by (auto simp: rpc_connection_event_def Let_def same_channel_def split: if_splits)
qed

lemma serve_stream:
  assumes "list_all call_ok cs" "\<forall>c \<in> set cs. length (wire c) \<le> L" "0 < L"
    and "\<forall>ev \<in> set evs. length (concat ev) \<le> C" and "L + C \<le> MAX_BUFFER_SIZE"
    and "serving tables table p ch s" and "pending ch @ concat (concat evs) = stream cs" and "partial_of (pending ch) cs"
    and "\<forall>k. takes_all (sends k)"
    and "answer_calls env table g (srv_counter s) cs (srv_node s) = Some (rs, n')"
  shows "\<exists>s' outs. handle_events tables (map (data_event_with sends p g env) evs) s = Inr s' \<and> srv_node s' = n'
    \<and> srv_sent s' = srv_sent s @ map (Pair (socket_fd ch)) outs \<and> concat outs = stream rs
    \<and> awaiting tables table p (socket_fd ch) s' \<and> srv_counter s' = srv_counter s + length cs"
  using assms
proof (induction evs arbitrary: ch cs s rs)
  case Nil
  then have "cs = []" by (cases cs) auto
  moreover from this have "rx_data_len ch = 0" using Nil.prems(6,7) by (auto simp: pending_def serving_def channel_ok_def)
  ultimately show ?case using Nil.prems(6,10)
    by (intro exI [of _ s] exI [of _ "[]"]) (auto simp: awaiting_channel)
next
  case (Cons ev evs)
  have sv: "channel_ok ch" "length (rx_buffer ch) = MAX_BUFFER_SIZE" "tx_buffer_size ch = MAX_BUFFER_SIZE"
    "srv_channels s p = Some ch" "listener_of (srv_listener s) p = None"
    "get_service_table tables (srv_registry s) = Some table" "srv_kernel s (socket_fd ch) = []"
    using Cons.prems(6) by (simp_all add: serving_def)
  have "length (pending ch) < L" using Cons.prems by (intro partial_of_less) auto
  then have sz: "rx_data_len ch + length (concat ev) < length (rx_buffer ch)" "L \<le> length (rx_buffer ch)"
    using Cons.prems(4,5) sv(1,2) by auto
  have st: "pending ch @ concat ev @ concat (concat evs) = stream cs" using Cons.prems(7) by simp
  obtain ch' j where e: "j \<le> length cs"
    "rpc_connection_event (Some table) (\<lambda>k. Some (g k)) (srv_counter s) False True ev Would_block ch
      = (ch', map (with_handler table) (received g (srv_counter s) (take j cs)), [], False)"
    "channel_ok ch'" "pending ch' @ concat (concat evs) = stream (drop j cs)"
    "partial_of (pending ch') (drop j cs)" "length (rx_buffer ch') = length (rx_buffer ch)"
    using event_step [OF sv(1) Cons.prems(1,2) st sz Cons.prems(3), of table g "srv_counter s"] by auto
  note sock = event_socket [OF sv(1) e(2)]
  obtain rs1 n1 rs2 where a: "answer_calls env table g (srv_counter s) (take j cs) (srv_node s) = Some (rs1, n1)"
    "answer_calls env table g (srv_counter s + j) (drop j cs) n1 = Some (rs2, n')" "rs = rs1 @ rs2"
    using answer_calls_append [of env table g "srv_counter s" "take j cs" "drop j cs" "srv_node s" rs n'] Cons.prems(10) e(1)
    by auto
  define t where "t = s\<lparr>srv_channels := (srv_channels s)(p \<mapsto> ch'), srv_kernel := (srv_kernel s)(socket_fd ch := []),
    srv_counter := srv_counter s + j, srv_node := n1, srv_sent := srv_sent s @ [(socket_fd ch, stream rs1)]\<rparr>"
  have step: "handle_event tables (data_event_with sends p g env ev) s = Inr t"
    using data_event_step [OF sv(4-7,3) Cons.prems(9) e(2) a(1)] e(1) by (simp add: t_def)
  have "serving tables table p ch' t" using sv e(3,6) sock by (simp add: serving_def t_def)
  moreover have "answer_calls env table g (srv_counter t) (drop j cs) (srv_node t) = Some (rs2, n')"
    using a(2) by (simp add: t_def)
  ultimately obtain s' outs where "handle_events tables (map (data_event_with sends p g env) evs) t = Inr s'" "srv_node s' = n'"
    "srv_sent s' = srv_sent t @ map (Pair (socket_fd ch)) outs" "concat outs = stream rs2"
    "awaiting tables table p (socket_fd ch) s'" "srv_counter s' = srv_counter t + length (drop j cs)"
    using Cons.IH [of "drop j cs" ch' t rs2] Cons.prems e sock by (fastforce simp: list_all_iff dest: in_set_dropD)
  then show ?case
    using step a(3) e(1) by (intro exI [of _ s'] exI [of _ "stream rs1 # outs"]) (simp add: t_def)
qed

lemma answers_match:
  "answer_calls env table g k cs n = Some (rs, n') \<Longrightarrow>
     map c_request_id rs = map c_request_id cs \<and> map c_func_id rs = map c_func_id cs"
proof (induction cs arbitrary: k n rs)
  case (Cons c cs)
  then obtain r n0 rs0 where a: "answer_call (env k) table (g k) c n = Some (r, n0)"
    "answer_calls env table g (Suc k) cs n0 = Some (rs0, n')" "rs = r # rs0"
    by (auto split: option.splits)
  then have "c_request_id r = c_request_id c \<and> c_func_id r = c_func_id c"
    by (auto simp: answer_call_def reply_to_def split: option.splits reply.splits if_splits)
  with Cons.IH [OF a(2)] a(3) show ?case by simp
qed simp

text \<open>The same for a channel whose receive buffer is empty.\<close>

lemma calls_served_with:
  assumes "list_all call_ok cs" and "\<forall>c \<in> set cs. length (wire c) \<le> L" and "0 < L"
    and "\<forall>ev \<in> set evs. length (concat ev) \<le> C" and "L + C \<le> MAX_BUFFER_SIZE"
    and "concat (concat evs) = concat (map wire cs)"
    and "serving tables table p ch s" and "rx_data_len ch = 0" and "\<forall>k. takes_all (sends k)"
    and "answer_calls env table g (srv_counter s) cs (srv_node s) = Some (rs, n')"
  shows "\<exists>s' outs. handle_events tables (map (data_event_with sends p g env) evs) s = Inr s' \<and> srv_node s' = n'
    \<and> srv_sent s' = srv_sent s @ map (Pair (socket_fd ch)) outs \<and> concat outs = concat (map wire rs)
    \<and> map c_request_id rs = map c_request_id cs \<and> map c_func_id rs = map c_func_id cs
    \<and> awaiting tables table p (socket_fd ch) s' \<and> srv_counter s' = srv_counter s + length cs"
proof -
  have "length (wire c) \<noteq> 0" for c by (simp add: length_wire RPC_HEADER_SIZE_def)
  then have "partial_of (pending ch) cs" using assms(8) by (cases cs) (auto simp: pending_def)
  moreover have "pending ch @ concat (concat evs) = stream cs" using assms(6,8) by (simp add: pending_def)
  ultimately show ?thesis
    using serve_stream [OF assms(1-5,7) _ _ assms(9,10)] answers_match [OF assms(10)] by blast
qed

lemma calls_served:
  assumes "list_all call_ok cs" and "\<forall>c \<in> set cs. length (wire c) \<le> L" and "0 < L"
    and "\<forall>ev \<in> set evs. length (concat ev) \<le> C" and "L + C \<le> MAX_BUFFER_SIZE"
    and "concat (concat evs) = concat (map wire cs)"
    and "serving tables table p ch s" and "rx_data_len ch = 0"
    and "answer_calls env table g (srv_counter s) cs (srv_node s) = Some (rs, n')"
  shows "\<exists>s' outs. handle_events tables (map (data_event p g env) evs) s = Inr s' \<and> srv_node s' = n'
    \<and> srv_sent s' = srv_sent s @ map (Pair (socket_fd ch)) outs \<and> concat outs = concat (map wire rs)
    \<and> map c_request_id rs = map c_request_id cs \<and> map c_func_id rs = map c_func_id cs
    \<and> awaiting tables table p (socket_fd ch) s' \<and> srv_counter s' = srv_counter s + length cs"
  using calls_served_with [OF assms(1-8) _ assms(9), of "\<lambda>_. [Sent MAX_BUFFER_SIZE]"]
  by (simp only: data_event_def [symmetric] takes_all_whole simp_thms)

text \<open>C6: Remote calls, end to end, on an open connection of the server with nothing pending, whose channel
  address is not taken for a listener: whatever way TCP cuts the bytes of a sequence of calls, as long
  as the longest call and what arrives between two reads fit the receive buffer of 4096 bytes together
  (a larger burst is not read to its end), and as long as every handler answers without blocking or
  faulting, with an answer that fits the send buffer, contexts can be allocated and the kernel takes
  each answer, whole or in pieces: the server runs the handler of each call once, in order, each on
  the node state the one before it left, and what it sends back on that connection is exactly the
  replies, in order, each under the request id and function id of its call.\<close>

theorem remote_calls_answered:
  assumes "list_all call_ok cs" and "\<forall>c \<in> set cs. length (wire c) \<le> L" and "0 < L"
    and "\<forall>ev \<in> set evs. length (concat ev) \<le> C" and "L + C \<le> MAX_BUFFER_SIZE"
    and "concat (concat evs) = concat (map wire cs)"
    and "serving tables table p ch s" and "rx_data_len ch = 0" and "\<forall>k. takes_all (sends k)"
    and "answer_calls env table g (srv_counter s) cs (srv_node s) = Some (rs, n')"
  shows "\<exists>s' outs. handle_events tables (map (data_event_with sends p g env) evs) s = Inr s' \<and> srv_node s' = n'
    \<and> srv_sent s' = srv_sent s @ map (Pair (socket_fd ch)) outs \<and> concat outs = concat (map wire rs)
    \<and> map c_request_id rs = map c_request_id cs \<and> map c_func_id rs = map c_func_id cs"
  using calls_served_with [OF assms] by blast

definition sample_tables :: "nat \<Rightarrow> node_handler service_table option" where
  "sample_tables ptr = (if ptr = 42 then Some [(0x31, H_execution_update)] else None)"

definition sample_server :: rpc_server_state where
  "sample_server = idle_server\<lparr>srv_channels := [0x1000 \<mapsto> sample_channel],
     srv_registry := Some (snd (service_registry_register fresh_registry SERVICE_TYPE_RPC_SERVER ''service_table'' 42))\<rparr>"

lemma sample_serving:
  assumes "tables 42 = Some table"
  shows "serving tables table 0x1000 sample_channel sample_server"
proof -
  have "short_name ''service_table''" by (simp add: short_name_def c_string_def MAX_SERVICE_NAME_def)
  moreover have "lookup_service fresh_registry SERVICE_TYPE_RPC_SERVER ''service_table'' = None"
    "services_used fresh_registry SERVICE_TYPE_RPC_SERVER < 16"
    by (simp_all add: slot_lookup_None_iff fresh_registry_def services_used_def empty_service_def MAX_SERVICES_PER_TYPE_def)
  ultimately have "service_registry_get (snd (service_registry_register fresh_registry SERVICE_TYPE_RPC_SERVER
      ''service_table'' 42)) SERVICE_TYPE_RPC_SERVER ''service_table'' = 42"
    using register_lookup [OF fresh_registry_ok, of "''service_table''" 42 SERVICE_TYPE_RPC_SERVER]
    by (simp add: get_lookup)
  then have "get_service_table tables (srv_registry sample_server) = Some table"
    using assms by (simp add: get_service_table_def sample_server_def)
  then show ?thesis
    by (simp add: serving_def) (simp add: sample_server_def idle_server_def listener_of_def sample_data_fd
        sample_channel_def MAX_BUFFER_SIZE_def channel_ok_def numeral_3_eq_3)
qed

lemma sample_server_serving: "serving sample_tables [(0x31, H_execution_update)] 0x1000 sample_channel sample_server"
  by (rule sample_serving) (simp add: sample_tables_def)

theorem remote_calls_answered_witness:
  "\<exists>s' outs rs. handle_events sample_tables (map (data_event_with (\<lambda>_. [Sent 5, Send_eintr, Sent 4091]) 0x1000 (\<lambda>_. 0) (\<lambda>_. some_env))
      [[take 5 (wire (sample_call 1))], [drop 5 (wire (sample_call 1)), wire (sample_call 2)]]) sample_server = Inr s'
    \<and> srv_sent s' = map (Pair 5) outs \<and> concat outs = concat (map wire rs) \<and> map c_request_id rs = [1, 2]"
proof -
  let ?cs = "[sample_call 1, sample_call 2]"
  let ?evs = "[[take 5 (wire (sample_call 1))], [drop 5 (wire (sample_call 1)), wire (sample_call 2)]]"
  let ?r = "\<lambda>i. reply_to 0 (sample_call i) RPC_STATUS_BAD_ARGUMENT []"
  have "answer_call some_env [(0x31, H_execution_update)] 0 (sample_call i) n = Some (?r i, n)" for i n
    by (simp add: answer_call_def handle_execution_update_def) (simp add: sample_call_def handle_execution_update_def
        RPC_HEADER_SIZE_def MAX_BUFFER_SIZE_def)
  then have a: "answer_calls (\<lambda>_. some_env) [(0x31, H_execution_update)] (\<lambda>_. 0) (srv_counter sample_server) ?cs
      (srv_node sample_server) = Some ([?r 1, ?r 2], srv_node sample_server)" by simp
  have "concat (concat ?evs) = concat (map wire ?cs)"
    by (simp add: append_assoc [symmetric] del: append_assoc)
  moreover have "list_all call_ok ?cs" "\<forall>c \<in> set ?cs. length (wire c) \<le> 15" "(0 :: nat) < 15"
    "\<forall>ev \<in> set ?evs. length (concat ev) \<le> 30" "15 + 30 \<le> MAX_BUFFER_SIZE" "rx_data_len sample_channel = 0"
    "\<forall>k :: nat. takes_all [Sent 5, Send_eintr, Sent 4091]"
    by (simp_all add: MAX_BUFFER_SIZE_def sample_channel_def takes_all_def)
  ultimately obtain s' outs where "handle_events sample_tables (map (data_event_with (\<lambda>_. [Sent 5, Send_eintr, Sent 4091]) 0x1000 (\<lambda>_. 0) (\<lambda>_. some_env)) ?evs) sample_server
      = Inr s'" "srv_sent s' = srv_sent sample_server @ map (Pair (socket_fd sample_channel)) outs"
    "concat outs = stream [?r 1, ?r 2]" "map c_request_id [?r 1, ?r 2] = map c_request_id ?cs"
    using remote_calls_answered [where cs = ?cs and L = 15 and evs = ?evs and C = 30
        and sends = "\<lambda>_. [Sent 5, Send_eintr, Sent 4091]", OF _ _ _ _ _ _ sample_server_serving _ _ a] by blast
  moreover have "srv_sent sample_server = []" "socket_fd sample_channel = 5" "map c_request_id ?cs = [1, 2]"
    by (simp_all add: sample_channel_def sample_server_def idle_server_def sample_call_def)
  ultimately show ?thesis by (metis append_Nil)
qed

end
