(* ===== verification/Client_Session.thy ===== *)
theory Client_Session
  imports Node_Serving
begin

text \<open>
  A client's use of a node, across src/core/rpc.c, src/node/node_handlers.c, src/node/node_executor.c,
  src/dag/dag_executor.c and src/node/execution_tracker.c: a message is submitted over a connection, an
  executor thread takes it from the queue and runs its DAG, and the client asks over the same
  connection what became of it.
\<close>

section \<open>One call on a waiting connection\<close>

lemma call_served:
  assumes "awaiting tables table p fd s" and "call_ok c" and "concat (concat evs) = wire c"
    and "\<forall>ev \<in> set evs. length (concat ev) + length (wire c) \<le> MAX_BUFFER_SIZE"
    and "answer_call (env (srv_counter s)) table (g (srv_counter s)) c (srv_node s) = Some (r, n)"
  shows "\<exists>t outs. handle_events tables (map (data_event p g env) evs) s = Inr t \<and> srv_node t = n
    \<and> srv_sent t = srv_sent s @ map (Pair fd) outs \<and> concat outs = wire r
    \<and> awaiting tables table p fd t \<and> srv_counter t = Suc (srv_counter s)"
proof -
  obtain ch where ch: "serving tables table p ch s" "rx_data_len ch = 0" "socket_fd ch = fd"
    using assms(1) by (auto simp: awaiting_channel)
  have c: "list_all call_ok [c]" "\<forall>c' \<in> set [c]. length (wire c') \<le> length (wire c)" "0 < length (wire c)"
    "concat (concat evs) = concat (map wire [c])" using assms(2,3) length_wire [of c] by (simp_all add: RPC_HEADER_SIZE_def)
  have "evs \<noteq> []" using c(3) assms(3) by auto
  then have C: "\<forall>ev \<in> set evs. length (concat ev) \<le> MAX_BUFFER_SIZE - length (wire c)"
      "length (wire c) + (MAX_BUFFER_SIZE - length (wire c)) \<le> MAX_BUFFER_SIZE"
    using assms(4) by (auto simp: neq_Nil_conv)
  have "answer_calls env table g (srv_counter s) [c] (srv_node s) = Some ([r], n)" using assms(5) by simp
  from calls_served [OF c(1-3) C c(4) ch(1,2) this] ch(3) show ?thesis by auto
qed

section \<open>Submitting a message and asking for its outcome\<close>

lemma submission_answered:
  assumes "find_handler table (c_func_id c) = Some H_submit_message"
    and "handle_submit_message (re_now env) (re_round env) (re_malloc_ok env) (re_send_ok env (submit_target (re_round env) n))
      \<lparr>ctx_request_id = c_request_id c, ctx_func_id = c_func_id c, ctx_sender_id = sender\<rparr> (c_payload c) n =
        Reply RPC_STATUS_SUCCESS (host_u64 e @ [1]) n'"
  shows "answer_call env table sender c n = Some (reply_to sender c RPC_STATUS_SUCCESS (host_u64 e @ [1]), n')"
  using assms by (simp add: answer_call_def RPC_HEADER_SIZE_def MAX_BUFFER_SIZE_def)

lemma status_answered:
  assumes "find_handler table (c_func_id c) = Some H_get_execution_status" and "c_payload c = host_u64 e"
    and "status_of n e = Some st"
  shows "answer_call env table sender c n = Some (reply_to sender c RPC_STATUS_SUCCESS [execution_status_byte st], n)"
proof -
  have "load_u64 (host_u64 e) = e" using read_write_net(6) [of e "[]"] by simp
  with assms show ?thesis
    by (auto simp: answer_call_def handle_get_execution_status_def status_of_def RPC_HEADER_SIZE_def MAX_BUFFER_SIZE_def)
qed

text \<open>C8: A submission over the network, end to end, when nothing interleaves with it. A client on a waiting
  connection sends a message for a DAG of the node's catalog to a node that is idle (its queue is empty)
  and can take it, in pieces that fit the receive buffer beside the call; when the handler has returned
  an executor takes one turn (an executor that finishes the message earlier is undone by the handler's
  late RUNNING mark and is excluded here); then the client asks for the execution it was told. It is
  answered first with the fresh execution id; then, when the uninitialised sender id of the submission
  happens to be this node's own id, with COMPLETED exactly if all the steps of the DAG can run and the
  output buffer could be had, and FAILED otherwise; with any other sender id the answer is RUNNING. The
  kernel takes both answers whole, and the connection waits for the next call at the end.\<close>

theorem submission_over_network:
  assumes "awaiting tables table p fd s"
    and "find_handler table (c_func_id c1) = Some H_submit_message"
    and "find_handler table (c_func_id c2) = Some H_get_execution_status"
    and "call_ok c1" and "concat (concat evs1) = wire c1" and "call_ok c2" and "concat (concat evs2) = wire c2"
    and "\<forall>ev \<in> set evs1. length (concat ev) + length (wire c1) \<le> MAX_BUFFER_SIZE"
    and "\<forall>ev \<in> set evs2. length (concat ev) + length (wire c2) \<le> MAX_BUFFER_SIZE"
    and "can_submit (c_payload c1) (srv_node s)" and "mq_contents (ns_queue (srv_node s)) = []"
    and "dag_catalog_get (ns_catalog (srv_node s)) (load_u32 (c_payload c1)) = Some d" and "counts_ok d"
    and "channels_large 21 (ns_pool (srv_node s))"
    and "e = next_exec_id (ns_tracker (srv_node s))" and "c_payload c2 = host_u64 e" and "sender = g (srv_counter s)"
  shows "\<exists>s1 n s2 outs1 outs2. handle_events tables (map (data_event p g env) evs1) s = Inr s1
    \<and> srv_sent s1 = srv_sent s @ map (Pair fd) outs1
    \<and> concat outs1 = wire (reply_to sender c1 RPC_STATUS_SUCCESS (host_u64 e @ [1]))
    \<and> executor_turn now output_ok send_ok (srv_node s1) = Inr n
    \<and> handle_events tables (map (data_event p g env) evs2) (s1\<lparr>srv_node := n\<rparr>) = Inr s2
    \<and> srv_sent s2 = srv_sent s1 @ map (Pair fd) outs2
    \<and> concat outs2 = wire (reply_to (g (Suc (srv_counter s))) c2 RPC_STATUS_SUCCESS [execution_status_byte
        (if sender = self_id (srv_node s) then run_status output_ok d else EXEC_STATUS_RUNNING)])
    \<and> awaiting tables table p fd s2"
proof -
  let ?env = "env (srv_counter s)" and ?st = "if sender = self_id (srv_node s) then run_status output_ok d else EXEC_STATUS_RUNNING"
  obtain n1 n where sub: "handle_submit_message (re_now ?env) (re_round ?env) (re_malloc_ok ?env)
        (re_send_ok ?env (submit_target (re_round ?env) (srv_node s)))
        \<lparr>ctx_request_id = c_request_id c1, ctx_func_id = c_func_id c1, ctx_sender_id = sender\<rparr> (c_payload c1) (srv_node s) =
          Reply RPC_STATUS_SUCCESS (host_u64 e @ [1]) n1"
      "executor_turn now output_ok send_ok n1 = Inr n" "status_of n e = Some ?st"
    using local_submission_outcome [OF assms(10-14)] assms(15) by (metis rpc_async_context.select_convs(3))
  note a1 = submission_answered [OF assms(2) sub(1)]
  obtain s1 outs1 where s1: "handle_events tables (map (data_event p g env) evs1) s = Inr s1" "srv_node s1 = n1"
      "srv_sent s1 = srv_sent s @ map (Pair fd) outs1" "concat outs1 = wire (reply_to sender c1 RPC_STATUS_SUCCESS (host_u64 e @ [1]))"
      "awaiting tables table p fd s1" "srv_counter s1 = Suc (srv_counter s)"
    using call_served [OF assms(1,4,5,8), of env g, folded assms(17), OF a1] by blast
  define t where "t = s1\<lparr>srv_node := n\<rparr>"
  have t: "awaiting tables table p fd t" "srv_node t = n" "srv_sent t = srv_sent s1" "srv_counter t = Suc (srv_counter s)"
    using s1(5,6) by (auto simp: t_def awaiting_def serving_def split: option.splits)
  have "answer_call (env (srv_counter t)) table (g (srv_counter t)) c2 (srv_node t) =
      Some (reply_to (g (srv_counter t)) c2 RPC_STATUS_SUCCESS [execution_status_byte ?st], n)"
    using status_answered [OF assms(3,16) sub(3)] t(2) by simp
  from call_served [where env = env and g = g, OF t(1) assms(6,7,9) this] obtain s2 outs2 where
    "handle_events tables (map (data_event p g env) evs2) t = Inr s2" "srv_sent s2 = srv_sent s1 @ map (Pair fd) outs2"
    "concat outs2 = wire (reply_to (g (Suc (srv_counter s))) c2 RPC_STATUS_SUCCESS [execution_status_byte ?st])"
    "awaiting tables table p fd s2" by (auto simp: t(3,4))
  with s1 sub(2) show ?thesis unfolding t_def by blast
qed

section \<open>An example\<close>

text \<open>The node of the examples, which is its own sender, with a client that submits a message for its
  DAG in two pieces and then asks for execution 1.\<close>

abbreviation client_table :: "node_handler service_table" where
  "client_table \<equiv> [(FUNC_ID_SUBMIT_MESSAGE, H_submit_message), (FUNC_ID_GET_STATUS, H_get_execution_status)]"

definition client_tables :: "nat \<Rightarrow> node_handler service_table option" where
  "client_tables ptr = (if ptr = 42 then Some client_table else None)"

definition client_call :: "u32 \<Rightarrow> u8 \<Rightarrow> bytes \<Rightarrow> rpc_call" where
  "client_call i f payload = \<lparr>c_node_id = 3, c_request_id = i, c_type = 1, c_status = 0, c_func_id = f, c_payload = payload\<rparr>"

lemma client_call_facts [simp]:
  "length payload < 100 \<Longrightarrow> call_ok (client_call i f payload)"
  "length (wire (client_call i f payload)) = 12 + length payload"
  "c_payload (client_call i f payload) = payload" "c_func_id (client_call i f payload) = f"
  by (simp_all add: call_ok_def length_wire client_call_def RPC_HEADER_SIZE_def)

lemma sample_dag_runs: "run_status True sample_dag = EXEC_STATUS_COMPLETED"
proof -
  have 0: "runnable sample_dag 0"
    by (rule runnable.intros) (simp_all add: sample_dag_def simple_dag_def simple_step_def used_dependencies_def)
  have "used_dependencies (dag_steps sample_dag ! 1) = [1]" "1 < step_count sample_dag"
    by (simp_all add: sample_dag_def simple_dag_def simple_step_def used_dependencies_def)
  with 0 have "runnable sample_dag 1"
    by (intro runnable.intros) (auto simp: find_step_sample)
  with 0 have "\<forall>i < step_count sample_dag. runnable sample_dag i"
    by (simp add: sample_dag_def simple_dag_def less_Suc_eq)
  then show ?thesis by (simp add: run_status_def)
qed

theorem submission_over_network_witness:
  "\<exists>s1 n s2 outs1 outs2. handle_events client_tables (map (data_event 0x1000 (\<lambda>_. 9) (\<lambda>_. some_env))
        [[take 5 (wire (client_call 1 FUNC_ID_SUBMIT_MESSAGE [7, 0, 0, 0, 1, 2]))],
         [drop 5 (wire (client_call 1 FUNC_ID_SUBMIT_MESSAGE [7, 0, 0, 0, 1, 2]))]]) sample_server = Inr s1
    \<and> srv_sent s1 = map (Pair 5) outs1
    \<and> concat outs1 = wire (reply_to 9 (client_call 1 FUNC_ID_SUBMIT_MESSAGE [7, 0, 0, 0, 1, 2]) RPC_STATUS_SUCCESS (host_u64 1 @ [1]))
    \<and> executor_turn 6 True True (srv_node s1) = Inr n
    \<and> handle_events client_tables (map (data_event 0x1000 (\<lambda>_. 9) (\<lambda>_. some_env))
        [[wire (client_call 2 FUNC_ID_GET_STATUS (host_u64 1))]]) (s1\<lparr>srv_node := n\<rparr>) = Inr s2
    \<and> srv_sent s2 = srv_sent s1 @ map (Pair 5) outs2
    \<and> concat outs2 = wire (reply_to 9 (client_call 2 FUNC_ID_GET_STATUS (host_u64 1)) RPC_STATUS_SUCCESS
        [execution_status_byte EXEC_STATUS_COMPLETED])"
proof -
  let ?c1 = "client_call 1 FUNC_ID_SUBMIT_MESSAGE [7, 0, 0, 0, 1, 2]" and ?c2 = "client_call 2 FUNC_ID_GET_STATUS (host_u64 1)"
  let ?evs1 = "[[take 5 (wire ?c1)], [drop 5 (wire ?c1)]]" and ?evs2 = "[[wire ?c2]]"
  have node: "srv_node sample_server = sample_node" "srv_sent sample_server = []"
    by (simp_all add: sample_server_def idle_server_def)
  have "serving client_tables client_table 0x1000 sample_channel sample_server"
    by (rule sample_serving) (simp add: client_tables_def)
  then have w: "awaiting client_tables client_table 0x1000 5 sample_server"
    unfolding awaiting_channel by (intro exI [of _ sample_channel]) (simp add: sample_channel_def)
  have find: "find_handler client_table (c_func_id ?c1) = Some H_submit_message"
      "find_handler client_table (c_func_id ?c2) = Some H_get_execution_status"
    by (simp_all add: func_id_defs)
  have calls: "call_ok ?c1" "concat (concat ?evs1) = wire ?c1" "call_ok ?c2" "concat (concat ?evs2) = wire ?c2"
      "\<forall>ev \<in> set ?evs1. length (concat ev) + length (wire ?c1) \<le> MAX_BUFFER_SIZE"
      "\<forall>ev \<in> set ?evs2. length (concat ev) + length (wire ?c2) \<le> MAX_BUFFER_SIZE"
    by (simp_all add: MAX_BUFFER_SIZE_def)
  have e: "1 = next_exec_id (ns_tracker (srv_node sample_server))" "9 = self_id (srv_node sample_server)"
    by (simp_all add: node) (simp_all add: sample_node_def sample_tracker_def)
  have st: "(if 9 = self_id (srv_node sample_server) then run_status True sample_dag else EXEC_STATUS_RUNNING) = EXEC_STATUS_COMPLETED"
    using e(2) sample_dag_runs by simp
  have sub: "can_submit (c_payload ?c1) (srv_node sample_server)" "mq_contents (ns_queue (srv_node sample_server)) = []"
      "dag_catalog_get (ns_catalog (srv_node sample_server)) (load_u32 (c_payload ?c1)) = Some sample_dag"
      "channels_large 21 (ns_pool (srv_node sample_server))" "c_payload ?c2 = host_u64 1"
    using sample_node_submit by (simp_all add: node)
  from submission_over_network [where g = "\<lambda>_. 9" and sender = 9 and env = "\<lambda>_. some_env" and now = 6 and output_ok = True
      and send_ok = True, OF w find calls sub(1-3) sample_node_submit(4) sub(4) e(1) sub(5) refl]
  show ?thesis unfolding st node(2) append_Nil by blast
qed

end
