(* ===== verification/Gossip_Transport.thy ===== *)
theory Gossip_Transport
  imports Gossip_Handlers C_Strings
begin

text \<open>
  src/cluster/gossip_transport.c: the UDP socket of the gossip engine, sending and receiving one
  datagram, and the loop of \<open>gossip_listener_thread\<close> (src/cluster/gossip_engine.c) that waits with
  \<open>select\<close> and receives. Addresses are kept as the code keeps them: text in the engine, network
  byte order in a \<open>sockaddr_in\<close>. \<open>inet_pton\<close> and \<open>inet_ntop\<close> are those of the C library for IPv4:
  four decimal octets without leading zeros. What the kernel returns is an argument.
\<close>

section \<open>Addresses\<close>

text \<open>\<open>inet_pton\<close>: the octets read so far, the one being read, the characters to come.\<close>

fun pton_octets :: "nat list \<Rightarrow> nat option \<Rightarrow> string \<Rightarrow> nat list option" where
  "pton_octets octets None [] = None"
| "pton_octets octets (Some v) [] = (if length octets = 3 then Some (octets @ [v]) else None)"
| "pton_octets octets cur (c # s) =
     (if isdigit c then
        (let d = of_char c - 48 in
         case cur of
           None \<Rightarrow> pton_octets octets (Some d) s
         | Some v \<Rightarrow> if v = 0 \<or> 255 < v * 10 + d then None else pton_octets octets (Some (v * 10 + d)) s)
      else if c = CHR ''.'' then
        (case cur of
           None \<Rightarrow> None
         | Some v \<Rightarrow> if length octets = 3 then None else pton_octets (octets @ [v]) None s)
      else None)"

definition inet_pton :: "string \<Rightarrow> bytes option" where
  "inet_pton s = map_option (map word_of_nat) (pton_octets [] None s)"

fun dotted :: "string list \<Rightarrow> string" where
  "dotted [] = []"
| "dotted [s] = s"
| "dotted (s # ss) = s @ CHR ''.'' # dotted ss"

definition inet_ntop :: "bytes \<Rightarrow> nat \<Rightarrow> string option" where
  "inet_ntop addr dst_size =
     (let s = dotted (map (\<lambda>b. utoa (unat b)) addr) in if length s < dst_size then Some s else None)"

record sockaddr_in =
  sin_port :: bytes
  sin_addr :: bytes

definition INADDR_ANY :: bytes where "INADDR_ANY = [0, 0, 0, 0]"

definition socket_address :: "bytes \<Rightarrow> u16 \<Rightarrow> sockaddr_in" where
  "socket_address addr port = \<lparr>sin_port = write_u16_net port, sin_addr = addr\<rparr>"

section \<open>The socket\<close>

record udp_calls =
  uc_socket :: int
  uc_getfl :: int
  uc_setfl_ok :: bool
  uc_reuse_ok :: bool
  uc_bind_ok :: bool

text \<open>The sockets of the process: the open descriptors, those switched to non-blocking, and the
  address each is bound to.\<close>

record udp_sockets =
  us_open :: "int set"
  us_nonblocking :: "int set"
  us_bound :: "int \<Rightarrow> sockaddr_in option"

definition close_udp :: "int \<Rightarrow> udp_sockets \<Rightarrow> udp_sockets" where
  "close_udp fd k = k\<lparr>us_open := us_open k - {fd}, us_nonblocking := us_nonblocking k - {fd},
     us_bound := (us_bound k)(fd := None)\<rparr>"

definition gossip_create_udp_socket ::
  "udp_calls \<Rightarrow> string option \<Rightarrow> u16 \<Rightarrow> udp_sockets \<Rightarrow> int \<times> udp_sockets" where
  "gossip_create_udp_socket calls bind_addr port k =
     (let fd = uc_socket calls in
      if fd < 0 then (-1, k)
      else
        let k = k\<lparr>us_open := insert fd (us_open k)\<rparr> in
        if uc_getfl calls = -1 \<or> \<not> uc_setfl_ok calls then (-1, close_udp fd k)
        else
          let k = k\<lparr>us_nonblocking := insert fd (us_nonblocking k)\<rparr>;
              addr = (case bind_addr of
                  Some s \<Rightarrow> if s \<noteq> ''0.0.0.0'' then inet_pton s else Some INADDR_ANY
                | None \<Rightarrow> Some INADDR_ANY)
          in case addr of
               None \<Rightarrow> (-1, close_udp fd k)
             | Some a \<Rightarrow>
                 if \<not> uc_bind_ok calls then (-1, close_udp fd k)
                 else (fd, k\<lparr>us_bound := (us_bound k)(fd \<mapsto> socket_address a port)\<rparr>))"

text \<open>A datagram on the network. Its source is the address the socket is bound to; for a socket
  bound to every interface the kernel chooses the address of the outgoing one.\<close>

record udp_packet =
  pk_data :: bytes
  pk_from :: sockaddr_in
  pk_to :: sockaddr_in

definition source_address :: "bytes \<Rightarrow> sockaddr_in \<Rightarrow> sockaddr_in" where
  "source_address iface a = (if sin_addr a = INADDR_ANY then a\<lparr>sin_addr := iface\<rparr> else a)"

definition gossip_send_udp ::
  "int option \<Rightarrow> sockaddr_in \<Rightarrow> bytes \<Rightarrow> string \<Rightarrow> u16 \<Rightarrow> int \<times> udp_packet option" where
  "gossip_send_udp sendto from data dest_ip dest_port =
     (case inet_pton dest_ip of
        None \<Rightarrow> (-1, None)
      | Some a \<Rightarrow>
          (case sendto of
             None \<Rightarrow> (-1, None)
           | Some n \<Rightarrow> (n, Some \<lparr>pk_data = data, pk_from = from, pk_to = socket_address a dest_port\<rparr>)))"

text \<open>The text buffer keeps what it held when the address does not fit.\<close>

definition gossip_recv_udp ::
  "udp_packet option \<Rightarrow> nat \<Rightarrow> string \<Rightarrow> nat \<Rightarrow> (bytes \<times> string \<times> u16) option" where
  "gossip_recv_udp recvfrom buffer_size src_ip src_ip_len =
     (case recvfrom of
        None \<Rightarrow> None
      | Some p \<Rightarrow> Some (take buffer_size (pk_data p),
          (if src_ip_len = 0 then src_ip
           else case inet_ntop (sin_addr (pk_from p)) src_ip_len of None \<Rightarrow> src_ip | Some s \<Rightarrow> s),
          read_u16_net (sin_port (pk_from p))))"

section \<open>The listener loop\<close>

datatype select_result = Select_failed | Select_timeout | Select_ready "udp_packet option"

record listener_turn =
  lt_shutdown :: bool
  lt_now :: u64
  lt_connect :: "rpc_channel option"
  lt_select :: select_result

definition listener_turn_step ::
  "listener_turn \<Rightarrow> string \<times> gossip_engine \<Rightarrow> c_error + string \<times> gossip_engine" where
  "listener_turn_step t = (\<lambda>(src_ip, e).
     case lt_select t of
       Select_failed \<Rightarrow> Inr (src_ip, e)
     | Select_timeout \<Rightarrow> Inr (src_ip, e)
     | Select_ready r \<Rightarrow>
         (case gossip_recv_udp r GOSSIP_MAX_PAYLOAD_SIZE src_ip MAX_IP_LEN of
            None \<Rightarrow> Inr (src_ip, e)
          | Some (bs, ip, port) \<Rightarrow>
              map_sum id (Pair ip) (listener_step (lt_now t) (lt_connect t) bs ip port e)))"

fun gossip_listener_thread ::
  "listener_turn list \<Rightarrow> string \<times> gossip_engine \<Rightarrow> c_error + string \<times> gossip_engine" where
  "gossip_listener_thread [] s = Inr s"
| "gossip_listener_thread (t # ts) s =
     (if lt_shutdown t then Inr s else and_then (listener_turn_step t s) (gossip_listener_thread ts))"


section \<open>Addresses survive the way through text\<close>

lemma pton_utoa:
  "n \<le> 255 \<Longrightarrow> pton_octets octets None (utoa n @ rest) = pton_octets octets (Some n) rest"
proof (induction n arbitrary: rest rule: utoa.induct)
  case (1 n)
  show ?case
  proof (cases "n < 10")
    case True
    then show ?thesis
      using digit_char_props(1) [OF True] of_char_digit [OF True] by (simp add: utoa.simps [of n])
  next
    case False
    have d: "n mod 10 < 10" by simp
    have n: "n div 10 * 10 + n mod 10 = n" by simp
    have "pton_octets octets None (utoa (n div 10) @ digit_char (n mod 10) # rest) =
        pton_octets octets (Some (n div 10)) (digit_char (n mod 10) # rest)"
      using False 1 by (intro "1.IH") auto
    also have "\<dots> = pton_octets octets (Some n) rest"
      using False "1.prems" digit_char_props(1) [OF d] of_char_digit [OF d] n
      by (simp add: div_eq_0_iff)
    finally show ?thesis using False by (simp add: utoa.simps [of n])
  qed
qed

lemma pton_dot: "length octets < 3 \<Longrightarrow> pton_octets octets (Some n) (CHR ''.'' # s) = pton_octets (octets @ [n]) None s"
  by (simp add: isdigit_def)

lemma four_octets: "length (addr :: bytes) = 4 \<Longrightarrow> \<exists>a b c d. addr = [a, b, c, d]"
  by (auto simp: numeral_eq_Suc length_Suc_conv)

lemma octet_bound: "unat (b :: u8) \<le> 255"
  using unsigned_less [of b, where ?'a = nat] by simp

lemma inet_pton_ntop:
  assumes "length addr = 4" and "inet_ntop addr n = Some s"
  shows "inet_pton s = Some addr"
proof -
  obtain a b c d where a: "addr = [a, b, c, d]" using four_octets [OF assms(1)] by blast
  then have "s = utoa (unat a) @ CHR ''.'' # utoa (unat b) @ CHR ''.'' # utoa (unat c) @ CHR ''.'' # utoa (unat d) @ []"
    using assms(2) by (auto simp: inet_ntop_def Let_def split: if_splits)
  then have "pton_octets [] None s = Some [unat a, unat b, unat c, unat d]"
    by (simp only: pton_utoa octet_bound pton_dot list.size append_Nil append_Cons) (simp add: pton_dot)
  then show ?thesis by (simp add: inet_pton_def a)
qed

lemma inet_ntop_fits:
  assumes "length addr = 4"
  shows "\<exists>s. inet_ntop addr MAX_IP_LEN = Some s"
proof -
  obtain a b c d where a: "addr = [a, b, c, d]" using four_octets [OF assms] by blast
  have l: "length (utoa (unat x)) \<le> 3" for x :: u8
    using octet_bound [of x] by (intro utoa_length) auto
  have "length (dotted (map (\<lambda>b. utoa (unat b)) addr)) \<le> 15"
    using l [of a] l [of b] l [of c] l [of d] by (simp add: a)
  then show ?thesis by (auto simp: inet_ntop_def Let_def MAX_IP_LEN_def)
qed

lemma pton_length: "pton_octets octets cur s = Some ns \<Longrightarrow> length octets \<le> 3 \<Longrightarrow> length ns = 4"
  by (induction octets cur s rule: pton_octets.induct) (auto simp: Let_def split: option.splits if_splits)

lemma inet_pton_length: "inet_pton s = Some addr \<Longrightarrow> length addr = 4"
  by (auto simp: inet_pton_def dest: pton_length)

lemma read_port [simp]: "read_u16_net (write_u16_net p) = p"
  using read_write_net(1) [of p "[]"] by simp

section \<open>Properties\<close>

text \<open>What a socket needs to be bound: an address that is none, the wildcard, or an IPv4 address.\<close>

definition bind_target :: "string option \<Rightarrow> bytes option" where
  "bind_target bind_addr = (case bind_addr of None \<Rightarrow> Some INADDR_ANY | Some s \<Rightarrow> inet_pton s)"

lemma wildcard_pton: "inet_pton ''0.0.0.0'' = Some INADDR_ANY"
  by (simp add: inet_pton_def INADDR_ANY_def isdigit_def)

lemma bind_target_eq:
  "(case bind_addr of
      Some s \<Rightarrow> if s \<noteq> ''0.0.0.0'' then inet_pton s else Some INADDR_ANY
    | None \<Rightarrow> Some INADDR_ANY) = bind_target bind_addr"
  by (simp add: bind_target_def wildcard_pton split: option.split)

lemma bind_target_length: "bind_target b = Some a \<Longrightarrow> length a = 4"
  by (auto simp: bind_target_def INADDR_ANY_def dest: inet_pton_length split: option.splits)

definition sockets_ok :: "udp_sockets \<Rightarrow> bool" where
  "sockets_ok k \<longleftrightarrow> us_nonblocking k \<subseteq> us_open k \<and> dom (us_bound k) \<subseteq> us_open k"

text \<open>C28: Creating the gossip socket either binds a non-blocking socket to the address it was given, or
  fails and leaves the sockets of the process as they were: a failed call, an unusable address or a
  port in use closes what had been opened.\<close>

theorem udp_socket_created:
  assumes "sockets_ok k" and "uc_socket calls \<notin> us_open k"
  shows "gossip_create_udp_socket calls bind_addr port k =
    (case bind_target bind_addr of
       None \<Rightarrow> (-1, k)
     | Some a \<Rightarrow>
         if 0 \<le> uc_socket calls \<and> uc_getfl calls \<noteq> -1 \<and> uc_setfl_ok calls \<and> uc_bind_ok calls
         then (uc_socket calls,
           k\<lparr>us_open := insert (uc_socket calls) (us_open k),
             us_nonblocking := insert (uc_socket calls) (us_nonblocking k),
             us_bound := (us_bound k)(uc_socket calls \<mapsto> socket_address a port)\<rparr>)
         else (-1, k))"
proof -
  have n: "us_nonblocking k - {uc_socket calls} = us_nonblocking k" "us_open k - {uc_socket calls} = us_open k"
    using assms by (auto simp: sockets_ok_def)
  have "us_bound k (uc_socket calls) = None"
    using assms by (auto simp: sockets_ok_def dom_def)
  then have b: "(us_bound k)(uc_socket calls := None) = us_bound k" by auto
  show ?thesis
    by (cases "bind_target bind_addr")
      (simp_all add: gossip_create_udp_socket_def bind_target_eq Let_def close_udp_def n b)
qed

definition no_sockets :: udp_sockets where
  "no_sockets = \<lparr>us_open = {}, us_nonblocking = {}, us_bound = (\<lambda>_. None)\<rparr>"

definition good_calls :: "int \<Rightarrow> udp_calls" where
  "good_calls fd = \<lparr>uc_socket = fd, uc_getfl = 2, uc_setfl_ok = True, uc_reuse_ok = True, uc_bind_ok = True\<rparr>"

theorem udp_socket_created_witness:
  "gossip_create_udp_socket (good_calls 5) (Some ''10.0.0.300'') 7000 no_sockets = (-1, no_sockets)
   \<and> fst (gossip_create_udp_socket (good_calls 5) (Some ''10.0.0.1'') 7000 no_sockets) = 5"
proof -
  have "sockets_ok no_sockets" "uc_socket (good_calls 5) \<notin> us_open no_sockets"
    by (simp_all add: sockets_ok_def no_sockets_def)
  note c = udp_socket_created [OF this, where port = 7000]
  have "bind_target (Some ''10.0.0.300'') = None" "bind_target (Some ''10.0.0.1'') = Some [10, 0, 0, 1]"
    by (simp_all add: bind_target_def inet_pton_def isdigit_def)
  then show ?thesis
    using c [of "Some ''10.0.0.300''"] c [of "Some ''10.0.0.1''"] by (simp add: good_calls_def)
qed

text \<open>A datagram and its sender, as the receiver reads them.\<close>

lemma recv_udp_eq:
  assumes "length (sin_addr (pk_from p)) = 4" and "length (pk_data p) \<le> n"
  shows "\<exists>s. gossip_recv_udp (Some p) n old MAX_IP_LEN
      = Some (pk_data p, s, read_u16_net (sin_port (pk_from p)))
    \<and> inet_pton s = Some (sin_addr (pk_from p))"
proof -
  obtain s where s: "inet_ntop (sin_addr (pk_from p)) MAX_IP_LEN = Some s"
    using inet_ntop_fits [OF assms(1)] by blast
  then show ?thesis
    using assms inet_pton_ntop [OF assms(1) s] by (simp add: gossip_recv_udp_def MAX_IP_LEN_def)
qed

text \<open>The address a datagram arrives with is good for an answer: whatever a node sends from its bound
  socket reaches the peer's buffer in full, and the text address and port the peer then reads, used
  as the destination of a reply, address exactly the socket the datagram came from.\<close>

theorem udp_reply_reaches_sender:
  assumes "gossip_create_udp_socket calls bind_addr port k = (fd, k')" and "0 \<le> fd"
    and "us_bound k' fd = Some bound" and "src = source_address iface bound" and "length iface = 4"
    and "gossip_send_udp (Some n) src data dest_ip dest_port = (ret, Some p)"
    and "length data \<le> GOSSIP_MAX_PAYLOAD_SIZE"
  shows "\<exists>src_ip. gossip_recv_udp (Some p) GOSSIP_MAX_PAYLOAD_SIZE old MAX_IP_LEN = Some (data, src_ip, port)
    \<and> gossip_send_udp (Some m) src' reply src_ip port
      = (m, Some \<lparr>pk_data = reply, pk_from = src', pk_to = src\<rparr>)"
proof -
  obtain a where a: "bind_target bind_addr = Some a" "bound = socket_address a port"
    using assms(1-3)
    by (auto simp: gossip_create_udp_socket_def bind_target_eq Let_def split: if_splits option.splits)
  then have f: "length (sin_addr src) = 4" "sin_port src = write_u16_net port"
    using bind_target_length [OF a(1)] assms(4,5)
    by (auto simp: source_address_def socket_address_def)
  have p: "pk_data p = data" "pk_from p = src"
    using assms(6) by (auto simp: gossip_send_udp_def split: option.splits)
  obtain s where s: "gossip_recv_udp (Some p) GOSSIP_MAX_PAYLOAD_SIZE old MAX_IP_LEN = Some (data, s, port)"
    "inet_pton s = Some (sin_addr src)"
    using recv_udp_eq [of p GOSSIP_MAX_PAYLOAD_SIZE old] f p assms(7) by auto
  moreover have "socket_address (sin_addr src) port = src"
    using f(2) by (cases src) (simp add: socket_address_def)
  ultimately show ?thesis by (auto simp: gossip_send_udp_def)
qed

theorem udp_reply_reaches_sender_witness:
  "\<exists>src_ip. gossip_recv_udp (snd (gossip_send_udp (Some 3) (socket_address [10, 0, 0, 1] 7000) [1, 2, 3] ''10.0.0.2'' 7001))
     GOSSIP_MAX_PAYLOAD_SIZE [] MAX_IP_LEN = Some ([1, 2, 3], src_ip, 7000)"
proof -
  define k' where "k' = snd (gossip_create_udp_socket (good_calls 5) None 7000 no_sockets)"
  define p where "p = \<lparr>pk_data = [1, 2, 3], pk_from = socket_address [10, 0, 0, 1] 7000,
    pk_to = socket_address [10, 0, 0, 2] 7001\<rparr>"
  have c: "gossip_create_udp_socket (good_calls 5) None 7000 no_sockets = (5, k')"
    "us_bound k' 5 = Some (socket_address INADDR_ANY 7000)"
    by (simp_all add: k'_def gossip_create_udp_socket_def good_calls_def Let_def)
  have f: "socket_address [10, 0, 0, 1] 7000 = source_address [10, 0, 0, 1] (socket_address INADDR_ANY 7000)"
    by (simp add: source_address_def socket_address_def)
  have s: "gossip_send_udp (Some 3) (socket_address [10, 0, 0, 1] 7000) [1, 2, 3] ''10.0.0.2'' 7001 = (3, Some p)"
    by (simp add: gossip_send_udp_def inet_pton_def isdigit_def p_def)
  have "length [1, 2, 3 :: u8] \<le> GOSSIP_MAX_PAYLOAD_SIZE" by (simp add: gossip_size_defs)
  from udp_reply_reaches_sender [OF c(1) _ c(2) f _ s this, of "[]" 3 "socket_address [10, 0, 0, 2] 7001" "[]"] s show ?thesis by auto
qed

end
