(* ===== verification/Membership.thy ===== *)
theory Membership
  imports Gossip_Properties Gossip_Transport Runs Threads
begin

text \<open>
  The membership handle of src/cluster/membership.c and the life of the gossip engine behind it:
  creation with its socket, the two threads of \<open>gossip_engine_start\<close>, and shutdown, which joins
  the threads, closes the socket and frees. A thread that \<open>pthread_join\<close> waits for ends, because
  both loops read the shutdown flag in every turn.
\<close>

section \<open>The process around an engine\<close>

record engine_process =
  ep_engine :: gossip_engine
  listener_thread :: pthread
  protocol_thread :: pthread
  ep_shutdown_flag :: bool
  udp_socket :: int

definition engine_process_init ::
  "node_id \<Rightarrow> node_type \<Rightarrow> string \<Rightarrow> u16 \<Rightarrow> u16 \<Rightarrow> gossip_config option \<Rightarrow> cluster_view \<Rightarrow> bool \<Rightarrow>
   bool \<Rightarrow> udp_calls \<Rightarrow> peer_pool option \<Rightarrow> udp_sockets \<Rightarrow> engine_process option \<times> udp_sockets" where
  "engine_process_init nid type bind_addr gport dport config cview callback resources_ok calls pool k =
     (case (if resources_ok then gossip_create_udp_socket calls (Some bind_addr) gport k else (-1, k)) of
        (fd, k) \<Rightarrow>
          (map_option (\<lambda>e. \<lparr>ep_engine = e, listener_thread = Not_started, protocol_thread = Not_started,
               ep_shutdown_flag = False, udp_socket = fd\<rparr>)
             (gossip_engine_init nid type bind_addr gport dport config cview callback resources_ok (0 \<le> fd) pool), k))"

definition gossip_engine_start :: "bool \<Rightarrow> bool \<Rightarrow> engine_process \<Rightarrow> thread_fault + int \<times> engine_process" where
  "gossip_engine_start listener_ok protocol_ok ep =
     (if \<not> listener_ok then Inr (-1, ep)
      else
        let ep = ep\<lparr>listener_thread := Alive\<rparr>
        in if \<not> protocol_ok then
             (let ep = ep\<lparr>ep_shutdown_flag := True\<rparr>
              in and_then (pthread_join (listener_thread ep)) (\<lambda>t. Inr (-1, ep\<lparr>listener_thread := t\<rparr>)))
           else Inr (0, ep\<lparr>protocol_thread := Alive\<rparr>))"

text \<open>The engine as it is when it is freed, and the sockets of the process.\<close>

definition gossip_engine_shutdown ::
  "engine_process \<Rightarrow> udp_sockets \<Rightarrow> thread_fault + engine_process \<times> udp_sockets" where
  "gossip_engine_shutdown ep k =
     (let ep = ep\<lparr>ep_shutdown_flag := True\<rparr>
      in and_then (pthread_join (listener_thread ep)) (\<lambda>listener.
         and_then (pthread_join (protocol_thread ep)) (\<lambda>protocol.
           let ep = ep\<lparr>listener_thread := listener, protocol_thread := protocol\<rparr>
           in Inr (if 0 \<le> udp_socket ep then (ep\<lparr>udp_socket := -1\<rparr>, close_udp (udp_socket ep) k) else (ep, k)))))"

section \<open>The handle\<close>

record membership_handle =
  mh_id :: node_id
  mh_type :: node_type
  mh_bind_addr :: string
  mh_gossip_port :: u16
  mh_data_port :: u16
  mh_engine :: "engine_process option"
  mh_callback :: bool
  mh_shutdown :: bool

definition self_entry :: "u64 \<Rightarrow> node_id \<Rightarrow> node_type \<Rightarrow> string \<Rightarrow> u16 \<Rightarrow> u16 \<Rightarrow> cluster_member" where
  "self_entry now nid type addr gport dport =
     \<lparr>m_node_id = nid, m_node_type = type, m_ip_address = strcpy_to MAX_IP_LEN addr,
      m_gossip_port = gport, m_data_port = dport, m_status = NODE_STATUS_ALIVE,
      m_last_seen_ms = now, m_incarnation = 0\<rparr>"

text \<open>The shared view belongs to the caller: it comes back with the node's own entry.\<close>

definition membership_init ::
  "u64 \<Rightarrow> node_id \<Rightarrow> node_type \<Rightarrow> string option \<Rightarrow> u16 \<Rightarrow> u16 \<Rightarrow> cluster_view \<Rightarrow> bool \<Rightarrow> bool \<Rightarrow> udp_calls \<Rightarrow>
   bool \<Rightarrow> bool \<Rightarrow> peer_pool option \<Rightarrow> udp_sockets \<Rightarrow>
   thread_fault + result_status \<times> cluster_view \<times> membership_handle option \<times> udp_sockets" where
  "membership_init now nid type bind_addr gport dport shared_view alloc_ok resources_ok calls listener_ok
       protocol_ok pool k =
     (if \<not> alloc_ok then Inr (RESULT_ERR_NOMEM, shared_view, None, k)
      else
        let addr = strcpy_to MAX_IP_LEN (case bind_addr of Some a \<Rightarrow> a | None \<Rightarrow> ''0.0.0.0'');
            view' = snd (cluster_view_add now shared_view (self_entry now nid type addr gport dport))
        in case engine_process_init nid type addr gport dport (Some gossip_default_config) view' False
                  resources_ok calls pool k of
             (None, k) \<Rightarrow> Inr (RESULT_ERR_INVALID, view', None, k)
           | (Some ep, k) \<Rightarrow>
               and_then (gossip_engine_start listener_ok protocol_ok ep) (\<lambda>(ret, ep).
                 if ret \<noteq> 0
                 then and_then (gossip_engine_shutdown ep k) (\<lambda>(ep, k). Inr (RESULT_ERR_INVALID, view', None, k))
                 else Inr (RESULT_OK, view', Some \<lparr>mh_id = nid, mh_type = type, mh_bind_addr = addr,
                   mh_gossip_port = gport, mh_data_port = dport, mh_engine = Some ep, mh_callback = False,
                   mh_shutdown = False\<rparr>, k)))"

definition membership_join ::
  "u64 \<Rightarrow> string \<Rightarrow> u16 \<Rightarrow> membership_handle \<Rightarrow> result_status \<times> membership_handle" where
  "membership_join now seed_addr seed_port h =
     (case mh_engine h of
        None \<Rightarrow> (RESULT_ERR_NETWORK, h)
      | Some ep \<Rightarrow>
          (case gossip_engine_add_seed now seed_addr seed_port (ep_engine ep) of
             (ret, e) \<Rightarrow>
               if ret \<noteq> 0 then (RESULT_ERR_NETWORK, h\<lparr>mh_engine := Some (ep\<lparr>ep_engine := e\<rparr>)\<rparr>)
               else (RESULT_OK, h\<lparr>mh_engine := Some (ep\<lparr>ep_engine := gossip_engine_announce_join now e\<rparr>)\<rparr>)))"

definition membership_set_callback :: "bool \<Rightarrow> membership_handle \<Rightarrow> membership_handle" where
  "membership_set_callback callback h =
     h\<lparr>mh_callback := callback,
       mh_engine := map_option (\<lambda>ep. ep\<lparr>ep_engine := gossip_engine_set_callback (ep_engine ep) callback\<rparr>) (mh_engine h)\<rparr>"

definition membership_leave :: "u64 \<Rightarrow> membership_handle \<Rightarrow> membership_handle" where
  "membership_leave now h =
     h\<lparr>mh_engine := map_option (\<lambda>ep. ep\<lparr>ep_engine := gossip_engine_leave now (ep_engine ep)\<rparr>) (mh_engine h)\<rparr>"

text \<open>The engine comes back as it is when it is freed, None if the handle has none.\<close>

definition membership_shutdown ::
  "membership_handle \<Rightarrow> udp_sockets \<Rightarrow> thread_fault + engine_process option \<times> udp_sockets" where
  "membership_shutdown h k =
     (case mh_engine h of
        None \<Rightarrow> Inr (None, k)
      | Some ep \<Rightarrow> map_sum id (apfst Some) (gossip_engine_shutdown ep k))"

section \<open>Starting\<close>

text \<open>An engine that did not start is shut down all the same, and both ways to fail leave a handle
  that cannot be joined.\<close>

lemma failed_start_faults:
  assumes "listener_thread ep = Not_started" and "\<not> (listener_ok \<and> protocol_ok)"
  shows "\<exists>ret ep' fault. gossip_engine_start listener_ok protocol_ok ep = Inr (ret, ep') \<and> ret \<noteq> 0
    \<and> gossip_engine_shutdown ep' k = Inl fault"
  using assms by (cases listener_ok) (simp_all add: gossip_engine_start_def gossip_engine_shutdown_def Let_def)

lemma process_init_threads:
  "engine_process_init nid type a gport dport cfg v cb res calls pool k = (Some ep, k') \<Longrightarrow>
   listener_thread ep = Not_started \<and> protocol_thread ep = Not_started \<and> 0 \<le> udp_socket ep
   \<and> gossip_create_udp_socket calls (Some a) gport k = (udp_socket ep, k')
   \<and> gossip_engine_init nid type a gport dport cfg v cb True True pool = Some (ep_engine ep)"
  by (auto simp: engine_process_init_def gossip_engine_init_def split: if_splits prod.splits)


text \<open>C27: A membership that cannot start its threads is undefined behaviour, never an error code: exactly
  when everything before has succeeded and one of the two \<open>pthread_create\<close> calls fails,
  \<open>membership_init\<close> joins a thread twice or one that was never created.\<close>

theorem membership_start_failure:
  fixes bind_addr :: "string option"
  defines "addr \<equiv> strcpy_to MAX_IP_LEN (case bind_addr of Some a \<Rightarrow> a | None \<Rightarrow> ''0.0.0.0'')"
  shows "(\<exists>fault. membership_init now nid type bind_addr gport dport shared_view alloc_ok resources_ok calls
       listener_ok protocol_ok pool k = Inl fault)
    \<longleftrightarrow> alloc_ok \<and> resources_ok \<and> 0 \<le> fst (gossip_create_udp_socket calls (Some addr) gport k)
        \<and> \<not> (listener_ok \<and> protocol_ok)"
proof -
  define view' where "view' = snd (cluster_view_add now shared_view (self_entry now nid type addr gport dport))"
  obtain o' k' where i: "engine_process_init nid type addr gport dport (Some gossip_default_config) view' False
      resources_ok calls pool k = (o', k')" by fastforce
  have ok: "o' \<noteq> None \<longleftrightarrow> resources_ok \<and> 0 \<le> fst (gossip_create_udp_socket calls (Some addr) gport k)"
    using i by (auto simp: engine_process_init_def gossip_engine_init_def split: if_splits prod.splits)
  show ?thesis
  proof (cases o')
    case None
    with i ok show ?thesis by (auto simp: membership_init_def Let_def simp flip: addr_def view'_def)
  next
    case (Some ep)
    with i have t: "listener_thread ep = Not_started" by (auto dest: process_init_threads)
    show ?thesis
    proof (cases "listener_ok \<and> protocol_ok")
      case True
      then show ?thesis
        using i ok Some
        by (auto simp: membership_init_def gossip_engine_start_def Let_def simp flip: addr_def view'_def)
    next
      case False
      from failed_start_faults [OF t this, of k'] i ok Some False show ?thesis
        by (auto simp: membership_init_def Let_def simp flip: addr_def view'_def)
    qed
  qed
qed

section \<open>From start to shutdown\<close>

text \<open>What happens to a running membership: calls of its API, and steps of its engine's threads.\<close>

inductive handle_step :: "membership_handle \<Rightarrow> membership_handle \<Rightarrow> bool" where
  join: "handle_step h (snd (membership_join now seed_addr seed_port h))"
| set_callback: "handle_step h (membership_set_callback callback h)"
| leave: "handle_step h (membership_leave now h)"
| work: "mh_engine h = Some ep \<Longrightarrow> engine_step (ep_engine ep) ev e \<Longrightarrow>
    handle_step h (h\<lparr>mh_engine := Some (ep\<lparr>ep_engine := e\<rparr>)\<rparr>)"

inductive_cases handle_stepE: "handle_step h h'"

definition handle_ok :: "int \<Rightarrow> membership_handle \<Rightarrow> bool" where
  "handle_ok fd h \<longleftrightarrow> (case mh_engine h of
     None \<Rightarrow> False
   | Some ep \<Rightarrow> engine_wf (ep_engine ep) \<and> listener_thread ep = Alive \<and> protocol_thread ep = Alive
       \<and> udp_socket ep = fd)"

lemma apply_wf: "engine_wf e \<Longrightarrow> engine_apply ev e = Inr e' \<Longrightarrow> engine_wf e'"
  by (rule engine_apply_wf)

lemma api_wf:
  assumes "engine_wf e"
  shows "engine_wf (snd (gossip_engine_add_seed now ip port e))" and "engine_wf (gossip_engine_announce_join now e)"
    and "engine_wf (gossip_engine_leave now e)" and "engine_wf (gossip_engine_set_callback e cb)"
  using apply_wf [OF assms, of "Ev_add_seed now ip port"] apply_wf [OF assms, of "Ev_announce_join now"]
    apply_wf [OF assms, of "Ev_leave now"] apply_wf [OF assms, of "Ev_set_callback cb"] by simp_all

lemma handle_step_keeps:
  assumes "handle_ok fd h" and "handle_step h h'"
  shows "handle_ok fd h'"
proof -
  obtain ep where ep: "mh_engine h = Some ep" "engine_wf (ep_engine ep)"
    using assms(1) by (auto simp: handle_ok_def split: option.splits)
  from assms(2) show ?thesis
  proof (rule handle_stepE)
    fix now seed_addr seed_port
    assume h': "h' = snd (membership_join now seed_addr seed_port h)"
    obtain ret e where e: "gossip_engine_add_seed now seed_addr seed_port (ep_engine ep) = (ret, e)" by fastforce
    then have "engine_wf e" using api_wf(1) [OF ep(2), of now seed_addr seed_port] by simp
    then show ?thesis
      using assms(1) ep by (simp add: h' e membership_join_def handle_ok_def api_wf)
  next
    fix ep2 ev e
    assume h': "h' = h\<lparr>mh_engine := Some (ep2\<lparr>ep_engine := e\<rparr>)\<rparr>" and ep2: "mh_engine h = Some ep2"
      and "engine_step (ep_engine ep2) ev e"
    then show ?thesis
      using assms(1) ep apply_wf [OF ep(2), of ev e] by (simp add: handle_ok_def engine_step_iff)
  qed (use assms(1) ep in \<open>simp_all add: membership_set_callback_def membership_leave_def handle_ok_def api_wf\<close>)
qed

interpretation handle_runs: run_invariant handle_step "handle_ok fd" for fd
  by unfold_locales (rule handle_step_keeps)

lemma engine_init_wf:
  assumes "view_ok v" and "list_all member_wf (members v)" and "type_canonical type"
    and "case pool of None \<Rightarrow> True | Some p \<Rightarrow> pool_ok p"
  shows "engine_wf (the (gossip_engine_init nid type a gport dport (Some gossip_default_config) v cb True True pool))"
  using assms uq_init_ok
  by (simp add: gossip_engine_init_def engine_wf_def gossip_default_config_def gossip_size_defs)

lemma membership_initE:
  assumes "membership_init now nid type bind_addr gport dport shared_view alloc_ok resources_ok calls
      listener_ok protocol_ok pool k = Inr (RESULT_OK, view', Some h, k')"
  obtains ep a where "mh_engine h = Some ep" "listener_thread ep = Alive" "protocol_thread ep = Alive"
    "0 \<le> udp_socket ep" "gossip_create_udp_socket calls (Some a) gport k = (udp_socket ep, k')"
    "gossip_engine_init nid type a gport dport (Some gossip_default_config)
       (snd (cluster_view_add now shared_view (self_entry now nid type a gport dport))) False True True pool
     = Some (ep_engine ep)"
    "a = strcpy_to MAX_IP_LEN (case bind_addr of Some a \<Rightarrow> a | None \<Rightarrow> ''0.0.0.0'')"
proof -
  define a where "a = strcpy_to MAX_IP_LEN (case bind_addr of Some a \<Rightarrow> a | None \<Rightarrow> ''0.0.0.0'')"
  define v where "v = snd (cluster_view_add now shared_view (self_entry now nid type a gport dport))"
  obtain o' k1 where i: "engine_process_init nid type a gport dport (Some gossip_default_config) v False
      resources_ok calls pool k = (o', k1)" by fastforce
  with assms have "o' \<noteq> None" by (cases o') (auto simp: membership_init_def Let_def simp flip: a_def v_def split: if_splits)
  then obtain ep where ep: "o' = Some ep" by blast
  note t = process_init_threads [OF i [unfolded ep]]
  have "listener_ok \<and> protocol_ok"
  proof (rule ccontr)
    assume "\<not> ?thesis"
    with failed_start_faults [of ep listener_ok protocol_ok k1] t i ep assms show False
      by (auto simp: membership_init_def Let_def simp flip: a_def v_def split: if_splits)
  qed
  with assms i ep have "k1 = k'" and "mh_engine h = Some (ep\<lparr>listener_thread := Alive, protocol_thread := Alive\<rparr>)"
    by (auto simp: membership_init_def gossip_engine_start_def Let_def simp flip: a_def v_def split: if_splits)
  with t show thesis by (intro that [of "ep\<lparr>listener_thread := Alive, protocol_thread := Alive\<rparr>" a])
      (simp_all add: v_def a_def)
qed

lemma create_then_close:
  assumes "gossip_create_udp_socket calls (Some a) port k = (fd, k')" and "0 \<le> fd"
    and "sockets_ok k" and "uc_socket calls \<notin> us_open k"
  shows "close_udp fd k' = k"
proof -
  have "us_bound k (uc_socket calls) = None" "uc_socket calls \<notin> us_nonblocking k"
    using assms(3,4) by (auto simp: sockets_ok_def dom_def)
  moreover from this have "(us_bound k)(uc_socket calls := None) = us_bound k" by auto
  ultimately show ?thesis
    using assms by (auto simp: gossip_create_udp_socket_def bind_target_eq close_udp_def Let_def
        split: if_splits option.splits)
qed

text \<open>C26: A membership that started is well formed whatever happens to it, and its shutdown is clean: from
  a successful \<open>membership_init\<close>, through any interleaving of joins, callback changes, leaves, rounds
  and datagrams, its engine is well formed and has both threads running, and the only event on which
  it can leave an array is a datagram that announces more than ten updates. At any point
  \<open>membership_shutdown\<close> joins both threads, once each, closes the socket and gives back exactly the
  sockets the process had before.\<close>

theorem membership_lifecycle:
  assumes "membership_init now nid type bind_addr gport dport shared_view alloc_ok resources_ok calls
      listener_ok protocol_ok pool k = Inr (RESULT_OK, view', Some h, k')"
    and "sockets_ok k" and "uc_socket calls \<notin> us_open k"
    and "view_ok shared_view" and "list_all member_wf (members shared_view)" and "type_canonical type"
    and "case pool of None \<Rightarrow> True | Some p \<Rightarrow> pool_ok p"
    and "handle_step\<^sup>*\<^sup>* h h'"
  shows "\<exists>ep. mh_engine h' = Some ep \<and> engine_wf (ep_engine ep)
    \<and> listener_thread ep = Alive \<and> protocol_thread ep = Alive
    \<and> (\<forall>ev err. engine_apply ev (ep_engine ep) = Inl err \<longrightarrow>
        (\<exists>now connect packet ip port. ev = Ev_packet now connect packet ip port \<and> announces_too_many packet))
    \<and> membership_shutdown h' k' = Inr (Some (ep\<lparr>listener_thread := Joined, protocol_thread := Joined,
        ep_shutdown_flag := True, udp_socket := -1\<rparr>), k)"
proof -
  obtain ep a where ep: "mh_engine h = Some ep" "listener_thread ep = Alive" "protocol_thread ep = Alive"
    "0 \<le> udp_socket ep" "gossip_create_udp_socket calls (Some a) gport k = (udp_socket ep, k')"
    "gossip_engine_init nid type a gport dport (Some gossip_default_config)
       (snd (cluster_view_add now shared_view (self_entry now nid type a gport dport))) False True True pool
     = Some (ep_engine ep)"
    using assms(1) by (rule membership_initE)
  have "member_wf (self_entry now nid type a gport dport)"
    using assms(6) by (simp add: self_entry_def member_wf_def)
  then have "engine_wf (ep_engine ep)"
    using engine_init_wf [of "snd (cluster_view_add now shared_view (self_entry now nid type a gport dport))"
        type pool nid a gport dport False] assms(4-7) ep(6)
    by (simp add: add_ok add_members_wf)
  with ep have "handle_ok (udp_socket ep) h" by (simp add: handle_ok_def)
  with assms(8) have "handle_ok (udp_socket ep) h'" by (rule handle_runs.run_keeps)
  then obtain ep' where ep': "mh_engine h' = Some ep'" "engine_wf (ep_engine ep')" "listener_thread ep' = Alive"
    "protocol_thread ep' = Alive" "udp_socket ep' = udp_socket ep"
    by (auto simp: handle_ok_def split: option.splits)
  have "membership_shutdown h' k' = Inr (Some (ep'\<lparr>listener_thread := Joined, protocol_thread := Joined,
      ep_shutdown_flag := True, udp_socket := -1\<rparr>), k)"
    using ep' ep(4) create_then_close [OF ep(5,4) assms(2,3)]
    by (simp add: membership_shutdown_def gossip_engine_shutdown_def)
  moreover have "\<exists>now connect packet ip port. ev = Ev_packet now connect packet ip port \<and> announces_too_many packet"
    if "engine_apply ev (ep_engine ep') = Inl err" for ev err
    using engine_apply_faults [OF ep'(2) that] by (cases ev) auto
  ultimately show ?thesis using ep' by blast
qed

definition empty_view :: cluster_view where
  "empty_view = \<lparr>members = [], view_capacity = 8\<rparr>"

theorem membership_lifecycle_witness:
  "\<exists>v h k'. membership_init 5 1 NODE_TYPE_ROUTER None 7000 8000 empty_view True True (good_calls 5) True True None
       no_sockets = Inr (RESULT_OK, v, Some h, k')
     \<and> (\<exists>ep. membership_shutdown (membership_leave 9 (snd (membership_join 6 ''10.0.0.9'' 7000 h))) k'
           = Inr (Some ep, no_sockets) \<and> listener_thread ep = Joined \<and> protocol_thread ep = Joined)"
proof -
  define r where "r = membership_init 5 1 NODE_TYPE_ROUTER None 7000 8000 empty_view True True (good_calls 5) True True
    None no_sockets"
  have "\<exists>v h k'. r = Inr (RESULT_OK, v, Some h, k')"
    by (simp add: r_def membership_init_def Let_def engine_process_init_def gossip_engine_init_def good_calls_def
        gossip_create_udp_socket_def bind_target_eq bind_target_def wildcard_pton gossip_engine_start_def
        MAX_IP_LEN_def c_string_def)
  then obtain v h k' where r: "r = Inr (RESULT_OK, v, Some h, k')" by blast
  have s: "sockets_ok no_sockets" "uc_socket (good_calls 5) \<notin> us_open no_sockets" "view_ok empty_view"
    "list_all member_wf (members empty_view)" "type_canonical NODE_TYPE_ROUTER"
    "case None of None \<Rightarrow> True | Some p \<Rightarrow> pool_ok p"
    by (simp_all add: sockets_ok_def no_sockets_def empty_view_def table_ok_def)
  have "handle_step\<^sup>*\<^sup>* h (membership_leave 9 (snd (membership_join 6 ''10.0.0.9'' 7000 h)))"
    by (rule rtranclp.rtrancl_into_rtrancl [OF r_into_rtranclp]) (rule handle_step.intros)+
  from membership_lifecycle [OF r [unfolded r_def] s this]
  have "\<exists>ep. membership_shutdown (membership_leave 9 (snd (membership_join 6 ''10.0.0.9'' 7000 h))) k'
      = Inr (Some ep, no_sockets) \<and> listener_thread ep = Joined \<and> protocol_thread ep = Joined" by force
  with r show ?thesis unfolding r_def by blast
qed


text \<open>A node that binds to every interface announces that as its address: a peer that first hears of
  it through its own announcement, and not from the source address of a JOIN, stores 0.0.0.0, and
  what it sends to the node from then on goes to no other host.\<close>

theorem wildcard_member_unreachable:
  assumes "membership_init now nid type None gport dport shared_view alloc_ok resources_ok calls
      listener_ok protocol_ok pool k = Inr (RESULT_OK, view', Some h, k')"
    and "view_ok (view peer)" and "cluster_view_get (view peer) nid = None"
    and "length (members (view peer)) < view_capacity (view peer)"
  shows "\<exists>ep m. mh_engine h = Some ep
    \<and> cluster_view_get (view (ping_update later (self_update t (ep_engine ep)) peer)) nid = Some m
    \<and> inet_pton (m_ip_address m) = Some INADDR_ANY"
proof -
  obtain ep a where ep: "mh_engine h = Some ep"
    "gossip_engine_init nid type a gport dport (Some gossip_default_config)
       (snd (cluster_view_add now shared_view (self_entry now nid type a gport dport))) False True True pool
     = Some (ep_engine ep)" "a = strcpy_to MAX_IP_LEN ''0.0.0.0''"
    using assms(1) by (rule membership_initE) auto
  have "a = ''0.0.0.0''" using ep(3) by (simp add: MAX_IP_LEN_def c_string_def)
  then have e: "my_id (ep_engine ep) = nid" "my_ip (ep_engine ep) = ''0.0.0.0''"
    using ep(2) by (auto simp: gossip_engine_init_def MAX_IP_LEN_def c_string_def dest!: sym [of _ "ep_engine ep"])
  then have "cluster_view_get (view (ping_update later (self_update t (ep_engine ep)) peer)) nid
      = Some ((member_of_update later (self_update t (ep_engine ep)))\<lparr>m_last_seen_ms := later\<rparr>)"
    using assms(3,4) add_get [OF assms(2), of later "member_of_update later (self_update t (ep_engine ep))" nid]
    by (simp add: ping_update_def self_update_def notify_update_def)
      (simp add: add_member_def member_of_update_def self_update_def)
  then show ?thesis
    using ep(1) e wildcard_pton
    by (simp add: member_of_update_def self_update_def MAX_IP_LEN_def c_string_def)
qed

theorem wildcard_member_unreachable_witness:
  "\<exists>v h k' ep m. membership_init 5 1 NODE_TYPE_ROUTER None 7000 8000 empty_view True True (good_calls 5) True True None
       no_sockets = Inr (RESULT_OK, v, Some h, k') \<and> mh_engine h = Some ep
     \<and> cluster_view_get (view (ping_update 9 (self_update 8 (ep_engine ep)) (engine_with []))) 1 = Some m
     \<and> inet_pton (m_ip_address m) = Some INADDR_ANY"
proof -
  define r where "r = membership_init 5 1 NODE_TYPE_ROUTER None 7000 8000 empty_view True True (good_calls 5) True True
    None no_sockets"
  have "\<exists>v h k'. r = Inr (RESULT_OK, v, Some h, k')"
    by (simp add: r_def membership_init_def Let_def engine_process_init_def gossip_engine_init_def good_calls_def
        gossip_create_udp_socket_def bind_target_eq bind_target_def wildcard_pton gossip_engine_start_def
        MAX_IP_LEN_def c_string_def)
  then obtain v h k' where r: "r = Inr (RESULT_OK, v, Some h, k')" by blast
  have p: "view_ok (view (engine_with []))" "cluster_view_get (view (engine_with [])) 1 = None"
    "length (members (view (engine_with []))) < view_capacity (view (engine_with []))"
    by (simp_all add: table_ok_def get_eq_first_with)
  from wildcard_member_unreachable [OF r [unfolded r_def] p, of 9 8] r show ?thesis unfolding r_def by blast
qed

end
