(* ===== verification/Failure_Detection.thy ===== *)
theory Failure_Detection
  imports Gossip_Properties Gossip_Transport
begin

text \<open>
  The two threads of a gossip engine together (src/cluster/gossip_engine.c): the loop of
  \<open>gossip_protocol_thread\<close>, and what the SWIM protocol promises across threads, sockets and nodes.
  A node that stays silent is declared dead by every peer that waits for its acknowledgement; a
  ping to a node that runs is answered, and the answer ends the wait and the suspicion.
\<close>

section \<open>The protocol thread\<close>

record protocol_turn =
  pt_shutdown :: bool
  pt_now :: u64
  pt_rand :: nat
  pt_send_ok :: bool
  pt_shuffle :: "nat \<Rightarrow> nat"

fun gossip_protocol_thread :: "nat \<Rightarrow> protocol_turn list \<Rightarrow> gossip_engine \<Rightarrow> c_error + gossip_engine" where
  "gossip_protocol_thread n [] e = Inr e"
| "gossip_protocol_thread n (t # ts) e =
     (if pt_shutdown t then Inr e
      else and_then (protocol_round (pt_now t) (Suc n) (pt_rand t) (pt_send_ok t) (pt_shuffle t) e)
             (gossip_protocol_thread (Suc n) ts))"

section \<open>What a round does to one member\<close>

lemma send_message_acks [simp]:
  "pending_acks (send_message m ip port e) = pending_acks e" "e_config (send_message m ip port e) = e_config e"
  "my_id (send_message m ip port e) = my_id e"
  by (simp_all add: send_message_def send_datagram_def split: sum.split)

lemma send_new_message_acks [simp]:
  "pending_acks (send_new_message t us ip port e) = pending_acks e"
  "e_config (send_new_message t us ip port e) = e_config e" "my_id (send_new_message t us ip port e) = my_id e"
  by (simp_all add: send_new_message_def bump_sequence_def)

lemma gossip_loop_frame:
  "gossip_loop now rand i n ps e = Inr e' \<Longrightarrow>
   view e' = view e \<and> pending_acks e' = pending_acks e \<and> e_config e' = e_config e \<and> my_id e' = my_id e"
  by (induction now rand i n ps e rule: gossip_loop.induct)
    (auto simp: Let_def split: option.splits if_splits)

lemma gossip_frame:
  "gossip_to_random_peers now rand e = Inr e' \<Longrightarrow>
   view e' = view e \<and> pending_acks e' = pending_acks e \<and> e_config e' = e_config e \<and> my_id e' = my_id e"
  by (auto simp: gossip_to_random_peers_def Let_def dest: gossip_loop_frame split: if_splits)

text \<open>A ping keeps every active slot of the table and adds at most its own.\<close>

lemma add_pending_keeps:
  "a \<in> set (pending_acks e) \<Longrightarrow> pa_active a \<Longrightarrow> a \<in> set (pending_acks (snd (add_pending_ack now e n)))"
proof (cases "find_index (\<lambda>a. \<not> pa_active a) (pending_acks e)")
  case (Some i)
  assume a: "a \<in> set (pending_acks e)" "pa_active a"
  then obtain j where j: "j < length (pending_acks e)" "pending_acks e ! j = a" by (auto simp: in_set_conv_nth)
  moreover have "j \<noteq> i" using find_index_holds [OF Some] j a(2) by auto
  ultimately show ?thesis
    using Some by (auto simp: add_pending_ack_def in_set_conv_nth intro!: exI [of _ j])
qed (simp add: add_pending_ack_def)

lemma add_pending_frame [simp]:
  "view (snd (add_pending_ack now e n)) = view e" "e_config (snd (add_pending_ack now e n)) = e_config e"
  "my_id (snd (add_pending_ack now e n)) = my_id e"
  "length (pending_acks (snd (add_pending_ack now e n))) = length (pending_acks e)"
  by (simp_all add: add_pending_ack_def split: option.split)

lemma ping_frame:
  assumes "send_ping_to_node now ok n e = Inr (r, e')"
  shows "view e' = view e \<and> e_config e' = e_config e \<and> my_id e' = my_id e
    \<and> (\<forall>a \<in> set (pending_acks e). pa_active a \<longrightarrow> a \<in> set (pending_acks e'))"
  using assms
  by (auto simp: send_ping_to_node_def Let_def split: option.splits if_splits intro!: add_pending_keeps)

lemma update_self_frame [simp]:
  "e_config (update_self_in_cluster_view now e) = e_config e" "my_id (update_self_in_cluster_view now e) = my_id e"
  "pending_acks (update_self_in_cluster_view now e) = pending_acks e"
  by (simp_all add: update_self_in_cluster_view_def split: option.split)

lemma update_self_get:
  assumes "view_ok (view e)" and "n \<noteq> my_id e"
  shows "cluster_view_get (view (update_self_in_cluster_view now e)) n = cluster_view_get (view e) n"
proof (cases "member_index (view e) (my_id e)")
  case (Some i)
  have i: "i < length (members (view e))" "m_node_id (members (view e) ! i) = my_id e"
    using member_index_SomeD [OF Some] by auto
  have "distinct (map m_node_id (members (view e)))" using assms(1) by (simp add: table_ok_def)
  then show ?thesis
    using Some i assms(2)
    by (simp add: update_self_in_cluster_view_def get_eq_first_with first_with_update)
qed (simp add: update_self_in_cluster_view_def)

lemma first_with_map: "(\<And>m. key (f m) = key m) \<Longrightarrow> first_with key k (map f ms) = map_option f (first_with key k ms)"
  by (induction ms) simp_all

lemma declared_id [simp]: "m_node_id (declared now e m) = m_node_id m"
  by (simp add: declared_def)

lemma check_suspects_get:
  assumes "view_ok (view e)"
  shows "cluster_view_get (view (check_suspect_timeouts now e)) n
      = map_option (declared now e) (cluster_view_get (view e) n)"
    and "view_ok (view (check_suspect_timeouts now e))"
    and "e_config (check_suspect_timeouts now e) = e_config e"
proof -
  note p = check_suspects_prefix [OF assms order_refl, of now, unfolded Let_def, folded check_suspect_timeouts_def]
  show "view_ok (view (check_suspect_timeouts now e))" "e_config (check_suspect_timeouts now e) = e_config e"
    using p by blast+
  have "members (view (check_suspect_timeouts now e)) = map (declared now e) (members (view e))" using p by simp
  then show "cluster_view_get (view (check_suspect_timeouts now e)) n
      = map_option (declared now e) (cluster_view_get (view e) n)"
    by (simp add: get_eq_first_with first_with_map)
qed

lemma check_suspects_frame [simp]:
  "pending_acks (check_suspect_timeouts now e) = pending_acks e" "my_id (check_suspect_timeouts now e) = my_id e"
proof -
  have "pending_acks (check_suspect_slot now e i) = pending_acks e \<and> my_id (check_suspect_slot now e i) = my_id e" for e i
    by (simp add: check_suspect_slot_def Let_def) (simp add: effect_defs)
  then show "pending_acks (check_suspect_timeouts now e) = pending_acks e" "my_id (check_suspect_timeouts now e) = my_id e"
    unfolding check_suspect_timeouts_def by (simp_all add: foldl_frame [where g = pending_acks] foldl_frame [where g = my_id])
qed

lemma check_acks_id [simp]: "my_id (check_ack_timeouts now e) = my_id e"
  unfolding check_ack_timeouts_def
  by (rule foldl_frame) (simp add: check_ack_slot_def Let_def split_beta)


lemma round_effect:
  assumes wf: "engine_wf e" and other: "n \<noteq> my_id e"
  shows "\<exists>e' acks. protocol_round now k r ok rand e = Inr e' \<and> engine_wf e' \<and> my_id e' = my_id e
    \<and> e_config e' = e_config e \<and> (\<forall>a \<in> set (pending_acks e). pa_active a \<longrightarrow> a \<in> set acks)
    \<and> pending_acks e' = map (\<lambda>a. if ack_expired now e a then a\<lparr>pa_active := False\<rparr> else a) acks
    \<and> cluster_view_get (view e') n = map_option (\<lambda>m. declared now e
        (if \<exists>a \<in> set acks. ack_expired now e a \<and> pa_target_node a = n then suspected now m else m))
        (cluster_view_get (view e) n)"
proof -
  define e1 where "e1 = update_self_in_cluster_view now e"
  let ?t = "select_random_peer r e1"
  have wf1: "engine_wf e1" using wf by (simp add: e1_def update_self_wf)
  have v: "view_ok (view e)" using wf by (simp add: engine_wf_def)
  have "\<exists>ret e2. (if ?t \<noteq> 0 then send_ping_to_node now ok ?t e1 else Inr (0, e1)) = Inr (ret, e2) \<and> engine_wf e2
      \<and> view e2 = view e1 \<and> e_config e2 = e_config e1 \<and> my_id e2 = my_id e1
      \<and> (\<forall>a \<in> set (pending_acks e1). pa_active a \<longrightarrow> a \<in> set (pending_acks e2))"
    using send_ping_wf [OF wf1, of now ok ?t] wf1 ping_frame [of now ok ?t e1] by fastforce
  then obtain ret e2 where p: "(if ?t \<noteq> 0 then send_ping_to_node now ok ?t e1 else Inr (0, e1)) = Inr (ret, e2)"
    and wf2: "engine_wf e2" and e2: "view e2 = view e1" "e_config e2 = e_config e1" "my_id e2 = my_id e1"
    and acks: "\<forall>a \<in> set (pending_acks e). pa_active a \<longrightarrow> a \<in> set (pending_acks e2)"
    by (auto simp: e1_def)
  have v2: "view_ok (view e2)" "length (pending_acks e2) = MAX_PENDING_ACKS" using wf2 by (simp_all add: engine_wf_def)
  define e3 where "e3 = check_suspect_timeouts now (check_ack_timeouts now e2)"
  note c = check_acks_effect [OF v2, of now]
  note d = check_suspects_get [OF c(3), of now, folded e3_def]
  have wf3: "engine_wf e3" by (simp add: e3_def check_suspect_timeouts_wf check_ack_timeouts_wf wf2)
  have same: "ack_expired now e2 = ack_expired now e" "declared now (check_ack_timeouts now e2) = declared now e"
    using c(4) e2(2) by (auto simp: ack_expired_def declared_def suspect_expired_def fun_eq_iff e1_def)
  have e3: "my_id e3 = my_id e" "e_config e3 = e_config e"
    "pending_acks e3 = map (\<lambda>a. if ack_expired now e a then a\<lparr>pa_active := False\<rparr> else a) (pending_acks e2)"
    using c d e2 same by (simp_all add: e3_def e1_def)
  have "cluster_view_get (view e2) n = cluster_view_get (view e) n"
    using update_self_get [OF v other, of now] by (simp add: e2 e1_def)
  then have g: "cluster_view_get (view e3) n = map_option (\<lambda>m. declared now e
        (if \<exists>a \<in> set (pending_acks e2). ack_expired now e a \<and> pa_target_node a = n then suspected now m else m))
        (cluster_view_get (view e) n)"
    using d(1) [of n] c(1) [of n] same
    by (cases "cluster_view_get (view e) n"; cases "\<exists>a \<in> set (pending_acks e2). ack_expired now e a \<and> pa_target_node a = n")
      auto
  have "\<exists>e'. (if k mod 3 = 0 then gossip_to_random_peers now rand e3 else Inr e3) = Inr e' \<and> engine_wf e'
      \<and> view e' = view e3 \<and> pending_acks e' = pending_acks e3 \<and> e_config e' = e_config e3 \<and> my_id e' = my_id e3"
    using gossip_to_random_peers_wf [OF wf3, of now rand] gossip_frame [of now rand e3] wf3 by fastforce
  then obtain e' where e': "(if k mod 3 = 0 then gossip_to_random_peers now rand e3 else Inr e3) = Inr e'"
    "engine_wf e'" "view e' = view e3" "pending_acks e' = pending_acks e3" "e_config e' = e_config e3" "my_id e' = my_id e3"
    by blast
  have "protocol_round now k r ok rand e = Inr e'"
    using p e'(1) by (auto simp: protocol_round_def Let_def simp flip: e1_def e3_def split: if_splits)
  with e' e3 g acks show ?thesis by (intro exI [of _ e'] exI [of _ "pending_acks e2"]) simp
qed

section \<open>A silent member\<close>

text \<open>Where a silent member \<open>n\<close> is between the ping at \<open>t0\<close> and its death: still waited for, or
  suspected since a time not after \<open>t\<close>, or dead. Nothing is assumed of the clock but that it does
  not run backwards.\<close>

definition awaited :: "node_id \<Rightarrow> u64 \<Rightarrow> u64 \<Rightarrow> gossip_engine \<Rightarrow> cluster_member \<Rightarrow> bool" where
  "awaited n t0 t e m \<longleftrightarrow> m_status m = NODE_STATUS_DEAD
     \<or> m_status m = NODE_STATUS_SUSPECT \<and> m_last_seen_ms m \<le> t
     \<or> m_status m = NODE_STATUS_ALIVE
         \<and> (\<exists>a \<in> set (pending_acks e). pa_active a \<and> pa_target_node a = n \<and> pa_ping_sent_ms a = t0)"

definition condemned :: "u64 \<Rightarrow> cluster_member \<Rightarrow> bool" where
  "condemned t m \<longleftrightarrow> m_status m = NODE_STATUS_DEAD \<or> m_status m = NODE_STATUS_SUSPECT \<and> m_last_seen_ms m \<le> t"

text \<open>The verdict of a round on a member: a later status of the three, the incarnation kept.\<close>

lemma declared_fields [simp]: "m_incarnation (declared now e m) = m_incarnation m"
  "m_last_seen_ms (declared now e m) = m_last_seen_ms m"
  by (simp_all add: declared_def)

lemma suspected_incarnation [simp]: "m_incarnation (suspected now m) = m_incarnation m"
  by (simp add: suspected_def)

lemma elapsed_mono: "s \<le> t \<Longrightarrow> t \<le> now \<Longrightarrow> d < now - t \<Longrightarrow> d < now - (s :: u64)"
  by (simp add: word_le_nat_alt word_less_nat_alt unat_sub_if_size)


definition member_state ::
  "node_id \<Rightarrow> gossip_config \<Rightarrow> node_id \<Rightarrow> u64 \<Rightarrow> (gossip_engine \<Rightarrow> cluster_member \<Rightarrow> bool) \<Rightarrow> gossip_engine \<Rightarrow> bool" where
  "member_state i cfg n inc P e \<longleftrightarrow> engine_wf e \<and> my_id e = i \<and> e_config e = cfg
     \<and> (\<exists>m. cluster_view_get (view e) n = Some m \<and> m_incarnation m = inc \<and> P e m)"

lemma member_state_weaken:
  "member_state i cfg n inc P e \<Longrightarrow> (\<And>e m. P e m \<Longrightarrow> Q e m) \<Longrightarrow> member_state i cfg n inc Q e"
  by (auto simp: member_state_def)

abbreviation round_of :: "nat \<Rightarrow> protocol_turn \<Rightarrow> gossip_engine \<Rightarrow> c_error + gossip_engine" where
  "round_of k t \<equiv> protocol_round (pt_now t) k (pt_rand t) (pt_send_ok t) (pt_shuffle t)"

lemma round_member:
  assumes s: "member_state i cfg n inc P e" and other: "n \<noteq> i"
    and step: "\<And>m e' acks. P e m \<Longrightarrow> e_config e = cfg \<Longrightarrow> e_config e' = cfg \<Longrightarrow>
      \<forall>a \<in> set (pending_acks e). pa_active a \<longrightarrow> a \<in> set acks \<Longrightarrow>
      pending_acks e' = map (\<lambda>a. if ack_expired (pt_now t) e a then a\<lparr>pa_active := False\<rparr> else a) acks \<Longrightarrow>
      Q e' (declared (pt_now t) e
        (if \<exists>a \<in> set acks. ack_expired (pt_now t) e a \<and> pa_target_node a = n then suspected (pt_now t) m else m))"
  shows "\<exists>e'. round_of k t e = Inr e' \<and> member_state i cfg n inc Q e'"
proof -
  obtain m where m: "cluster_view_get (view e) n = Some m" "m_incarnation m = inc" "P e m"
    and e: "engine_wf e" "my_id e = i" "e_config e = cfg"
    using s by (auto simp: member_state_def)
  obtain e' acks where r: "round_of k t e = Inr e'" "engine_wf e'" "my_id e' = i" "e_config e' = cfg"
    and acks: "\<forall>a \<in> set (pending_acks e). pa_active a \<longrightarrow> a \<in> set acks"
      "pending_acks e' = map (\<lambda>a. if ack_expired (pt_now t) e a then a\<lparr>pa_active := False\<rparr> else a) acks"
    and g: "cluster_view_get (view e') n = Some (declared (pt_now t) e
        (if \<exists>a \<in> set acks. ack_expired (pt_now t) e a \<and> pa_target_node a = n then suspected (pt_now t) m else m))"
    using round_effect [OF e(1), of n "pt_now t" k "pt_rand t" "pt_send_ok t" "pt_shuffle t"] e m(1) other by auto
  with step [OF m(3) e(3) r(4) acks] m(2) show ?thesis by (auto simp: member_state_def)
qed

lemma awaited_round:
  assumes "member_state i cfg n inc (awaited n t0 t) e" and "n \<noteq> i" and "t \<le> pt_now x"
  shows "\<exists>e'. round_of k x e = Inr e' \<and> member_state i cfg n inc (\<lambda>e m. awaited n t0 (pt_now x) e m
    \<and> (ucast (ack_timeout_ms cfg) < pt_now x - t0 \<longrightarrow> condemned (pt_now x) m)) e'"
proof (rule round_member [OF assms(1,2)])
  fix m :: cluster_member and e' :: gossip_engine and acks :: "pending_ack list"
  let ?now = "pt_now x"
  assume a: "awaited n t0 t e m" and cfg: "e_config e = cfg"
    and keep: "\<forall>a \<in> set (pending_acks e). pa_active a \<longrightarrow> a \<in> set acks"
    and acks: "pending_acks e' = map (\<lambda>a. if ack_expired ?now e a then a\<lparr>pa_active := False\<rparr> else a) acks"
  let ?hit = "\<exists>a \<in> set acks. ack_expired ?now e a \<and> pa_target_node a = n"
  let ?m = "declared ?now e (if ?hit then suspected ?now m else m)"
  show "awaited n t0 ?now e' ?m \<and> (ucast (ack_timeout_ms cfg) < ?now - t0 \<longrightarrow> condemned ?now ?m)"
  proof (cases "m_status m = NODE_STATUS_ALIVE \<and> \<not> ?hit")
    case True
    then obtain b where b: "b \<in> set (pending_acks e)" "pa_active b" "pa_target_node b = n" "pa_ping_sent_ms b = t0"
      using a by (auto simp: awaited_def)
    then have "b \<in> set acks" "\<not> ack_expired ?now e b" using keep True by blast+
    then have "b \<in> set (pending_acks e')" unfolding acks by (metis (mono_tags, lifting) image_eqI list.set_map)
    moreover have "\<not> ucast (ack_timeout_ms cfg) < ?now - t0"
      using \<open>\<not> ack_expired ?now e b\<close> b cfg by (simp add: ack_expired_def)
    moreover have "?m = m" using True by (auto simp: declared_def suspect_expired_def)
    ultimately show ?thesis using True b by (auto simp: awaited_def)
  next
    case False
    have "condemned ?now ?m"
      using a False assms(3)
      by (auto simp: awaited_def condemned_def suspected_def declared_def suspect_expired_def)
    then show ?thesis unfolding awaited_def condemned_def by blast
  qed
qed

lemma condemned_round:
  assumes "member_state i cfg n inc (\<lambda>_. condemned t) e" and "n \<noteq> i" and "t \<le> pt_now x"
  shows "\<exists>e'. round_of k x e = Inr e' \<and> member_state i cfg n inc (\<lambda>_ m. condemned t m
    \<and> (ucast (dead_timeout_ms cfg) < pt_now x - t \<longrightarrow> m_status m = NODE_STATUS_DEAD)) e'"
proof (rule round_member [OF assms(1,2)])
  fix m :: cluster_member and e' :: gossip_engine and acks :: "pending_ack list"
  let ?now = "pt_now x"
  assume c: "condemned t m" and cfg: "e_config e = cfg"
  then have s: "suspected ?now m = m" by (auto simp: condemned_def suspected_def)
  have "m_status m = NODE_STATUS_SUSPECT \<Longrightarrow> ucast (dead_timeout_ms cfg) < ?now - t \<Longrightarrow> suspect_expired ?now e m"
    using c assms(3) cfg elapsed_mono [of "m_last_seen_ms m" t ?now]
    by (auto simp: suspect_expired_def condemned_def)
  with c s show "condemned t (declared ?now e (if \<exists>a \<in> set acks. ack_expired ?now e a \<and> pa_target_node a = n
      then suspected ?now m else m))
    \<and> (ucast (dead_timeout_ms cfg) < ?now - t \<longrightarrow> m_status (declared ?now e (if \<exists>a \<in> set acks.
      ack_expired ?now e a \<and> pa_target_node a = n then suspected ?now m else m)) = NODE_STATUS_DEAD)"
    by (auto simp: condemned_def declared_def)
qed

lemma dead_round:
  assumes "member_state i cfg n inc (\<lambda>_ m. m_status m = NODE_STATUS_DEAD) e" and "n \<noteq> i"
  shows "\<exists>e'. round_of k x e = Inr e' \<and> member_state i cfg n inc (\<lambda>_ m. m_status m = NODE_STATUS_DEAD) e'"
  by (rule round_member [OF assms]) (simp add: suspected_def declared_def)

text \<open>A run of turns, none of which is the last.\<close>

lemma thread_append:
  "list_all (\<lambda>t. \<not> pt_shutdown t) ts \<Longrightarrow> gossip_protocol_thread k (ts @ us) e =
   and_then (gossip_protocol_thread k ts e) (gossip_protocol_thread (k + length ts) us)"
proof (induction ts arbitrary: k e)
  case (Cons t ts)
  then show ?case by (cases "round_of (Suc k) t e") simp_all
qed simp

definition round_keeps :: "(u64 \<Rightarrow> gossip_engine \<Rightarrow> bool) \<Rightarrow> bool" where
  "round_keeps S \<longleftrightarrow> (\<forall>k x t e. S t e \<and> t \<le> pt_now x \<longrightarrow> (\<exists>e'. round_of k x e = Inr e' \<and> S (pt_now x) e'))"

lemma thread_keeps:
  assumes "round_keeps S"
  shows "list_all (\<lambda>t. \<not> pt_shutdown t) ts \<Longrightarrow> sorted (t # map pt_now ts) \<Longrightarrow> S t e \<Longrightarrow>
    \<exists>e'. gossip_protocol_thread k ts e = Inr e' \<and> S (last (t # map pt_now ts)) e'"
proof (induction ts arbitrary: t k e)
  case (Cons x ts)
  have "\<exists>e1. round_of (Suc k) x e = Inr e1 \<and> S (pt_now x) e1"
    by (rule assms [unfolded round_keeps_def, rule_format, of t]) (use Cons.prems in simp)
  then obtain e1 where "round_of (Suc k) x e = Inr e1" "S (pt_now x) e1" by blast
  with Cons.IH [of "pt_now x" e1 "Suc k"] Cons.prems show ?case by auto
qed simp


text \<open>An ALIVE member leaves that status through SUSPECT only: a round that suspects it restarts its
  clock, so the same round cannot declare it dead.\<close>

lemma alive_round:
  assumes "member_state i cfg n inc (\<lambda>_ m. m_status m = NODE_STATUS_ALIVE) e" and "n \<noteq> i"
  shows "\<exists>e'. round_of k x e = Inr e' \<and> member_state i cfg n inc
    (\<lambda>_ m. m_status m = NODE_STATUS_ALIVE \<or> m_status m = NODE_STATUS_SUSPECT) e'"
  by (rule round_member [OF assms]) (auto simp: suspected_def declared_def suspect_expired_def)

lemma leaves_alive_suspect:
  assumes "n \<noteq> i"
  shows "list_all (\<lambda>t. \<not> pt_shutdown t) ts \<Longrightarrow>
    member_state i cfg n inc (\<lambda>_ m. m_status m = NODE_STATUS_ALIVE) e \<Longrightarrow>
    gossip_protocol_thread k ts e = Inr e' \<Longrightarrow>
    member_state i cfg n inc (\<lambda>_ m. m_status m \<noteq> NODE_STATUS_ALIVE) e' \<Longrightarrow>
    \<exists>us vs e1. ts = us @ vs \<and> gossip_protocol_thread k us e = Inr e1
      \<and> member_state i cfg n inc (\<lambda>_ m. m_status m = NODE_STATUS_SUSPECT) e1"
proof (induction ts arbitrary: k e)
  case Nil
  then show ?case by (auto simp: member_state_def)
next
  case (Cons x ts)
  obtain e1 where e1: "round_of (Suc k) x e = Inr e1" "member_state i cfg n inc
      (\<lambda>_ m. m_status m = NODE_STATUS_ALIVE \<or> m_status m = NODE_STATUS_SUSPECT) e1"
    using alive_round [OF Cons.prems(2) assms] by blast
  consider (alive) "member_state i cfg n inc (\<lambda>_ m. m_status m = NODE_STATUS_ALIVE) e1"
    | (suspect) "member_state i cfg n inc (\<lambda>_ m. m_status m = NODE_STATUS_SUSPECT) e1"
    using e1(2) by (auto simp: member_state_def)
  then show ?case
  proof cases
    case alive
    have "gossip_protocol_thread (Suc k) ts e1 = Inr e'" "list_all (\<lambda>t. \<not> pt_shutdown t) ts"
      using Cons.prems(1,3) e1(1) by simp_all
    from Cons.IH [OF this(2) alive this(1) Cons.prems(4)] obtain us vs e2 where
      "ts = us @ vs" "gossip_protocol_thread (Suc k) us e1 = Inr e2"
      "member_state i cfg n inc (\<lambda>_ m. m_status m = NODE_STATUS_SUSPECT) e2" by blast
    then show ?thesis
      using Cons.prems(1) e1(1) by (intro exI [of _ "x # us"] exI [of _ vs] exI [of _ e2]) simp
  next
    case suspect
    then show ?thesis
      using Cons.prems(1) e1(1) by (intro exI [of _ "[x]"] exI [of _ ts] exI [of _ e1]) simp
  qed
qed

text \<open>C3: A member that stays silent is suspected and then declared dead. While the listener of the node
  changes nothing and the clock does not run backwards, whatever peers the rounds ping and gossip with
  and whatever the sends do: an ALIVE member that is pinged at \<open>t0\<close> is SUSPECT at the end of some round,
  no later than the first one that runs later than the acknowledgement timeout, and DEAD after one that
  runs later than the death timeout after that, with its incarnation unchanged, and stays so; no round
  of the run faults.\<close>

theorem silent_member_declared_dead:
  assumes "engine_wf e" and "n \<noteq> my_id e" and "cluster_view_get (view e) n = Some m"
    and "m_status m = NODE_STATUS_ALIVE"
    and "\<exists>a \<in> set (pending_acks e). pa_active a \<and> pa_target_node a = n \<and> pa_ping_sent_ms a = t0"
    and "list_all (\<lambda>t. \<not> pt_shutdown t) (before @ x # between @ y # after)"
    and "sorted (t0 # map pt_now (before @ x # between @ y # after))"
    and "ucast (ack_timeout_ms (e_config e)) < pt_now x - t0"
    and "ucast (dead_timeout_ms (e_config e)) < pt_now y - pt_now x"
  shows "(\<exists>us vs e1 m1. before @ [x] = us @ vs \<and> gossip_protocol_thread k us e = Inr e1
      \<and> cluster_view_get (view e1) n = Some m1
      \<and> m_status m1 = NODE_STATUS_SUSPECT \<and> m_incarnation m1 = m_incarnation m)
    \<and> (\<exists>e' m'. gossip_protocol_thread k (before @ x # between @ y # after) e = Inr e'
      \<and> cluster_view_get (view e') n = Some m'
      \<and> m_status m' = NODE_STATUS_DEAD \<and> m_incarnation m' = m_incarnation m)"
proof -
  let ?S = "member_state (my_id e) (e_config e) n (m_incarnation m)"
  have ord: "sorted (t0 # map pt_now before)" "last (t0 # map pt_now before) \<le> pt_now x"
      "sorted (pt_now x # map pt_now between)" "last (pt_now x # map pt_now between) \<le> pt_now y"
      "pt_now x \<le> pt_now y" "sorted (pt_now y # map pt_now after)"
    using assms(7) by (auto simp: sorted_append last_map)
  have run: "list_all (\<lambda>t. \<not> pt_shutdown t) before" "\<not> pt_shutdown x" "list_all (\<lambda>t. \<not> pt_shutdown t) between"
      "\<not> pt_shutdown y" "list_all (\<lambda>t. \<not> pt_shutdown t) after"
    using assms(6) by simp_all
  have start: "?S (awaited n t0 t0) e" using assms(1,3-5) by (auto simp: member_state_def awaited_def)
  have await: "round_keeps (\<lambda>t. ?S (awaited n t0 t))"
    using awaited_round [OF _ assms(2)] unfolding round_keeps_def by (blast intro: member_state_weaken)
  have condemn: "round_keeps (\<lambda>t e. pt_now x \<le> t \<and> ?S (\<lambda>_. condemned (pt_now x)) e)"
    using condemned_round [OF _ assms(2)] order_trans [of "pt_now x"] unfolding round_keeps_def
    by (blast intro: member_state_weaken)
  have bury: "round_keeps (\<lambda>t. ?S (\<lambda>_ m. m_status m = NODE_STATUS_DEAD))"
    using dead_round [OF _ assms(2)] unfolding round_keeps_def by blast
  obtain e1 where e1: "gossip_protocol_thread k before e = Inr e1"
      "?S (awaited n t0 (last (t0 # map pt_now before))) e1"
    using thread_keeps [OF await run(1) ord(1) start] by blast
  obtain e2 where e2: "round_of (Suc (k + length before)) x e1 = Inr e2" "?S (\<lambda>_. condemned (pt_now x)) e2"
    using awaited_round [OF e1(2) assms(2) ord(2)] assms(8) by (blast intro: member_state_weaken)
  obtain e3 where e3: "gossip_protocol_thread (Suc (k + length before)) between e2 = Inr e3"
      "?S (\<lambda>_. condemned (pt_now x)) e3"
    using thread_keeps [OF condemn run(3) ord(3)]
      e2(2) by blast
  obtain e4 where e4: "round_of (Suc (Suc (k + length before) + length between)) y e3 = Inr e4"
      "?S (\<lambda>_ m. m_status m = NODE_STATUS_DEAD) e4"
    using condemned_round [OF e3(2) assms(2) ord(5)] assms(9) by (blast intro: member_state_weaken)
  obtain e5 where e5: "gossip_protocol_thread (Suc (Suc (k + length before) + length between)) after e4 = Inr e5"
      "?S (\<lambda>_ m. m_status m = NODE_STATUS_DEAD) e5"
    using thread_keeps [OF bury run(5) ord(6) e4(2)] by blast
  have "gossip_protocol_thread k (before @ x # between @ y # after) e = Inr e5"
    using run e1(1) e2(1) e3(1) e4(1) e5(1) by (simp add: thread_append)
  with e5(2) have dead: "\<exists>e' m'. gossip_protocol_thread k (before @ x # between @ y # after) e = Inr e'
      \<and> cluster_view_get (view e') n = Some m'
      \<and> m_status m' = NODE_STATUS_DEAD \<and> m_incarnation m' = m_incarnation m"
    by (auto simp: member_state_def)
  have alive: "?S (\<lambda>_ m. m_status m = NODE_STATUS_ALIVE) e"
    using assms(1,3,4) by (auto simp: member_state_def)
  have "gossip_protocol_thread k (before @ [x]) e = Inr e2"
    using run e1(1) e2(1) by (simp add: thread_append)
  moreover have "?S (\<lambda>_ m. m_status m \<noteq> NODE_STATUS_ALIVE) e2"
    using e2(2) by (rule member_state_weaken) (auto simp: condemned_def)
  ultimately have "\<exists>us vs e1. before @ [x] = us @ vs \<and> gossip_protocol_thread k us e = Inr e1
      \<and> ?S (\<lambda>_ m. m_status m = NODE_STATUS_SUSPECT) e1"
    using leaves_alive_suspect [OF assms(2) _ alive] run by simp
  with dead show ?thesis unfolding member_state_def by blast
qed

definition quiet_turn :: "u64 \<Rightarrow> protocol_turn" where
  "quiet_turn now = \<lparr>pt_shutdown = False, pt_now = now, pt_rand = 0, pt_send_ok = True, pt_shuffle = (\<lambda>_. 0)\<rparr>"

theorem silent_member_declared_dead_witness:
  "let e = snd (add_pending_ack 1000 (engine_with [mk_member 2 NODE_TYPE_WORKER NODE_STATUS_ALIVE 4]) 2)
   in \<exists>e' m'. gossip_protocol_thread 0 (map quiet_turn [1600, 7000, 8000]) e = Inr e'
    \<and> cluster_view_get (view e') 2 = Some m' \<and> m_status m' = NODE_STATUS_DEAD"
proof -
  let ?m = "mk_member 2 NODE_TYPE_WORKER NODE_STATUS_ALIVE 4"
  let ?e0 = "engine_with [?m]"
  let ?e = "snd (add_pending_ack 1000 ?e0 2)"
  let ?a = "\<lparr>pa_target_node = 2, pa_ping_sent_ms = 1000, pa_active = True\<rparr>"
  have wf: "engine_wf ?e" by (intro add_pending_ack_wf engine_with_wf) (simp_all add: table_ok_def)
  have "pending_acks ?e = ?a # replicate 63 zero_ack"
    by (simp add: add_pending_ack_def MAX_PENDING_ACKS_def zero_ack_def numeral_eq_Suc)
  then have slot: "\<exists>a \<in> set (pending_acks ?e). pa_active a \<and> pa_target_node a = 2 \<and> pa_ping_sent_ms a = 1000" by simp
  have get: "cluster_view_get (view ?e) 2 = Some ?m" by (simp add: get_eq_first_with)
  have "2 \<noteq> my_id ?e" "ack_timeout_ms (e_config ?e) = 500" "dead_timeout_ms (e_config ?e) = 5000"
    "m_status ?m = NODE_STATUS_ALIVE"
    by (simp_all add: gossip_default_config_def)
  then show ?thesis
    using silent_member_declared_dead [OF wf _ get _ slot, of "[]" "quiet_turn 1600" "[]" "quiet_turn 7000"
        "[quiet_turn 8000]" 0]
    unfolding Let_def by (simp add: quiet_turn_def) blast
qed


section \<open>A member that answers\<close>

text \<open>Datagrams through the two sockets.\<close>

definition transmit :: "sockaddr_in \<Rightarrow> datagram \<Rightarrow> udp_packet option" where
  "transmit src d = snd (gossip_send_udp (Some (int (length (d_bytes d)))) src (d_bytes d) (d_ip d) (d_port d))"

definition arrival :: "u64 \<Rightarrow> rpc_channel option \<Rightarrow> udp_packet \<Rightarrow> listener_turn" where
  "arrival now connect p = \<lparr>lt_shutdown = False, lt_now = now, lt_connect = connect, lt_select = Select_ready (Some p)\<rparr>"

definition waiting :: "node_id \<Rightarrow> gossip_engine \<Rightarrow> nat" where
  "waiting n e = length (filter (\<lambda>a. pa_active a \<and> pa_target_node a = n) (pending_acks e))"

lemma filter_update_count:
  "i < length xs \<Longrightarrow> length (filter P (xs[i := y])) + (if P (xs ! i) then 1 else 0)
     = length (filter P xs) + (if P y then 1 else 0)"
proof -
  assume i: "i < length xs"
  then have "filter P xs = filter P (take i xs) @ filter P [xs ! i] @ filter P (drop (Suc i) xs)"
    by (metis append_Cons append_Nil filter_append id_take_nth_drop)
  with i show ?thesis by (simp add: upd_conv_take_nth_drop)
qed

lemma add_pending_waiting:
  assumes "\<exists>a \<in> set (pending_acks e). \<not> pa_active a"
  shows "waiting n (snd (add_pending_ack now e n)) = Suc (waiting n e)"
proof -
  obtain i where i: "find_index (\<lambda>a. \<not> pa_active a) (pending_acks e) = Some i"
    using assms find_index_Some_ex [of "\<lambda>a. \<not> pa_active a" "pending_acks e"] by blast
  then have "i < length (pending_acks e)" "\<not> pa_active (pending_acks e ! i)"
    by (auto dest: find_index_holds)
  with filter_update_count [of i "pending_acks e" "\<lambda>a. pa_active a \<and> pa_target_node a = n"] i
  show ?thesis by (simp add: waiting_def add_pending_ack_def)
qed

lemma remove_pending_waiting: "waiting n (snd (remove_pending_ack e n)) = waiting n e - 1"
proof (cases "find_index (\<lambda>a. pa_active a \<and> pa_target_node a = n) (pending_acks e)")
  case None
  then have "filter (\<lambda>a. pa_active a \<and> pa_target_node a = n) (pending_acks e) = []"
    by (simp add: find_index_None_iff filter_empty_conv)
  with None show ?thesis by (simp add: waiting_def remove_pending_ack_def)
next
  case (Some i)
  then have "i < length (pending_acks e)" "pa_active (pending_acks e ! i) \<and> pa_target_node (pending_acks e ! i) = n"
    using find_index_holds [OF Some] by auto
  with filter_update_count [of i "pending_acks e" "\<lambda>a. pa_active a \<and> pa_target_node a = n"
      "(pending_acks e ! i)\<lparr>pa_active := False\<rparr>"] Some
  show ?thesis by (simp add: waiting_def remove_pending_ack_def)
qed

lemma remove_pending_frame [simp]:
  "view (snd (remove_pending_ack e n)) = view e" "my_id (snd (remove_pending_ack e n)) = my_id e"
  by (simp_all add: remove_pending_ack_def split: option.split)

text \<open>What the listener makes of a message this code has built.\<close>

lemma listener_receives:
  assumes "list_all update_ok us" and "length us \<le> GOSSIP_MAX_PIGGYBACK_UPDATES" and "s \<noteq> my_id e"
  shows "listener_step now connect (message_bytes (make_message ty s k us)) ip port e
    = dispatch_message now connect e (make_message ty s k us) ip port"
proof -
  let ?msg = "make_message ty s k us"
  have fit: "length (message_bytes ?msg) \<le> GOSSIP_MAX_PAYLOAD_SIZE" "16 \<le> length (message_bytes ?msg)"
    using serialize_make_message(2,3) [OF assms(2,1)] by simp_all
  have "gossip_message_deserialize (message_bytes ?msg) = Inr ?msg"
    using message_deserialize_bytes [OF make_message_ok(1) [OF assms(2,1)], of ty s k "[]"]
    by (simp add: received_make_message [OF assms(2,1)])
  moreover have "sender_id ?msg = s" by (simp add: make_message_def)
  ultimately show ?thesis using fit assms(3) by (simp add: listener_step_def Let_def)
qed

lemma arrival_step:
  assumes "length (sin_addr (pk_from p)) = 4"
    and "pk_data p = message_bytes (make_message ty s k us)"
    and "list_all update_ok us" and "length us \<le> GOSSIP_MAX_PIGGYBACK_UPDATES" and "s \<noteq> my_id e"
  shows "\<exists>ip. inet_pton ip = Some (sin_addr (pk_from p)) \<and> listener_turn_step (arrival now connect p) (old, e)
    = map_sum id (Pair ip) (dispatch_message now connect e (make_message ty s k us) ip
        (read_u16_net (sin_port (pk_from p))))"
proof -
  have "length (pk_data p) \<le> GOSSIP_MAX_PAYLOAD_SIZE"
    unfolding assms(2) using serialize_make_message(2) [OF assms(4,3)] .
  then obtain ip where "gossip_recv_udp (Some p) GOSSIP_MAX_PAYLOAD_SIZE old MAX_IP_LEN
      = Some (pk_data p, ip, read_u16_net (sin_port (pk_from p)))" "inet_pton ip = Some (sin_addr (pk_from p))"
    using recv_udp_eq [OF assms(1)] by blast
  then show ?thesis
    using listener_receives [OF assms(3-5)] assms(2)
    by (auto simp: listener_turn_step_def arrival_def)
qed

text \<open>A loop over all the updates a message announces is a fold.\<close>

lemma for_updates_fold: "for_updates f (length us) (us @ rest) e = Inr (foldl (\<lambda>e u. f u e) e us)"
  by (induction us arbitrary: e) simp_all

lemma make_message_loop:
  assumes "list_all update_ok us" and "length us \<le> GOSSIP_MAX_PIGGYBACK_UPDATES"
  shows "for_updates f (unat (num_updates (make_message ty s k us))) (updates (make_message ty s k us)) e
    = Inr (foldl (\<lambda>e u. f u e) e us)"
  using make_message_ok(2) [OF assms(2,1), of ty s k] for_updates_fold [of f us]
  by (simp add: make_message_def fill_updates_def)

lemma fold_wf:
  "(\<And>u e. engine_wf e \<Longrightarrow> update_ok u \<Longrightarrow> engine_wf (f u e)) \<Longrightarrow> engine_wf e \<Longrightarrow> list_all update_ok us \<Longrightarrow>
   engine_wf (foldl (\<lambda>e u. f u e) e us)"
  by (induction us arbitrary: e) auto

lemma ping_update_id [simp]: "my_id (ping_update now u e) = my_id e"
  by (simp add: ping_update_def notify_update_def Let_def split: option.split)

lemma ack_update_keeps:
  "view_ok (view e) \<Longrightarrow> view_ok (view (ack_update now u e))" "pending_acks (ack_update now u e) = pending_acks e"
  using add_ok [of "view e"] update_status_ok [of "view e"]
  by (auto simp: ack_update_def notify_update_def effect_defs split: option.split)

lemma ack_update_other:
  assumes "view_ok (view e)" and "u_node_id u \<noteq> n"
  shows "cluster_view_get (view (ack_update now u e)) n = cluster_view_get (view e) n"
  using assms add_get [OF assms(1), of now "member_of_update now u" n]
    update_status_get [OF assms(1), of now "u_node_id u" "u_status u" "u_incarnation u" n]
  by (auto simp: ack_update_def notify_update_def member_of_update_def effect_defs split: option.split)

lemma ack_fold_other:
  "view_ok (view e) \<Longrightarrow> list_all (\<lambda>u. u_node_id u \<noteq> n) us \<Longrightarrow>
   cluster_view_get (view (foldl (\<lambda>e u. ack_update now u e) e us)) n = cluster_view_get (view e) n
   \<and> pending_acks (foldl (\<lambda>e u. ack_update now u e) e us) = pending_acks e"
  by (induction us arbitrary: e) (simp_all add: ack_update_other ack_update_keeps)

lemma cluster_state_not_self: "list_all (\<lambda>u. u_node_id u \<noteq> my_id e) (cluster_state_updates now limit e)"
  by (auto simp: cluster_state_updates_def list_all_iff update_of_member_def)

text \<open>The acknowledgement of node \<open>n\<close>: one wait for it ends, and with it the suspicion.\<close>

definition acknowledged :: "cluster_member \<Rightarrow> node_status" where
  "acknowledged m = (if m_status m = NODE_STATUS_SUSPECT then NODE_STATUS_ALIVE else m_status m)"

lemma ack_handled:
  assumes "engine_wf e" and "cluster_view_get (view e) n = Some m"
    and us: "list_all update_ok us" "length us \<le> GOSSIP_MAX_PIGGYBACK_UPDATES" "list_all (\<lambda>u. u_node_id u \<noteq> n) us"
  shows "\<exists>e' m'. dispatch_message now connect e (make_message GOSSIP_MSG_ACK n k us) ip port = Inr e'
    \<and> waiting n e' = waiting n e - 1 \<and> cluster_view_get (view e') n = Some m' \<and> m_status m' = acknowledged m"
proof -
  let ?e1 = "ack_recover now n (snd (remove_pending_ack e n))"
  have wf: "engine_wf ?e1" using assms(1) by (intro ack_recover_wf remove_pending_ack_wf)
  have v: "view_ok (view e)" using assms(1) by (simp add: engine_wf_def)
  have "\<exists>m'. cluster_view_get (view ?e1) n = Some m' \<and> m_status m' = acknowledged m"
    using assms(2) set_status_get [of "snd (remove_pending_ack e n)" now n NODE_STATUS_ALIVE "m_incarnation m" n] v
    by (simp add: ack_recover_def acknowledged_def updated_member_def)
  moreover have "waiting n ?e1 = waiting n e - 1"
    using remove_pending_waiting [of n e]
    by (simp add: ack_recover_def waiting_def set_status_def split: option.split)
  moreover have "dispatch_message now connect e (make_message GOSSIP_MSG_ACK n k us) ip port
      = Inr (foldl (\<lambda>e u. ack_update now u e) ?e1 us)"
    using make_message_loop [OF us(1,2), of "ack_update now" GOSSIP_MSG_ACK n k ?e1]
    by (simp add: dispatch_message_def handle_ack_message_def gossip_msg_defs) (simp add: make_message_def)
  moreover have "view_ok (view ?e1)" using wf by (simp add: engine_wf_def)
  ultimately show ?thesis
    using ack_fold_other [OF _ us(3), of ?e1 now] by (auto simp: waiting_def)
qed

text \<open>A ping is answered with one datagram to where it came from.\<close>

lemma ping_handled:
  assumes "engine_wf e" and us: "list_all update_ok us" "length us \<le> GOSSIP_MAX_PIGGYBACK_UPDATES"
  shows "\<exists>e' j vs. dispatch_message now connect e (make_message GOSSIP_MSG_PING s k us) ip port = Inr e' \<and> engine_wf e'
    \<and> list_all update_ok vs \<and> length vs \<le> GOSSIP_MAX_PIGGYBACK_UPDATES \<and> list_all (\<lambda>u. u_node_id u \<noteq> my_id e) vs
    \<and> last (sent e') = \<lparr>d_bytes = message_bytes (make_message GOSSIP_MSG_ACK (my_id e) j vs), d_ip = ip, d_port = port\<rparr>"
proof -
  let ?e1 = "foldl (\<lambda>e u. ping_update now u e) e us"
  let ?vs = "cluster_state_updates now GOSSIP_MAX_PIGGYBACK_UPDATES ?e1"
  have wf: "engine_wf ?e1" using ping_update_wf assms by (intro fold_wf) auto
  have id: "my_id ?e1 = my_id e" by (rule foldl_frame) simp
  note vs = cluster_state_updates_ok [OF wf, of now GOSSIP_MAX_PIGGYBACK_UPDATES]
  have "dispatch_message now connect e (make_message GOSSIP_MSG_PING s k us) ip port
      = Inr (send_new_message GOSSIP_MSG_ACK ?vs ip port ?e1)"
    using make_message_loop [OF us, of "ping_update now" GOSSIP_MSG_PING s k e]
    by (simp add: dispatch_message_def handle_ping_message_def gossip_msg_defs) (simp add: make_message_def)
  moreover have "last (sent (send_new_message GOSSIP_MSG_ACK ?vs ip port ?e1))
      = \<lparr>d_bytes = message_bytes (make_message GOSSIP_MSG_ACK (my_id e) (e_sequence_num ?e1) ?vs), d_ip = ip, d_port = port\<rparr>"
    by (simp add: send_new_message_eq [OF vs(2,1)] send_datagram_def id)
  ultimately show ?thesis
    using vs cluster_state_not_self [of ?e1 now GOSSIP_MAX_PIGGYBACK_UPDATES] send_new_message_wf [OF wf vs(2,1)]
    unfolding id by blast
qed


lemma ping_sent:
  assumes "engine_wf e" and "cluster_view_get (view e) n = Some m" and "\<exists>a \<in> set (pending_acks e). \<not> pa_active a"
  shows "\<exists>e' us k. send_ping_to_node now True n e = Inr (0, e') \<and> engine_wf e' \<and> my_id e' = my_id e \<and> view e' = view e
    \<and> waiting n e' = Suc (waiting n e) \<and> list_all update_ok us \<and> length us \<le> GOSSIP_MAX_PIGGYBACK_UPDATES
    \<and> last (sent e') = \<lparr>d_bytes = message_bytes (make_message GOSSIP_MSG_PING (my_id e) k us),
        d_ip = m_ip_address m, d_port = m_gossip_port m\<rparr>"
proof -
  let ?b = "update_queue_pop_batch (uqueue e) (unat (max_piggyback (e_config e)))"
  let ?e1 = "e\<lparr>uqueue := snd ?b\<rparr>"
  let ?us = "if fst ?b = [] then cluster_state_updates now GOSSIP_MAX_PIGGYBACK_UPDATES ?e1 else fst ?b"
  have q: "uq_ok (uqueue e)" "list_all update_ok (uq_contents (uqueue e))"
    "unat (max_piggyback (e_config e)) \<le> GOSSIP_MAX_PIGGYBACK_UPDATES"
    using assms(1) by (simp_all add: engine_wf_def)
  note b = pop_batch_contents [OF q(1), of "unat (max_piggyback (e_config e))"]
  have fit: "length (fst ?b) \<le> GOSSIP_MAX_PIGGYBACK_UPDATES" using b(1) q(3) by simp
  have "list_all update_ok (fst ?b)" "list_all update_ok (uq_contents (snd ?b))"
    using q(2) b by (auto simp: list_all_iff dest: in_set_takeD in_set_dropD)
  moreover from this have "engine_wf ?e1" using assms(1) b(2) by (simp add: engine_wf_def)
  ultimately have us: "list_all update_ok ?us" "length ?us \<le> GOSSIP_MAX_PIGGYBACK_UPDATES" and wf1: "engine_wf ?e1"
    using fit cluster_state_updates_ok [of ?e1 now GOSSIP_MAX_PIGGYBACK_UPDATES] by auto
  have "member_wf m" using assms(1,2) by (auto simp: engine_wf_def list_all_iff dest!: get_SomeD)
  then have ip: "strcpy_to MAX_IP_LEN (m_ip_address m) = m_ip_address m" by (simp add: member_wf_def)
  define e2 where "e2 = send_new_message GOSSIP_MSG_PING ?us (m_ip_address m) (m_gossip_port m) ?e1"
  have run: "send_ping_to_node now True n e = Inr (0, snd (add_pending_ack now e2 n))"
    using assms(2) fit by (simp add: send_ping_to_node_def Let_def ip e2_def)
  have e2: "engine_wf e2" "my_id e2 = my_id e" "view e2 = view e" "pending_acks e2 = pending_acks e"
    using send_new_message_wf [OF wf1 us(2,1)] by (simp_all add: e2_def)
  have "last (sent e2) = \<lparr>d_bytes = message_bytes (make_message GOSSIP_MSG_PING (my_id e) (e_sequence_num e) ?us),
      d_ip = m_ip_address m, d_port = m_gossip_port m\<rparr>"
    by (simp add: e2_def send_new_message_eq [OF us(2,1)] send_datagram_def bump_sequence_def)
  moreover have "sent (snd (add_pending_ack now e2 n)) = sent e2"
    by (simp add: add_pending_ack_def split: option.split)
  moreover have "waiting n (snd (add_pending_ack now e2 n)) = Suc (waiting n e)"
    using add_pending_waiting [of e2 n now] assms(3) e2(4) by (simp add: waiting_def)
  moreover have "engine_wf (snd (add_pending_ack now e2 n))" using e2(1) by (rule add_pending_ack_wf)
  moreover have "view (snd (add_pending_ack now e2 n)) = view e" "my_id (snd (add_pending_ack now e2 n)) = my_id e"
    by (simp_all add: e2(2,3))
  ultimately show ?thesis
    using run us by (intro exI [of _ "snd (add_pending_ack now e2 n)"] exI [of _ ?us] exI [of _ "e_sequence_num e"] conjI) simp_all
qed

lemma transmit_eq:
  "inet_pton (d_ip d) = Some a \<Longrightarrow>
   transmit src d = Some \<lparr>pk_data = d_bytes d, pk_from = src, pk_to = socket_address a (d_port d)\<rparr>"
  by (simp add: transmit_def gossip_send_udp_def)

text \<open>C4: A ping to a node that runs is answered, over the sockets: from two well-formed engines of which
  the first has the second in its view with its address and a free slot in its table of pending
  acknowledgements, the ping goes to that address, the listener of the second answers it with one
  datagram to the socket the ping came from, and when the first receives it the wait the ping began
  is over; the second is then ALIVE if it was SUSPECT, and any other status (ALIVE or DEAD) is left as
  it was.\<close>

theorem ping_answered:
  assumes "engine_wf a" and "engine_wf b" and "my_id a \<noteq> my_id b"
    and "cluster_view_get (view a) (my_id b) = Some m" and "inet_pton (m_ip_address m) = Some addr_b"
    and "\<exists>s \<in> set (pending_acks a). \<not> pa_active s" and "length addr_a = 4" and "length addr_b' = 4"
    and src_a_def: "src_a = socket_address addr_a port_a" and src_b_def: "src_b = socket_address addr_b' port_b"
  shows "\<exists>a1 ping b1 ack a2 ip_b ip_a m'. send_ping_to_node now True (my_id b) a = Inr (0, a1)
    \<and> transmit src_a (last (sent a1)) = Some ping \<and> pk_to ping = socket_address addr_b (m_gossip_port m)
    \<and> listener_turn_step (arrival now_b connect ping) (old_b, b) = Inr (ip_b, b1)
    \<and> transmit src_b (last (sent b1)) = Some ack \<and> pk_to ack = src_a
    \<and> listener_turn_step (arrival now_a connect ack) (old_a, a1) = Inr (ip_a, a2)
    \<and> waiting (my_id b) a2 = waiting (my_id b) a
    \<and> cluster_view_get (view a2) (my_id b) = Some m'
    \<and> m_status m' = (if m_status m = NODE_STATUS_SUSPECT then NODE_STATUS_ALIVE else m_status m)"
proof -
  obtain a1 us k where a1: "send_ping_to_node now True (my_id b) a = Inr (0, a1)" "engine_wf a1" "my_id a1 = my_id a"
      "view a1 = view a" "waiting (my_id b) a1 = Suc (waiting (my_id b) a)"
    and us: "list_all update_ok us" "length us \<le> GOSSIP_MAX_PIGGYBACK_UPDATES"
    and ping: "last (sent a1) = \<lparr>d_bytes = message_bytes (make_message GOSSIP_MSG_PING (my_id a) k us),
        d_ip = m_ip_address m, d_port = m_gossip_port m\<rparr>"
    using ping_sent [OF assms(1,4,6)] by blast
  define p where "p = \<lparr>pk_data = d_bytes (last (sent a1)), pk_from = src_a,
    pk_to = socket_address addr_b (m_gossip_port m)\<rparr>"
  have t: "transmit src_a (last (sent a1)) = Some p" using ping assms(5) by (simp add: p_def transmit_eq)
  have pd: "length (sin_addr (pk_from p)) = 4" "pk_data p = message_bytes (make_message GOSSIP_MSG_PING (my_id a) k us)"
    "read_u16_net (sin_port (pk_from p)) = port_a" "sin_addr (pk_from p) = addr_a"
    using assms(7) by (simp_all add: p_def ping src_a_def socket_address_def)
  obtain ip where ip: "inet_pton ip = Some addr_a"
    and recv: "listener_turn_step (arrival now_b connect p) (old_b, b)
      = map_sum id (Pair ip) (dispatch_message now_b connect b (make_message GOSSIP_MSG_PING (my_id a) k us) ip port_a)"
    using arrival_step [OF pd(1,2) us assms(3), of now_b connect old_b] pd(3,4) by auto
  obtain b1 j vs where b1: "dispatch_message now_b connect b (make_message GOSSIP_MSG_PING (my_id a) k us) ip port_a = Inr b1"
    and vs: "list_all update_ok vs" "length vs \<le> GOSSIP_MAX_PIGGYBACK_UPDATES" "list_all (\<lambda>u. u_node_id u \<noteq> my_id b) vs"
    and ack: "last (sent b1) = \<lparr>d_bytes = message_bytes (make_message GOSSIP_MSG_ACK (my_id b) j vs), d_ip = ip, d_port = port_a\<rparr>"
    using ping_handled [OF assms(2) us, of now_b connect "my_id a" k ip port_a] by blast
  define q where "q = \<lparr>pk_data = d_bytes (last (sent b1)), pk_from = src_b, pk_to = src_a\<rparr>"
  have t2: "transmit src_b (last (sent b1)) = Some q" using ack ip by (simp add: q_def transmit_eq src_a_def)
  have qd: "length (sin_addr (pk_from q)) = 4" "pk_data q = message_bytes (make_message GOSSIP_MSG_ACK (my_id b) j vs)"
    using assms(8) by (simp_all add: q_def ack src_b_def socket_address_def)
  have "my_id b \<noteq> my_id a1" using a1(3) assms(3) by simp
  from arrival_step [OF qd vs(1,2) this, of now_a connect old_a] obtain ip' where
    recv2: "listener_turn_step (arrival now_a connect q) (old_a, a1) = map_sum id (Pair ip')
      (dispatch_message now_a connect a1 (make_message GOSSIP_MSG_ACK (my_id b) j vs) ip' (read_u16_net (sin_port (pk_from q))))"
    by blast
  have "cluster_view_get (view a1) (my_id b) = Some m" using assms(4) a1(4) by simp
  from ack_handled [OF a1(2) this vs, of now_a connect j ip'] obtain a2 m' where
    a2: "dispatch_message now_a connect a1 (make_message GOSSIP_MSG_ACK (my_id b) j vs) ip' (read_u16_net (sin_port (pk_from q)))
      = Inr a2" "waiting (my_id b) a2 = waiting (my_id b) a"
      "cluster_view_get (view a2) (my_id b) = Some m'" "m_status m' = acknowledged m"
    using a1(5) by fastforce
  have "pk_to p = socket_address addr_b (m_gossip_port m)" "pk_to q = src_a" by (simp_all add: p_def q_def)
  with a1(1) t recv b1 t2 recv2 a2 show ?thesis unfolding acknowledged_def by (intro exI conjI) auto
qed

definition engine_of :: "node_id \<Rightarrow> cluster_member list \<Rightarrow> gossip_engine" where
  "engine_of i ms = (engine_with ms)\<lparr>my_id := i\<rparr>"

theorem ping_answered_witness:
  "\<exists>a1 ping b1 ack a2 ip_b ip_a m'.
     send_ping_to_node 500 True 2 (engine_of 1 [mk_member 2 NODE_TYPE_WORKER NODE_STATUS_SUSPECT 4]) = Inr (0, a1)
    \<and> transmit (socket_address [10, 0, 0, 1] 7000) (last (sent a1)) = Some ping
    \<and> listener_turn_step (arrival 501 None ping) ([], engine_of 2 []) = Inr (ip_b, b1)
    \<and> transmit (socket_address [10, 0, 0, 9] 7000) (last (sent b1)) = Some ack
    \<and> listener_turn_step (arrival 502 None ack) ([], a1) = Inr (ip_a, a2)
    \<and> cluster_view_get (view a2) 2 = Some m' \<and> m_status m' = NODE_STATUS_ALIVE"
proof -
  let ?m = "mk_member 2 NODE_TYPE_WORKER NODE_STATUS_SUSPECT 4"
  let ?a = "engine_of 1 [?m]" and ?b = "engine_of 2 []"
  have "engine_wf (engine_with [?m])" "engine_wf (engine_with [])"
    by (intro engine_with_wf; simp add: table_ok_def)+
  then have wf: "engine_wf ?a" "engine_wf ?b" by (simp_all add: engine_of_def engine_wf_def)
  have k: "my_id ?a \<noteq> my_id ?b" "cluster_view_get (view ?a) (my_id ?b) = Some ?m"
    "\<exists>s \<in> set (pending_acks ?a). \<not> pa_active s" "length [10, 0, 0, 1 :: u8] = 4" "length [10, 0, 0, 9 :: u8] = 4"
    by (simp_all add: engine_of_def get_eq_first_with MAX_PENDING_ACKS_def zero_ack_def)
  have addr: "inet_pton (m_ip_address ?m) = Some [10, 0, 0, 9]" by (simp add: inet_pton_def isdigit_def)
  have id: "my_id ?b = 2" "m_status ?m = NODE_STATUS_SUSPECT" by (simp_all add: engine_of_def)
  show ?thesis
    using ping_answered [OF wf k(1,2) addr k(3,4,5) HOL.refl HOL.refl, of 500 7000 501 None "[]" 7000 502 "[]"]
    unfolding id by auto
qed

end
