(* ===== verification/Dag_Registration.thy ===== *)
theory Dag_Registration
  imports Node_Properties
begin

text \<open>
  Properties of \<open>handle_add_dag\<close> of src/node/node_handlers.c: which registration requests are
  accepted and what they store, when the request makes validation read outside the dependency
  array, and when its propagation writes beyond a channel's send buffer.
\<close>

section \<open>Requests\<close>

text \<open>The payload a client builds (test/dag_register.c): stages with their dependencies.\<close>

type_synonym stage = "u32 \<times> u32 list"

definition stage_bytes :: "stage \<Rightarrow> bytes" where
  "stage_bytes st = write_u32_net (fst st) @ write_u32_net (word_of_nat (length (snd st)))
     @ concat (map write_u32_net (snd st))"

definition register_request :: "u32 \<Rightarrow> string \<Rightarrow> stage list \<Rightarrow> bytes" where
  "register_request i name sts =
     write_u32_net i @ put_string name @ write_u32_net (word_of_nat (length sts)) @ concat (map stage_bytes sts)"

definition stage_of :: "stage \<Rightarrow> dag_step" where
  "stage_of st = stage_step (fst st) (length (snd st)) (take MAX_STEP_DEPENDENCIES (snd st))"

definition requested_dag :: "u64 \<Rightarrow> u32 \<Rightarrow> string \<Rightarrow> stage list \<Rightarrow> dag" where
  "requested_dag now i name sts = \<lparr>dag_id = i, dag_name = name, dag_version = 1,
     dag_steps = map stage_of sts, created_at_ms = now, updated_at_ms = now\<rparr>"

definition name_fits :: "string \<Rightarrow> bool" where
  "name_fits s \<longleftrightarrow> c_string s \<and> length s < MAX_DAG_NAME"

lemma take_dependencies_split:
  "take_dependencies (min (length deps) n) (concat (map write_u32_net deps) @ rest) =
     Inr (take n deps, concat (map write_u32_net (drop n deps)) @ rest)"
proof -
  have "concat (map write_u32_net deps) = concat (map write_u32_net (take n deps))
      @ concat (map write_u32_net (drop n deps))"
    by (simp flip: concat_append map_append)
  then show ?thesis
    using take_dependencies_write [of "take n deps" "concat (map write_u32_net (drop n deps)) @ rest"]
    by (simp add: min.commute)
qed

lemma parse_stage_bytes:
  "length (snd st) < 2 ^ 32 \<Longrightarrow> parse_stage (stage_bytes st @ rest) =
     Inr (stage_of st, concat (map write_u32_net (drop MAX_STEP_DEPENDENCIES (snd st))) @ rest)"
  using unat_short [of "length (snd st)"]
  by (simp add: parse_stage_def stage_bytes_def stage_of_def take_dependencies_split)

lemma parse_stages_bytes:
  "\<forall>st \<in> set sts. length (snd st) \<le> MAX_STEP_DEPENDENCIES \<Longrightarrow>
   parse_stages (length sts + n) (concat (map stage_bytes sts) @ rest) =
     and_then (parse_stages n rest) (\<lambda>(ss, bs). Inr (map stage_of sts @ ss, bs))"
proof (induction sts)
  case Nil
  show ?case by (cases "parse_stages n rest") auto
next
  case (Cons st sts)
  then have "parse_stage (stage_bytes st @ concat (map stage_bytes sts) @ rest) =
      Inr (stage_of st, concat (map stage_bytes sts) @ rest)"
    by (subst parse_stage_bytes) (simp_all add: MAX_STEP_DEPENDENCIES_def)
  with Cons show ?case by (cases "parse_stages n rest") auto
qed

lemma parse_request:
  assumes "name_fits name" and "length sts \<le> 128"
    and "parse_stages (length sts) (concat (map stage_bytes sts)) = Inr (map stage_of sts, rest)"
  shows "parse_dag now (register_request i name sts) = Inr (requested_dag now i name sts)"
proof -
  have name: "c_string name" "length name < MAX_DAG_NAME" "MAX_DAG_NAME \<le> 64"
    using assms(1) by (simp_all add: name_fits_def MAX_DAG_NAME_def)
  have "unat (word_of_nat (length sts) :: u32) = length sts" using assms(2) by (simp add: unat_short)
  then show ?thesis
    using name assms(2,3)
    by (simp add: parse_dag_def register_request_def requested_dag_def MAX_DAG_STEPS_def)
qed

lemma parse_small_request:
  assumes "name_fits name" and "length sts \<le> 128"
    and "\<forall>st \<in> set sts. length (snd st) \<le> MAX_STEP_DEPENDENCIES"
  shows "parse_dag now (register_request i name sts) = Inr (requested_dag now i name sts)"
  using parse_stages_bytes [OF assms(3), of 0 "[]"] by (intro parse_request [OF assms(1,2)]) simp

text \<open>A last stage with too many dependencies is read in part; what follows it is ignored.\<close>

lemma parse_big_request:
  assumes "name_fits name" and "length sts < 128"
    and "\<forall>st \<in> set sts. length (snd st) \<le> MAX_STEP_DEPENDENCIES" and "length (snd st) < 2 ^ 32"
  shows "parse_dag now (register_request i name (sts @ [st])) = Inr (requested_dag now i name (sts @ [st]))"
  using parse_stages_bytes [OF assms(3), of 1 "stage_bytes st"] parse_stage_bytes [OF assms(4), of "[]"] assms(2)
  by (intro parse_request [OF assms(1)]) simp_all

section \<open>Validation of a request\<close>

definition deps_known :: "stage list \<Rightarrow> bool" where
  "deps_known sts \<longleftrightarrow> (\<forall>st \<in> set sts. set (take MAX_STEP_DEPENDENCIES (snd st)) \<subseteq> fst ` set sts)"

lemma stage_of_simps [simp]:
  "step_id (stage_of st) = fst st" "config_data (stage_of st) = None"
  "dependency_count (stage_of st) = length (snd st)"
  "length (dependencies (stage_of st)) = MAX_STEP_DEPENDENCIES"
  by (simp_all add: stage_of_def stage_step_def)

lemma stage_used: "used_dependencies (stage_of st) = take MAX_STEP_DEPENDENCIES (snd st)
    \<or> MAX_STEP_DEPENDENCIES < length (snd st)"
  by (auto simp: used_dependencies_def stage_of_def stage_step_def)

lemma requested_simps [simp]:
  "dag_id (requested_dag now i name sts) = i" "dag_steps (requested_dag now i name sts) = map stage_of sts"
  "dag_name (requested_dag now i name sts) = name"
  by (simp_all add: requested_dag_def)

lemma validate_request:
  assumes "1 \<le> length sts" and "length sts \<le> 128"
    and "\<forall>st \<in> set sts. length (snd st) \<le> MAX_STEP_DEPENDENCIES"
  shows "dag_validate (requested_dag now i name sts) =
    Inr (if deps_known sts then RESULT_OK else RESULT_ERR_INVALID)"
proof -
  let ?d = "requested_dag now i name sts"
  have u: "used_dependencies (stage_of st) = take MAX_STEP_DEPENDENCIES (snd st)" if "st \<in> set sts" for st
    using stage_used [of st] assms(3) that by auto
  have "(\<forall>s \<in> set (dag_steps ?d). set (used_dependencies s) \<subseteq> step_id ` set (dag_steps ?d)) \<longleftrightarrow> deps_known sts"
    using u by (auto simp: deps_known_def image_image)
  moreover have "\<forall>s \<in> set (dag_steps ?d). dependency_count s \<le> length (dependencies s)"
    using assms(3) by auto
  ultimately show ?thesis
    using check_steps_spec [of "dag_steps ?d" ?d] assms(1,2)
    by (cases sts) (auto simp: dag_validate_def MAX_DAG_STEPS_def)
qed

section \<open>Propagation to the workers\<close>

definition sync_request :: "node_id \<Rightarrow> rule_id \<Rightarrow> bytes \<Rightarrow> bytes" where
  "sync_request self dag buffer = write_u32_net (word_of_nat (RPC_HEADER_SIZE + length buffer))
     @ write_u32_net dag @ host_u16 self
     @ [type_status_byte RPC_TYPE_REQUEST RPC_STATUS_UNKNOWN] @ [FUNC_ID_SYNC_CATALOG] @ buffer"

definition data_channel_of :: "node_state \<Rightarrow> node_id \<Rightarrow> rpc_channel option" where
  "data_channel_of s w = Option.bind (peer_pool_get (ns_pool s) w) p_data_channel"

definition reached :: "(node_id \<Rightarrow> bool) \<Rightarrow> node_state \<Rightarrow> node_id list \<Rightarrow> node_id list" where
  "reached send_ok s ws = filter (\<lambda>w. data_channel_of s w \<noteq> None \<and> send_ok w) ws"

definition unknown_workers :: "node_state \<Rightarrow> node_id list \<Rightarrow> node_id list" where
  "unknown_workers s ws = filter (\<lambda>w. peer_pool_get (ns_pool s) w = None) ws"

lemma data_channel_mem:
  "data_channel_of s w = Some ch \<Longrightarrow> \<exists>p \<in> set (peers (ns_pool s)). p_data_channel p = Some ch"
  by (auto simp: data_channel_of_def peer_pool_get_def peer_index_def bind_eq_Some_conv
      dest!: find_index_less)

lemma sync_worker_result:
  assumes "\<forall>ch. data_channel_of s w = Some ch \<longrightarrow> RPC_HEADER_SIZE + length buffer \<le> tx_buffer_size ch"
  shows "sync_worker send_ok dag buffer w s = Inr (s\<lparr>
      data_sent := data_sent s @ map (\<lambda>w. (w, sync_request (self_id s) dag buffer)) (reached send_ok s [w]),
      bad_unlocks := bad_unlocks s + length (unknown_workers s [w])\<rparr>)"
  using assms
  by (auto simp: sync_worker_def data_channel_of_def reached_def unknown_workers_def release_unheld_def
      send_to_peer_def rpc_pack_message_def sync_request_def split: option.splits)

lemma sync_workers_result:
  assumes "\<forall>w \<in> set ws. \<forall>ch. data_channel_of s w = Some ch \<longrightarrow> RPC_HEADER_SIZE + length buffer \<le> tx_buffer_size ch"
  shows "sync_workers send_ok dag buffer ws s = Inr (s\<lparr>
      data_sent := data_sent s @ map (\<lambda>w. (w, sync_request (self_id s) dag buffer)) (reached send_ok s ws),
      bad_unlocks := bad_unlocks s + length (unknown_workers s ws)\<rparr>)"
  using assms
proof (induction ws arbitrary: s)
  case Nil
  show ?case by (simp add: reached_def unknown_workers_def)
next
  case (Cons w ws)
  then show ?case
    by (simp add: sync_worker_result reached_def unknown_workers_def data_channel_of_def)
qed

lemma sync_worker_overflow:
  assumes "data_channel_of s w = Some ch" and "tx_buffer_size ch < RPC_HEADER_SIZE + length buffer"
  shows "sync_worker send_ok dag buffer w s = Inl Out_of_bounds"
  using assms
  by (auto simp: sync_worker_def data_channel_of_def send_to_peer_def rpc_pack_message_def
      bind_eq_Some_conv)

lemma sync_worker_Inr_frame:
  "sync_worker send_ok dag buffer w s = Inr s' \<Longrightarrow> ns_pool s' = ns_pool s \<and> ns_identity s' = ns_identity s"
  by (auto simp: sync_worker_def send_to_peer_def release_unheld_def rpc_pack_message_def
      split: option.splits if_splits)

lemma sync_worker_Inl: "sync_worker send_ok dag buffer w s = Inl e \<Longrightarrow> e = Out_of_bounds"
  by (auto simp: sync_worker_def send_to_peer_def rpc_pack_message_def split: option.splits if_splits)

lemma sync_workers_overflow:
  assumes "w \<in> set ws" and "data_channel_of s w = Some ch"
    and "tx_buffer_size ch < RPC_HEADER_SIZE + length buffer"
  shows "sync_workers send_ok dag buffer ws s = Inl Out_of_bounds"
  using assms
proof (induction ws arbitrary: s)
  case (Cons v ws)
  show ?case
  proof (cases "sync_worker send_ok dag buffer v s")
    case (Inl e)
    then show ?thesis using sync_worker_Inl by simp
  next
    case (Inr s')
    then have "v \<noteq> w" using sync_worker_overflow [OF Cons.prems(2,3), of send_ok dag] by auto
    moreover have "data_channel_of s' w = Some ch"
      using Cons.prems(2) sync_worker_Inr_frame [OF Inr] by (simp add: data_channel_of_def)
    ultimately show ?thesis using Cons Inr by simp
  qed
qed simp

section \<open>What a registration does\<close>

lemma requested_ok:
  assumes "name_fits name" and "length sts \<le> 128"
    and "\<forall>st \<in> set sts. length (snd st) \<le> MAX_STEP_DEPENDENCIES"
  shows "dag_ok (requested_dag now i name sts)"
proof -
  have len: "length (utoa (unat (v :: u32))) \<le> 10" for v
    using unsigned_less [where 'a = nat, of v] by (intro utoa_length) simp_all
  have "step_ok (stage_of st)" if "st \<in> set sts" for st
    using assms(3) that len [of "fst st"] c_string_utoa [of "unat (fst st)"]
    by (auto simp: step_ok_def stage_of_def stage_step_def config_ok_def c_string_def MAX_STEP_NAME_def)
  then show ?thesis
    using assms(1,2) by (auto simp: dag_ok_def name_fits_def list_all_iff MAX_DAG_STEPS_def)
qed

lemma requested_serialized:
  assumes "name_fits name" and "length sts \<le> 128"
    and "\<forall>st \<in> set sts. length (snd st) \<le> MAX_STEP_DEPENDENCIES"
  shows "\<exists>buffer. dag_serialize (requested_dag now i name sts) 8192 = Inr buffer
    \<and> length buffer = (if required_size (requested_dag now i name sts) \<le> 8192
        then required_size (requested_dag now i name sts) else 0)
    \<and> 0 < required_size (requested_dag now i name sts)"
proof (cases "required_size (requested_dag now i name sts) \<le> 8192")
  case True
  from dag_roundtrip_fact [OF requested_ok [OF assms] this] True show ?thesis
    by (fastforce simp: required_size_def)
next
  case False
  then show ?thesis by (auto simp: dag_serialize_def)
qed

lemma add_dag_result:
  assumes "name_fits name" and "1 \<le> length sts" and "length sts \<le> 128"
    and "\<forall>st \<in> set sts. length (snd st) \<le> MAX_STEP_DEPENDENCIES"
  shows "handle_add_dag now send_ok (register_request i name sts) s =
    (if \<not> deps_known sts then Reply RPC_STATUS_BAD_ARGUMENT [] s
     else if dag_catalog_get (ns_catalog s) i \<noteq> None \<or> catalog_capacity (ns_catalog s) \<le> length (dags (ns_catalog s))
     then Reply RPC_STATUS_INTERNAL_ERROR [] s
     else propagate_dag now send_ok (requested_dag now i name sts) (s\<lparr>ns_catalog :=
       changed ((ns_catalog s)\<lparr>dags := dags (ns_catalog s) @ [requested_dag now i name sts]\<rparr>)\<rparr>))"
  using parse_small_request [OF assms(1,3,4), of now i] validate_request [OF assms(2,3,4), of now i name]
  by (simp add: handle_add_dag_def catalog_add_result)

section \<open>A node with two workers, one of them not in the pool\<close>

definition cluster_node :: node_state where
  "cluster_node = router_node\<lparr>ns_view := \<lparr>members = [sample_member\<lparr>m_node_id := 3\<rparr>, sample_member\<lparr>m_node_id := 4\<rparr>],
     view_capacity = 8\<rparr>\<rparr>"

lemma cluster_node_simps:
  "sync_targets cluster_node = [3, 4]" "data_channel_of cluster_node 3 = Some wide_channel"
  "peer_pool_get (ns_pool cluster_node) 3 \<noteq> None" "peer_pool_get (ns_pool cluster_node) 4 = None"
  "channels_large 4096 (ns_pool cluster_node)"
  by (simp_all add: sync_targets_def data_channel_of_def cluster_node_def sample_member_def MAX_PEERS_def
      router_node_def sample_node_def peer_pool_get_def peer_index_def new_peer_def channels_large_def
      wide_channel_def)

lemma cluster_node_catalog:
  "dag_catalog_get (ns_catalog cluster_node) 8 = None"
  "length (dags (ns_catalog cluster_node)) < catalog_capacity (ns_catalog cluster_node)"
  by (simp_all add: cluster_node_def router_node_def sample_node_def catalog_get_first_with sample_dag_def
      simple_dag_def)

lemma required_size_requested:
  "required_size (requested_dag now i name sts) = 20 + length name
     + (\<Sum>st\<leftarrow>sts. 45 + 2 * length (utoa (unat (fst st))) + 4 * length (snd st))"
proof -
  have "step_size \<circ> stage_of = (\<lambda>st. 45 + 2 * length (utoa (unat (fst st))) + 4 * length (snd st))"
    by (simp add: fun_eq_iff step_size_def stage_of_def stage_step_def)
  then show ?thesis by (simp add: required_size_def)
qed

text \<open>Whatever the bytes of a request, one that is not accepted changes nothing and returns no data.\<close>

lemma rejected_unchanged:
  assumes "handle_add_dag now send_ok in_data s = Reply st out s'" and "st \<noteq> RPC_STATUS_SUCCESS"
  shows "out = [] \<and> s' = s"
  using assms by (auto simp: handle_add_dag_def propagate_dag_def split: sum.splits if_splits prod.splits)

text \<open>C16: Registration. Take a well-formed request of 1 to 128 stages with at most 16 dependencies
  each (a stage with more makes validation read outside its array). It is rejected as a bad argument
  exactly when it names an unknown dependency, and with an internal error when the id is taken or the
  catalog is full. Otherwise the answer is the acknowledgement byte 1, the DAG it describes is in the
  catalog (and every other id maps to what it did), and, as long as the channels have room, one sync
  request carrying the serialised DAG has gone to each ALIVE worker of the cluster view that has a
  channel and accepts the data; a DAG of more than 8192 bytes is kept but not propagated. For every
  such worker missing from the pool, the pool's lock is released without being held. Any request
  whatever, malformed ones included, that is answered with another status than success changes
  nothing in the node and gets no data.\<close>

theorem registration_outcome:
  assumes "name_fits name" and "1 \<le> length sts" and "length sts \<le> 128"
    and "\<forall>st \<in> set sts. length (snd st) \<le> MAX_STEP_DEPENDENCIES"
    and "d = requested_dag now i name sts"
    and "channels_large (RPC_HEADER_SIZE + required_size d) (ns_pool s)"
  shows "(if \<not> deps_known sts
    then handle_add_dag now send_ok (register_request i name sts) s = Reply RPC_STATUS_BAD_ARGUMENT [] s
    else if dag_catalog_get (ns_catalog s) i \<noteq> None \<or> catalog_capacity (ns_catalog s) \<le> length (dags (ns_catalog s))
    then handle_add_dag now send_ok (register_request i name sts) s = Reply RPC_STATUS_INTERNAL_ERROR [] s
    else \<exists>s' buffer. handle_add_dag now send_ok (register_request i name sts) s = Reply RPC_STATUS_SUCCESS [1] s'
      \<and> (\<forall>k. dag_catalog_get (ns_catalog s') k = (if k = i then Some d else dag_catalog_get (ns_catalog s) k))
      \<and> dag_serialize d 8192 = Inr buffer \<and> (buffer = [] \<longleftrightarrow> 8192 < required_size d)
      \<and> data_sent s' = data_sent s @ (if buffer = [] then [] else
          map (\<lambda>w. (w, sync_request (self_id s) i buffer)) (reached send_ok s (sync_targets s)))
      \<and> bad_unlocks s' = bad_unlocks s + (if buffer = [] then 0 else length (unknown_workers s (sync_targets s))))
    \<and> (\<forall>in_data st out s'. handle_add_dag now send_ok in_data s = Reply st out s' \<and> st \<noteq> RPC_STATUS_SUCCESS
      \<longrightarrow> out = [] \<and> s' = s)"
    (is "?outcome \<and> ?others")
proof (rule conjI)
  show ?others using rejected_unchanged by blast
next
  let ?c = "ns_catalog s"
  let ?s1 = "s\<lparr>ns_catalog := changed (?c\<lparr>dags := dags ?c @ [d]\<rparr>)\<rparr>"
  obtain buffer where buffer: "dag_serialize d 8192 = Inr buffer"
      "length buffer = (if required_size d \<le> 8192 then required_size d else 0)" "0 < required_size d"
    using requested_serialized [OF assms(1,3,4)] assms(5) by blast
  then have empty: "buffer = [] \<longleftrightarrow> 8192 < required_size d" by (auto split: if_splits)
  have room: "\<forall>w \<in> set (sync_targets ?s1). \<forall>ch. data_channel_of ?s1 w = Some ch
      \<longrightarrow> RPC_HEADER_SIZE + length buffer \<le> tx_buffer_size ch"
    using assms(6) buffer(2) by (fastforce simp: channels_large_def list_all_iff
        dest!: data_channel_mem split: if_splits)
  have same: "sync_targets ?s1 = sync_targets s" "reached send_ok ?s1 = reached send_ok s"
      "unknown_workers ?s1 = unknown_workers s"
    by (simp_all add: sync_targets_def reached_def unknown_workers_def data_channel_of_def fun_eq_iff)
  have run: "sync_workers send_ok i buffer (sync_targets s) ?s1 = Inr (?s1\<lparr>
      data_sent := data_sent s @ map (\<lambda>w. (w, sync_request (self_id s) i buffer)) (reached send_ok s (sync_targets s)),
      bad_unlocks := bad_unlocks s + length (unknown_workers s (sync_targets s))\<rparr>)"
    using sync_workers_result [OF room, of send_ok i] by (simp add: same)
  show ?outcome
  proof (cases "deps_known sts \<and> dag_catalog_get ?c i = None \<and> length (dags ?c) < catalog_capacity ?c")
    case False
    then show ?thesis by (auto simp: add_dag_result [OF assms(1-4)])
  next
    case True
    have i: "dag_id d = i" by (simp add: assms(5))
    from True have new: "dag_catalog_get ?c (dag_id d) = None" by (simp add: assms(5))
    let ?s2 = "if buffer = [] then ?s1 else ?s1\<lparr>
      data_sent := data_sent s @ map (\<lambda>w. (w, sync_request (self_id s) i buffer)) (reached send_ok s (sync_targets s)),
      bad_unlocks := bad_unlocks s + length (unknown_workers s (sync_targets s))\<rparr>"
    have "handle_add_dag now send_ok (register_request i name sts) s = propagate_dag now send_ok d ?s1"
      using True by (simp add: add_dag_result [OF assms(1-4)] assms(5))
    moreover have "propagate_dag now send_ok d ?s1 =
        Reply RPC_STATUS_SUCCESS [1] (publish (catalog_event now d ?s2) ?s2)"
      using buffer(1) run same(1) i by (simp add: propagate_dag_def)
    moreover have "dag_catalog_get (ns_catalog ?s2) k = (if k = i then Some d else dag_catalog_get ?c k)" for k
      using catalog_append_get [OF new] i by simp
    ultimately show ?thesis
      using True buffer(1) empty
      by (auto simp: frame_simps intro!: exI [of _ "publish (catalog_event now d ?s2) ?s2"])
  qed
qed

theorem registration_outcome_witness:
  "\<exists>s'. handle_add_dag 5 (\<lambda>_. True) (register_request 8 ''d'' [(1, []), (2, [1])]) cluster_node = Reply RPC_STATUS_SUCCESS [1] s'
    \<and> dag_catalog_get (ns_catalog s') 8 = Some (requested_dag 5 8 ''d'' [(1, []), (2, [1])])
    \<and> length (data_sent s') = Suc (length (data_sent cluster_node)) \<and> bad_unlocks s' = Suc (bad_unlocks cluster_node)"
proof -
  let ?sts = "[(1, []), (2, [1])] :: stage list"
  let ?d = "requested_dag 5 8 ''d'' ?sts"
  have small: "required_size ?d \<le> 200"
    by (simp add: required_size_requested utoa.simps)
  then have "channels_large (RPC_HEADER_SIZE + required_size ?d) (ns_pool cluster_node)"
    using cluster_node_simps(5) by (auto simp: channels_large_def list_all_iff RPC_HEADER_SIZE_def split: option.splits)
  moreover have "name_fits ''d''" "deps_known ?sts" "\<forall>st \<in> set ?sts. length (snd st) \<le> MAX_STEP_DEPENDENCIES"
    by (simp_all add: name_fits_def c_string_def MAX_DAG_NAME_def deps_known_def MAX_STEP_DEPENDENCIES_def)
  ultimately show ?thesis
    using registration_outcome [of "''d''" ?sts ?d 5 8 cluster_node "\<lambda>_. True"] cluster_node_catalog
      cluster_node_simps(1-4) small
    by (auto simp: reached_def unknown_workers_def data_channel_of_def)
qed

text \<open>Propagation of a large DAG writes beyond a send buffer: when the serialised DAG takes more
  than the channel to some selected worker can hold (with the 4096 bytes of \<open>rpc_client_connect\<close>,
  more than 4084), though no more than the 8192 bytes of the handler's own buffer, the accepted
  registration overruns \<open>tx_buffer\<close>.\<close>

theorem registration_overruns_channel:
  assumes "name_fits name" and "1 \<le> length sts" and "length sts \<le> 128"
    and "\<forall>st \<in> set sts. length (snd st) \<le> MAX_STEP_DEPENDENCIES" and "deps_known sts"
    and "d = requested_dag now i name sts"
    and "dag_catalog_get (ns_catalog s) i = None" and "length (dags (ns_catalog s)) < catalog_capacity (ns_catalog s)"
    and "w \<in> set (sync_targets s)" and "data_channel_of s w = Some ch"
    and "tx_buffer_size ch < RPC_HEADER_SIZE + required_size d" and "required_size d \<le> 8192"
  shows "handle_add_dag now send_ok (register_request i name sts) s = Fault Out_of_bounds"
proof -
  let ?s1 = "s\<lparr>ns_catalog := changed ((ns_catalog s)\<lparr>dags := dags (ns_catalog s) @ [d]\<rparr>)\<rparr>"
  obtain buffer where buffer: "dag_serialize d 8192 = Inr buffer" "length buffer = required_size d" "buffer \<noteq> []"
    using requested_serialized [OF assms(1,3,4), of now i] assms(6,12) by fastforce
  have "w \<in> set (sync_targets ?s1)" "data_channel_of ?s1 w = Some ch"
    using assms(9,10) by (simp_all add: sync_targets_def data_channel_of_def)
  then have "sync_workers send_ok i buffer (sync_targets ?s1) ?s1 = Inl Out_of_bounds"
    using assms(11) buffer(2) by (intro sync_workers_overflow) auto
  moreover have "handle_add_dag now send_ok (register_request i name sts) s = propagate_dag now send_ok d ?s1"
    using assms(5-8) by (simp add: add_dag_result [OF assms(1-4)])
  ultimately show ?thesis using buffer assms(6) by (simp add: propagate_dag_def)
qed

theorem registration_overruns_channel_witness:
  "handle_add_dag 5 (\<lambda>_. True) (register_request 8 ''d'' (replicate 63 (4294967295, []))) cluster_node
     = Fault Out_of_bounds"
proof -
  let ?sts = "replicate 63 (4294967295, []) :: stage list"
  have "length (utoa 4294967295) = 10" by (simp add: utoa.simps)
  then have size: "required_size (requested_dag 5 8 ''d'' ?sts) = 4116"
    by (simp add: required_size_requested sum_list_replicate)
  have "name_fits ''d''" "deps_known ?sts"
    by (simp_all add: name_fits_def c_string_def MAX_DAG_NAME_def deps_known_def)
  then show ?thesis
    using cluster_node_catalog cluster_node_simps(1,2) size
    by (intro registration_overruns_channel [where d = "requested_dag 5 8 ''d'' ?sts" and w = 3 and ch = wide_channel])
      (simp_all add: wide_channel_def RPC_HEADER_SIZE_def)
qed

text \<open>The handler keeps the announced number of dependencies of a stage but reads at most sixteen of
  them into the step. A request whose last stage announces more, the first sixteen of them known,
  makes the validation read past the dependency array.\<close>

theorem registration_reads_past_dependencies:
  assumes "name_fits name" and "length sts < 128"
    and "\<forall>st \<in> set sts. length (snd st) \<le> MAX_STEP_DEPENDENCIES"
    and "MAX_STEP_DEPENDENCIES < length (snd st)" and "length (snd st) < 2 ^ 32"
    and "deps_known (sts @ [st])"
  shows "handle_add_dag now send_ok (register_request i name (sts @ [st])) s = Fault Out_of_bounds"
proof -
  let ?d = "requested_dag now i name (sts @ [st])"
  have known: "find_step ?d x \<noteq> None" if "v \<in> set (sts @ [st])" "x \<in> set (take MAX_STEP_DEPENDENCIES (snd v))" for v x
    using assms(6) that by (auto simp: deps_known_def find_step_None_iff image_image)
  have over: "check_dependencies ?d n deps = Some (Inl Out_of_bounds)"
    if "length deps < n" "\<forall>x \<in> set deps. find_step ?d x \<noteq> None" for n deps
    using that by (induction ?d n deps rule: check_dependencies.induct) auto
  have fine: "check_dependencies ?d n deps = None"
    if "n \<le> length deps" "\<forall>x \<in> set (take n deps). find_step ?d x \<noteq> None" for n deps
    using that by (induction ?d n deps rule: check_dependencies.induct) auto
  have "check_steps ?d (map stage_of us @ [stage_of st]) = Inl Out_of_bounds" if "set us \<subseteq> set sts" for us
    using that
  proof (induction us)
    case Nil
    show ?case using assms(4) known [of st]
      by (simp add: over stage_of_def stage_step_def)
  next
    case (Cons u us)
    then have "u \<in> set sts" "length (snd u) \<le> MAX_STEP_DEPENDENCIES" using assms(3) by auto
    moreover from this have "check_dependencies ?d (dependency_count (stage_of u)) (dependencies (stage_of u)) = None"
      using known [of u] by (intro fine) (simp_all add: stage_of_def stage_step_def)
    ultimately show ?case using Cons by simp
  qed
  from this [of sts] have "dag_validate ?d = Inl Out_of_bounds"
    using assms(2) by (simp add: dag_validate_def MAX_DAG_STEPS_def)
  then show ?thesis
    using parse_big_request [OF assms(1-3,5), of now i] by (simp add: handle_add_dag_def)
qed

theorem registration_reads_past_dependencies_witness:
  "handle_add_dag 5 (\<lambda>_. True) (register_request 8 ''d'' [(1, []), (2, replicate 17 1)]) cluster_node
     = Fault Out_of_bounds"
  using registration_reads_past_dependencies [of "''d''" "[(1, [])]" "(2, replicate 17 1)" 5 "\<lambda>_. True" 8 cluster_node]
  by (simp add: name_fits_def c_string_def MAX_DAG_NAME_def deps_known_def MAX_STEP_DEPENDENCIES_def)

end
