(* ===== verification/Catalog_Sync.thy ===== *)
theory Catalog_Sync
  imports Node_Service Dag_Registration
begin

text \<open>
  Catalog synchronisation from node to node: \<open>sync_worker\<close> of \<open>handle_add_dag\<close> on a router, the
  request it packs into the send buffer of a data channel, the stream of that connection at the
  worker, and \<open>handle_sync_catalog\<close> there (src/node/node_handlers.c, src/core/rpc.c).
\<close>

definition sync_call :: "node_id \<Rightarrow> rule_id \<Rightarrow> bytes \<Rightarrow> rpc_call" where
  "sync_call self dag buffer = \<lparr>c_node_id = self, c_request_id = dag, c_type = RPC_TYPE_REQUEST,
     c_status = RPC_STATUS_UNKNOWN, c_func_id = FUNC_ID_SYNC_CATALOG, c_payload = buffer\<rparr>"

lemma sync_request_wire: "sync_request self dag buffer = wire (sync_call self dag buffer)"
  by (simp add: sync_request_def wire_def sync_call_def)

lemma sync_handler: "find_handler (node_table config ident) FUNC_ID_SYNC_CATALOG = Some H_sync_catalog"
  by (simp add: node_table_def node_build_rpc_service_table_ex_def dispatch_table_def func_id_defs)

text \<open>The acknowledgement, the byte 1 under the id of the request.\<close>

definition sync_ack :: "rpc_async_context \<Rightarrow> rpc_call" where
  "sync_ack ctx = \<lparr>c_node_id = ctx_sender_id ctx, c_request_id = ctx_request_id ctx, c_type = RPC_TYPE_RESPONSE,
     c_status = RPC_STATUS_SUCCESS, c_func_id = ctx_func_id ctx, c_payload = [1]\<rparr>"

lemma sync_served:
  assumes "ctx_func_id ctx = FUNC_ID_SYNC_CATALOG" and "RPC_HEADER_SIZE + 1 \<le> tx_buffer_size ch"
    and "re_alloc_ok env = (\<lambda>_. True)" and "re_copy_ok env = (\<lambda>_. True)"
    and "handle_sync_catalog (re_now env) (\<lambda>_. True) (\<lambda>_. True) buffer w = Reply RPC_STATUS_SUCCESS [1] w'"
  shows "serve_request env (node_table config ident) ch ctx buffer [Sent (RPC_HEADER_SIZE + 1)] w =
    (Answered (wire (sync_ack ctx)), w')"
proof -
  have "rpc_send_async_response ch ctx RPC_STATUS_SUCCESS [1] [Sent (RPC_HEADER_SIZE + 1)] =
      Inr (Some (0, wire (sync_ack ctx)))"
    using assms(2) pack_eq_wire [of "sync_ack ctx" "tx_buffer_size ch"] length_wire [of "sync_ack ctx"]
    by (cases "wire (sync_ack ctx)") (simp_all add: rpc_send_async_response_def sync_ack_def RPC_HEADER_SIZE_def)
  then show ?thesis
    using assms(1,3-5) sync_handler [of config ident] by (simp add: serve_request_def answer_request_def)
qed

text \<open>The bytes of one call, cut in any way, at a connection with nothing pending.\<close>

lemma one_call_session:
  assumes "call_ok c" and "length (wire c) + C \<le> length (rx_buffer ch)" and "rx_data_len ch = 0"
    and "concat (concat evs) = wire c" and "\<forall>ev \<in> set evs. length (concat ev) \<le> C"
  shows "\<exists>ch'. rpc_session (Some t) (\<lambda>k. Some (g k)) k [] evs ch =
    (ch', [(\<lparr>ctx_request_id = c_request_id c, ctx_func_id = c_func_id c, ctx_sender_id = g k\<rparr>, c_payload c,
            find_handler t (c_func_id c))], [], False)"
proof -
  have "0 < length (wire c)" by (simp add: length_wire RPC_HEADER_SIZE_def)
  then have "\<exists>ch'. rpc_session (Some t) (\<lambda>k. Some (g k)) k [] evs ch =
      (ch', map (with_handler t) (received g k [c]), [], False) \<and> rx_data_len ch' = 0"
    using assms by (intro session_stream [where L = "length (wire c)" and C = C]) (auto simp: channel_ok_def pending_def)
  then show ?thesis by auto
qed

text \<open>C23: Catalog synchronisation, end to end. A router that syncs a well-formed DAG of at most 8192 bytes
  to a worker it has a data channel to either overruns the send buffer of that channel, exactly when
  header and DAG together do not fit it (4096 bytes in the code), or sends one request, which the
  kernel takes whole (the code does not look for a short send). However TCP cuts the bytes of that request, as long as they fit the worker's receive buffer beside what arrives
  between two reads, the worker dispatches it once, to its sync handler, and, when its allocations
  succeed, acknowledges it under its id; its catalog then has the DAG, with the time of its arrival,
  if it knew the id or had room, and is unchanged if it was full, with the same acknowledgement.\<close>

theorem catalog_sync_end_to_end:
  assumes "dag_ok d" and "required_size d \<le> 8192" and "catalog_ok (ns_catalog w)"
    and "data_channel_of r wid = Some ch" and "send_ok wid"
    and "RPC_HEADER_SIZE + required_size d + C \<le> length (rx_buffer wch)" and "rx_data_len wch = 0"
    and "RPC_HEADER_SIZE + 1 \<le> tx_buffer_size wch"
    and "re_alloc_ok env = (\<lambda>_. True)" and "re_copy_ok env = (\<lambda>_. True)"
  shows "\<exists>buffer. dag_serialize d 8192 = Inr buffer
    \<and> (if tx_buffer_size ch < RPC_HEADER_SIZE + required_size d
       then sync_worker send_ok (dag_id d) buffer wid r = Inl Out_of_bounds
       else \<exists>r' bytes. sync_worker send_ok (dag_id d) buffer wid r = Inr r' \<and> data_sent r' = data_sent r @ [(wid, bytes)]
         \<and> (\<forall>evs. concat (concat evs) = bytes \<and> (\<forall>ev \<in> set evs. length (concat ev) \<le> C) \<longrightarrow>
             (\<exists>wch' ctx w'. rpc_session (Some (node_table config ident)) (\<lambda>k. Some (g k)) k [] evs wch =
                  (wch', [(ctx, buffer, Some H_sync_catalog)], [], False)
               \<and> ctx_request_id ctx = dag_id d
               \<and> serve_request env (node_table config ident) wch ctx buffer [Sent (RPC_HEADER_SIZE + 1)] w =
                  (Answered (wire (sync_ack ctx)), w')
               \<and> (\<forall>j. dag_catalog_get (ns_catalog w') j =
                   (if j = dag_id d \<and> (dag_catalog_get (ns_catalog w) j \<noteq> None
                        \<or> length (dags (ns_catalog w)) < catalog_capacity (ns_catalog w))
                    then Some (d\<lparr>created_at_ms := re_now env, updated_at_ms := re_now env\<rparr>)
                    else dag_catalog_get (ns_catalog w) j)))))"
proof -
  obtain buffer w' where b: "dag_serialize d 8192 = Inr buffer" "length buffer = required_size d"
    and h: "handle_sync_catalog (re_now env) (\<lambda>_. True) (\<lambda>_. True) buffer w = Reply RPC_STATUS_SUCCESS [1] w'"
      "\<forall>j. dag_catalog_get (ns_catalog w') j =
         (if j = dag_id d \<and> (dag_catalog_get (ns_catalog w) j \<noteq> None
              \<or> length (dags (ns_catalog w)) < catalog_capacity (ns_catalog w))
          then Some (d\<lparr>created_at_ms := re_now env, updated_at_ms := re_now env\<rparr>)
          else dag_catalog_get (ns_catalog w) j)"
    using sync_stored [OF assms(1-3), of "re_now env"] by blast
  let ?c = "sync_call (self_id r) (dag_id d) buffer"
  have c: "call_ok ?c" "length (wire ?c) = RPC_HEADER_SIZE + required_size d"
    "c_func_id ?c = FUNC_ID_SYNC_CATALOG" "c_payload ?c = buffer" "c_request_id ?c = dag_id d"
    using b(2) assms(2) by (simp_all add: call_ok_def length_wire sync_call_def RPC_HEADER_SIZE_def)
  show ?thesis
  proof (cases "tx_buffer_size ch < RPC_HEADER_SIZE + required_size d")
    case True
    with sync_worker_overflow [OF assms(4), of buffer send_ok "dag_id d"] b show ?thesis by simp
  next
    case False
    then have "\<forall>ch. data_channel_of r wid = Some ch \<longrightarrow> RPC_HEADER_SIZE + length buffer \<le> tx_buffer_size ch"
      using assms(4) b(2) by simp
    from sync_worker_result [OF this, of send_ok "dag_id d"] obtain r' where
      r': "sync_worker send_ok (dag_id d) buffer wid r = Inr r'" "data_sent r' = data_sent r @ [(wid, wire ?c)]"
      using assms(4,5) by (simp add: reached_def sync_request_wire)
    have "\<exists>wch' ctx w'. rpc_session (Some (node_table config ident)) (\<lambda>k. Some (g k)) k [] evs wch =
          (wch', [(ctx, buffer, Some H_sync_catalog)], [], False)
        \<and> ctx_request_id ctx = dag_id d
        \<and> serve_request env (node_table config ident) wch ctx buffer [Sent (RPC_HEADER_SIZE + 1)] w =
          (Answered (wire (sync_ack ctx)), w')
        \<and> (\<forall>j. dag_catalog_get (ns_catalog w') j =
            (if j = dag_id d \<and> (dag_catalog_get (ns_catalog w) j \<noteq> None
                 \<or> length (dags (ns_catalog w)) < catalog_capacity (ns_catalog w))
             then Some (d\<lparr>created_at_ms := re_now env, updated_at_ms := re_now env\<rparr>)
             else dag_catalog_get (ns_catalog w) j))"
      if "concat (concat evs) = wire ?c" "\<forall>ev \<in> set evs. length (concat ev) \<le> C" for evs
    proof -
      let ?ctx = "\<lparr>ctx_request_id = dag_id d, ctx_func_id = FUNC_ID_SYNC_CATALOG, ctx_sender_id = g k\<rparr>"
      have "\<exists>wch'. rpc_session (Some (node_table config ident)) (\<lambda>k. Some (g k)) k [] evs wch =
          (wch', [(?ctx, buffer, Some H_sync_catalog)], [], False)"
        using one_call_session [OF c(1) _ assms(7) that, of "node_table config ident" g k] assms(6) c sync_handler
        by simp
      moreover have "serve_request env (node_table config ident) wch ?ctx buffer [Sent (RPC_HEADER_SIZE + 1)] w =
          (Answered (wire (sync_ack ?ctx)), w')"
        by (rule sync_served [OF _ assms(8-10) h(1)]) simp
      ultimately show ?thesis using h(2) by (metis rpc_async_context.select_convs(1))
    qed
    with b(1) False r' show ?thesis by auto
  qed
qed

theorem catalog_sync_end_to_end_witness:
  "\<exists>buffer r' bytes. sync_worker (\<lambda>_. True) (dag_id sample_dag) buffer 3 router_node = Inr r' \<and> data_sent r' = [(3, bytes)]
    \<and> (\<exists>ch ctx w'. rpc_session (Some (node_table gateway_config (ns_identity sample_node))) (\<lambda>k. Some 0) 0 []
          [[take 9 bytes], [drop 9 bytes]] sample_channel = (ch, [(ctx, buffer, Some H_sync_catalog)], [], False)
        \<and> fst (serve_request some_env (node_table gateway_config (ns_identity sample_node)) sample_channel ctx buffer
            [Sent (RPC_HEADER_SIZE + 1)] (sample_node\<lparr>ns_catalog :=
              \<lparr>dags = [], catalog_capacity = 4, change_callback = False, change_calls = []\<rparr>\<rparr>))
          = Answered (wire (sync_ack ctx)))"
proof -
  let ?w = "sample_node\<lparr>ns_catalog := \<lparr>dags = [], catalog_capacity = 4, change_callback = False, change_calls = []\<rparr>\<rparr>"
  have size: "required_size sample_dag \<le> 8192" "RPC_HEADER_SIZE + required_size sample_dag + 300 \<le> length (rx_buffer sample_channel)"
    "\<not> tx_buffer_size wide_channel < RPC_HEADER_SIZE + required_size sample_dag"
    "RPC_HEADER_SIZE + 1 \<le> tx_buffer_size sample_channel" "rx_data_len sample_channel = 0"
    using sample_dag_ok(2) by (simp_all add: sample_channel_def wide_channel_def RPC_HEADER_SIZE_def)
  have node: "catalog_ok (ns_catalog ?w)" "data_channel_of router_node 3 = Some wide_channel" "data_sent router_node = []"
    by (simp_all add: table_ok_def data_channel_of_def router_node_peer) (simp add: router_node_def sample_node_def)
  have env: "re_alloc_ok some_env = (\<lambda>_. True)" "re_copy_ok some_env = (\<lambda>_. True)" by (simp_all add: some_env_def)
  obtain buffer r' bytes where s: "dag_serialize sample_dag 8192 = Inr buffer"
    "sync_worker (\<lambda>_. True) (dag_id sample_dag) buffer 3 router_node = Inr r'" "data_sent r' = [(3, bytes)]"
    and all: "\<forall>evs. concat (concat evs) = bytes \<and> (\<forall>ev \<in> set evs. length (concat ev) \<le> 300) \<longrightarrow>
      (\<exists>ch ctx w'. rpc_session (Some (node_table gateway_config (ns_identity sample_node))) (\<lambda>k. Some 0) 0 [] evs
          sample_channel = (ch, [(ctx, buffer, Some H_sync_catalog)], [], False)
        \<and> serve_request some_env (node_table gateway_config (ns_identity sample_node)) sample_channel ctx buffer
            [Sent (RPC_HEADER_SIZE + 1)] ?w = (Answered (wire (sync_ack ctx)), w'))"
    using catalog_sync_end_to_end [OF sample_dag_ok(1) size(1) node(1,2) _ size(2,5,4) env,
        where send_ok = "\<lambda>_. True" and ident = "ns_identity sample_node" and config = gateway_config and g = "\<lambda>_. 0" and k = 0]
    unfolding if_not_P [OF size(3)] node(3) append_Nil by blast
  have "length bytes \<le> 300"
  proof -
    let ?c = "sync_call (self_id router_node) (dag_id sample_dag) buffer"
    have len: "length buffer = required_size sample_dag"
      using sync_stored [OF sample_dag_ok(1) size(1) node(1)] s(1) by auto
    then have "\<forall>ch. data_channel_of router_node 3 = Some ch \<longrightarrow> RPC_HEADER_SIZE + length buffer \<le> tx_buffer_size ch"
      using size(3) node(2) by simp
    from sync_worker_result [OF this, of "\<lambda>_. True" "dag_id sample_dag"] have "bytes = wire ?c"
      using s(2,3) node(2,3) by (auto simp: reached_def sync_request_wire)
    then show ?thesis using len sample_dag_ok(2) by (simp add: length_wire sync_call_def RPC_HEADER_SIZE_def)
  qed
  then show ?thesis using s(2,3) all [rule_format, of "[[take 9 bytes], [drop 9 bytes]]"] by fastforce
qed

end
