(* ===== verification/Metrics.thy ===== *)
theory Metrics
  imports Complex_Main C_Strings Slots
begin

text \<open>
  src/core/metrics.c: the registry of counters and gauges (an array of 256 slots), histograms, and
  the Prometheus text rendering. A \<open>double\<close> value is exact and the rounding of an addition is the
  argument \<open>rnd\<close>; a bucket bound is a number, or None for infinity. Handles are indices. A text
  buffer written with \<open>snprintf\<close> is the number of characters written so far, as the code counts
  them, and the string the buffer holds; when that count has passed the size, the next
  \<open>snprintf\<close> writes outside the buffer (its size argument wraps).
\<close>

definition MAX_METRIC_NAME_LEN :: nat where "MAX_METRIC_NAME_LEN = 128"
definition MAX_METRIC_HELP_LEN :: nat where "MAX_METRIC_HELP_LEN = 256"
definition MAX_METRICS_PER_REGISTRY :: nat where "MAX_METRICS_PER_REGISTRY = 256"
definition HISTOGRAM_MAX_BUCKETS :: nat where "HISTOGRAM_MAX_BUCKETS = 16"
definition MAX_LABEL_NAME_LEN :: nat where "MAX_LABEL_NAME_LEN = 64"
definition MAX_LABEL_VALUE_LEN :: nat where "MAX_LABEL_VALUE_LEN = 128"
definition MAX_LABELS_PER_METRIC :: nat where "MAX_LABELS_PER_METRIC = 8"

lemmas metric_limits = MAX_METRIC_NAME_LEN_def MAX_METRIC_HELP_LEN_def MAX_METRICS_PER_REGISTRY_def
  HISTOGRAM_MAX_BUCKETS_def MAX_LABEL_NAME_LEN_def MAX_LABEL_VALUE_LEN_def MAX_LABELS_PER_METRIC_def

section \<open>Data\<close>

datatype metric_type = METRIC_TYPE_COUNTER | METRIC_TYPE_GAUGE

record metric_label =
  label_name :: string
  label_value :: string

record metrics =
  mt_name :: string
  mt_help :: string
  mt_type :: metric_type
  mt_labels :: "metric_label list"
  mt_value :: rat
  mt_active :: bool

datatype histogram_buckets_type =
  HISTOGRAM_BUCKETS_LATENCY_MS | HISTOGRAM_BUCKETS_LATENCY_US | HISTOGRAM_BUCKETS_SIZE_BYTES | HISTOGRAM_BUCKETS_CUSTOM

type_synonym bound = "nat option"

record histogram_metric =
  h_name :: string
  h_help :: string
  h_labels :: "metric_label list"
  upper_bounds :: "bound list"
  bucket_counts :: "u64 list"
  h_count :: u64
  h_sum :: u64
  h_active :: bool

record metrics_registry =
  metric_slots :: "metrics list"
  histograms :: "histogram_metric list"
  metric_count :: nat

definition empty_metric :: metrics where
  "empty_metric = \<lparr>mt_name = [], mt_help = [], mt_type = METRIC_TYPE_COUNTER, mt_labels = [], mt_value = 0,
     mt_active = False\<rparr>"

section \<open>Counters and gauges\<close>

definition metrics_registry_init :: "bool \<Rightarrow> bool \<Rightarrow> metrics_registry option" where
  "metrics_registry_init calloc_ok lock_ok =
     (if \<not> calloc_ok \<or> \<not> lock_ok then None
      else Some \<lparr>metric_slots = replicate MAX_METRICS_PER_REGISTRY empty_metric, histograms = [], metric_count = 0\<rparr>)"

text \<open>A key the two lookups compute into a buffer of 512 bytes, and do not use.\<close>

definition generate_metric_key :: "nat \<Rightarrow> string \<Rightarrow> metric_label list \<Rightarrow> string" where
  "generate_metric_key cap name labels =
     foldl (\<lambda>key l. take (cap - 1) (key @ ''_'' @ label_name l @ ''='' @ label_value l)) (take (cap - 1) name) labels"

abbreviation metric_key :: "metrics \<Rightarrow> string \<times> metric_label list" where
  "metric_key m \<equiv> (mt_name m, mt_labels m)"

definition copy_label :: "metric_label \<Rightarrow> metric_label" where
  "copy_label l = \<lparr>label_name = strcpy_to MAX_LABEL_NAME_LEN (label_name l),
     label_value = strcpy_to MAX_LABEL_VALUE_LEN (label_value l)\<rparr>"

definition new_metric :: "string \<Rightarrow> string \<Rightarrow> metric_type \<Rightarrow> metric_label list \<Rightarrow> metrics" where
  "new_metric name help type labels =
     \<lparr>mt_name = strcpy_to MAX_METRIC_NAME_LEN name, mt_help = strcpy_to MAX_METRIC_HELP_LEN help,
      mt_type = type, mt_labels = map copy_label labels, mt_value = 0, mt_active = True\<rparr>"

definition find_or_create_metric ::
  "bool \<Rightarrow> metrics_registry \<Rightarrow> string \<Rightarrow> string \<Rightarrow> metric_type \<Rightarrow> metric_label list \<Rightarrow> nat option \<times> metrics_registry" where
  "find_or_create_metric lock_ok reg name help type labels =
     (if MAX_LABELS_PER_METRIC < length labels then (None, reg)
      else case slot_of mt_active metric_key (name, labels) (metric_slots reg) of
          Some i \<Rightarrow> (Some i, reg)
        | None \<Rightarrow>
            if MAX_METRICS_PER_REGISTRY \<le> metric_count reg then (None, reg)
            else case free_slot mt_active (metric_slots reg) of
                None \<Rightarrow> (None, reg)
              | Some i \<Rightarrow>
                  let m = new_metric name help type labels
                  in if \<not> lock_ok then (None, reg\<lparr>metric_slots := (metric_slots reg)[i := m\<lparr>mt_active := False\<rparr>]\<rparr>)
                     else (Some i, reg\<lparr>metric_slots := (metric_slots reg)[i := m], metric_count := Suc (metric_count reg)\<rparr>))"

definition metrics_get_or_create_counter where
  "metrics_get_or_create_counter lock_ok reg name help labels =
     find_or_create_metric lock_ok reg name help METRIC_TYPE_COUNTER labels"

definition metrics_get_or_create_gauge where
  "metrics_get_or_create_gauge lock_ok reg name help labels =
     find_or_create_metric lock_ok reg name help METRIC_TYPE_GAUGE labels"

definition metrics_counter_inc :: "(rat \<Rightarrow> rat) \<Rightarrow> metrics \<Rightarrow> metrics" where
  "metrics_counter_inc rnd m = m\<lparr>mt_value := rnd (mt_value m + 1)\<rparr>"

definition metrics_counter_add :: "(rat \<Rightarrow> rat) \<Rightarrow> rat \<Rightarrow> metrics \<Rightarrow> metrics" where
  "metrics_counter_add rnd val m = (if val < 0 then m else m\<lparr>mt_value := rnd (mt_value m + val)\<rparr>)"

definition metrics_gauge_set :: "rat \<Rightarrow> metrics \<Rightarrow> metrics" where
  "metrics_gauge_set val m = m\<lparr>mt_value := val\<rparr>"

definition metrics_gauge_inc :: "(rat \<Rightarrow> rat) \<Rightarrow> metrics \<Rightarrow> metrics" where
  "metrics_gauge_inc rnd m = m\<lparr>mt_value := rnd (mt_value m + 1)\<rparr>"

definition metrics_gauge_dec :: "(rat \<Rightarrow> rat) \<Rightarrow> metrics \<Rightarrow> metrics" where
  "metrics_gauge_dec rnd m = m\<lparr>mt_value := rnd (mt_value m - 1)\<rparr>"

text \<open>Such an operation on a handle.\<close>

definition at_metric :: "nat \<Rightarrow> (metrics \<Rightarrow> metrics) \<Rightarrow> metrics_registry \<Rightarrow> metrics_registry" where
  "at_metric i f reg = reg\<lparr>metric_slots := (metric_slots reg)[i := f (metric_slots reg ! i)]\<rparr>"

section \<open>Histograms\<close>

fun metrics_get_buckets :: "histogram_buckets_type \<Rightarrow> bound list" where
  "metrics_get_buckets HISTOGRAM_BUCKETS_LATENCY_MS =
     [Some 1, Some 5, Some 10, Some 50, Some 100, Some 500, Some 1000, Some 5000, None]"
| "metrics_get_buckets HISTOGRAM_BUCKETS_LATENCY_US =
     [Some 100, Some 500, Some 1000, Some 5000, Some 10000, Some 50000, Some 100000, None]"
| "metrics_get_buckets HISTOGRAM_BUCKETS_SIZE_BYTES =
     [Some 256, Some 1024, Some 4096, Some 16384, Some 65536, Some 262144, Some 1048576, Some 4194304, None]"
| "metrics_get_buckets HISTOGRAM_BUCKETS_CUSTOM = []"

text \<open>The label comparison of the lookup: it looks at as many labels as are asked for, whatever the
  number the histogram has (the rest of its array is empty), and beyond the array from the ninth.\<close>

fun hist_labels_match :: "metric_label list \<Rightarrow> nat \<Rightarrow> metric_label list \<Rightarrow> c_error + bool" where
  "hist_labels_match stored j [] = Inr True"
| "hist_labels_match stored j (l # ls) =
     (if MAX_LABELS_PER_METRIC \<le> j then Inl Out_of_bounds
      else if (if j < length stored then stored ! j else \<lparr>label_name = [], label_value = []\<rparr>) \<noteq> l then Inr False
      else hist_labels_match stored (Suc j) ls)"

fun find_histogram :: "string \<Rightarrow> metric_label list \<Rightarrow> nat \<Rightarrow> histogram_metric list \<Rightarrow> c_error + nat option" where
  "find_histogram name labels i [] = Inr None"
| "find_histogram name labels i (h # hs) =
     (if \<not> h_active h \<or> h_name h \<noteq> name then find_histogram name labels (Suc i) hs
      else and_then (hist_labels_match (h_labels h) 0 labels) (\<lambda>found.
        if found then Inr (Some i) else find_histogram name labels (Suc i) hs))"

definition new_histogram :: "string \<Rightarrow> string \<Rightarrow> histogram_buckets_type \<Rightarrow> metric_label list \<Rightarrow> histogram_metric" where
  "new_histogram name help buckets_type labels =
     \<lparr>h_name = strcpy_to MAX_METRIC_NAME_LEN name, h_help = strcpy_to MAX_METRIC_HELP_LEN help, h_labels = labels,
      upper_bounds = metrics_get_buckets buckets_type, bucket_counts = replicate HISTOGRAM_MAX_BUCKETS 0,
      h_count = 0, h_sum = 0, h_active = True\<rparr>"

definition metrics_get_or_create_histogram ::
  "metrics_registry \<Rightarrow> string \<Rightarrow> string \<Rightarrow> histogram_buckets_type \<Rightarrow> metric_label list \<Rightarrow>
   c_error + nat option \<times> metrics_registry" where
  "metrics_get_or_create_histogram reg name help buckets_type labels =
     and_then (find_histogram name labels 0 (histograms reg)) (\<lambda>found.
       case found of
         Some i \<Rightarrow> Inr (Some i, reg)
       | None \<Rightarrow>
           if MAX_METRICS_PER_REGISTRY \<le> length (histograms reg) then Inr (None, reg)
           else if MAX_LABELS_PER_METRIC < length labels then Inl Out_of_bounds
           else Inr (Some (length (histograms reg)),
                  reg\<lparr>histograms := histograms reg @ [new_histogram name help buckets_type labels]\<rparr>))"

definition in_bound :: "int \<Rightarrow> bound \<Rightarrow> bool" where
  "in_bound v b = (case b of None \<Rightarrow> True | Some n \<Rightarrow> v \<le> int n)"

text \<open>One bucket, the first whose bound is not below the value, is counted.\<close>

definition metrics_histogram_observe :: "int \<Rightarrow> histogram_metric \<Rightarrow> histogram_metric" where
  "metrics_histogram_observe v h =
     (let h = h\<lparr>h_count := h_count h + 1, h_sum := h_sum h + word_of_int v\<rparr>
      in case find_index (in_bound v) (upper_bounds h) of
           None \<Rightarrow> h
         | Some i \<Rightarrow> h\<lparr>bucket_counts := (bucket_counts h)[i := bucket_counts h ! i + 1]\<rparr>)"

section \<open>Rendering\<close>

text \<open>\<open>%.0f\<close>: to the nearest integer, halves to even.\<close>

definition round_half_even :: "rat \<Rightarrow> int" where
  "round_half_even x = (let n = \<lfloor>x\<rfloor>; d = x - of_int n
     in if d < 1 / 2 then n else if 1 / 2 < d then n + 1 else if even n then n else n + 1)"

definition print_value :: "rat \<Rightarrow> string" where
  "print_value x = (if x < 0 then ''-'' else []) @ utoa (nat (round_half_even \<bar>x\<bar>))"

definition type_text :: "metric_type \<Rightarrow> string" where
  "type_text t = (if t = METRIC_TYPE_COUNTER then ''counter'' else ''gauge'')"

definition label_text :: "metric_label \<Rightarrow> string" where
  "label_text l = label_name l @ ''='' @ [CHR 0x22] @ label_value l @ [CHR 0x22]"

fun label_pieces :: "metric_label list \<Rightarrow> string list" where
  "label_pieces [] = []"
| "label_pieces (l # ls) = label_text l # map (\<lambda>l. '','' @ label_text l) ls"

text \<open>What the pieces of a section that does not fit do: leave the loop, or the function.\<close>

datatype progress = Go_on | Leave_loop | Leave_function

definition metric_pieces :: "metrics \<Rightarrow> (progress \<times> string) list" where
  "metric_pieces m =
     [(Leave_loop, ''# HELP '' @ mt_name m @ '' '' @ mt_help m @ [CHR 0x0A]),
      (Leave_loop, ''# TYPE '' @ mt_name m @ '' '' @ type_text (mt_type m) @ [CHR 0x0A]),
      (Leave_loop, mt_name m)]
     @ (if mt_labels m = [] then []
        else (Leave_loop, ''{'') # map (Pair Leave_function) (label_pieces (mt_labels m)) @ [(Leave_loop, ''}'')])
     @ [(Leave_loop, '' '' @ print_value (mt_value m) @ [CHR 0x0A])]"

text \<open>The checked \<open>snprintf\<close> calls: a piece that does not fit is written in part and not counted.\<close>

fun put_checked :: "nat \<Rightarrow> text_buffer \<Rightarrow> (progress \<times> string) list \<Rightarrow> progress \<times> text_buffer" where
  "put_checked cap buf [] = (Go_on, buf)"
| "put_checked cap (offset, text) ((stop, p) # ps) =
     (if cap - offset \<le> length p then (stop, offset, take offset text @ take (cap - 1 - offset) p)
      else put_checked cap (offset + length p, take offset text @ p) ps)"

fun render_metrics :: "nat \<Rightarrow> metrics list \<Rightarrow> text_buffer \<Rightarrow> progress \<times> text_buffer" where
  "render_metrics cap [] buf = (Go_on, buf)"
| "render_metrics cap (m # ms) buf =
     (if \<not> mt_active m then render_metrics cap ms buf
      else if cap \<le> fst buf + 512 then (Leave_loop, buf)
      else case put_checked cap buf (metric_pieces m) of
          (Go_on, buf) \<Rightarrow> render_metrics cap ms buf
        | r \<Rightarrow> r)"

definition bound_text :: "bound \<Rightarrow> string" where
  "bound_text b = (case b of None \<Rightarrow> ''+Inf'' | Some n \<Rightarrow> utoa n @ ''.00'')"

definition bucket_pieces :: "histogram_metric \<Rightarrow> string \<Rightarrow> bound \<times> u64 \<Rightarrow> string list" where
  "bucket_pieces h label_str b =
     [h_name h @ ''_bucket{'' @ label_str @ (if h_labels h = [] then [] else '','') @ ''le='' @ [CHR 0x22],
      bound_text (fst b), [CHR 0x22] @ ''} '' @ utoa (unat (snd b)) @ [CHR 0x0A]]"

fun render_buckets :: "nat \<Rightarrow> histogram_metric \<Rightarrow> string \<Rightarrow> (bound \<times> u64) list \<Rightarrow> text_buffer \<Rightarrow> c_error + text_buffer" where
  "render_buckets cap h label_str [] buf = Inr buf"
| "render_buckets cap h label_str (b # bs) buf =
     (if cap \<le> fst buf + 256 then Inr buf
      else and_then (puts cap buf (bucket_pieces h label_str b)) (render_buckets cap h label_str bs))"

definition label_string :: "metric_label list \<Rightarrow> c_error + string" where
  "label_string labels = and_then (puts 512 (0, []) (label_pieces labels)) (\<lambda>buf. Inr (snd buf))"

definition histogram_head :: "histogram_metric \<Rightarrow> string list" where
  "histogram_head h = [''# HELP '' @ h_name h @ '' '' @ h_help h @ [CHR 0x0A],
     ''# TYPE '' @ h_name h @ '' histogram'' @ [CHR 0x0A]]"

definition histogram_tail :: "histogram_metric \<Rightarrow> string \<Rightarrow> string list" where
  "histogram_tail h label_str =
     [h_name h @ ''_sum{'' @ label_str @ ''} '' @ utoa (unat (h_sum h)) @ [CHR 0x0A],
      h_name h @ ''_count{'' @ label_str @ ''} '' @ utoa (unat (h_count h)) @ [CHR 0x0A]]"

definition render_histogram :: "nat \<Rightarrow> histogram_metric \<Rightarrow> text_buffer \<Rightarrow> c_error + text_buffer" where
  "render_histogram cap h buf =
     and_then (puts cap buf (histogram_head h)) (\<lambda>buf.
     and_then (label_string (h_labels h)) (\<lambda>label_str.
     and_then (render_buckets cap h label_str (zip (upper_bounds h) (bucket_counts h)) buf) (\<lambda>buf.
     puts cap buf (histogram_tail h label_str))))"

fun render_histograms :: "nat \<Rightarrow> histogram_metric list \<Rightarrow> text_buffer \<Rightarrow> c_error + text_buffer" where
  "render_histograms cap [] buf = Inr buf"
| "render_histograms cap (h # hs) buf =
     (if \<not> h_active h then render_histograms cap hs buf
      else if cap \<le> fst buf + 2048 then Inr buf
      else and_then (render_histogram cap h buf) (render_histograms cap hs))"

definition metrics_registry_render_prometheus :: "bool \<Rightarrow> metrics_registry \<Rightarrow> c_error + string option" where
  "metrics_registry_render_prometheus malloc_ok reg =
     (if \<not> malloc_ok then Inr None
      else case render_metrics 65536 (metric_slots reg) (0, []) of
          (Leave_function, buf) \<Rightarrow> Inr (Some (snd buf))
        | (p, buf) \<Rightarrow> and_then (render_histograms 65536 (histograms reg) buf) (\<lambda>buf. Inr (Some (snd buf))))"

section \<open>What a histogram counts\<close>

definition fresh_histogram :: "histogram_metric \<Rightarrow> bool" where
  "fresh_histogram h \<longleftrightarrow> h_count h = 0 \<and> h_sum h = 0 \<and> bucket_counts h = replicate HISTOGRAM_MAX_BUCKETS 0
     \<and> length (upper_bounds h) \<le> HISTOGRAM_MAX_BUCKETS"

definition observe_all :: "int list \<Rightarrow> histogram_metric \<Rightarrow> histogram_metric" where
  "observe_all vs h = foldl (\<lambda>h v. metrics_histogram_observe v h) h vs"

definition in_bucket :: "bound list \<Rightarrow> nat \<Rightarrow> int \<Rightarrow> bool" where
  "in_bucket bs j v \<longleftrightarrow> find_index (in_bound v) bs = Some j"

lemma observe_frame [simp]:
  "upper_bounds (metrics_histogram_observe v h) = upper_bounds h"
  "length (bucket_counts (metrics_histogram_observe v h)) = length (bucket_counts h)"
  "h_count (metrics_histogram_observe v h) = h_count h + 1"
  "h_sum (metrics_histogram_observe v h) = h_sum h + word_of_int v"
  by (simp_all add: metrics_histogram_observe_def Let_def split: option.split)

lemma observe_bucket:
  "j < length (bucket_counts h) \<Longrightarrow> bucket_counts (metrics_histogram_observe v h) ! j =
     bucket_counts h ! j + (if in_bucket (upper_bounds h) j v then 1 else 0)"
  by (auto simp: metrics_histogram_observe_def in_bucket_def Let_def nth_list_update split: option.split)

lemma observe_all_counts:
  assumes "fresh_histogram h"
  shows "h_count (observe_all vs h) = word_of_nat (length vs)
    \<and> h_sum (observe_all vs h) = word_of_int (sum_list vs)
    \<and> upper_bounds (observe_all vs h) = upper_bounds h
    \<and> length (bucket_counts (observe_all vs h)) = HISTOGRAM_MAX_BUCKETS
    \<and> (\<forall>j < HISTOGRAM_MAX_BUCKETS. bucket_counts (observe_all vs h) ! j =
        word_of_nat (length (filter (in_bucket (upper_bounds h) j) vs)))"
proof (induction vs rule: rev_induct)
  case Nil
  then show ?case using assms by (simp add: observe_all_def fresh_histogram_def)
next
  case (snoc v vs)
  then show ?case by (simp add: observe_all_def observe_bucket add.commute)
qed

lemma sum_word_of_nat: "(\<Sum>x\<leftarrow>xs. word_of_nat (f x) :: u64) = word_of_nat (\<Sum>x\<leftarrow>xs. f x)"
  by (induction xs) simp_all

lemma buckets_partition:
  assumes "\<And>v. v \<in> set vs \<Longrightarrow> \<exists>j < n. in_bucket bs j v"
  shows "(\<Sum>j\<leftarrow>[0..<n]. length (filter (in_bucket bs j) vs)) = length vs"
  using assms
proof (induction vs)
  case (Cons v vs)
  from Cons.prems [of v] obtain k where k: "k < n" "in_bucket bs k v" by auto
  then have only: "in_bucket bs j v \<longleftrightarrow> j = k" for j by (auto simp: in_bucket_def)
  have "(\<Sum>j\<leftarrow>[0..<n]. length (filter (in_bucket bs j) (v # vs))) =
      (\<Sum>j\<leftarrow>[0..<n]. (if j = k then 1 else 0) + length (filter (in_bucket bs j) vs))"
    by (intro arg_cong [of _ _ sum_list] map_cong) (auto simp: only)
  also have "\<dots> = (\<Sum>j\<leftarrow>[0..<n]. if j = k then 1 else 0) + (\<Sum>j\<leftarrow>[0..<n]. length (filter (in_bucket bs j) vs))"
    by (rule sum_list_addf)
  also have "(\<Sum>j\<leftarrow>[0..<n]. if j = k then 1 else 0) = (1 :: nat)"
    using k(1) by (simp add: interv_sum_list_conv_sum_set_nat)
  finally show ?case using Cons by simp
qed simp

lemma infinite_bound: "None \<in> set bs \<Longrightarrow> \<exists>j < length bs. in_bucket bs j v"
  using find_index_Some_ex [of "in_bound v" bs] by (fastforce simp: in_bucket_def in_bound_def)

lemma standard_buckets:
  "t \<noteq> HISTOGRAM_BUCKETS_CUSTOM \<Longrightarrow> None \<in> set (metrics_get_buckets t)"
  "length (metrics_get_buckets t) \<le> HISTOGRAM_MAX_BUCKETS"
  by (cases t; simp add: HISTOGRAM_MAX_BUCKETS_def)+

lemma new_histogram_fresh: "fresh_histogram (new_histogram name help t labels)"
  using standard_buckets(2) [of t] by (simp add: fresh_histogram_def new_histogram_def)

text \<open>C24: What a histogram of one of the standard kinds shows after any observations: their number, their
  sum, and in each bucket the number of values between its bound and the one before. The buckets add
  up to the count, so they are not the cumulative counts the Prometheus text format asks of
  \<open>_bucket\<close> lines: the \<open>+Inf\<close> line only has the values beyond the last finite bound.\<close>

theorem histogram_counts:
  assumes "t \<noteq> HISTOGRAM_BUCKETS_CUSTOM" and "h = observe_all vs (new_histogram name help t labels)"
  shows "h_count h = word_of_nat (length vs) \<and> h_sum h = word_of_int (sum_list vs)
    \<and> (\<forall>j < length (metrics_get_buckets t). bucket_counts h ! j =
        word_of_nat (length (filter (in_bucket (metrics_get_buckets t) j) vs)))
    \<and> sum_list (take (length (metrics_get_buckets t)) (bucket_counts h)) = h_count h"
proof -
  let ?bs = "metrics_get_buckets t"
  have bs: "upper_bounds (new_histogram name help t labels) = ?bs" by (simp add: new_histogram_def)
  note counts = observe_all_counts [OF new_histogram_fresh, of vs name "help" t labels, folded assms(2), unfolded bs]
  have "take (length ?bs) (bucket_counts h) = map (\<lambda>j. bucket_counts h ! j) [0..<length ?bs]"
    using counts standard_buckets(2) [of t] by (intro nth_equalityI) auto
  also have "\<dots> = map (\<lambda>j. word_of_nat (length (filter (in_bucket ?bs j) vs))) [0..<length ?bs]"
    using counts standard_buckets(2) [of t] by simp
  finally have "sum_list (take (length ?bs) (bucket_counts h)) = word_of_nat (length vs)"
    using buckets_partition [of vs "length ?bs" ?bs] infinite_bound [OF standard_buckets(1) [OF assms(1)]]
    by (simp add: sum_word_of_nat)
  with counts standard_buckets(2) [of t] show ?thesis by auto
qed

theorem histogram_counts_witness:
  "bucket_counts (observe_all [3, 700, 9000] (new_histogram ''d'' ''h'' HISTOGRAM_BUCKETS_LATENCY_MS [])) ! 8 = 1
   \<and> h_count (observe_all [3, 700, 9000] (new_histogram ''d'' ''h'' HISTOGRAM_BUCKETS_LATENCY_MS [])) = 3"
  using histogram_counts [of HISTOGRAM_BUCKETS_LATENCY_MS "observe_all [3, 700, 9000]
      (new_histogram ''d'' ''h'' HISTOGRAM_BUCKETS_LATENCY_MS [])" "[3, 700, 9000]" "''d''" "''h''" "[]"]
  by (simp add: in_bucket_def in_bound_def)

section \<open>The registry is a map from names and labels to metrics\<close>

definition label_ok :: "metric_label \<Rightarrow> bool" where
  "label_ok l \<longleftrightarrow> c_string (label_name l) \<and> length (label_name l) < MAX_LABEL_NAME_LEN
     \<and> c_string (label_value l) \<and> length (label_value l) < MAX_LABEL_VALUE_LEN"

definition key_fits :: "string \<times> metric_label list \<Rightarrow> bool" where
  "key_fits k \<longleftrightarrow> c_string (fst k) \<and> length (fst k) < MAX_METRIC_NAME_LEN
     \<and> length (snd k) \<le> MAX_LABELS_PER_METRIC \<and> list_all label_ok (snd k)"

definition metric_valid :: "metrics \<Rightarrow> bool" where
  "metric_valid m \<longleftrightarrow> mt_active m \<and> key_fits (metric_key m)"

definition store_metric :: "metrics list \<Rightarrow> metrics \<Rightarrow> metrics list option" where
  "store_metric ms m = map_option (\<lambda>i. ms[i := m]) (free_slot mt_active ms)"

interpretation metric_store: slot_store mt_active metric_key metric_valid store_metric
  by unfold_locales (auto simp: store_metric_def metric_valid_def)

definition registry_ok :: "metrics_registry \<Rightarrow> bool" where
  "registry_ok reg \<longleftrightarrow> slots_ok mt_active metric_key (metric_slots reg)
     \<and> length (metric_slots reg) = MAX_METRICS_PER_REGISTRY
     \<and> metric_count reg = length (filter mt_active (metric_slots reg))"

abbreviation lookup_metric :: "metrics_registry \<Rightarrow> string \<times> metric_label list \<Rightarrow> metrics option" where
  "lookup_metric reg \<equiv> slot_lookup mt_active metric_key (metric_slots reg)"

lemma copy_labels: "list_all label_ok ls \<Longrightarrow> map copy_label ls = ls"
  by (induction ls) (auto simp: label_ok_def copy_label_def metric_limits)

lemma new_metric_key: "key_fits (name, labels) \<Longrightarrow> metric_key (new_metric name help type labels) = (name, labels)"
  by (simp add: new_metric_def key_fits_def copy_labels metric_limits)

lemma new_metric_valid: "key_fits (name, labels) \<Longrightarrow> metric_valid (new_metric name help type labels)"
  using new_metric_key [of name labels "help" type] by (simp add: metric_valid_def) (simp add: new_metric_def)

lemma find_known:
  "key_fits (name, labels) \<Longrightarrow> slot_of mt_active metric_key (name, labels) (metric_slots reg) = Some i \<Longrightarrow>
   find_or_create_metric lock_ok reg name help type labels = (Some i, reg)"
  by (simp add: find_or_create_metric_def key_fits_def)

text \<open>In a well-formed array the first slot with a key is the only one.\<close>

lemma metric_slot_unique:
  assumes "slots_ok mt_active metric_key ms" and "i < length ms" and "mt_active (ms ! i)" and "metric_key (ms ! i) = k"
  shows "slot_of mt_active metric_key k ms = Some i"
proof -
  obtain j where j: "slot_of mt_active metric_key k ms = Some j"
    using assms(2-4) find_index_Some_ex [of "\<lambda>m. mt_active m \<and> metric_key m = k" ms]
    by (auto simp: slot_of_def intro: nth_mem)
  have "j = i"
  proof (rule ccontr)
    assume "j \<noteq> i"
    with slots_delete(2) [OF assms(1-3), of empty_metric] slot_of_SomeD [OF j] assms(4)
    have "slot_lookup mt_active metric_key (ms[i := empty_metric]) k = None" by (simp add: empty_metric_def)
    moreover have "ms ! j \<in> set (filter mt_active (ms[i := empty_metric]))"
      using \<open>j \<noteq> i\<close> slot_of_SomeD [OF j] nth_mem [of j "ms[i := empty_metric]"] by simp
    ultimately show False using slot_of_SomeD [OF j] by (auto simp: slot_lookup_None_iff)
  qed
  with j show ?thesis by simp
qed

text \<open>The metric registry is a map: asking for a name and labels of legal length gives the handle of
  the one metric stored under them, whatever type and help text are asked for and however often.
  A new key gets a fresh metric of value 0 as long as fewer than 256 are in use, and no other
  metric, whose value counts on, is touched.\<close>

theorem metric_registry_is_map:
  assumes "registry_ok reg" and "key_fits (name, labels)"
    and "find_or_create_metric True reg name help type labels = (handle, reg')"
  shows "registry_ok reg'
    \<and> (handle = None \<longleftrightarrow> lookup_metric reg (name, labels) = None \<and> metric_count reg = 256)
    \<and> (\<forall>k. lookup_metric reg' k = (if k = (name, labels) \<and> lookup_metric reg k = None \<and> metric_count reg < 256
        then Some (new_metric name help type labels) else lookup_metric reg k))
    \<and> (handle \<noteq> None \<longrightarrow> lookup_metric reg' (name, labels) = Some (metric_slots reg' ! the handle)
        \<and> find_or_create_metric True reg' name help' type' labels = (handle, reg'))"
proof (cases "slot_of mt_active metric_key (name, labels) (metric_slots reg)")
  case (Some i)
  with find_known [OF assms(2) Some] assms(3) have "handle = Some i" "reg' = reg" by simp_all
  with Some find_known [OF assms(2) Some] assms(1) show ?thesis
    by (auto simp: slot_lookup_def)
next
  case None
  have look: "lookup_metric reg (name, labels) = None" using None by (simp add: slot_lookup_def)
  have labels: "\<not> MAX_LABELS_PER_METRIC < length labels" using assms(2) by (simp add: key_fits_def)
  show ?thesis
  proof (cases "metric_count reg < 256")
    case False
    moreover have "metric_count reg \<le> 256"
      using assms(1) length_filter_le [of mt_active "metric_slots reg"] by (simp add: registry_ok_def metric_limits)
    moreover have "handle = None" "reg' = reg"
      using assms(3) None labels False by (auto simp: find_or_create_metric_def metric_limits)
    ultimately show ?thesis using look assms(1) by auto
  next
    case True
    with assms(1) free_slot_iff [of mt_active "metric_slots reg"] obtain i where i: "free_slot mt_active (metric_slots reg) = Some i"
      by (auto simp: registry_ok_def metric_limits)
    let ?m = "new_metric name help type labels"
    have reg': "handle = Some i" "metric_slots reg' = (metric_slots reg)[i := ?m]" "metric_count reg' = Suc (metric_count reg)"
      using assms(3) None labels True i by (auto simp: find_or_create_metric_def metric_limits)
    have key: "metric_key ?m = (name, labels)" using new_metric_key [OF assms(2)] .
    have ins: "slots_ok mt_active metric_key ((metric_slots reg)[i := ?m])"
        "lookup_metric reg' = (lookup_metric reg)((name, labels) \<mapsto> ?m)"
        "length (filter mt_active ((metric_slots reg)[i := ?m])) = Suc (length (filter mt_active (metric_slots reg)))"
      using slots_insert [of mt_active metric_key "metric_slots reg" i ?m] free_slot_SomeD [OF i] assms(1) look key
        new_metric_valid [OF assms(2), of "help" type]
      by (simp_all add: registry_ok_def metric_valid_def reg'(2))
    have ok: "registry_ok reg'" using assms(1) ins reg' by (simp add: registry_ok_def)
    have at: "metric_slots reg' ! i = ?m" using free_slot_SomeD [OF i] reg'(2) by simp
    have "slot_of mt_active metric_key (name, labels) (metric_slots reg') = Some i"
      using ins(2) free_slot_SomeD [OF i] ok key at new_metric_valid [OF assms(2), of "help" type]
      by (intro metric_slot_unique) (auto simp: registry_ok_def reg'(2) metric_valid_def)
    from find_known [OF assms(2) this, of True help' type'] show ?thesis
      using ok reg'(1) look True ins(2) at by auto
  qed
qed

definition empty_registry :: metrics_registry where
  "empty_registry = \<lparr>metric_slots = replicate MAX_METRICS_PER_REGISTRY empty_metric, histograms = [], metric_count = 0\<rparr>"

lemma empty_registry_facts:
  "metrics_registry_init True True = Some empty_registry" "registry_ok empty_registry"
  "lookup_metric empty_registry k = None" "metric_count empty_registry = 0"
proof -
  show "lookup_metric empty_registry k = None"
    by (simp add: slot_lookup_None_iff empty_registry_def empty_metric_def)
qed (simp_all add: metrics_registry_init_def empty_registry_def registry_ok_def slots_ok_def empty_metric_def)

theorem metric_registry_is_map_witness:
  "\<exists>i reg. find_or_create_metric True empty_registry ''m'' ''h'' METRIC_TYPE_COUNTER [] = (Some i, reg)
    \<and> lookup_metric reg (''m'', []) = Some (new_metric ''m'' ''h'' METRIC_TYPE_COUNTER [])
    \<and> find_or_create_metric True reg ''m'' ''other'' METRIC_TYPE_GAUGE [] = (Some i, reg)"
proof -
  have key: "key_fits (''m'', [])" by (simp add: key_fits_def c_string_def metric_limits)
  obtain handle reg where r: "find_or_create_metric True empty_registry ''m'' ''h'' METRIC_TYPE_COUNTER [] = (handle, reg)"
    by (metis surj_pair)
  from metric_registry_is_map [OF empty_registry_facts(2) key r, of "''other''" METRIC_TYPE_GAUGE]
  show ?thesis using r by (auto simp: empty_registry_facts(3,4))
qed

section \<open>What rendering writes\<close>

definition metric_text :: "metrics \<Rightarrow> string" where
  "metric_text m = concat (map snd (metric_pieces m))"

definition labels_text :: "metric_label list \<Rightarrow> string" where
  "labels_text ls = concat (label_pieces ls)"

definition histogram_text :: "histogram_metric \<Rightarrow> string" where
  "histogram_text h = concat (histogram_head h)
     @ concat (map (\<lambda>b. concat (bucket_pieces h (labels_text (h_labels h)) b)) (zip (upper_bounds h) (bucket_counts h)))
     @ concat (histogram_tail h (labels_text (h_labels h)))"

definition exposition :: "metrics_registry \<Rightarrow> string" where
  "exposition reg = concat (map metric_text (filter mt_active (metric_slots reg)))
     @ concat (map histogram_text (filter h_active (histograms reg)))"

lemma put_checked_fit: "length (pre @ concat (map snd ps)) < cap \<Longrightarrow>
   put_checked cap (length pre, pre) ps = (Go_on, length (pre @ concat (map snd ps)), pre @ concat (map snd ps))"
proof (induction ps arbitrary: pre)
  case (Cons p ps)
  then have "\<not> cap - length pre \<le> length (snd p)" by auto
  with Cons.prems show ?case using Cons.IH [of "pre @ snd p"] by (cases p) simp
qed simp

lemma render_metrics_fit:
  "length (pre @ concat (map metric_text (filter mt_active ms))) + 512 < cap \<Longrightarrow>
   render_metrics cap ms (length pre, pre) = (Go_on,
     length (pre @ concat (map metric_text (filter mt_active ms))), pre @ concat (map metric_text (filter mt_active ms)))"
proof (induction ms arbitrary: pre)
  case (Cons m ms)
  show ?case
  proof (cases "mt_active m")
    case True
    with Cons.prems have "put_checked cap (length pre, pre) (metric_pieces m) =
        (Go_on, length (pre @ metric_text m), pre @ metric_text m)"
      using put_checked_fit [of pre "metric_pieces m" cap] by (simp add: metric_text_def)
    with True Cons.IH [of "pre @ metric_text m"] Cons.prems show ?thesis by simp
  next
    case False
    with Cons show ?thesis by simp
  qed
qed simp

lemma label_string_fit: "length (labels_text ls) < 512 \<Longrightarrow> label_string ls = Inr (labels_text ls)"
  using puts_fit [of "[]" "label_pieces ls" 512] by (simp add: label_string_def labels_text_def)

lemma render_buckets_fit:
  "length (pre @ concat (map (\<lambda>b. concat (bucket_pieces h l b)) bs)) + 256 < cap \<Longrightarrow>
   render_buckets cap h l bs (length pre, pre) = Inr (length (pre @ concat (map (\<lambda>b. concat (bucket_pieces h l b)) bs)),
     pre @ concat (map (\<lambda>b. concat (bucket_pieces h l b)) bs))"
proof (induction bs arbitrary: pre)
  case (Cons b bs)
  have "puts cap (length pre, pre) (bucket_pieces h l b) =
      Inr (length (pre @ concat (bucket_pieces h l b)), pre @ concat (bucket_pieces h l b))"
    using Cons.prems by (intro puts_fit) simp
  with Cons.IH [of "pre @ concat (bucket_pieces h l b)"] Cons.prems show ?case by simp
qed simp

lemma render_histogram_fit:
  assumes "length (pre @ histogram_text h) + 256 < cap" and "length (labels_text (h_labels h)) < 512"
  shows "render_histogram cap h (length pre, pre) = Inr (length (pre @ histogram_text h), pre @ histogram_text h)"
proof -
  let ?l = "labels_text (h_labels h)"
  let ?t1 = "pre @ concat (histogram_head h)"
  let ?t2 = "?t1 @ concat (map (\<lambda>b. concat (bucket_pieces h ?l b)) (zip (upper_bounds h) (bucket_counts h)))"
  have t: "pre @ histogram_text h = ?t2 @ concat (histogram_tail h ?l)" by (simp add: histogram_text_def)
  have len: "length (?t2 @ concat (histogram_tail h ?l)) + 256 < cap" using assms(1) unfolding t .
  have "puts cap (length pre, pre) (histogram_head h) = Inr (length ?t1, ?t1)"
    using len by (intro puts_fit) simp
  moreover have "render_buckets cap h ?l (zip (upper_bounds h) (bucket_counts h)) (length ?t1, ?t1) = Inr (length ?t2, ?t2)"
    using len by (intro render_buckets_fit) simp
  moreover have "puts cap (length ?t2, ?t2) (histogram_tail h ?l) =
      Inr (length (?t2 @ concat (histogram_tail h ?l)), ?t2 @ concat (histogram_tail h ?l))"
    using len by (intro puts_fit) simp
  ultimately show ?thesis
    unfolding t by (simp only: render_histogram_def label_string_fit [OF assms(2)] and_then.simps)
qed

lemma render_histograms_fit:
  "length (pre @ concat (map histogram_text (filter h_active hs))) + 2048 < cap \<Longrightarrow>
   \<forall>h \<in> set hs. length (labels_text (h_labels h)) < 512 \<Longrightarrow>
   render_histograms cap hs (length pre, pre) = Inr (length (pre @ concat (map histogram_text (filter h_active hs))),
     pre @ concat (map histogram_text (filter h_active hs)))"
proof (induction hs arbitrary: pre)
  case (Cons h hs)
  show ?case
  proof (cases "h_active h")
    case True
    with Cons.prems have "render_histogram cap h (length pre, pre) = Inr (length (pre @ histogram_text h), pre @ histogram_text h)"
      by (intro render_histogram_fit) simp_all
    with True Cons.IH [of "pre @ histogram_text h"] Cons.prems show ?thesis by simp
  next
    case False
    with Cons show ?thesis by simp
  qed
qed simp

lemma render_full:
  assumes "length (exposition reg) + 2048 < 65536"
    and "\<forall>h \<in> set (histograms reg). length (labels_text (h_labels h)) < 512"
  shows "metrics_registry_render_prometheus True reg = Inr (Some (exposition reg))"
proof -
  let ?m = "concat (map metric_text (filter mt_active (metric_slots reg)))"
  have "render_metrics 65536 (metric_slots reg) (0, []) = (Go_on, length ?m, ?m)"
    using render_metrics_fit [of "[]" "metric_slots reg" 65536] assms(1) by (simp add: exposition_def)
  moreover have "render_histograms 65536 (histograms reg) (length ?m, ?m) = Inr (length (exposition reg), exposition reg)"
    using render_histograms_fit [of ?m "histograms reg" 65536] assms by (simp add: exposition_def)
  ultimately show ?thesis by (simp add: metrics_registry_render_prometheus_def)
qed

text \<open>As long as the whole text leaves 2048 bytes of the 64 KB free and the labels of every
  histogram fit their 512 bytes, rendering gives the complete exposition: each active metric and
  then each histogram, in order, nothing cut off.\<close>

theorem render_is_exposition:
  assumes "length (exposition reg) + 2048 < 65536"
    and "\<forall>h \<in> set (histograms reg). length (labels_text (h_labels h)) < 512"
  shows "metrics_registry_render_prometheus True reg = Inr (Some (exposition reg))"
  using assms by (rule render_full)

theorem render_is_exposition_witness:
  "metrics_registry_render_prometheus True empty_registry = Inr (Some [])"
proof -
  have "exposition empty_registry = []" by (simp add: exposition_def empty_registry_def empty_metric_def)
  with render_is_exposition [of empty_registry] show ?thesis by (simp add: empty_registry_def)
qed

text \<open>The label text of a histogram is collected in 512 bytes without a check: a histogram whose
  labels but the last take more (four labels of the legal length are enough) makes every rendering
  that reaches it write beyond that buffer.\<close>

theorem long_labels_overrun:
  assumes "histograms reg = h # hs" and "h_active h" and "512 < length (concat (butlast (label_pieces (h_labels h))))"
    and "length (concat (map metric_text (filter mt_active (metric_slots reg))))
       + length (concat (histogram_head h)) + 2048 < 65536"
  shows "metrics_registry_render_prometheus True reg = Inl Out_of_bounds"
proof -
  let ?m = "concat (map metric_text (filter mt_active (metric_slots reg)))"
  have "render_metrics 65536 (metric_slots reg) (0, []) = (Go_on, length ?m, ?m)"
    using render_metrics_fit [of "[]" "metric_slots reg" 65536] assms(4) by simp
  moreover have "label_string (h_labels h) = Inl Out_of_bounds"
    using puts_overflow [of 512 "(0, [])" "label_pieces (h_labels h)"] assms(3)
    by (cases "label_pieces (h_labels h)") (simp_all add: label_string_def)
  moreover have "puts 65536 (length ?m, ?m) (histogram_head h) =
      Inr (length (?m @ concat (histogram_head h)), ?m @ concat (histogram_head h))"
    using assms(4) by (intro puts_fit) simp
  ultimately show ?thesis
    using assms by (simp add: metrics_registry_render_prometheus_def render_histogram_def)
qed

theorem long_labels_overrun_witness:
  "metrics_registry_render_prometheus True (empty_registry\<lparr>histograms := [new_histogram ''d'' ''h''
     HISTOGRAM_BUCKETS_LATENCY_MS (replicate 4 \<lparr>label_name = replicate 63 (CHR ''n''),
       label_value = replicate 127 (CHR ''v'')\<rparr>)]\<rparr>) = Inl Out_of_bounds"
proof -
  let ?l = "\<lparr>label_name = replicate 63 (CHR ''n''), label_value = replicate 127 (CHR ''v'')\<rparr>"
  have four: "replicate 4 ?l = [?l, ?l, ?l, ?l]" by (simp add: numeral_eq_Suc)
  show ?thesis
    unfolding four
    by (rule long_labels_overrun [where h = "new_histogram ''d'' ''h'' HISTOGRAM_BUCKETS_LATENCY_MS [?l, ?l, ?l, ?l]"])
      (simp_all add: new_histogram_def empty_registry_def empty_metric_def label_text_def histogram_head_def
        metric_limits c_string_def)
qed

end
