(* ===== verification/Metrics_Server.thy ===== *)
theory Metrics_Server
  imports Metrics
begin

text \<open>
  src/core/metrics_server.c: parsing and routing of a request to the metrics endpoint, the
  responses, and the start and shutdown of the server with its detached thread. A request is the
  text \<open>recv\<close> delivered, None when it failed; each \<open>send\<close> is the number of characters the
  kernel took, None when it failed. Socket set-up and time-outs are I/O; their limits appear in the
  thread's state machine.
\<close>

definition MAX_REQUEST_SIZE :: nat where "MAX_REQUEST_SIZE = 4096"

section \<open>Responses\<close>

definition crlf :: string where "crlf = [CHR 0x0D, CHR 0x0A]"

definition http_header :: "string \<Rightarrow> string \<Rightarrow> nat \<Rightarrow> string" where
  "http_header status_line content_type body_len =
     ''HTTP/1.1 '' @ status_line @ crlf @ ''Content-Type: '' @ content_type @ crlf
     @ ''Content-Length: '' @ utoa body_len @ crlf @ ''Connection: close'' @ crlf
     @ ''Server: roole-metrics/1.0'' @ crlf @ crlf"

text \<open>What reaches the client.\<close>

definition send_http_response :: "string \<Rightarrow> string \<Rightarrow> string \<Rightarrow> nat option \<Rightarrow> nat option \<Rightarrow> string" where
  "send_http_response status_line content_type body sent_header sent_body =
     (let header = http_header status_line content_type (length body)
      in if 1024 \<le> length header then []
         else case sent_header of
             None \<Rightarrow> []
           | Some n \<Rightarrow> take n header
               @ (if body \<noteq> [] then (case sent_body of None \<Rightarrow> [] | Some k \<Rightarrow> take k body) else []))"

definition send_400_bad_request :: "nat option \<Rightarrow> nat option \<Rightarrow> string" where
  "send_400_bad_request = send_http_response ''400 Bad Request'' ''text/plain'' (''400 Bad Request'' @ [newline])"

definition send_404_not_found :: "nat option \<Rightarrow> nat option \<Rightarrow> string" where
  "send_404_not_found = send_http_response ''404 Not Found'' ''text/plain'' (''404 Not Found'' @ [newline])"

definition send_500_internal_error :: "nat option \<Rightarrow> nat option \<Rightarrow> string" where
  "send_500_internal_error =
     send_http_response ''500 Internal Server Error'' ''text/plain'' (''500 Internal Server Error'' @ [newline])"

section \<open>Requests\<close>

text \<open>\<open>%ns\<close> of \<open>sscanf\<close>: white space is skipped, then at most \<open>n\<close> other characters are taken.\<close>

definition scan_token :: "nat \<Rightarrow> string \<Rightarrow> (string \<times> string) option" where
  "scan_token n s =
     (let s = dropWhile isspace s; tok = take n (takeWhile (\<lambda>c. \<not> isspace c) s)
      in if tok = [] then None else Some (tok, drop (length tok) s))"

definition parse_http_request :: "string \<Rightarrow> (string \<times> string) option" where
  "parse_http_request request =
     (case scan_token 63 request of
        None \<Rightarrow> None
      | Some (method, rest) \<Rightarrow> map_option (\<lambda>(path, _). (method, path)) (scan_token 255 rest))"

definition handle_metrics_request ::
  "bool \<Rightarrow> metrics_registry \<Rightarrow> nat option \<Rightarrow> nat option \<Rightarrow> c_error + string" where
  "handle_metrics_request malloc_ok reg sent_header sent_body =
     and_then (metrics_registry_render_prometheus malloc_ok reg) (\<lambda>rendered.
       Inr (case rendered of
         None \<Rightarrow> send_500_internal_error sent_header sent_body
       | Some body \<Rightarrow> send_http_response ''200 OK'' ''text/plain; version=0.0.4; charset=utf-8'' body sent_header sent_body))"

definition info_page :: string where
  "info_page = ''Roole Metrics Server'' @ [newline, newline] @ ''Available endpoints:'' @ [newline]
     @ ''  GET /metrics - Prometheus metrics'' @ [newline]"

definition handle_http_request ::
  "bool \<Rightarrow> metrics_registry \<Rightarrow> string option \<Rightarrow> nat option \<Rightarrow> nat option \<Rightarrow> c_error + string" where
  "handle_http_request malloc_ok reg received sent_header sent_body =
     (case received of
        None \<Rightarrow> Inr []
      | Some request \<Rightarrow>
          if request = [] then Inr []
          else case parse_http_request (takeWhile (\<lambda>c. c \<noteq> NUL) (take (MAX_REQUEST_SIZE - 1) request)) of
              None \<Rightarrow> Inr (send_400_bad_request sent_header sent_body)
            | Some (method, path) \<Rightarrow>
                if method = ''GET'' \<and> path = ''/metrics'' then handle_metrics_request malloc_ok reg sent_header sent_body
                else if method = ''GET'' \<and> path = ''/''
                then Inr (send_http_response ''200 OK'' ''text/plain'' info_page sent_header sent_body)
                else Inr (send_404_not_found sent_header sent_body))"

section \<open>Routing\<close>

definition no_space :: "string \<Rightarrow> bool" where
  "no_space s \<longleftrightarrow> s \<noteq> [] \<and> (\<forall>c \<in> set s. \<not> isspace c)"

lemma scan_word:
  assumes "no_space w" and "length w \<le> n" and "rest = [] \<or> isspace (hd rest)"
  shows "scan_token n (w @ rest) = Some (w, rest)"
proof -
  have "takeWhile (\<lambda>c. \<not> isspace c) (w @ rest) = w"
    using assms(1,3) by (cases rest) (auto simp: no_space_def takeWhile_append2 takeWhile_eq_all_conv)
  moreover have "dropWhile isspace (w @ rest) = w @ rest" using assms(1) by (cases w) (auto simp: no_space_def)
  ultimately show ?thesis using assms(1,2) by (cases w) (simp_all add: scan_token_def no_space_def)
qed

lemma scan_after_space: "isspace c \<Longrightarrow> scan_token n (c # s) = scan_token n s"
  by (simp add: scan_token_def)

lemma parse_request_line:
  assumes "no_space m" and "length m \<le> 63" and "no_space p" and "length p \<le> 255" and "rest = [] \<or> isspace (hd rest)"
  shows "parse_http_request (m @ CHR '' '' # p @ rest) = Some (m, p)"
proof -
  have "isspace (CHR '' '')" by (simp add: isspace_def)
  then show ?thesis
    using scan_word [OF assms(1,2), of "CHR '' '' # p @ rest"] scan_word [OF assms(3,4,5)]
    by (simp add: parse_http_request_def scan_after_space)
qed

definition http_answer :: "metrics_registry \<Rightarrow> string \<Rightarrow> string \<Rightarrow> string \<times> string \<times> string" where
  "http_answer reg m p =
     (if m = ''GET'' \<and> p = ''/metrics'' then (''200 OK'', ''text/plain; version=0.0.4; charset=utf-8'', exposition reg)
      else if m = ''GET'' \<and> p = ''/'' then (''200 OK'', ''text/plain'', info_page)
      else (''404 Not Found'', ''text/plain'', ''404 Not Found'' @ [newline]))"

lemma send_complete:
  assumes "length status \<le> 100" and "length content_type \<le> 100" and "length body < 10 ^ 10"
    and "length (http_header status content_type (length body)) \<le> n" and "length body \<le> k"
  shows "send_http_response status content_type body (Some n) (Some k) = http_header status content_type (length body) @ body"
proof -
  have "length (utoa (length body)) \<le> 10" using assms(3) by (intro utoa_length) simp_all
  then have "length (http_header status content_type (length body)) < 1024"
    using assms(1,2) by (simp add: http_header_def crlf_def)
  with assms(4,5) show ?thesis by (simp add: send_http_response_def)
qed

text \<open>The endpoint answers a request line of a method, a path and whatever follows with the response
  that belongs to it, complete and with its length announced, as long as the kernel takes all of
  it: the exposition of the registry for \<open>GET /metrics\<close>, the info page for \<open>GET /\<close>, and 404 for
  every other method or path.\<close>

theorem metrics_endpoint:
  assumes "no_space m" and "length m \<le> 63" and "no_space p" and "length p \<le> 255" and "rest = [] \<or> isspace (hd rest)"
    and "c_string (m @ CHR '' '' # p @ rest)" and "length (m @ CHR '' '' # p @ rest) < 4096"
    and "length (exposition reg) + 2048 < 65536"
    and "\<forall>h \<in> set (histograms reg). length (labels_text (h_labels h)) < 512"
    and "http_answer reg m p = (status, content_type, body)"
    and "length (http_header status content_type (length body)) \<le> n" and "length body \<le> k"
  shows "handle_http_request True reg (Some (m @ CHR '' '' # p @ rest)) (Some n) (Some k) =
    Inr (http_header status content_type (length body) @ body)"
proof -
  let ?r = "m @ CHR '' '' # p @ rest"
  have "takeWhile (\<lambda>c. c \<noteq> NUL) (take (MAX_REQUEST_SIZE - 1) ?r) = ?r"
    using assms(6,7) by (auto simp: MAX_REQUEST_SIZE_def c_string_def takeWhile_eq_all_conv)
  then have parsed: "parse_http_request (takeWhile (\<lambda>c. c \<noteq> NUL) (take (MAX_REQUEST_SIZE - 1) ?r)) = Some (m, p)"
    using parse_request_line [OF assms(1-5)] by simp
  have small: "length status \<le> 100" "length content_type \<le> 100" "length body < 10 ^ 10"
    using assms(8,10) by (auto simp: http_answer_def info_page_def split: if_splits)
  note sent = send_complete [OF small assms(11,12)]
  have full: "metrics_registry_render_prometheus True reg = Inr (Some (exposition reg))"
    using assms(8,9) by (rule render_full)
  show ?thesis
    using parsed sent full assms(10)
    by (auto simp: handle_http_request_def handle_metrics_request_def http_answer_def send_404_not_found_def
        split: if_splits)
qed

theorem metrics_endpoint_witness:
  "handle_http_request True empty_registry (Some ''GET /metrics HTTP/1.1'') (Some 1000) (Some 0) =
     Inr (http_header ''200 OK'' ''text/plain; version=0.0.4; charset=utf-8'' 0)"
proof -
  have e: "exposition empty_registry = []" "histograms empty_registry = []"
    by (simp_all add: exposition_def empty_registry_def empty_metric_def)
  have "length (http_header ''200 OK'' ''text/plain; version=0.0.4; charset=utf-8'' 0) \<le> 1000"
    by (simp add: http_header_def crlf_def utoa.simps)
  then show ?thesis
    using metrics_endpoint [of "''GET''" "''/metrics''" "'' HTTP/1.1''" empty_registry "''200 OK''"
        "''text/plain; version=0.0.4; charset=utf-8''" "[]" 1000 0]
    by (simp add: no_space_def isspace_def c_string_def e http_answer_def)
qed

section \<open>Start and shutdown\<close>

datatype thread_phase = Binding | Accepting | Serving nat | Ended

datatype owner_phase = Running | Waiting nat | Freed

record metrics_server =
  ms_port :: u16
  ms_bind_addr :: string
  server_fd_open :: bool
  shutdown_flag :: bool
  thread_phase :: thread_phase
  owner_phase :: owner_phase
  clock_ms :: nat

definition metrics_server_start :: "bool \<Rightarrow> bool \<Rightarrow> string \<Rightarrow> u16 \<Rightarrow> metrics_server option" where
  "metrics_server_start calloc_ok thread_ok bind_addr port =
     (if port = 0 then None
      else if \<not> calloc_ok then None
      else if snd (safe_strncpy [] (Some bind_addr) 16) \<noteq> 0 then None
      else if \<not> thread_ok then None
      else Some \<lparr>ms_port = port, ms_bind_addr = fst (safe_strncpy [] (Some bind_addr) 16), server_fd_open = False,
        shutdown_flag = False, thread_phase = Binding, owner_phase = Running, clock_ms = 0\<rparr>)"

text \<open>The steps of the server thread and of the thread that calls \<open>metrics_server_shutdown\<close>, which
  waits half a second and frees the structure. Serving a client ends after at most the five
  seconds of the receive time-out. The result None is an access to the freed structure.\<close>

inductive server_step :: "metrics_server \<Rightarrow> metrics_server option \<Rightarrow> bool" where
  tick: "(\<forall>d. thread_phase s = Serving d \<longrightarrow> clock_ms s < d) \<Longrightarrow> (\<forall>w. owner_phase s = Waiting w \<longrightarrow> clock_ms s < w) \<Longrightarrow>
    server_step s (Some (s\<lparr>clock_ms := Suc (clock_ms s)\<rparr>))"
| bound: "thread_phase s = Binding \<Longrightarrow> owner_phase s \<noteq> Freed \<Longrightarrow>
    server_step s (Some (s\<lparr>server_fd_open := True, thread_phase := Accepting\<rparr>))"
| bind_failed: "thread_phase s = Binding \<Longrightarrow> owner_phase s \<noteq> Freed \<Longrightarrow> server_step s (Some (s\<lparr>thread_phase := Ended\<rparr>))"
| accept: "thread_phase s = Accepting \<Longrightarrow> owner_phase s \<noteq> Freed \<Longrightarrow> \<not> shutdown_flag s \<Longrightarrow>
    server_step s (Some (s\<lparr>thread_phase := Serving (clock_ms s + 5000)\<rparr>))"
| served: "thread_phase s = Serving d \<Longrightarrow> server_step s (Some (s\<lparr>thread_phase := Accepting\<rparr>))"
| stop: "thread_phase s = Accepting \<Longrightarrow> owner_phase s \<noteq> Freed \<Longrightarrow> shutdown_flag s \<Longrightarrow>
    server_step s (Some (s\<lparr>server_fd_open := False, thread_phase := Ended\<rparr>))"
| use_freed: "thread_phase s \<in> {Binding, Accepting} \<Longrightarrow> owner_phase s = Freed \<Longrightarrow> server_step s None"
| shutdown: "owner_phase s = Running \<Longrightarrow>
    server_step s (Some (s\<lparr>shutdown_flag := True, server_fd_open := False, owner_phase := Waiting (clock_ms s + 500)\<rparr>))"
| free: "owner_phase s = Waiting (clock_ms s) \<Longrightarrow> server_step s (Some (s\<lparr>owner_phase := Freed\<rparr>))"

inductive server_reaches :: "metrics_server \<Rightarrow> metrics_server option \<Rightarrow> bool" for s0 where
  start: "server_reaches s0 (Some s0)"
| step: "server_reaches s0 (Some s) \<Longrightarrow> server_step s r \<Longrightarrow> server_reaches s0 r"

lemma wait_ms:
  assumes "server_reaches s0 (Some s)" and "thread_phase s = Serving d" and "clock_ms s + n \<le> d"
    and "owner_phase s = Waiting w" and "clock_ms s + n \<le> w"
  shows "server_reaches s0 (Some (s\<lparr>clock_ms := clock_ms s + n\<rparr>))"
  using assms(3,5)
proof (induction n)
  case 0
  then show ?case using assms(1) by simp
next
  case (Suc n)
  let ?s = "s\<lparr>clock_ms := clock_ms s + n\<rparr>"
  have "server_step ?s (Some (?s\<lparr>clock_ms := Suc (clock_ms ?s)\<rparr>))"
    using assms(2,4) Suc.prems by (intro server_step.tick) auto
  with Suc show ?case by (auto intro: server_reaches.step)
qed

text \<open>Shutdown frees the server structure under its thread: a client that keeps the thread busy for
  longer than the half second of the wait (its receive time-out is five) makes the thread read the
  shutdown flag of freed memory. From every server that can be started such a run exists.\<close>

theorem shutdown_frees_in_use:
  assumes "metrics_server_start True True bind_addr port = Some s0"
  shows "server_reaches s0 None"
proof -
  have s0: "thread_phase s0 = Binding" "owner_phase s0 = Running" "shutdown_flag s0 = False" "clock_ms s0 = 0"
    using assms by (auto simp: metrics_server_start_def split: if_splits)
  define s1 where "s1 = s0\<lparr>server_fd_open := True, thread_phase := Accepting\<rparr>"
  define s2 where "s2 = s1\<lparr>thread_phase := Serving 5000\<rparr>"
  define s3 where "s3 = s2\<lparr>shutdown_flag := True, server_fd_open := False, owner_phase := Waiting 500\<rparr>"
  define s4 where "s4 = s3\<lparr>clock_ms := 500\<rparr>"
  define s5 where "s5 = s4\<lparr>owner_phase := Freed\<rparr>"
  define s6 where "s6 = s5\<lparr>thread_phase := Accepting\<rparr>"
  have "server_reaches s0 (Some s1)"
    using server_step.bound [of s0] s0 unfolding s1_def by (auto intro: server_reaches.intros)
  moreover have "server_step s1 (Some s2)"
    using server_step.accept [of s1] s0 by (simp add: s1_def s2_def)
  moreover have "server_step s2 (Some s3)"
    using server_step.shutdown [of s2] s0 by (simp add: s1_def s2_def s3_def)
  ultimately have r3: "server_reaches s0 (Some s3)" by (blast intro: server_reaches.step)
  have "server_reaches s0 (Some s4)"
    using wait_ms [OF r3, of 5000 500 500] s0 by (simp add: s1_def s2_def s3_def s4_def)
  moreover have "server_step s4 (Some s5)"
    using server_step.free [of s4] by (simp add: s3_def s4_def s5_def)
  moreover have "server_step s5 (Some s6)"
    using server_step.served [of s5 5000] by (simp add: s2_def s3_def s4_def s5_def s6_def)
  moreover have "server_step s6 None"
    by (rule server_step.use_freed) (simp_all add: s5_def s6_def)
  ultimately show ?thesis by (blast intro: server_reaches.step)
qed

theorem shutdown_frees_in_use_witness:
  "server_reaches (the (metrics_server_start True True ''127.0.0.1'' 7002)) None"
  by (rule shutdown_frees_in_use [of "''127.0.0.1''" 7002])
    (simp add: metrics_server_start_def safe_strncpy_def char_at_def Let_def copy_chars_take c_string_def)

end
