(* ===== verification/Node_Metrics.thy ===== *)
theory Node_Metrics
  imports Metrics_Server Config Node_Properties
begin

text \<open>
  src/node/node_metrics.c: the eleven counters and gauges and the four histograms of a node, their
  creation in the registry of src/core/metrics.c, the periodic update and the shutdown. The pointers
  \<open>metric_...\<close> and \<open>histogram_...\<close> of the node state are \<open>nm_metric\<close> and \<open>nm_histogram\<close>; using one
  after the registry was freed is the outcome \<open>Out_of_bounds\<close>. Setting up the HTTP server is
  \<open>metrics_server_start\<close>; the log line about the event bus has no effect on the state.
\<close>

datatype metric_ref =
    Messages_processed | Messages_failed | Messages_routed | Queue_size | Active_executions | Uptime_seconds
  | Members_total | Members_active | Members_suspect | Members_dead | Dag_catalog_size

datatype histogram_ref = Exec_duration | Queue_wait | Message_size | Gossip_rtt

record node_metrics =
  nm_registry :: "metrics_registry option"
  nm_server :: "metrics_server option"
  nm_metric :: "metric_ref \<Rightarrow> nat option"
  nm_histogram :: "histogram_ref \<Rightarrow> nat option"

text \<open>What allocation, the mutexes and the server thread do.\<close>

record metrics_io =
  registry_calloc_ok :: bool
  registry_lock_ok :: bool
  metric_lock_ok :: "metric_ref \<Rightarrow> bool"
  server_calloc_ok :: bool
  server_thread_ok :: bool

definition standard_labels :: "node_identity \<Rightarrow> node_capabilities \<Rightarrow> metric_label list" where
  "standard_labels ident caps =
     [\<lparr>label_name = ''cluster_name'', label_value = strcpy_to MAX_LABEL_VALUE_LEN (id_cluster_name ident)\<rparr>,
      \<lparr>label_name = ''node_id'', label_value = strcpy_to MAX_LABEL_VALUE_LEN (take 31 (utoa (unat (id_node_id ident))))\<rparr>,
      \<lparr>label_name = ''node_type'', label_value = (if has_ingress caps \<noteq> 0 then ''router'' else ''worker'')\<rparr>]"

definition counter_specs :: "(metric_ref \<times> string \<times> string) list" where
  "counter_specs =
     [(Messages_processed, ''messages_processed_total'', ''Total number of messages successfully processed''),
      (Messages_failed, ''messages_failed_total'', ''Total number of messages that failed processing''),
      (Messages_routed, ''messages_routed_total'', ''Total number of messages routed to other nodes'')]"

definition gauge_specs :: "(metric_ref \<times> string \<times> string) list" where
  "gauge_specs =
     [(Queue_size, ''messages_queue_size'', ''Current number of messages in processing queue''),
      (Active_executions, ''active_executions'', ''Number of currently executing messages''),
      (Uptime_seconds, ''uptime_seconds'', ''Node uptime in seconds''),
      (Members_total, ''cluster_members_total'', ''Total number of cluster members known to this node''),
      (Members_active, ''cluster_members_active'', ''Number of active cluster members''),
      (Members_suspect, ''cluster_members_suspect'', ''Number of suspected cluster members''),
      (Members_dead, ''cluster_members_dead'', ''Number of dead cluster members''),
      (Dag_catalog_size, ''dag_catalog_size'', ''Number of DAGs in the catalog'')]"

definition histogram_specs :: "(histogram_ref \<times> string \<times> string \<times> histogram_buckets_type) list" where
  "histogram_specs =
     [(Exec_duration, ''execution_duration_ms'', ''Histogram of message execution duration in milliseconds'',
         HISTOGRAM_BUCKETS_LATENCY_MS),
      (Queue_wait, ''message_queue_wait_ms'', ''Histogram of time messages spend in queue before processing'',
         HISTOGRAM_BUCKETS_LATENCY_MS),
      (Message_size, ''message_size_bytes'', ''Histogram of message sizes in bytes'', HISTOGRAM_BUCKETS_SIZE_BYTES),
      (Gossip_rtt, ''gossip_rtt_us'', ''Histogram of gossip PING/ACK round-trip time in microseconds'',
         HISTOGRAM_BUCKETS_LATENCY_US)]"

text \<open>A run of calls \<open>state->metric_x = metrics_get_or_create_...(...)\<close>.\<close>

fun create_metrics ::
  "(metric_ref \<Rightarrow> metrics_registry \<Rightarrow> string \<Rightarrow> string \<Rightarrow> nat option \<times> metrics_registry) \<Rightarrow>
   (metric_ref \<times> string \<times> string) list \<Rightarrow> (metric_ref \<Rightarrow> nat option) \<times> metrics_registry \<Rightarrow>
   (metric_ref \<Rightarrow> nat option) \<times> metrics_registry" where
  "create_metrics create [] st = st"
| "create_metrics create ((r, name, help_text) # specs) (handles, reg) =
     (case create r reg name help_text of (i, reg) \<Rightarrow> create_metrics create specs (handles(r := i), reg))"

fun create_histograms ::
  "metric_label list \<Rightarrow> (histogram_ref \<times> string \<times> string \<times> histogram_buckets_type) list \<Rightarrow>
   (histogram_ref \<Rightarrow> nat option) \<times> metrics_registry \<Rightarrow> c_error + (histogram_ref \<Rightarrow> nat option) \<times> metrics_registry" where
  "create_histograms labels [] st = Inr st"
| "create_histograms labels ((r, name, help_text, type) # specs) (handles, reg) =
     and_then (metrics_get_or_create_histogram reg name help_text type labels) (\<lambda>(i, reg).
       create_histograms labels specs (handles(r := i), reg))"

definition create_all ::
  "metrics_io \<Rightarrow> metric_label list \<Rightarrow> metrics_registry \<Rightarrow> node_metrics \<Rightarrow> c_error + node_metrics" where
  "create_all io labels reg nm =
     (let st = create_metrics (\<lambda>r reg name help_text.
                 metrics_get_or_create_counter (metric_lock_ok io r) reg name help_text labels) counter_specs (nm_metric nm, reg);
          st = create_metrics (\<lambda>r reg name help_text.
                 metrics_get_or_create_gauge (metric_lock_ok io r) reg name help_text labels) gauge_specs st
      in case st of (handles, reg) \<Rightarrow>
         and_then (create_histograms labels histogram_specs (nm_histogram nm, reg)) (\<lambda>(hs, reg).
           Inr (nm\<lparr>nm_registry := Some reg, nm_metric := handles, nm_histogram := hs\<rparr>)))"

definition node_metrics_init_ex ::
  "metrics_io \<Rightarrow> node_identity \<Rightarrow> node_capabilities \<Rightarrow> string option \<Rightarrow> dag_catalog \<Rightarrow> node_metrics \<Rightarrow>
   c_error + result_status \<times> dag_catalog \<times> node_metrics" where
  "node_metrics_init_ex io ident caps address catalog nm =
     (let off = nm\<lparr>nm_registry := None, nm_server := None\<rparr>
      in case address of
        None \<Rightarrow> Inr (RESULT_OK, catalog, off)
      | Some addr \<Rightarrow>
          if addr = [] then Inr (RESULT_OK, catalog, off)
          else case config_parse_address addr of (metrics_ip, metrics_port) \<Rightarrow>
            if metrics_port = 0 then Inr (RESULT_OK, catalog, off)
            else case metrics_registry_init (registry_calloc_ok io) (registry_lock_ok io) of
              None \<Rightarrow> Inr (RESULT_ERR_NOMEM, catalog, nm\<lparr>nm_registry := None\<rparr>)
            | Some reg \<Rightarrow>
                and_then (create_all io (standard_labels ident caps) reg nm) (\<lambda>nm.
                let server = metrics_server_start (server_calloc_ok io) (server_thread_ok io) metrics_ip metrics_port
                in Inr (if server = None then RESULT_ERR_NETWORK else RESULT_OK,
                     dag_catalog_set_change_callback catalog True, nm\<lparr>nm_server := server\<rparr>)))"

definition node_metrics_shutdown_ex :: "node_metrics \<Rightarrow> node_metrics" where
  "node_metrics_shutdown_ex nm = nm\<lparr>nm_server := None, nm_registry := None\<rparr>"

section \<open>Updates\<close>

text \<open>\<open>if (state->metric_x) metrics_gauge_set(state->metric_x, v)\<close>, and the same for the other operations.\<close>

definition on_metric :: "metric_ref \<Rightarrow> (metrics \<Rightarrow> metrics) \<Rightarrow> node_metrics \<Rightarrow> c_error + node_metrics" where
  "on_metric r f nm =
     (case nm_metric nm r of
        None \<Rightarrow> Inr nm
      | Some i \<Rightarrow>
          (case nm_registry nm of
             None \<Rightarrow> Inl Out_of_bounds
           | Some reg \<Rightarrow> Inr (nm\<lparr>nm_registry := Some (at_metric i f reg)\<rparr>)))"

definition on_histogram :: "histogram_ref \<Rightarrow> int \<Rightarrow> node_metrics \<Rightarrow> c_error + node_metrics" where
  "on_histogram r v nm =
     (case nm_histogram nm r of
        None \<Rightarrow> Inr nm
      | Some i \<Rightarrow>
          (case nm_registry nm of
             None \<Rightarrow> Inl Out_of_bounds
           | Some reg \<Rightarrow> Inr (nm\<lparr>nm_registry := Some (reg\<lparr>histograms :=
               (histograms reg)[i := metrics_histogram_observe v (histograms reg ! i)]\<rparr>)\<rparr>)))"

definition on_dag_catalog_changed :: "nat \<Rightarrow> node_metrics \<Rightarrow> c_error + node_metrics" where
  "on_dag_catalog_changed new_count nm = on_metric Dag_catalog_size (metrics_gauge_set (of_nat new_count)) nm"

definition count_status :: "node_status \<Rightarrow> cluster_view \<Rightarrow> nat" where
  "count_status st v = length (filter (\<lambda>m. m_status m = st) (members v))"

definition node_metrics_update_cluster_ex :: "cluster_view \<Rightarrow> node_metrics \<Rightarrow> c_error + node_metrics" where
  "node_metrics_update_cluster_ex v nm =
     and_then (on_metric Members_total (metrics_gauge_set (of_nat (length (members v)))) nm) (\<lambda>nm.
     and_then (on_metric Members_active (metrics_gauge_set (of_nat (count_status NODE_STATUS_ALIVE v))) nm) (\<lambda>nm.
     and_then (on_metric Members_suspect (metrics_gauge_set (of_nat (count_status NODE_STATUS_SUSPECT v))) nm) (\<lambda>nm.
     on_metric Members_dead (metrics_gauge_set (of_nat (count_status NODE_STATUS_DEAD v))) nm)))"

definition node_metrics_update_periodic_ex :: "u64 \<Rightarrow> u64 \<Rightarrow> node_state \<Rightarrow> node_metrics \<Rightarrow> c_error + node_metrics" where
  "node_metrics_update_periodic_ex now start_time s nm =
     (if nm_registry nm = None then Inr nm
      else
        and_then (on_metric Uptime_seconds (metrics_gauge_set (of_nat (unat ((now - start_time) div 1000)))) nm) (\<lambda>nm.
        and_then (on_metric Queue_size (metrics_gauge_set (of_nat (message_queue_size (ns_queue s)))) nm) (\<lambda>nm.
        and_then (on_metric Active_executions (metrics_gauge_set (of_nat (unat (active_executions s)))) nm) (\<lambda>nm.
        node_metrics_update_cluster_ex (ns_view s) nm))))"

section \<open>The registry of a node\<close>

definition ref_name :: "metric_ref \<Rightarrow> string" where
  "ref_name r = fst (the (map_of (counter_specs @ gauge_specs) r))"

lemma ref_names:
  "ref_name Messages_processed = ''messages_processed_total''"
  "ref_name Messages_failed = ''messages_failed_total''"
  "ref_name Messages_routed = ''messages_routed_total''"
  "ref_name Queue_size = ''messages_queue_size''"
  "ref_name Active_executions = ''active_executions''"
  "ref_name Uptime_seconds = ''uptime_seconds''"
  "ref_name Members_total = ''cluster_members_total''"
  "ref_name Members_active = ''cluster_members_active''"
  "ref_name Members_suspect = ''cluster_members_suspect''"
  "ref_name Members_dead = ''cluster_members_dead''"
  "ref_name Dag_catalog_size = ''dag_catalog_size''"
  by (simp_all add: ref_name_def counter_specs_def gauge_specs_def)

lemma ref_name_eq: "ref_name r = ref_name r' \<longleftrightarrow> r = r'"
  by (cases r; cases r') (simp_all add: ref_names)

definition metric_small :: "metrics \<Rightarrow> bool" where
  "metric_small m \<longleftrightarrow> length (mt_name m) < 128 \<and> length (mt_help m) < 256
     \<and> length (labels_text (mt_labels m)) < 300 \<and> \<bar>mt_value m\<bar> < 10 ^ 20"

definition histogram_small :: "histogram_metric \<Rightarrow> bool" where
  "histogram_small h \<longleftrightarrow> length (h_name h) < 128 \<and> length (h_help h) < 256 \<and> length (labels_text (h_labels h)) < 300
     \<and> length (upper_bounds h) \<le> 16 \<and> (\<forall>b n. b \<in> set (upper_bounds h) \<longrightarrow> b = Some n \<longrightarrow> n < 10 ^ 8)"

text \<open>At most \<open>k\<close> metrics and \<open>j\<close> histograms, none of them large.\<close>

definition small_registry :: "nat \<Rightarrow> nat \<Rightarrow> metrics_registry \<Rightarrow> bool" where
  "small_registry k j reg \<longleftrightarrow> length (metric_slots reg) = 256
     \<and> metric_count reg = length (filter mt_active (metric_slots reg)) \<and> metric_count reg \<le> k
     \<and> (\<forall>m \<in> set (metric_slots reg). mt_active m \<longrightarrow> metric_small m)
     \<and> length (histograms reg) \<le> j \<and> (\<forall>h \<in> set (histograms reg). histogram_small h)"

definition handles_ok :: "(metric_ref \<Rightarrow> nat option) \<Rightarrow> metrics_registry \<Rightarrow> bool" where
  "handles_ok hs reg \<longleftrightarrow> (\<forall>r n. hs r = Some n \<longrightarrow> n < 256 \<and> mt_active (metric_slots reg ! n)
     \<and> mt_name (metric_slots reg ! n) = ref_name r)"

lemma length_filter_update:
  "i < length xs \<Longrightarrow> \<not> P (xs ! i) \<Longrightarrow> length (filter P (xs[i := x])) = length (filter P xs) + (if P x then 1 else 0)"
  by (induction xs arbitrary: i) (auto split: nat.splits)

lemma length_filter_same:
  "i < length xs \<Longrightarrow> P x = P (xs ! i) \<Longrightarrow> length (filter P (xs[i := x])) = length (filter P xs)"
  by (induction xs arbitrary: i) (auto split: nat.splits)

lemma create_one:
  assumes "small_registry k j reg" and "k < 256" and "length labels \<le> 8"
    and "c_string name" and "length name < 128" and "length (labels_text (map copy_label labels)) < 300"
  shows "\<exists>n reg'. find_or_create_metric True reg name help_text type labels = (Some n, reg') \<and> small_registry (Suc k) j reg'
    \<and> n < 256 \<and> mt_active (metric_slots reg' ! n) \<and> mt_name (metric_slots reg' ! n) = name
    \<and> (\<forall>p < 256. mt_active (metric_slots reg ! p) \<longrightarrow> metric_slots reg' ! p = metric_slots reg ! p)"
proof (cases "slot_of mt_active metric_key (name, labels) (metric_slots reg)")
  case (Some n)
  from slot_of_SomeD [OF Some] Some assms show ?thesis
    by (auto simp: find_or_create_metric_def small_registry_def metric_limits)
next
  case None
  let ?m = "new_metric name help_text type labels"
  have free: "free_slot mt_active (metric_slots reg) \<noteq> None"
    using assms(1,2) by (simp only: free_slot_iff) (simp add: small_registry_def)
  then obtain n where n: "free_slot mt_active (metric_slots reg) = Some n" by blast
  from free_slot_SomeD [OF n] have at: "n < length (metric_slots reg)" "\<not> mt_active (metric_slots reg ! n)" by auto
  have "metric_small ?m" "mt_active ?m" "mt_name ?m = name"
    using assms(4-6) strcpy_to_length [of 256 help_text]
    by (simp_all add: metric_small_def new_metric_def metric_limits)
  then have "small_registry (Suc k) j (reg\<lparr>metric_slots := (metric_slots reg)[n := ?m], metric_count := Suc (metric_count reg)\<rparr>)"
    using assms(1) at by (auto simp: small_registry_def length_filter_update dest!: set_update_subset_insert [THEN subsetD])
  then show ?thesis
    using None n at assms(1-3) \<open>mt_active ?m\<close> \<open>mt_name ?m = name\<close>
    by (auto simp: find_or_create_metric_def small_registry_def metric_limits Let_def nth_list_update)
qed

lemma create_metrics_ok:
  assumes "length labels \<le> 8" and "length (labels_text (map copy_label labels)) < 300"
    and "\<And>r reg name help_text. create r reg name help_text = find_or_create_metric True reg name help_text type labels"
  shows "small_registry k j reg \<Longrightarrow> k + length specs \<le> 256 \<Longrightarrow> handles_ok hs reg \<Longrightarrow>
    \<forall>(r, name, h) \<in> set specs. name = ref_name r \<and> c_string name \<and> length name < 128 \<Longrightarrow>
    \<exists>hs' reg'. create_metrics create specs (hs, reg) = (hs', reg') \<and> small_registry (k + length specs) j reg'
      \<and> handles_ok hs' reg' \<and> (\<forall>r. hs r \<noteq> None \<or> r \<in> fst ` set specs \<longrightarrow> hs' r \<noteq> None)"
proof (induction specs arbitrary: hs reg k)
  case (Cons spec specs)
  obtain r name hp where spec: "spec = (r, name, hp)" by (rule prod_cases3)
  have name: "name = ref_name r" "c_string name" "length name < 128" using Cons.prems(4) by (auto simp: spec)
  obtain n reg1 where one: "find_or_create_metric True reg name hp type labels = (Some n, reg1)"
      "small_registry (Suc k) j reg1" "n < 256" "mt_active (metric_slots reg1 ! n)" "mt_name (metric_slots reg1 ! n) = name"
      "\<forall>p < 256. mt_active (metric_slots reg ! p) \<longrightarrow> metric_slots reg1 ! p = metric_slots reg ! p"
    using create_one [OF Cons.prems(1) _ assms(1) name(2,3) assms(2), of hp type] Cons.prems(2) by auto
  have "handles_ok (hs(r := Some n)) reg1"
    using Cons.prems(3) one(3-6) name(1) by (auto simp: handles_ok_def)
  moreover have "Suc k + length specs \<le> 256"
    "\<forall>(r, name, h) \<in> set specs. name = ref_name r \<and> c_string name \<and> length name < 128"
    using Cons.prems(2,4) by simp_all
  ultimately obtain hs' reg' where
    "create_metrics create specs (hs(r := Some n), reg1) = (hs', reg')" "small_registry (Suc k + length specs) j reg'"
    "handles_ok hs' reg'" "\<forall>q. (hs(r := Some n)) q \<noteq> None \<or> q \<in> fst ` set specs \<longrightarrow> hs' q \<noteq> None"
    using Cons.IH [OF one(2)] by blast
  then show ?case using one(1) by (intro exI [of _ hs'] exI [of _ reg']) (auto simp: spec assms(3) [of r reg name hp])
qed simp

lemma no_label_overrun: "j + length ls \<le> 8 \<Longrightarrow> \<exists>b. hist_labels_match stored j ls = Inr b"
  by (induction ls arbitrary: j) (auto simp: metric_limits)

lemma find_histogram_total: "length labels \<le> 8 \<Longrightarrow> \<exists>r. find_histogram name labels i hs = Inr r"
proof (induction hs arbitrary: i)
  case (Cons h hs)
  then show ?case using no_label_overrun [of 0 labels "h_labels h"] by auto
qed simp

lemma create_histogram_one:
  assumes "small_registry k j reg" and "j < 256" and "length labels \<le> 8" and "length (labels_text labels) < 300"
  shows "\<exists>i reg'. metrics_get_or_create_histogram reg name help_text type labels = Inr (i, reg')
    \<and> small_registry k (Suc j) reg' \<and> metric_slots reg' = metric_slots reg"
proof -
  obtain found where found: "find_histogram name labels 0 (histograms reg) = Inr found"
    using find_histogram_total [OF assms(3)] by blast
  have "histogram_small (new_histogram name help_text type labels)"
    using assms(4) strcpy_to_length [of 128 name] strcpy_to_length [of 256 help_text]
    by (cases type) (auto simp: histogram_small_def new_histogram_def metric_limits)
  then show ?thesis
    using assms(1-3) found
    by (cases found) (auto simp: metrics_get_or_create_histogram_def small_registry_def metric_limits)
qed

lemma create_histograms_ok:
  assumes "length labels \<le> 8" and "length (labels_text labels) < 300"
  shows "small_registry k j reg \<Longrightarrow> j + length specs \<le> 256 \<Longrightarrow>
    \<exists>hs' reg'. create_histograms labels specs (hs, reg) = Inr (hs', reg') \<and> small_registry k (j + length specs) reg'
      \<and> metric_slots reg' = metric_slots reg"
proof (induction specs arbitrary: hs reg j)
  case (Cons spec specs)
  obtain r name hp type where spec: "spec = (r, name, hp, type)" by (rule prod_cases4)
  obtain i reg1 where one: "metrics_get_or_create_histogram reg name hp type labels = Inr (i, reg1)"
      "small_registry k (Suc j) reg1" "metric_slots reg1 = metric_slots reg"
    using create_histogram_one [OF Cons.prems(1) _ assms] Cons.prems(2) by fastforce
  have "Suc j + length specs \<le> 256" using Cons.prems(2) by simp
  from Cons.IH [OF one(2) this, of "hs(r := i)"] obtain hs' reg' where
    "create_histograms labels specs (hs(r := i), reg1) = Inr (hs', reg')"
    "small_registry k (Suc j + length specs) reg'" "metric_slots reg' = metric_slots reg1" by blast
  with one show ?case by (intro exI [of _ hs'] exI [of _ reg']) (simp add: spec)
qed simp

text \<open>The labels of a node: its cluster name is at most 63 characters in the structure, and never more
  than 127 here, so the three labels always fit the 512 bytes of a histogram.\<close>

lemma standard_labels_small:
  "length (standard_labels ident caps) \<le> 8" "length (labels_text (standard_labels ident caps)) < 300"
  "map copy_label (standard_labels ident caps) = standard_labels ident caps"
proof -
  have "length (utoa (unat (id_node_id ident))) \<le> 5"
    using unsigned_less [of "id_node_id ident", where ?'a = nat] by (intro utoa_length) auto
  then have u: "strcpy_to 128 (take 31 (utoa (unat (id_node_id ident)))) = utoa (unat (id_node_id ident))"
    "length (utoa (unat (id_node_id ident))) \<le> 5"
    using c_string_utoa by simp_all
  note n = strcpy_to_length [of 128 "id_cluster_name ident"]
  show "length (standard_labels ident caps) \<le> 8" by (simp add: standard_labels_def)
  show "length (labels_text (standard_labels ident caps)) < 300"
    using n u by (simp add: standard_labels_def labels_text_def label_text_def metric_limits)
  have "list_all label_ok (standard_labels ident caps)"
    using n u c_string_utoa strcpy_to_c_string [of "id_cluster_name ident" 128]
    by (simp add: standard_labels_def label_ok_def metric_limits c_string_def)
  then show "map copy_label (standard_labels ident caps) = standard_labels ident caps" by (rule copy_labels)
qed

section \<open>After initialisation\<close>

definition node_metrics_ok :: "node_metrics \<Rightarrow> bool" where
  "node_metrics_ok nm \<longleftrightarrow> (\<exists>reg. nm_registry nm = Some reg \<and> small_registry 11 4 reg \<and> handles_ok (nm_metric nm) reg)
     \<and> (\<forall>r. nm_metric nm r \<noteq> None)"

lemma refs_created: "r \<in> fst ` set counter_specs \<or> r \<in> fst ` set gauge_specs"
  by (cases r) (simp_all add: counter_specs_def gauge_specs_def)

lemma specs_named:
  "\<forall>(r, name, h) \<in> set counter_specs. name = ref_name r \<and> c_string name \<and> length name < 128"
  "\<forall>(r, name, h) \<in> set gauge_specs. name = ref_name r \<and> c_string name \<and> length name < 128"
  by (simp_all add: counter_specs_def gauge_specs_def ref_name_def c_string_def)

lemma create_all_ok:
  assumes "\<forall>r. metric_lock_ok io r" and "nm_metric nm = (\<lambda>_. None)"
  shows "\<exists>nm'. create_all io (standard_labels ident caps) empty_registry nm = Inr nm' \<and> node_metrics_ok nm'"
proof -
  let ?l = "standard_labels ident caps"
  note small = standard_labels_small [of ident caps]
  have lt: "length (labels_text (map copy_label ?l)) < 300" by (simp add: small)
  let ?counter = "\<lambda>r reg name help_text. metrics_get_or_create_counter (metric_lock_ok io r) reg name help_text ?l"
  let ?gauge = "\<lambda>r reg name help_text. metrics_get_or_create_gauge (metric_lock_ok io r) reg name help_text ?l"
  have c: "?counter r reg name h = find_or_create_metric True reg name h METRIC_TYPE_COUNTER ?l"
    and g: "?gauge r reg name h = find_or_create_metric True reg name h METRIC_TYPE_GAUGE ?l" for r reg name h
    using assms(1) by (simp_all add: metrics_get_or_create_counter_def metrics_get_or_create_gauge_def)
  have len: "0 + length counter_specs = 3" "3 + length gauge_specs = 11" "0 + length histogram_specs = 4"
    by (simp_all add: counter_specs_def gauge_specs_def histogram_specs_def)
  have "small_registry 0 0 empty_registry" "handles_ok (nm_metric nm) empty_registry"
    by (simp_all add: small_registry_def empty_registry_def empty_metric_def metric_limits handles_ok_def assms(2))
  from create_metrics_ok [where create = ?counter, OF small(1) lt c this(1) _ this(2) specs_named(1)] obtain h1 r1 where s1:
    "create_metrics ?counter counter_specs (nm_metric nm, empty_registry) = (h1, r1)"
    "small_registry 3 0 r1" "handles_ok h1 r1" "\<forall>r. nm_metric nm r \<noteq> None \<or> r \<in> fst ` set counter_specs \<longrightarrow> h1 r \<noteq> None"
    unfolding len by auto
  from create_metrics_ok [where create = ?gauge, OF small(1) lt g s1(2) _ s1(3) specs_named(2)] obtain h2 r2 where s2:
    "create_metrics ?gauge gauge_specs (h1, r1) = (h2, r2)"
    "small_registry 11 0 r2" "handles_ok h2 r2" "\<forall>r. h1 r \<noteq> None \<or> r \<in> fst ` set gauge_specs \<longrightarrow> h2 r \<noteq> None"
    unfolding len by auto
  from create_histograms_ok [OF small(1,2) s2(2), of histogram_specs "nm_histogram nm"] obtain hs r3 where s3:
    "create_histograms ?l histogram_specs (nm_histogram nm, r2) = Inr (hs, r3)"
    "small_registry 11 4 r3" "metric_slots r3 = metric_slots r2" unfolding len by auto
  have "h2 r \<noteq> None" for r
    using refs_created [of r] s1(4) [rule_format, of r] s2(4) [rule_format, of r] by argo
  moreover have "handles_ok h2 r3" using s2(3) s3(3) by (simp add: handles_ok_def)
  ultimately show ?thesis
    unfolding create_all_def Let_def s1(1) s2(1) using s3(1,2) by (simp add: node_metrics_ok_def)
qed

definition fresh_node_metrics :: node_metrics where
  "fresh_node_metrics = \<lparr>nm_registry = None, nm_server = None, nm_metric = (\<lambda>_. None), nm_histogram = (\<lambda>_. None)\<rparr>"

definition io_ok :: "metrics_io \<Rightarrow> bool" where
  "io_ok io \<longleftrightarrow> registry_calloc_ok io \<and> registry_lock_ok io \<and> (\<forall>r. metric_lock_ok io r)"

text \<open>With memory and mutexes, a node with a metrics port has all its metrics, whether or not the server starts.\<close>

lemma metrics_init_ok:
  assumes "io_ok io" and "addr \<noteq> []" and "snd (config_parse_address addr) \<noteq> 0"
  shows "\<exists>r nm. node_metrics_init_ex io ident caps (Some addr) catalog fresh_node_metrics =
      Inr (r, dag_catalog_set_change_callback catalog True, nm) \<and> r \<in> {RESULT_OK, RESULT_ERR_NETWORK} \<and> node_metrics_ok nm"
proof -
  obtain nm where nm: "create_all io (standard_labels ident caps) empty_registry fresh_node_metrics = Inr nm" "node_metrics_ok nm"
    using create_all_ok [of io fresh_node_metrics ident caps] assms(1) by (auto simp: io_ok_def fresh_node_metrics_def)
  then have "node_metrics_ok (nm\<lparr>nm_server := sv\<rparr>)" for sv by (simp add: node_metrics_ok_def)
  with nm(1) assms show ?thesis
    by (auto simp: node_metrics_init_ex_def io_ok_def empty_registry_facts(1) Let_def split: prod.split)
qed

definition metric_value :: "node_metrics \<Rightarrow> metric_ref \<Rightarrow> rat option" where
  "metric_value nm r =
     (case (nm_metric nm r, nm_registry nm) of
        (Some i, Some reg) \<Rightarrow> Some (mt_value (metric_slots reg ! i))
      | _ \<Rightarrow> None)"

definition value_only :: "(metrics \<Rightarrow> metrics) \<Rightarrow> bool" where
  "value_only f \<longleftrightarrow> (\<forall>m. f m = m\<lparr>mt_value := mt_value (f m)\<rparr>)"

lemma value_only_ops [simp]:
  "value_only (metrics_gauge_set v)" "value_only (metrics_counter_inc rnd)" "value_only (metrics_counter_add rnd v)"
  by (simp_all add: value_only_def metrics_gauge_set_def metrics_counter_inc_def metrics_counter_add_def)

text \<open>An operation on one metric changes the value of that metric and of no other.\<close>

lemma on_metric_ok:
  assumes "node_metrics_ok nm" and "value_only f"
  shows "\<exists>nm'. on_metric r f nm = Inr nm' \<and> (\<forall>q. metric_value nm' q = (if q = r
      then map_option (\<lambda>i. mt_value (f (metric_slots (the (nm_registry nm)) ! i))) (nm_metric nm r) else metric_value nm q))
    \<and> (\<bar>the (metric_value nm' r)\<bar> < 10 ^ 20 \<longrightarrow> node_metrics_ok nm')"
proof -
  obtain reg where reg: "nm_registry nm = Some reg" "small_registry 11 4 reg" "handles_ok (nm_metric nm) reg"
    and all: "\<forall>r. nm_metric nm r \<noteq> None"
    using assms(1) by (auto simp: node_metrics_ok_def)
  obtain i where i: "nm_metric nm r = Some i" using all by blast
  let ?m = "metric_slots reg ! i" and ?reg = "at_metric i f reg"
  have at: "i < 256" "mt_active ?m" "mt_name ?m = ref_name r" using reg(3) i by (auto simp: handles_ok_def)
  have len: "length (metric_slots reg) = 256" using reg(2) by (simp add: small_registry_def)
  have fm: "f ?m = ?m\<lparr>mt_value := mt_value (f ?m)\<rparr>" using assms(2) unfolding value_only_def by blast
  have "mt_active (f ?m) = mt_active ?m" "mt_name (f ?m) = mt_name ?m" "mt_help (f ?m) = mt_help ?m"
    "mt_labels (f ?m) = mt_labels ?m"
    by (subst fm, simp)+
  then have keeps: "mt_active (f ?m)" "mt_name (f ?m) = ref_name r" "mt_help (f ?m) = mt_help ?m" "mt_labels (f ?m) = mt_labels ?m"
    using at by simp_all
  have other: "j \<noteq> i" if "nm_metric nm q = Some j" "q \<noteq> r" for q j
    using that reg(3) [unfolded handles_ok_def, rule_format, of q j] at(3) ref_name_eq [of q r] by auto
  have handles: "handles_ok (nm_metric nm) ?reg"
    using reg(3) at keeps len other i by (auto simp: handles_ok_def at_metric_def nth_list_update)
  have val: "metric_value (nm\<lparr>nm_registry := Some ?reg\<rparr>) q = (if q = r then Some (mt_value (f ?m)) else metric_value nm q)" for q
    using all i at(1) len reg(1) other [of q] by (auto simp: metric_value_def at_metric_def split: option.split)
  have "length (filter mt_active (metric_slots ?reg)) = length (filter mt_active (metric_slots reg))"
    using at keeps(1) len by (simp add: at_metric_def length_filter_same)
  moreover have "metric_small ?m" using reg(2) at len by (auto simp: small_registry_def)
  then have "\<bar>mt_value (f ?m)\<bar> < 10 ^ 20 \<longrightarrow> metric_small (f ?m)" using at(3) keeps by (simp add: metric_small_def)
  ultimately have "\<bar>mt_value (f ?m)\<bar> < 10 ^ 20 \<longrightarrow> small_registry 11 4 ?reg"
    using reg(2) by (auto simp: small_registry_def at_metric_def simp del: power_numeral
        dest!: set_update_subset_insert [THEN subsetD])
  then show ?thesis
    using i reg(1) val handles all
    by (auto simp: on_metric_def node_metrics_ok_def)
qed

lemma metric_defined: "node_metrics_ok nm \<Longrightarrow> metric_value nm r \<noteq> None"
  by (auto simp: node_metrics_ok_def metric_value_def split: option.split)

lemma set_gauge_ok:
  assumes "node_metrics_ok nm" and "\<bar>v\<bar> < 10 ^ 20"
  shows "\<exists>nm'. on_metric r (metrics_gauge_set v) nm = Inr nm' \<and> node_metrics_ok nm'
    \<and> metric_value nm' = (metric_value nm)(r := Some v)"
proof -
  obtain nm' where nm': "on_metric r (metrics_gauge_set v) nm = Inr nm'"
    "\<forall>q. metric_value nm' q = (if q = r then map_option (\<lambda>i. mt_value (metrics_gauge_set v
       (metric_slots (the (nm_registry nm)) ! i))) (nm_metric nm r) else metric_value nm q)"
    "\<bar>the (metric_value nm' r)\<bar> < 10 ^ 20 \<longrightarrow> node_metrics_ok nm'"
    using on_metric_ok [OF assms(1) value_only_ops(1) [of v], of r] by blast
  have "nm_metric nm r \<noteq> None" using assms(1) by (simp add: node_metrics_ok_def)
  then have "metric_value nm' = (metric_value nm)(r := Some v)"
    using nm'(2) by (auto simp: metrics_gauge_set_def)
  with nm'(1,3) assms(2) show ?thesis by simp
qed

text \<open>A run of gauge updates, as the two update functions make one.\<close>

fun set_gauges :: "(metric_ref \<times> rat) list \<Rightarrow> node_metrics \<Rightarrow> c_error + node_metrics" where
  "set_gauges [] nm = Inr nm"
| "set_gauges ((r, v) # vs) nm = and_then (on_metric r (metrics_gauge_set v) nm) (set_gauges vs)"

lemma set_gauges_ok:
  "node_metrics_ok nm \<Longrightarrow> list_all (\<lambda>(r, v). \<bar>v\<bar> < 10 ^ 20) vs \<Longrightarrow>
   \<exists>nm'. set_gauges vs nm = Inr nm' \<and> node_metrics_ok nm'
     \<and> metric_value nm' = foldl (\<lambda>f (r, v). f(r := Some v)) (metric_value nm) vs"
proof (induction vs arbitrary: nm)
  case (Cons rv vs)
  obtain r v where rv: "rv = (r, v)" by (cases rv)
  with Cons.prems(2) have "\<bar>v\<bar> < 10 ^ 20" "list_all (\<lambda>(r, v). \<bar>v\<bar> < 10 ^ 20) vs"
    by (simp_all only: list.pred_inject prod.case)
  then obtain nm1 nm' where "on_metric r (metrics_gauge_set v) nm = Inr nm1" "metric_value nm1 = (metric_value nm)(r := Some v)"
    "set_gauges vs nm1 = Inr nm'" "node_metrics_ok nm'"
    "metric_value nm' = foldl (\<lambda>f (r, v). f(r := Some v)) (metric_value nm1) vs"
    using set_gauge_ok [OF Cons.prems(1), of v r] Cons.IH by blast
  then show ?case by (intro exI [of _ nm']) (simp add: rv del: fun_upd_apply)
qed simp

definition node_gauges :: "u64 \<Rightarrow> u64 \<Rightarrow> node_state \<Rightarrow> (metric_ref \<times> rat) list" where
  "node_gauges now start_time s =
     [(Uptime_seconds, of_nat (unat (now - start_time) div 1000)),
      (Queue_size, of_nat (message_queue_size (ns_queue s))),
      (Active_executions, of_nat (unat (active_executions s))),
      (Members_total, of_nat (length (members (ns_view s)))),
      (Members_active, of_nat (count_status NODE_STATUS_ALIVE (ns_view s))),
      (Members_suspect, of_nat (count_status NODE_STATUS_SUSPECT (ns_view s))),
      (Members_dead, of_nat (count_status NODE_STATUS_DEAD (ns_view s)))]"

lemma and_then_Inr: "and_then x Inr = x"
  by (cases x) simp_all

lemma periodic_eq:
  "node_metrics_update_periodic_ex now start_time s nm =
    (if nm_registry nm = None then Inr nm else set_gauges (node_gauges now start_time s) nm)"
proof -
  have "unat ((now - start_time) div 1000) = unat (now - start_time) div 1000" by (simp add: unat_div)
  then show ?thesis
    unfolding node_metrics_update_periodic_ex_def node_metrics_update_cluster_ex_def node_gauges_def set_gauges.simps
      and_then_Inr by (rule ssubst) (rule refl)
qed

lemma small_count: "n < 10 ^ 20 \<Longrightarrow> \<bar>of_nat n :: rat\<bar> < 10 ^ 20"
  by (metis abs_of_nat of_nat_less_iff of_nat_numeral of_nat_power)

lemma node_gauges_small:
  assumes "length (members (ns_view s)) < 10 ^ 20" and "message_queue_size (ns_queue s) < 10 ^ 20"
  shows "list_all (\<lambda>(r, v). \<bar>v\<bar> < 10 ^ 20) (node_gauges now start_time s)"
proof -
  have "unat (now - start_time) div 1000 < 10 ^ 20"
    using unsigned_less [of "now - start_time", where ?'a = nat] by simp
  moreover have "unat (active_executions s) < 10 ^ 20"
    using unsigned_less [of "active_executions s", where ?'a = nat] by simp
  moreover have "count_status st (ns_view s) < 10 ^ 20" for st
    using assms(1) length_filter_le [of "\<lambda>m. m_status m = st" "members (ns_view s)"]
    unfolding count_status_def by (rule le_less_trans [rotated])
  ultimately show ?thesis
    using assms by (simp only: node_gauges_def list.pred_inject prod.case small_count simp_thms)
qed

section \<open>What a node reports\<close>


definition memory_available :: metrics_io where
  "memory_available = \<lparr>registry_calloc_ok = True, registry_lock_ok = True, metric_lock_ok = (\<lambda>_. True),
     server_calloc_ok = True, server_thread_ok = True\<rparr>"

abbreviation sample_metrics_addr :: string where
  "sample_metrics_addr \<equiv> ''127.0.0.1'' @ CHR '':'' # utoa 7002"

lemma sample_address: "sample_metrics_addr \<noteq> []" "snd (config_parse_address sample_metrics_addr) \<noteq> 0"
  by (simp, subst parse_printed_address) (simp_all add: c_string_def)


section \<open>Scrapes and shutdown\<close>

text \<open>The updates executors and the periodic task make, with values of at most twenty digits.\<close>

inductive metric_updates :: "node_metrics \<Rightarrow> node_metrics \<Rightarrow> bool" for nm where
  none: "metric_updates nm nm"
| gauge: "metric_updates nm nm1 \<Longrightarrow> on_metric r (metrics_gauge_set v) nm1 = Inr nm2 \<Longrightarrow> \<bar>v\<bar> < 10 ^ 20 \<Longrightarrow> metric_updates nm nm2"
| counter: "metric_updates nm nm1 \<Longrightarrow> on_metric r (metrics_counter_inc rnd) nm1 = Inr nm2 \<Longrightarrow>
    \<bar>the (metric_value nm2 r)\<bar> < 10 ^ 20 \<Longrightarrow> metric_updates nm nm2"
| observe: "metric_updates nm nm1 \<Longrightarrow> on_histogram h n nm1 = Inr nm2 \<Longrightarrow> metric_updates nm nm2"

lemma set_update: "x \<in> set (xs[i := y]) \<Longrightarrow> (i < length xs \<Longrightarrow> P y) \<Longrightarrow> (\<And>z. z \<in> set xs \<Longrightarrow> P z) \<Longrightarrow> P x"
  by (cases "i < length xs") (auto dest!: set_update_subset_insert [THEN subsetD] simp: list_update_beyond)

lemma on_histogram_ok:
  assumes "node_metrics_ok nm" and "on_histogram r v nm = Inr nm'"
  shows "node_metrics_ok nm'"
proof -
  obtain reg where reg: "nm_registry nm = Some reg" "small_registry 11 4 reg" "handles_ok (nm_metric nm) reg"
    using assms(1) by (auto simp: node_metrics_ok_def)
  have keeps: "histogram_small (metrics_histogram_observe v h) = histogram_small h" for h
    by (simp add: histogram_small_def metrics_histogram_observe_def Let_def split: option.split)
  let ?reg = "\<lambda>i. reg\<lparr>histograms := (histograms reg)[i := metrics_histogram_observe v (histograms reg ! i)]\<rparr>"
  have "small_registry 11 4 (?reg i)" for i
    using reg(2) by (auto simp: small_registry_def keeps elim!: set_update)
  moreover have "handles_ok (nm_metric nm) (?reg i)" for i using reg(3) by (simp add: handles_ok_def)
  ultimately show ?thesis
    using assms reg(1) by (auto simp: on_histogram_def node_metrics_ok_def split: option.splits)
qed

lemma metric_updates_ok: "metric_updates nm nm' \<Longrightarrow> node_metrics_ok nm \<Longrightarrow> node_metrics_ok nm'"
proof (induction rule: metric_updates.induct)
  case (gauge nm1 r v nm2)
  then show ?case using set_gauge_ok [of nm1 v r] by auto
next
  case (counter nm1 r rnd nm2)
  then show ?case using on_metric_ok [OF _ value_only_ops(2) [of rnd], of nm1 r] by auto
next
  case (observe nm1 h n nm2)
  then show ?case using on_histogram_ok by blast
qed simp

lemma print_value_length:
  assumes "\<bar>v\<bar> < 10 ^ 20"
  shows "length (print_value v) \<le> 22"
proof -
  have "round_half_even \<bar>v\<bar> \<le> \<lfloor>\<bar>v\<bar>\<rfloor> + 1" by (simp add: round_half_even_def Let_def)
  moreover have "\<lfloor>\<bar>v\<bar>\<rfloor> < 10 ^ 20" using assms unfolding floor_less_iff by simp
  moreover have "a < 10 ^ 21" if "a \<le> b + 1" "b < 10 ^ 20" for a b :: int using that by simp
  ultimately have "round_half_even \<bar>v\<bar> < 10 ^ 21" by blast
  then have "nat (round_half_even \<bar>v\<bar>) < nat (10 ^ 21)" by (rule nat_mono_iff [THEN iffD2, rotated]) simp
  then have "nat (round_half_even \<bar>v\<bar>) < 10 ^ 21" by simp
  then have "length (utoa (nat (round_half_even \<bar>v\<bar>))) \<le> 21" by (intro utoa_length) simp_all
  then show ?thesis unfolding print_value_def by (cases "v < 0") simp_all
qed

lemma metric_text_length: "metric_small m \<Longrightarrow> length (metric_text m) \<le> 1000"
  using print_value_length [of "mt_value m"]
  by (simp add: metric_small_def metric_text_def metric_pieces_def type_text_def labels_text_def comp_def)

lemma utoa_word_length: "length (utoa (unat (x :: u64))) \<le> 20"
  using unsigned_less [of x, where ?'a = nat] by (intro utoa_length) auto

lemma length_concat_le: "(\<And>x. x \<in> set xs \<Longrightarrow> length (f x) \<le> b) \<Longrightarrow> length (concat (map f xs)) \<le> length xs * b"
  by (induction xs) (auto simp: add_mono)

lemma bound_text_length: "(\<And>n. b = Some n \<Longrightarrow> n < 10 ^ 8) \<Longrightarrow> length (bound_text b) \<le> 11"
  using utoa_length [of _ 8] by (cases b) (fastforce simp: bound_text_def)+

lemma histogram_text_length:
  assumes "histogram_small h"
  shows "length (histogram_text h) \<le> 9100"
proof -
  let ?l = "labels_text (h_labels h)"
  have small: "length (h_name h) < 128" "length (h_help h) < 256" "length ?l < 300" "length (upper_bounds h) \<le> 16"
    "\<And>b n. b \<in> set (upper_bounds h) \<Longrightarrow> b = Some n \<Longrightarrow> n < 10 ^ 8"
    using assms by (auto simp: histogram_small_def)
  have "length (concat (bucket_pieces h ?l b)) \<le> 475" if "b \<in> set (zip (upper_bounds h) (bucket_counts h))" for b
  proof -
    have "fst b \<in> set (upper_bounds h)" using that set_zip_leftD by (metis prod.collapse)
    then have "length (bound_text (fst b)) \<le> 11" using small(5) by (intro bound_text_length) auto
    with small(1,3) utoa_word_length [of "snd b"] show ?thesis
      by (cases "h_labels h = []") (simp_all add: bucket_pieces_def)
  qed
  from length_concat_le [of _ "\<lambda>b. concat (bucket_pieces h ?l b)", OF this]
  have "length (concat (map (\<lambda>b. concat (bucket_pieces h ?l b)) (zip (upper_bounds h) (bucket_counts h)))) \<le> 16 * 475"
    using small(4) by fastforce
  then show ?thesis
    using small(1-3) utoa_word_length [of "h_sum h"] utoa_word_length [of "h_count h"]
    by (simp add: histogram_text_def histogram_head_def histogram_tail_def)
qed

lemma small_exposition:
  assumes "small_registry 11 4 reg"
  shows "length (exposition reg) + 2048 < 65536"
proof -
  let ?ms = "filter mt_active (metric_slots reg)" and ?hs = "filter h_active (histograms reg)"
  have "length (concat (map metric_text ?ms)) \<le> length ?ms * 1000"
    using assms metric_text_length by (intro length_concat_le) (auto simp: small_registry_def)
  moreover have "length (concat (map histogram_text ?hs)) \<le> length ?hs * 9100"
    using assms histogram_text_length by (intro length_concat_le) (auto simp: small_registry_def)
  moreover have "length ?ms \<le> 11" using assms by (simp add: small_registry_def)
  moreover have "length ?hs \<le> 4"
    using assms length_filter_le [of h_active "histograms reg"] unfolding small_registry_def by linarith
  ultimately show ?thesis by (simp add: exposition_def)
qed

text \<open>C32: A scrape of a node is never cut off: whatever the updates since the start, as long as no
  value passes twenty digits, the fifteen metrics with the node's labels fit the 64 KB of the
  renderer, and it writes the whole exposition.\<close>

theorem node_scrape_complete:
  assumes "node_metrics_init_ex io ident caps (Some addr) catalog fresh_node_metrics = Inr (r, catalog', nm)"
    and "io_ok io" and "addr \<noteq> []" and "snd (config_parse_address addr) \<noteq> 0" and "metric_updates nm nm'"
  shows "\<exists>reg. nm_registry nm' = Some reg
    \<and> metrics_registry_render_prometheus True reg = Inr (Some (exposition reg))"
proof -
  have "node_metrics_ok nm" using metrics_init_ok [OF assms(2-4), of ident caps catalog] assms(1) by auto
  then obtain reg where reg: "nm_registry nm' = Some reg" "small_registry 11 4 reg"
    using metric_updates_ok [OF assms(5)] by (auto simp: node_metrics_ok_def)
  have "\<forall>h \<in> set (histograms reg). length (labels_text (h_labels h)) < 512"
    using reg(2) by (auto simp: small_registry_def histogram_small_def)
  with small_exposition [OF reg(2)] reg(1) show ?thesis by (simp add: render_full)
qed

lemma sample_metrics:
  obtains r nm where "node_metrics_init_ex memory_available (ns_identity sample_node) (ns_caps sample_node)
      (Some sample_metrics_addr) (ns_catalog sample_node) fresh_node_metrics =
      Inr (r, dag_catalog_set_change_callback (ns_catalog sample_node) True, nm)" "node_metrics_ok nm" "io_ok memory_available"
proof -
  have "io_ok memory_available" by (simp add: io_ok_def memory_available_def)
  with metrics_init_ok [OF this sample_address] that show thesis by fastforce
qed

theorem node_scrape_complete_witness:
  "\<exists>r catalog nm nm' reg. node_metrics_init_ex memory_available (ns_identity sample_node) (ns_caps sample_node)
      (Some sample_metrics_addr) (ns_catalog sample_node) fresh_node_metrics = Inr (r, catalog, nm)
    \<and> on_histogram Queue_wait 12 nm = Inr nm' \<and> nm_registry nm' = Some reg
    \<and> metrics_registry_render_prometheus True reg = Inr (Some (exposition reg))"
proof -
  obtain r nm where nm: "node_metrics_init_ex memory_available (ns_identity sample_node) (ns_caps sample_node)
      (Some sample_metrics_addr) (ns_catalog sample_node) fresh_node_metrics =
      Inr (r, dag_catalog_set_change_callback (ns_catalog sample_node) True, nm)" "node_metrics_ok nm" "io_ok memory_available"
    by (rule sample_metrics)
  then obtain nm' where nm': "on_histogram Queue_wait 12 nm = Inr nm'"
    by (cases "nm_histogram nm Queue_wait") (auto simp: node_metrics_ok_def on_histogram_def)
  have "metric_updates nm nm'" using nm' by (blast intro: metric_updates.intros)
  from node_scrape_complete [OF nm(1,3) sample_address this] nm(1) nm' show ?thesis by blast
qed

text \<open>What shutting the metrics down leaves behind: the registry is freed and the pointers into it
  stay set, as does the callback in the catalog, so the next change of the catalog, and the next
  message an executor counts, write to freed memory.\<close>

theorem metrics_shutdown_dangles:
  assumes "node_metrics_init_ex io ident caps (Some addr) catalog fresh_node_metrics = Inr (r, catalog', nm)"
    and "io_ok io" and "addr \<noteq> []" and "snd (config_parse_address addr) \<noteq> 0"
  shows "change_callback catalog'
    \<and> on_dag_catalog_changed n (node_metrics_shutdown_ex nm) = Inl Out_of_bounds
    \<and> on_metric Messages_processed (metrics_counter_inc rnd) (node_metrics_shutdown_ex nm) = Inl Out_of_bounds"
proof -
  have "node_metrics_ok nm" "catalog' = dag_catalog_set_change_callback catalog True"
    using metrics_init_ok [OF assms(2-4), of ident caps catalog] assms(1) by auto
  then show ?thesis
    by (auto simp: node_metrics_ok_def on_dag_catalog_changed_def on_metric_def node_metrics_shutdown_ex_def
        dag_catalog_set_change_callback_def split: option.split)
qed

theorem metrics_shutdown_dangles_witness:
  "\<exists>r catalog nm. node_metrics_init_ex memory_available (ns_identity sample_node) (ns_caps sample_node)
      (Some sample_metrics_addr) (ns_catalog sample_node) fresh_node_metrics = Inr (r, catalog, nm)
    \<and> on_dag_catalog_changed 2 (node_metrics_shutdown_ex nm) = Inl Out_of_bounds"
proof -
  obtain r nm where nm: "node_metrics_init_ex memory_available (ns_identity sample_node) (ns_caps sample_node)
      (Some sample_metrics_addr) (ns_catalog sample_node) fresh_node_metrics =
      Inr (r, dag_catalog_set_change_callback (ns_catalog sample_node) True, nm)" "io_ok memory_available"
    by (rule sample_metrics)
  from metrics_shutdown_dangles [OF this sample_address] nm(1) show ?thesis by blast
qed

end
