(* ===== verification/Executor_Loop.thy ===== *)
theory Executor_Loop
  imports Node_Metrics Threads
begin

text \<open>
  The executors of src/node/node_executor.c around the turn of \<open>Node_Executor\<close>: the metrics a turn
  updates through the handles of the node state, the loop of \<open>node_executor_thread_fn\<close>, and the
  threads that \<open>node_start_executors_ex\<close> starts and \<open>node_stop_executors_ex\<close> joins. The number the
  latter relies on, \<open>num_executor_threads\<close>, is written by no code under src/: it is a parameter of
  the state. \<open>rnd\<close> is the rounding of a double.
\<close>

section \<open>The loop\<close>

record executor_input =
  xi_shutdown :: bool
  xi_now :: u64
  xi_output_ok :: bool
  xi_send_ok :: bool
  xi_duration_ms :: u64

text \<open>\<open>metrics_histogram_observe\<close> takes an \<open>int\<close>: the 64-bit times and lengths are narrowed to it.\<close>

definition c_int :: "u64 \<Rightarrow> int" where
  "c_int v = sint (ucast v :: u32)"

text \<open>What a turn reports of a message it has taken from the queue; \<open>s\<close> is the state before.\<close>

definition message_metrics ::
  "(rat \<Rightarrow> rat) \<Rightarrow> executor_input \<Rightarrow> message \<Rightarrow> node_state \<Rightarrow> node_metrics \<Rightarrow> c_error + node_metrics" where
  "message_metrics rnd x m s nm =
     and_then (on_histogram Queue_wait (c_int (xi_now x - q_received_at_ms m)) nm) (\<lambda>nm.
     and_then (on_histogram Message_size (c_int (of_nat (q_message_len m))) nm) (\<lambda>nm.
     and_then (on_metric Active_executions (metrics_gauge_set (of_nat (unat (active_executions s + 1)))) nm) (\<lambda>nm.
     case dag_catalog_get (ns_catalog s) (q_dag_id m) of
       None \<Rightarrow> on_metric Messages_failed (metrics_counter_inc rnd) nm
     | Some d \<Rightarrow>
         and_then
           (if xi_output_ok x then
              (case dag_execute (xi_now x) (xi_now x) (exec_context m d) of
                 Inl e \<Rightarrow> Inl e
               | Inr (r, ctx) \<Rightarrow>
                   and_then (on_histogram Exec_duration (c_int (xi_duration_ms x)) nm)
                     (on_metric (if r = RESULT_OK then Messages_processed else Messages_failed) (metrics_counter_inc rnd)))
            else on_metric Messages_failed (metrics_counter_inc rnd) nm)
           (on_metric Active_executions (metrics_gauge_set (of_nat (unat (active_executions s))))))))"

definition turn_metrics :: "(rat \<Rightarrow> rat) \<Rightarrow> executor_input \<Rightarrow> node_state \<Rightarrow> node_metrics \<Rightarrow> c_error + node_metrics" where
  "turn_metrics rnd x s nm =
     (case message_queue_pop (ns_queue s) 1000 True of
        Some (r, Some m, q) \<Rightarrow> if r = RESULT_OK then message_metrics rnd x m s nm else Inr nm
      | _ \<Rightarrow> on_metric Queue_size (metrics_gauge_set (of_nat (message_queue_size (ns_queue s)))) nm)"

text \<open>What happens to the queue of an executor, in order: its own turns, and messages that the handlers
  of the node submit (one that finds the queue full waits, and is another arrival later).\<close>

datatype executor_event = Turn executor_input | Arrive message

fun node_executor_thread_fn ::
  "(rat \<Rightarrow> rat) \<Rightarrow> executor_event list \<Rightarrow> node_state \<times> node_metrics \<Rightarrow> c_error + node_state \<times> node_metrics" where
  "node_executor_thread_fn rnd [] st = Inr st"
| "node_executor_thread_fn rnd (Turn x # evs) (s, nm) =
     (if xi_shutdown x then Inr (s, nm)
      else and_then (turn_metrics rnd x s nm) (\<lambda>nm'.
           and_then (executor_turn (xi_now x) (xi_output_ok x) (xi_send_ok x) s) (\<lambda>s'.
             node_executor_thread_fn rnd evs (s', nm'))))"
| "node_executor_thread_fn rnd (Arrive m # evs) (s, nm) =
     node_executor_thread_fn rnd evs
       (case message_queue_push (ns_queue s) m of None \<Rightarrow> s | Some q \<Rightarrow> s\<lparr>ns_queue := q\<rparr>, nm)"

section \<open>Every message is counted once\<close>

lemma on_histogram_runs:
  assumes "node_metrics_ok nm"
  shows "\<exists>nm'. on_histogram r v nm = Inr nm' \<and> node_metrics_ok nm' \<and> metric_value nm' = metric_value nm"
proof -
  obtain reg where reg: "nm_registry nm = Some reg" "\<forall>r. nm_metric nm r \<noteq> None"
    using assms by (auto simp: node_metrics_ok_def)
  then obtain nm' where "on_histogram r v nm = Inr nm'" "metric_value nm' = metric_value nm"
    by (fastforce simp: on_histogram_def metric_value_def fun_eq_iff split: option.splits)
  with assms show ?thesis using on_histogram_ok by blast
qed

lemma counter_inc_ok:
  assumes "node_metrics_ok nm" and "metric_value nm r = Some v" and "\<bar>rnd (v + 1)\<bar> < 10 ^ 20"
  shows "\<exists>nm'. on_metric r (metrics_counter_inc rnd) nm = Inr nm' \<and> node_metrics_ok nm'
    \<and> metric_value nm' = (metric_value nm)(r := Some (rnd (v + 1)))"
proof -
  obtain nm' where nm': "on_metric r (metrics_counter_inc rnd) nm = Inr nm'"
    "\<forall>q. metric_value nm' q = (if q = r then map_option (\<lambda>i. mt_value (metrics_counter_inc rnd
       (metric_slots (the (nm_registry nm)) ! i))) (nm_metric nm r) else metric_value nm q)"
    "\<bar>the (metric_value nm' r)\<bar> < 10 ^ 20 \<longrightarrow> node_metrics_ok nm'"
    using on_metric_ok [OF assms(1) value_only_ops(2) [of rnd], of r] by blast
  have "map_option (\<lambda>i. mt_value (metrics_counter_inc rnd (metric_slots (the (nm_registry nm)) ! i))) (nm_metric nm r)
      = Some (rnd (v + 1))"
    using assms(2) by (auto simp: metrics_counter_inc_def metric_value_def split: option.splits)
  then have "metric_value nm' = (metric_value nm)(r := Some (rnd (v + 1)))"
    using nm'(2) by auto
  with nm'(1,3) assms(3) show ?thesis by simp
qed

text \<open>Whether the turn completes the message.\<close>

definition completes :: "executor_input \<Rightarrow> message \<Rightarrow> dag_catalog \<Rightarrow> bool" where
  "completes x m catalog = (case dag_catalog_get catalog (q_dag_id m) of
     None \<Rightarrow> False
   | Some d \<Rightarrow> run_status (xi_output_ok x) d = EXEC_STATUS_COMPLETED)"

definition outcome_counter :: "executor_input \<Rightarrow> message \<Rightarrow> dag_catalog \<Rightarrow> metric_ref" where
  "outcome_counter x m catalog = (if completes x m catalog then Messages_processed else Messages_failed)"

lemma active_small: "\<bar>of_nat (unat (n :: u32)) :: rat\<bar> < 10 ^ 20"
  using unsigned_less [of n, where ?'a = nat] by (intro small_count) simp

definition same_but_active :: "(metric_ref \<Rightarrow> rat option) \<Rightarrow> (metric_ref \<Rightarrow> rat option) \<Rightarrow> bool" where
  "same_but_active f g \<longleftrightarrow> (\<forall>r. r \<noteq> Active_executions \<longrightarrow> f r = g r)"

lemma message_metrics_ok:
  assumes ok: "node_metrics_ok nm"
    and counts: "\<forall>d. dag_catalog_get (ns_catalog s) (q_dag_id m) = Some d \<longrightarrow> counts_ok d"
    and v: "metric_value nm (outcome_counter x m (ns_catalog s)) = Some v" and small: "\<bar>rnd (v + 1)\<bar> < 10 ^ 20"
  shows "\<exists>nm'. message_metrics rnd x m s nm = Inr nm' \<and> node_metrics_ok nm'
    \<and> same_but_active (metric_value nm') ((metric_value nm)(outcome_counter x m (ns_catalog s) := Some (rnd (v + 1))))
    \<and> metric_value nm' Active_executions = Some (of_nat (unat (if dag_catalog_get (ns_catalog s) (q_dag_id m) = None
        then active_executions s + 1 else active_executions s)))"
proof -
  let ?c = "outcome_counter x m (ns_catalog s)"
  obtain nm1 where 1: "on_histogram Queue_wait (c_int (xi_now x - q_received_at_ms m)) nm = Inr nm1"
      "node_metrics_ok nm1" "metric_value nm1 = metric_value nm"
    using on_histogram_runs [OF ok] by blast
  obtain nm2 where 2: "on_histogram Message_size (c_int (of_nat (q_message_len m))) nm1 = Inr nm2"
      "node_metrics_ok nm2" "metric_value nm2 = metric_value nm"
    using on_histogram_runs [OF 1(2)] 1(3) by metis
  obtain nm3 where 3: "on_metric Active_executions (metrics_gauge_set (of_nat (unat (active_executions s + 1)))) nm2 = Inr nm3"
      "node_metrics_ok nm3" "metric_value nm3 = (metric_value nm)(Active_executions := Some (of_nat (unat (active_executions s + 1))))"
    using set_gauge_ok [OF 2(2) active_small] 2(3) by metis
  have c: "?c \<noteq> Active_executions" by (simp add: outcome_counter_def)
  have count: "\<exists>nm'. on_metric ?c (metrics_counter_inc rnd) nm0 = Inr nm' \<and> node_metrics_ok nm'
      \<and> metric_value nm' = (metric_value nm0)(?c := Some (rnd (v + 1)))"
    if "node_metrics_ok nm0" "metric_value nm0 = metric_value nm3" for nm0
    using counter_inc_ok [OF that(1), of ?c v rnd] that(2) 3(3) c v small by simp
  show ?thesis
  proof (cases "dag_catalog_get (ns_catalog s) (q_dag_id m)")
    case None
    then have "?c = Messages_failed" by (simp add: outcome_counter_def completes_def)
    with count [OF 3(2) refl] None 1(1) 2(1) 3(1,3) show ?thesis
      by (auto simp: message_metrics_def same_but_active_def)
  next
    case (Some d)
    have "\<exists>nm4. (if xi_output_ok x then
              (case dag_execute (xi_now x) (xi_now x) (exec_context m d) of
                 Inl e \<Rightarrow> Inl e
               | Inr (r, ctx) \<Rightarrow>
                   and_then (on_histogram Exec_duration (c_int (xi_duration_ms x)) nm3)
                     (on_metric (if r = RESULT_OK then Messages_processed else Messages_failed) (metrics_counter_inc rnd)))
            else on_metric Messages_failed (metrics_counter_inc rnd) nm3) = Inr nm4 \<and> node_metrics_ok nm4
        \<and> metric_value nm4 = (metric_value nm3)(?c := Some (rnd (v + 1)))"
    proof (cases "xi_output_ok x")
      case True
      have "counts_ok (context_dag (exec_context m d))" using counts Some by (simp add: exec_context_def)
      from dag_execute_result [OF this, of "xi_now x" "xi_now x"] obtain r ctx where
        r: "dag_execute (xi_now x) (xi_now x) (exec_context m d) = Inr (r, ctx)"
          "(r = RESULT_OK) = (\<forall>i < step_count d. runnable d i)"
        unfolding exec_result_def by (auto simp: exec_context_def split: if_splits)
      then have k: "?c = (if r = RESULT_OK then Messages_processed else Messages_failed)"
        using True Some by (simp add: outcome_counter_def completes_def run_status_def)
      obtain nm0 where 0: "on_histogram Exec_duration (c_int (xi_duration_ms x)) nm3 = Inr nm0"
        "node_metrics_ok nm0" "metric_value nm0 = metric_value nm3"
        using on_histogram_runs [OF 3(2)] by blast
      from count [OF 0(2,3)] 0 r(1) True show ?thesis unfolding k by simp
    next
      case False
      then have "?c = Messages_failed" using Some by (simp add: outcome_counter_def completes_def run_status_def)
      with count [OF 3(2) refl] False show ?thesis by simp
    qed
    then obtain nm4 where 4: "(if xi_output_ok x then
              (case dag_execute (xi_now x) (xi_now x) (exec_context m d) of
                 Inl e \<Rightarrow> Inl e
               | Inr (r, ctx) \<Rightarrow>
                   and_then (on_histogram Exec_duration (c_int (xi_duration_ms x)) nm3)
                     (on_metric (if r = RESULT_OK then Messages_processed else Messages_failed) (metrics_counter_inc rnd)))
            else on_metric Messages_failed (metrics_counter_inc rnd) nm3) = Inr nm4" "node_metrics_ok nm4"
        "metric_value nm4 = (metric_value nm3)(?c := Some (rnd (v + 1)))" by blast
    obtain nm5 where "on_metric Active_executions (metrics_gauge_set (of_nat (unat (active_executions s)))) nm4 = Inr nm5"
        "node_metrics_ok nm5" "metric_value nm5 = (metric_value nm4)(Active_executions := Some (of_nat (unat (active_executions s))))"
      using set_gauge_ok [OF 4(2) active_small] by metis
    with Some 1(1) 2(1) 3(1,3) 4(1,3) show ?thesis by (simp add: message_metrics_def same_but_active_def)
  qed
qed

text \<open>A node whose executors can run: a sound queue, send buffers that hold a status report, and DAGs
  whose counts are within their arrays.\<close>

definition can_run :: "node_state \<Rightarrow> bool" where
  "can_run s \<longleftrightarrow> mq_ok (ns_queue s) \<and> channels_large 21 (ns_pool s)
     \<and> (\<forall>i d. dag_catalog_get (ns_catalog s) i = Some d \<longrightarrow> counts_ok d)"

lemma turn_runs:
  assumes run: "can_run s" and q: "mq_contents (ns_queue s) = m # ms"
  shows "\<exists>s'. executor_turn now output_ok send_ok s = Inr s' \<and> can_run s' \<and> mq_contents (ns_queue s') = ms
    \<and> mq_capacity (ns_queue s') = mq_capacity (ns_queue s)
    \<and> ns_catalog s' = ns_catalog s \<and> active_executions s' = active_executions s"
proof -
  have ok: "mq_ok (ns_queue s)" using run by (simp add: can_run_def)
  obtain q' where turn: "executor_turn now output_ok send_ok s = process_message now output_ok send_ok m (s\<lparr>ns_queue := q'\<rparr>)"
    and q': "mq_ok q'" "mq_contents q' = ms" "mq_capacity q' = mq_capacity (ns_queue s)"
    using executor_turn_pop [OF ok q] by blast
  let ?s = "s\<lparr>ns_queue := q'\<rparr>"
  have ch: "\<forall>p \<in> set (peers (ns_pool ?s)). \<forall>c. p_data_channel p = Some c \<longrightarrow> 21 \<le> tx_buffer_size c"
    using run by (auto simp: can_run_def channels_large_def list_all_iff)
  show ?thesis
  proof (cases "dag_catalog_get (ns_catalog s) (q_dag_id m)")
    case None
    then show ?thesis using run q' by (simp add: turn process_message_def Let_def can_run_def frame_simps)
  next
    case (Some d)
    moreover have "counts_ok d" using run Some by (simp add: can_run_def)
    ultimately obtain s' where "process_message now output_ok send_ok m ?s = Inr s'" "ns_queue s' = q'"
      "ns_catalog s' = ns_catalog s" "ns_pool s' = ns_pool s" "active_executions s' = active_executions s"
      using process_message_effect [OF _ _ ch, of m d now output_ok send_ok] by auto
    with run q' show ?thesis by (simp add: turn can_run_def)
  qed
qed

lemma turn_metrics_message:
  assumes "mq_ok (ns_queue s)" and "mq_contents (ns_queue s) = m # ms"
  shows "turn_metrics rnd x s nm = message_metrics rnd x m s nm"
proof -
  have "mq_count (ns_queue s) \<noteq> 0" using assms(2) mq_contents_empty_iff [of "ns_queue s"] by simp
  moreover obtain q where "message_queue_take (ns_queue s) = (m, q)"
    using mq_take_step [OF assms] by (metis prod.sel(2))
  ultimately show ?thesis by (simp add: turn_metrics_def message_queue_pop_def)
qed

text \<open>An idle turn reports the empty queue and changes nothing else.\<close>

lemma idle_turn:
  assumes "mq_contents (ns_queue s) = []"
  shows "turn_metrics rnd x s nm = on_metric Queue_size (metrics_gauge_set 0) nm"
    and "executor_turn now output_ok send_ok s = Inr s"
proof -
  have "mq_count (ns_queue s) = 0" using assms mq_contents_empty_iff by blast
  then show "turn_metrics rnd x s nm = on_metric Queue_size (metrics_gauge_set 0) nm"
    and "executor_turn now output_ok send_ok s = Inr s"
    by (simp_all add: turn_metrics_def executor_turn_def message_queue_pop_def message_queue_size_def)
qed

text \<open>A submission enters the queue if there is room, and waits outside it otherwise.\<close>

lemma arrival_runs:
  fixes s :: node_state and m :: message
  assumes "can_run s"
  defines "s' \<equiv> case message_queue_push (ns_queue s) m of None \<Rightarrow> s | Some q \<Rightarrow> s\<lparr>ns_queue := q\<rparr>"
  shows "can_run s' \<and> ns_catalog s' = ns_catalog s \<and> active_executions s' = active_executions s
    \<and> mq_capacity (ns_queue s') = mq_capacity (ns_queue s)
    \<and> mq_contents (ns_queue s') = (if length (mq_contents (ns_queue s)) < mq_capacity (ns_queue s)
        then mq_contents (ns_queue s) @ [m] else mq_contents (ns_queue s))"
proof -
  have ok: "mq_ok (ns_queue s)" using assms(1) by (simp add: can_run_def)
  have len: "length (mq_contents (ns_queue s)) = mq_count (ns_queue s)" by (simp add: mq_contents_def ring_contents_def)
  show ?thesis
  proof (cases "mq_count (ns_queue s) < mq_capacity (ns_queue s)")
    case True
    then obtain q where "message_queue_push (ns_queue s) m = Some q" "mq_ok q"
      "mq_contents q = mq_contents (ns_queue s) @ [m]" "mq_capacity q = mq_capacity (ns_queue s)"
      using mq_push_step [OF ok] by blast
    with assms(1) True len show ?thesis by (simp add: s'_def can_run_def)
  next
    case False
    with assms(1) len show ?thesis by (simp add: s'_def message_queue_push_def)
  qed
qed

text \<open>The specification of a run on a bounded list of messages: which turn takes which message, and
  what is left at the end.\<close>

fun drained ::
  "executor_event list \<Rightarrow> nat \<Rightarrow> message list \<Rightarrow> (executor_input \<times> message) list \<times> message list" where
  "drained [] cap ms = ([], ms)"
| "drained (Turn x # evs) cap ms =
     (if xi_shutdown x then ([], ms)
      else case ms of
        [] \<Rightarrow> drained evs cap []
      | m # ms' \<Rightarrow> apfst (Cons (x, m)) (drained evs cap ms'))"
| "drained (Arrive m # evs) cap ms = drained evs cap (if length ms < cap then ms @ [m] else ms)"

definition outcomes :: "bool \<Rightarrow> (executor_input \<times> message) list \<Rightarrow> dag_catalog \<Rightarrow> nat" where
  "outcomes b taken catalog = length (filter (\<lambda>(x, m). completes x m catalog = b) taken)"

lemma outcomes_simps [simp]:
  "outcomes b [] c = 0"
  "outcomes b ((x, m) # ts) c = (if completes x m c = b then 1 else 0) + outcomes b ts c"
  by (simp_all add: outcomes_def)

definition exact_upto :: "nat \<Rightarrow> (rat \<Rightarrow> rat) \<Rightarrow> bool" where
  "exact_upto k rnd \<longleftrightarrow> (\<forall>n \<le> k. rnd (of_nat n) = of_nat n)"

lemma exact_less: "exact_upto k rnd \<Longrightarrow> j \<le> k \<Longrightarrow> exact_upto j rnd"
  by (simp add: exact_upto_def)

definition counters :: "nat \<Rightarrow> nat \<Rightarrow> node_metrics \<Rightarrow> bool" where
  "counters p f nm \<longleftrightarrow> node_metrics_ok nm
     \<and> metric_value nm Messages_processed = Some (of_nat p) \<and> metric_value nm Messages_failed = Some (of_nat f)"

text \<open>One turn that takes a message counts it once.\<close>

lemma message_turn_counted:
  fixes x :: executor_input and m :: message and s :: node_state
  assumes nm: "counters p f nm" and run: "can_run s" and q: "mq_contents (ns_queue s) = m # ms"
    and exact: "exact_upto (Suc (p + f)) rnd" and small: "Suc (p + f) < 10 ^ 20"
  defines "d \<equiv> completes x m (ns_catalog s)"
  shows "\<exists>nm'. turn_metrics rnd x s nm = Inr nm'
    \<and> counters (if d then Suc p else p) (if d then f else Suc f) nm'"
proof -
  let ?c = "outcome_counter x m (ns_catalog s)" and ?v = "if d then p else f"
  have v: "metric_value nm ?c = Some (of_nat ?v)" using nm by (simp add: counters_def outcome_counter_def d_def)
  have "Suc ?v \<le> Suc (p + f)" by simp
  then have "rnd (of_nat (Suc ?v)) = of_nat (Suc ?v)" using exact unfolding exact_upto_def by blast
  then have inc: "rnd (of_nat ?v + 1) = of_nat (Suc ?v)" by (simp add: add.commute)
  have "Suc ?v < 10 ^ 20" using small by auto
  then have "\<bar>rnd (of_nat ?v + 1)\<bar> < 10 ^ 20" unfolding inc by (rule small_count)
  moreover have "\<forall>d. dag_catalog_get (ns_catalog s) (q_dag_id m) = Some d \<longrightarrow> counts_ok d" "mq_ok (ns_queue s)"
    using run by (simp_all add: can_run_def)
  moreover have "node_metrics_ok nm" using nm by (simp add: counters_def)
  ultimately obtain nm1 where "message_metrics rnd x m s nm = Inr nm1" "node_metrics_ok nm1"
      "same_but_active (metric_value nm1) ((metric_value nm)(?c := Some (of_nat (Suc ?v))))"
    using message_metrics_ok [where rnd = rnd and m = m and s = s and x = x, OF _ _ v, unfolded inc] unfolding inc by blast
  with nm \<open>mq_ok (ns_queue s)\<close> q show ?thesis
    by (auto simp: turn_metrics_message counters_def same_but_active_def outcome_counter_def d_def)
qed

text \<open>C17: An executor accounts for every message: over any sequence of its turns, busy or idle and up to a
  shutdown, with messages of the handlers arriving in between, it takes from the bounded queue the
  messages a FIFO list gives it, in order, and leaves the others. Its counters grow by the number of
  messages taken that completed (the DAG is known, its steps can all run and the output buffer could
  be had) and of those that did not; no turn faults, and no execution stays counted as active. The
  node has its metrics, channels that hold a status report, and nothing but the arrivals changes it
  meanwhile; counting is exact as far as the doubles are (2 to the 53 in the code).\<close>

theorem executor_accounts:
  assumes "counters p f nm" and "can_run s"
    and "exact_upto (p + f + length evs) rnd" and "p + f + length evs < 10 ^ 20"
    and "drained evs (mq_capacity (ns_queue s)) (mq_contents (ns_queue s)) = (taken, rest)"
  shows "\<exists>s' nm'. node_executor_thread_fn rnd evs (s, nm) = Inr (s', nm') \<and> mq_contents (ns_queue s') = rest
    \<and> metric_value nm' Messages_processed = Some (of_nat (p + outcomes True taken (ns_catalog s)))
    \<and> metric_value nm' Messages_failed = Some (of_nat (f + outcomes False taken (ns_catalog s)))
    \<and> active_executions s' = active_executions s"
  using assms
proof (induction evs arbitrary: s nm p f taken)
  case Nil
  then show ?case by (simp add: counters_def)
next
  case (Cons ev evs)
  note [simp del] = of_nat_add of_nat_Suc
  show ?case
  proof (cases ev)
    case (Arrive m)
    define s' where "s' = (case message_queue_push (ns_queue s) m of None \<Rightarrow> s | Some q \<Rightarrow> s\<lparr>ns_queue := q\<rparr>)"
    note a = arrival_runs [OF Cons.prems(2), of m, folded s'_def]
    have "exact_upto (p + f + length evs) rnd" "p + f + length evs < 10 ^ 20"
      using Cons.prems(3,4) by (auto intro: exact_less)
    from Cons.IH [OF Cons.prems(1) _ this, of s' taken] a Cons.prems(5) Arrive show ?thesis
      by (simp flip: s'_def)
  next
    case turn: (Turn x)
    show ?thesis
    proof (cases "xi_shutdown x")
      case True
      then show ?thesis using turn Cons.prems(1,5) by (simp add: counters_def)
    next
      case go: False
      show ?thesis
      proof (cases "mq_contents (ns_queue s)")
        case Nil
        have "node_metrics_ok nm" using Cons.prems(1) by (simp add: counters_def)
        from set_gauge_ok [OF this, of 0 Queue_size] obtain nm' where
          nm': "on_metric Queue_size (metrics_gauge_set 0) nm = Inr nm'" "counters p f nm'"
          using Cons.prems(1) by (auto simp: counters_def)
        have "exact_upto (p + f + length evs) rnd" "p + f + length evs < 10 ^ 20"
          using Cons.prems(3,4) by (auto intro: exact_less)
        from Cons.IH [OF nm'(2) Cons.prems(2) this] Cons.prems(5) nm'(1) Nil go turn idle_turn [OF Nil]
        show ?thesis by simp
      next
        case q: (Cons m ms)
        let ?d = "completes x m (ns_catalog s)"
        let ?p = "if ?d then Suc p else p" and ?f = "if ?d then f else Suc f"
        have "exact_upto (Suc (p + f)) rnd" "Suc (p + f) < 10 ^ 20"
          using Cons.prems(3,4) by (auto intro: exact_less)
        from message_turn_counted [OF Cons.prems(1,2) q this, of x] obtain nm' where
          nm': "turn_metrics rnd x s nm = Inr nm'" "counters ?p ?f nm'" by blast
        obtain s' where s': "executor_turn (xi_now x) (xi_output_ok x) (xi_send_ok x) s = Inr s'" "can_run s'"
          "mq_contents (ns_queue s') = ms" "mq_capacity (ns_queue s') = mq_capacity (ns_queue s)"
          "ns_catalog s' = ns_catalog s" "active_executions s' = active_executions s"
          using turn_runs [OF Cons.prems(2) q] by blast
        have sum: "?p + ?f + length evs = p + f + length (ev # evs)" by simp
        obtain ts where ts: "drained evs (mq_capacity (ns_queue s')) (mq_contents (ns_queue s')) = (ts, rest)"
          "taken = (x, m) # ts"
          using Cons.prems(5) turn go q s'(3,4) by (auto simp: apfst_def map_prod_def split: prod.splits)
        from Cons.IH [OF nm'(2) s'(2), unfolded sum, OF Cons.prems(3,4) ts(1)]
        show ?thesis using turn go nm'(1) s'(1,5,6) ts(2) by auto
      qed
    qed
  qed
qed

definition waiting_node :: node_state where
  "waiting_node = sample_node\<lparr>ns_queue := \<lparr>mq_messages = [zero_message], mq_head = 0, mq_tail = 0, mq_capacity = 1, mq_count = 1\<rparr>\<rparr>"

definition plain_turn :: executor_input where
  "plain_turn = \<lparr>xi_shutdown = False, xi_now = 5, xi_output_ok = True, xi_send_ok = True, xi_duration_ms = 1\<rparr>"

definition sample_io :: metrics_io where
  "sample_io = \<lparr>registry_calloc_ok = True, registry_lock_ok = True, metric_lock_ok = (\<lambda>_. True),
     server_calloc_ok = True, server_thread_ok = True\<rparr>"

lemma counters_at_zero:
  "\<exists>nm. node_metrics_ok nm \<and> metric_value nm Messages_processed = Some 0 \<and> metric_value nm Messages_failed = Some 0"
proof -
  have "\<forall>r. metric_lock_ok sample_io r" "nm_metric fresh_node_metrics = (\<lambda>_. None)"
    by (simp_all add: sample_io_def fresh_node_metrics_def)
  from create_all_ok [OF this] obtain nm0 where nm0: "node_metrics_ok nm0" by blast
  have z: "\<bar>0 :: rat\<bar> < 10 ^ 20" by simp
  obtain nm1 where nm1: "node_metrics_ok nm1" "metric_value nm1 = (metric_value nm0)(Messages_processed := Some 0)"
    using set_gauge_ok [OF nm0 z] by blast
  obtain nm2 where "node_metrics_ok nm2" "metric_value nm2 = (metric_value nm1)(Messages_failed := Some 0)"
    using set_gauge_ok [OF nm1(1) z] by blast
  with nm1(2) show ?thesis by auto
qed

lemma waiting_node_runs:
  "can_run waiting_node" "mq_contents (ns_queue waiting_node) = [zero_message]"
  "dag_catalog_get (ns_catalog waiting_node) 0 = None"
proof -
  have "dag_catalog_get (ns_catalog waiting_node) i = Some d \<Longrightarrow> d = sample_dag" for i d
    by (auto simp: waiting_node_def sample_node_def dag_catalog_get_def dag_index_def split: option.splits if_splits)
  then show "can_run waiting_node"
    using sample_node_submit(4,5)
    by (auto simp: can_run_def waiting_node_def mq_ok_def ring_ok_def sample_node_def)
  show "mq_contents (ns_queue waiting_node) = [zero_message]"
    by (simp add: waiting_node_def mq_contents_def ring_contents_def)
  show "dag_catalog_get (ns_catalog waiting_node) 0 = None"
    by (simp add: waiting_node_def sample_node_def dag_catalog_get_def dag_index_def sample_dag_def simple_dag_def)
qed

theorem executor_accounts_witness:
  "\<exists>nm s' nm'. node_executor_thread_fn id [Turn plain_turn, Turn plain_turn, Arrive zero_message, Turn plain_turn,
      Arrive zero_message] (waiting_node, nm) = Inr (s', nm') \<and> mq_contents (ns_queue s') = [zero_message]
    \<and> metric_value nm' Messages_processed = Some 0 \<and> metric_value nm' Messages_failed = Some 2"
proof -
  obtain nm where nm: "counters 0 0 nm" using counters_at_zero by (auto simp: counters_def)
  have c: "completes plain_turn zero_message (ns_catalog waiting_node) = False" "\<not> xi_shutdown plain_turn"
    by (simp_all add: completes_def zero_message_def waiting_node_runs plain_turn_def)
  let ?evs = "[Turn plain_turn, Turn plain_turn, Arrive zero_message, Turn plain_turn, Arrive zero_message]"
  have "drained ?evs (mq_capacity (ns_queue waiting_node)) (mq_contents (ns_queue waiting_node)) =
      ([(plain_turn, zero_message), (plain_turn, zero_message)], [zero_message])"
    using c(2) by (simp add: waiting_node_runs(2)) (simp add: waiting_node_def)
  from executor_accounts [OF nm waiting_node_runs(1) _ _ this, of id] c(1) show ?thesis
    by (simp add: exact_upto_def del: node_executor_thread_fn.simps) blast
qed

text \<open>A message with an unknown DAG leaves the gauge of active executions one too high: that branch takes
  the count back but does not publish it, until the next message or periodic update does.\<close>

lemma unknown_dag_leaves_gauge:
  assumes "node_metrics_ok nm" and "can_run s" and "mq_contents (ns_queue s) = m # ms"
    and "dag_catalog_get (ns_catalog s) (q_dag_id m) = None" and "\<not> xi_shutdown x"
    and "metric_value nm Messages_failed = Some v" and "\<bar>rnd (v + 1)\<bar> < 10 ^ 20"
  shows "\<exists>s' nm'. node_executor_thread_fn rnd [Turn x] (s, nm) = Inr (s', nm')
    \<and> active_executions s' = active_executions s
    \<and> metric_value nm' Active_executions = Some (of_nat (unat (active_executions s + 1)))"
proof -
  have ok: "mq_ok (ns_queue s)" using assms(2) by (simp add: can_run_def)
  have "metric_value nm (outcome_counter x m (ns_catalog s)) = Some v"
    using assms(4,6) by (simp add: outcome_counter_def completes_def)
  moreover have "\<forall>d. dag_catalog_get (ns_catalog s) (q_dag_id m) = Some d \<longrightarrow> counts_ok d" by (simp add: assms(4))
  ultimately obtain nm' where
    "message_metrics rnd x m s nm = Inr nm'"
    "metric_value nm' Active_executions = Some (of_nat (unat (active_executions s + 1)))"
    using message_metrics_ok [where rnd = rnd and x = x and s = s and m = m, OF assms(1)] assms(4,7) by auto
  with turn_runs [OF assms(2,3), of "xi_now x" "xi_output_ok x" "xi_send_ok x"] assms(5) show ?thesis
    by (auto simp: turn_metrics_message [OF ok assms(3)])
qed

section \<open>The threads\<close>

record executor_pool =
  executor_threads :: "pthread list option"
  num_executor_threads :: nat
  xp_shutdown :: bool

text \<open>Thread \<open>i\<close> on, \<open>n\<close> to go: the handles, and the index at which a \<open>pthread_create\<close> failed.\<close>

fun start_from :: "(nat \<Rightarrow> bool) \<Rightarrow> nat \<Rightarrow> nat \<Rightarrow> pthread list \<Rightarrow> pthread list \<times> nat option" where
  "start_from create_ok i 0 threads = (threads, None)"
| "start_from create_ok i (Suc n) threads =
     (if create_ok i then start_from create_ok (Suc i) n (threads[i := Alive]) else (threads, Some i))"

text \<open>Both functions give back, beside the result, the handles of the array as they are when it is freed
  (none when no array is).\<close>

definition node_start_executors_ex ::
  "bool \<Rightarrow> nat \<Rightarrow> bool \<Rightarrow> (nat \<Rightarrow> bool) \<Rightarrow> executor_pool \<Rightarrow>
   thread_fault + result_status \<times> pthread list \<times> executor_pool" where
  "node_start_executors_ex can num_threads calloc_ok create_ok p =
     (if \<not> can then Inr (RESULT_OK, [], p)
      else
        let n = (if num_threads = 0 then 1 else num_threads)
        in if \<not> calloc_ok then Inr (RESULT_ERR_NOMEM, [], p\<lparr>executor_threads := None\<rparr>)
           else case start_from create_ok 0 n (replicate n Not_started) of
               (threads, None) \<Rightarrow> Inr (RESULT_OK, [], p\<lparr>executor_threads := Some threads\<rparr>)
             | (threads, Some i) \<Rightarrow>
                 and_then (join_first i threads) (\<lambda>threads.
                   Inr (RESULT_ERR_INVALID, threads, p\<lparr>xp_shutdown := True, executor_threads := None\<rparr>)))"

definition node_stop_executors_ex :: "executor_pool \<Rightarrow> thread_fault + pthread list \<times> executor_pool" where
  "node_stop_executors_ex p =
     (case executor_threads p of
        None \<Rightarrow> Inr ([], p)
      | Some threads \<Rightarrow>
          and_then (join_first (num_executor_threads p) threads) (\<lambda>threads.
            Inr (threads, p\<lparr>xp_shutdown := True, executor_threads := None\<rparr>)))"

text \<open>Starting stops at the first \<open>pthread_create\<close> that fails.\<close>

definition created :: "(nat \<Rightarrow> bool) \<Rightarrow> nat \<Rightarrow> nat" where
  "created create_ok n = length (takeWhile create_ok [0..<n])"

lemma start_from_eq:
  defines "k i n c \<equiv> length (takeWhile c [i..<i + n])"
  shows "start_from create_ok i n (replicate i Alive @ replicate n Not_started) =
    (replicate (i + k i n create_ok) Alive @ replicate (n - k i n create_ok) Not_started,
     if k i n create_ok = n then None else Some (i + k i n create_ok))"
proof (induction n arbitrary: i)
  case (Suc n)
  have "(replicate i Alive @ Not_started # replicate n Not_started)[i := Alive] = replicate (Suc i) Alive @ replicate n Not_started"
    by (simp add: list_update_append replicate_app_Cons_same)
  then show ?case using Suc.IH [of "Suc i"] by (simp add: k_def upt_conv_Cons del: upt_Suc)
qed (simp add: k_def)

text \<open>C18: Starting the executors is all or nothing, and stopping them is only as good as the number it
  trusts. If the \<open>k\<close>-th thread cannot be created, the \<open>k\<close> before it are joined, each once, before their
  handles are freed, and no other; the call fails without a fault. Once \<open>n\<close> run (one when zero were
  asked for), \<open>node_stop_executors_ex\<close> joins the first \<open>num_executor_threads\<close>: all of them exactly
  when that is \<open>n\<close>, while a smaller number leaves the rest running on a freed array and a larger
  one reads past it.\<close>

theorem executor_threads_lifecycle:
  assumes "n = (if num_threads = 0 then 1 else num_threads)" and "k = created create_ok n"
  shows "node_start_executors_ex True num_threads True create_ok p = Inr (if k = n
      then (RESULT_OK, [], p\<lparr>executor_threads := Some (replicate n Alive)\<rparr>)
      else (RESULT_ERR_INVALID, replicate k Joined @ replicate (n - k) Not_started,
            p\<lparr>xp_shutdown := True, executor_threads := None\<rparr>))
    \<and> node_stop_executors_ex (p\<lparr>executor_threads := Some (replicate n Alive)\<rparr>) =
        (if num_executor_threads p \<le> n
         then Inr (replicate (num_executor_threads p) Joined @ replicate (n - num_executor_threads p) Alive,
                   p\<lparr>xp_shutdown := True, executor_threads := None\<rparr>)
         else Inl No_such_handle)"
proof -
  have "start_from create_ok 0 n (replicate n Not_started) =
      (replicate k Alive @ replicate (n - k) Not_started, if k = n then None else Some k)"
    using start_from_eq [of create_ok 0 n] by (simp add: created_def assms(2))
  then have start: "node_start_executors_ex True num_threads True create_ok p = Inr (if k = n
      then (RESULT_OK, [], p\<lparr>executor_threads := Some (replicate n Alive)\<rparr>)
      else (RESULT_ERR_INVALID, replicate k Joined @ replicate (n - k) Not_started,
            p\<lparr>xp_shutdown := True, executor_threads := None\<rparr>))"
    using join_first_alive [of k k "replicate (n - k) Not_started"]
    by (simp add: node_start_executors_ex_def Let_def flip: assms(1))
  have "node_stop_executors_ex (p\<lparr>executor_threads := Some (replicate n Alive)\<rparr>) =
        (if num_executor_threads p \<le> n
         then Inr (replicate (num_executor_threads p) Joined @ replicate (n - num_executor_threads p) Alive,
                   p\<lparr>xp_shutdown := True, executor_threads := None\<rparr>)
         else Inl No_such_handle)"
    using join_first_alive [of "num_executor_threads p" n "[]"]
    by (auto simp: node_stop_executors_ex_def join_too_many)
  with start show ?thesis by blast
qed

theorem executor_threads_lifecycle_witness:
  "node_start_executors_ex True 3 True (\<lambda>i. i \<noteq> 2)
      \<lparr>executor_threads = None, num_executor_threads = 0, xp_shutdown = False\<rparr>
     = Inr (RESULT_ERR_INVALID, [Joined, Joined, Not_started],
        \<lparr>executor_threads = None, num_executor_threads = 0, xp_shutdown = True\<rparr>)"
proof -
  have "created (\<lambda>i. i \<noteq> 2) 3 = 2" by code_simp
  with executor_threads_lifecycle [of 3 3 2 "\<lambda>i. i \<noteq> 2"
      "\<lparr>executor_threads = None, num_executor_threads = 0, xp_shutdown = False\<rparr>"]
  show ?thesis by (simp add: numeral_2_eq_2)
qed

end
