(* ===== verification/Config_Validator.thy ===== *)
theory Config_Validator
  imports Config
begin

text \<open>
  src/core/config_validator.c: the validators add messages with a severity (0 warning, 1 error, 2
  fatal) to a result that holds at most 16; a message beyond that is dropped, and then does not make
  the result invalid either. \<open>inet_ok\<close> stands for \<open>inet_pton(AF_INET, ...) == 1\<close> of the C
  library. The result of each validator but the last is discarded by the caller.
\<close>

definition MAX_VALIDATION_ERRORS :: nat where "MAX_VALIDATION_ERRORS = 16"
definition MAX_ERROR_MESSAGE_LEN :: nat where "MAX_ERROR_MESSAGE_LEN = 256"

record validation_error =
  err_message :: string
  severity :: nat

record validation_result =
  vr_valid :: bool
  vr_errors :: "validation_error list"

definition validation_result_init :: validation_result where
  "validation_result_init = \<lparr>vr_valid = True, vr_errors = []\<rparr>"

definition validation_add_error :: "nat \<Rightarrow> string \<Rightarrow> validation_result \<Rightarrow> validation_result" where
  "validation_add_error sev text result =
     (if MAX_VALIDATION_ERRORS \<le> length (vr_errors result) then result
      else \<lparr>vr_valid = (vr_valid result \<and> \<not> 1 \<le> sev),
            vr_errors = vr_errors result @ [\<lparr>err_message = strcpy_to MAX_ERROR_MESSAGE_LEN text, severity = sev\<rparr>]\<rparr>)"

section \<open>The validators\<close>

definition validate_node_id :: "node_id \<Rightarrow> validation_result \<Rightarrow> int \<times> validation_result" where
  "validate_node_id i result =
     (if i = 0 then (-1, validation_add_error 2 ''Node ID cannot be 0 (reserved for invalid)'' result)
      else (0, result))"

definition validate_node_type :: "node_type \<Rightarrow> validation_result \<Rightarrow> int \<times> validation_result" where
  "validate_node_type t result =
     (if t = NODE_TYPE_UNKNOWN
      then (-1, validation_add_error 2 ''Node type is UNKNOWN (must be ROUTER or WORKER)'' result)
      else if t \<noteq> NODE_TYPE_ROUTER \<and> t \<noteq> NODE_TYPE_WORKER
      then (-1, validation_add_error 2 (''Invalid node type: '' @ utoa (unat (node_type_byte t))) result)
      else (0, result))"

definition name_char :: "char \<Rightarrow> bool" where
  "name_char c \<longleftrightarrow> isalnum c \<or> c = CHR ''_'' \<or> c = CHR ''-''"

definition validate_cluster_name :: "string \<Rightarrow> validation_result \<Rightarrow> int \<times> validation_result" where
  "validate_cluster_name name result =
     (if name = [] then (-1, validation_add_error 2 ''Cluster name is empty'' result)
      else if MAX_CONFIG_STRING \<le> length name
      then (-1, validation_add_error 2 (''Cluster name too long ('' @ utoa (length name) @ '' chars, max ''
              @ utoa MAX_CONFIG_STRING @ '')'') result)
      else case List.find (\<lambda>c. \<not> name_char c) name of
          Some c \<Rightarrow> (-1, validation_add_error 1 (''Cluster name contains invalid character: '' @ [CHR 0x27, c, CHR 0x27]
              @ '' (use alphanumeric, _, -)'') result)
        | None \<Rightarrow> (0, result))"

text \<open>The port is narrowed to 16 bits when it is passed.\<close>

definition is_valid_port :: "int \<Rightarrow> bool" where
  "is_valid_port i = (let port = word_of_int i :: u16 in 0 < port \<and> port \<noteq> 22)"

definition parse_port_from_addr :: "string \<Rightarrow> int" where
  "parse_port_from_addr addr_str =
     (if addr_str = [] then 0
      else case after_char (CHR '':'') addr_str of None \<Rightarrow> 0 | Some port \<Rightarrow> atoi port)"

definition optional_port :: "string \<Rightarrow> int \<Rightarrow> validation_result \<Rightarrow> validation_result" where
  "optional_port what port result =
     (if 0 < port \<and> \<not> is_valid_port port
      then validation_add_error 1 (what @ '' port '' @ itoa port @ '' is reserved or invalid'') result
      else result)"

definition validate_ports :: "node_ports \<Rightarrow> validation_result \<Rightarrow> int \<times> validation_result" where
  "validate_ports p result =
     (let gossip_port = parse_port_from_addr (gossip_addr p); data_port = parse_port_from_addr (data_addr p)
      in if gossip_port \<le> 0
         then (-1, validation_add_error 2 (''Gossip port is invalid or missing: '' @ gossip_addr p) result)
         else if \<not> is_valid_port gossip_port
         then (-1, validation_add_error 2 (''Gossip port '' @ itoa gossip_port @ '' is reserved or invalid'') result)
         else if data_port \<le> 0
         then (-1, validation_add_error 2 (''Data port is invalid or missing: '' @ data_addr p) result)
         else if \<not> is_valid_port data_port
         then (-1, validation_add_error 2 (''Data port '' @ itoa data_port @ '' is reserved or invalid'') result)
         else (0, optional_port ''Metrics'' (parse_port_from_addr (metrics_addr p))
                    (optional_port ''Ingress'' (parse_port_from_addr (ingress_addr p)) result)))"

definition validate_port_conflicts :: "node_ports \<Rightarrow> validation_result \<Rightarrow> int \<times> validation_result" where
  "validate_port_conflicts p result =
     (let gossip_port = parse_port_from_addr (gossip_addr p); data_port = parse_port_from_addr (data_addr p);
          ingress_port = parse_port_from_addr (ingress_addr p); metrics_port = parse_port_from_addr (metrics_addr p)
      in if gossip_port = data_port
         then (-1, validation_add_error 2 (''Port conflict: gossip and data both use port '' @ itoa gossip_port) result)
         else if 0 < ingress_port \<and> ingress_port = gossip_port
         then (-1, validation_add_error 2 (''Port conflict: ingress and gossip both use port '' @ itoa ingress_port) result)
         else if 0 < ingress_port \<and> ingress_port = data_port
         then (-1, validation_add_error 2 (''Port conflict: ingress and data both use port '' @ itoa ingress_port) result)
         else if 0 < metrics_port \<and> (metrics_port = gossip_port \<or> metrics_port = data_port
             \<or> (0 < ingress_port \<and> metrics_port = ingress_port))
         then (-1, validation_add_error 2 (''Port conflict: metrics port '' @ itoa metrics_port
                 @ '' conflicts with another service'') result)
         else (0, result))"

definition validate_router :: "nat \<Rightarrow> string \<Rightarrow> validation_result \<Rightarrow> validation_result" where
  "validate_router i router result =
     (if router = [] then validation_add_error 1 (''Router '' @ utoa i @ '' has empty address'') result
      else case after_char (CHR '':'') router of
          None \<Rightarrow> validation_add_error 1 (''Router '' @ utoa i @ '' has invalid format (expected ip:port): '' @ router) result
        | Some rest \<Rightarrow>
            let port = atoi rest
            in if port \<le> 0 \<or> 65536 \<le> port
               then validation_add_error 1 (''Router '' @ utoa i @ '' has invalid port: '' @ itoa port) result
               else result)"

fun validate_router_list :: "nat \<Rightarrow> string list \<Rightarrow> validation_result \<Rightarrow> validation_result" where
  "validate_router_list i [] result = result"
| "validate_router_list i (r # rs) result = validate_router_list (Suc i) rs (validate_router i r result)"

definition validate_routers :: "roole_config \<Rightarrow> validation_result \<Rightarrow> int \<times> validation_result" where
  "validate_routers cfg result =
     (if routers cfg = []
      then (0, validation_add_error 0 ''No seed routers configured - node will start as seed/standalone'' result)
      else (0, validate_router_list 0 (routers cfg) result))"

definition validate_capabilities :: "roole_config \<Rightarrow> validation_result \<Rightarrow> int \<times> validation_result" where
  "validate_capabilities cfg result =
     (let ingress_port = parse_port_from_addr (ingress_addr (ports cfg));
          result = (if cfg_node_type cfg = NODE_TYPE_ROUTER \<and> ingress_port \<le> 0
            then validation_add_error 0 ''ROUTER node has no ingress port - clients cannot connect'' result else result);
          result = (if cfg_node_type cfg = NODE_TYPE_WORKER \<and> 0 < ingress_port
            then validation_add_error 0 ''WORKER node has ingress port configured (unusual - typically only ROUTERs accept clients)'' result
            else result)
      in (0, result))"

definition validate_network_reachability ::
  "(string \<Rightarrow> bool) \<Rightarrow> string \<Rightarrow> validation_result \<Rightarrow> int \<times> validation_result" where
  "validate_network_reachability inet_ok addr_str result =
     (if addr_str = [] then (0, result)
      else if CHR '':'' \<notin> set addr_str
      then (-1, validation_add_error 1 (''Invalid address format: '' @ addr_str @ '' (expected ip:port)'') result)
      else let ip = before_char (CHR '':'') addr_str
      in if 64 \<le> length ip then (-1, validation_add_error 1 (''IP address too long: '' @ addr_str) result)
         else if \<not> inet_ok ip then (-1, validation_add_error 1 (''Invalid IP address: '' @ ip) result)
         else if ip = ''0.0.0.0''
         then (0, validation_add_error 0 (''Address '' @ addr_str @ '' uses 0.0.0.0 (bind-only, not externally reachable)'') result)
         else (0, result))"

definition config_validate :: "(string \<Rightarrow> bool) \<Rightarrow> roole_config \<Rightarrow> int \<times> validation_result" where
  "config_validate inet_ok cfg =
     (let r = validation_result_init;
          r = snd (validate_node_id (cfg_node_id cfg) r);
          r = snd (validate_node_type (cfg_node_type cfg) r);
          r = snd (validate_cluster_name (cluster_name cfg) r);
          r = snd (validate_ports (ports cfg) r);
          r = snd (validate_port_conflicts (ports cfg) r);
          r = snd (validate_routers cfg r);
          r = snd (validate_capabilities cfg r);
          r = snd (validate_network_reachability inet_ok (gossip_addr (ports cfg)) r);
          r = snd (validate_network_reachability inet_ok (data_addr (ports cfg)) r);
          r = snd (validate_network_reachability inet_ok (ingress_addr (ports cfg)) r);
          r = snd (validate_network_reachability inet_ok (metrics_addr (ports cfg)) r)
      in (if vr_valid r then 0 else -1, r))"

section \<open>What a valid configuration is\<close>

definition name_ok :: "string \<Rightarrow> bool" where
  "name_ok name \<longleftrightarrow> name \<noteq> [] \<and> length name < 256 \<and> (\<forall>c \<in> set name. name_char c)"

definition required_port_ok :: "string \<Rightarrow> bool" where
  "required_port_ok addr \<longleftrightarrow> 0 < parse_port_from_addr addr \<and> is_valid_port (parse_port_from_addr addr)"

definition optional_port_ok :: "string \<Rightarrow> bool" where
  "optional_port_ok addr \<longleftrightarrow> (0 < parse_port_from_addr addr \<longrightarrow> is_valid_port (parse_port_from_addr addr))"

definition ports_distinct :: "node_ports \<Rightarrow> bool" where
  "ports_distinct p \<longleftrightarrow> distinct ([parse_port_from_addr (gossip_addr p), parse_port_from_addr (data_addr p)]
     @ filter (\<lambda>q. 0 < q) [parse_port_from_addr (ingress_addr p), parse_port_from_addr (metrics_addr p)])"

definition router_addr_ok :: "string \<Rightarrow> bool" where
  "router_addr_ok r \<longleftrightarrow> (\<exists>rest. after_char (CHR '':'') r = Some rest \<and> 0 < atoi rest \<and> atoi rest < 65536)"

definition address_ok :: "(string \<Rightarrow> bool) \<Rightarrow> string \<Rightarrow> bool" where
  "address_ok inet_ok addr \<longleftrightarrow> addr = [] \<or> (CHR '':'' \<in> set addr \<and> length (before_char (CHR '':'') addr) < 64
     \<and> inet_ok (before_char (CHR '':'') addr))"

definition valid_config :: "(string \<Rightarrow> bool) \<Rightarrow> roole_config \<Rightarrow> bool" where
  "valid_config inet_ok cfg \<longleftrightarrow> cfg_node_id cfg \<noteq> 0
     \<and> cfg_node_type cfg \<in> {NODE_TYPE_ROUTER, NODE_TYPE_WORKER} \<and> name_ok (cluster_name cfg)
     \<and> required_port_ok (gossip_addr (ports cfg)) \<and> required_port_ok (data_addr (ports cfg))
     \<and> optional_port_ok (ingress_addr (ports cfg)) \<and> optional_port_ok (metrics_addr (ports cfg))
     \<and> ports_distinct (ports cfg) \<and> (\<forall>r \<in> set (routers cfg). router_addr_ok r)
     \<and> (\<forall>a \<in> {gossip_addr (ports cfg), data_addr (ports cfg), ingress_addr (ports cfg), metrics_addr (ports cfg)}.
          address_ok inet_ok a)"

section \<open>The limit on messages never hides an error\<close>

text \<open>While a result is valid it holds only warnings, and there are at most six places that warn.\<close>

definition few :: "nat \<Rightarrow> validation_result \<Rightarrow> bool" where
  "few w r \<longleftrightarrow> (vr_valid r \<longrightarrow> length (vr_errors r) \<le> w)"

text \<open>A step that may add \<open>k\<close> warnings keeps the result valid exactly when \<open>P\<close> holds.\<close>

definition checks :: "(validation_result \<Rightarrow> validation_result) \<Rightarrow> nat \<Rightarrow> bool \<Rightarrow> bool" where
  "checks f k P \<longleftrightarrow> (\<forall>w r. few w r \<longrightarrow> w + k \<le> 15 \<longrightarrow>
     few (w + k) (f r) \<and> (vr_valid (f r) \<longleftrightarrow> vr_valid r \<and> P))"

lemma checksI [intro?]:
  "(\<And>w r. few w r \<Longrightarrow> w + k \<le> 15 \<Longrightarrow> few (w + k) (f r) \<and> (vr_valid (f r) \<longleftrightarrow> vr_valid r \<and> P)) \<Longrightarrow> checks f k P"
  by (simp add: checks_def)

lemma checks_id [simp]: "checks (\<lambda>r. r) k True"
  by (auto simp: checks_def few_def)

lemma checks_comp: "checks f j P \<Longrightarrow> checks g k Q \<Longrightarrow> checks (\<lambda>r. g (f r)) (j + k) (P \<and> Q)"
  unfolding checks_def by (metis add.assoc add_leD1)

lemma checks_error [simp]: "1 \<le> sev \<Longrightarrow> checks (validation_add_error sev text) k False"
  by (auto simp: checks_def few_def validation_add_error_def MAX_VALIDATION_ERRORS_def)

lemma checks_warning [simp]: "0 < k \<Longrightarrow> checks (validation_add_error 0 text) k True"
  by (auto simp: checks_def few_def validation_add_error_def MAX_VALIDATION_ERRORS_def)

lemma checks_cases [simp]:
  "checks (\<lambda>r. if b then f r else g r) k P = (if b then checks f k P else checks g k P)"
  "checks (\<lambda>r. snd (if b then f' r else g' r)) k P = (if b then checks (\<lambda>r. snd (f' r)) k P else checks (\<lambda>r. snd (g' r)) k P)"
  "checks (\<lambda>r. snd (case x of None \<Rightarrow> f' r | Some c \<Rightarrow> h c r)) k P =
     (case x of None \<Rightarrow> checks (\<lambda>r. snd (f' r)) k P | Some c \<Rightarrow> checks (\<lambda>r. snd (h c r)) k P)"
  "checks (\<lambda>r. case x of None \<Rightarrow> f r | Some c \<Rightarrow> l c r) k P =
     (case x of None \<Rightarrow> checks f k P | Some c \<Rightarrow> checks (l c) k P)"
  by (simp_all split: option.split)

lemma checks_node_id: "checks (\<lambda>r. snd (validate_node_id i r)) 0 (i \<noteq> 0)"
  by (cases "i = 0") (simp_all add: validate_node_id_def)

lemma checks_node_type: "checks (\<lambda>r. snd (validate_node_type t r)) 0 (t \<in> {NODE_TYPE_ROUTER, NODE_TYPE_WORKER})"
  by (cases t) (simp_all add: validate_node_type_def)

lemma checks_cluster_name: "checks (\<lambda>r. snd (validate_cluster_name name r)) 0 (name_ok name)"
proof (cases "\<forall>c \<in> set name. name_char c")
  case True
  then have "List.find (\<lambda>c. \<not> name_char c) name = None" by (auto simp: find_None_iff)
  with True show ?thesis by (simp add: validate_cluster_name_def name_ok_def config_limits)
next
  case False
  then obtain c where "List.find (\<lambda>c. \<not> name_char c) name = Some c"
    by (cases "List.find (\<lambda>c. \<not> name_char c) name") (auto simp: find_None_iff)
  moreover have "\<not> name_ok name" using False by (simp add: name_ok_def)
  ultimately show ?thesis by (simp add: validate_cluster_name_def)
qed

lemma checks_optional: "checks (optional_port what (parse_port_from_addr a)) 0 (optional_port_ok a)"
  by (auto simp: optional_port_def [abs_def] optional_port_ok_def)

lemma checks_ports: "checks (\<lambda>r. snd (validate_ports p r)) 0
   (required_port_ok (gossip_addr p) \<and> required_port_ok (data_addr p)
    \<and> optional_port_ok (ingress_addr p) \<and> optional_port_ok (metrics_addr p))"
  using checks_comp [OF checks_optional [of "''Ingress''" "ingress_addr p"] checks_optional [of "''Metrics''" "metrics_addr p"]]
  by (auto simp: validate_ports_def required_port_ok_def Let_def)

lemma checks_conflicts: "checks (\<lambda>r. snd (validate_port_conflicts p r)) 0 (ports_distinct p)"
  by (auto simp: validate_port_conflicts_def ports_distinct_def Let_def)

lemma checks_router: "checks (validate_router i r) 0 (router_addr_ok r)"
  by (cases "after_char (CHR '':'') r")
    (auto simp: validate_router_def [abs_def] router_addr_ok_def Let_def after_char_def split: list.splits)

lemma checks_router_list: "checks (validate_router_list i rs) 0 (\<forall>r \<in> set rs. router_addr_ok r)"
proof (induction rs arbitrary: i)
  case Nil
  have "validate_router_list i [] = (\<lambda>r. r)" by (rule ext) simp
  then show ?case by simp
next
  case (Cons r rs)
  have "validate_router_list i (r # rs) = (\<lambda>res. validate_router_list (Suc i) rs (validate_router i r res))"
    by (rule ext) simp
  then show ?case using checks_comp [OF checks_router [of i r] Cons [of "Suc i"]] by simp
qed

lemma checks_routers: "checks (\<lambda>r. snd (validate_routers cfg r)) 1 (\<forall>r \<in> set (routers cfg). router_addr_ok r)"
  using checks_comp [OF checks_router_list [of 0 "routers cfg"] checks_id [of 1]]
  by (cases "routers cfg = []") (simp_all add: validate_routers_def)

lemma checks_capabilities: "checks (\<lambda>r. snd (validate_capabilities cfg r)) 1 True"
  by (auto simp: validate_capabilities_def Let_def)

lemma checks_network: "checks (\<lambda>r. snd (validate_network_reachability inet_ok a r)) 1 (address_ok inet_ok a)"
  by (auto simp: validate_network_reachability_def address_ok_def Let_def)

lemma config_validate_valid:
  "vr_valid (snd (config_validate inet_ok cfg)) \<longleftrightarrow> valid_config inet_ok cfg"
proof -
  note basics = checks_comp [OF checks_comp [OF checks_node_id [of "cfg_node_id cfg"]
    checks_node_type [of "cfg_node_type cfg"]] checks_cluster_name [of "cluster_name cfg"]]
  note services = checks_comp [OF checks_comp [OF basics checks_ports [of "ports cfg"]] checks_conflicts [of "ports cfg"]]
  note roles = checks_comp [OF checks_comp [OF services checks_routers [of cfg]] checks_capabilities [of cfg]]
  note required = checks_comp [OF checks_comp [OF roles checks_network [of inet_ok "gossip_addr (ports cfg)"]]
    checks_network [of inet_ok "data_addr (ports cfg)"]]
  note all = checks_comp [OF checks_comp [OF required checks_network [of inet_ok "ingress_addr (ports cfg)"]]
    checks_network [of inet_ok "metrics_addr (ports cfg)"]]
  have "few 0 validation_result_init" "vr_valid validation_result_init"
    by (simp_all add: few_def validation_result_init_def)
  then show ?thesis
    using all [unfolded checks_def, rule_format, of 0 validation_result_init]
    by (simp add: config_validate_def Let_def valid_config_def conj_ac)
qed

text \<open>An address that is not \<open>ip:port\<close> with a valid IP makes the configuration invalid, although the
  comment over these checks in \<open>config_validate\<close> says that they are warnings only.\<close>

lemma bad_address_rejected:
  "a \<in> {gossip_addr (ports cfg), data_addr (ports cfg), ingress_addr (ports cfg), metrics_addr (ports cfg)} \<Longrightarrow>
   \<not> address_ok inet_ok a \<Longrightarrow> fst (config_validate inet_ok cfg) = -1"
  using config_validate_valid [of inet_ok cfg] by (auto simp: config_validate_def Let_def valid_config_def)

text \<open>Addresses as they are written, with an IP that \<open>inet_pton\<close> accepts and a port of 16 bits.\<close>

definition addr_text :: "string \<times> nat \<Rightarrow> string" where
  "addr_text = (\<lambda>(ip, p). ip @ CHR '':'' # utoa p)"

definition service_addr :: "(string \<Rightarrow> bool) \<Rightarrow> string \<times> nat \<Rightarrow> bool" where
  "service_addr inet_ok = (\<lambda>(ip, p). CHR '':'' \<notin> set ip \<and> length ip < 64 \<and> inet_ok ip \<and> p < 65536)"

fun optional_text :: "(string \<times> nat) option \<Rightarrow> string" where
  "optional_text None = []"
| "optional_text (Some a) = addr_text a"

text \<open>The port of an optional service; none when it is not given, or given as port 0.\<close>

fun used_port :: "(string \<times> nat) option \<Rightarrow> nat list" where
  "used_port None = []"
| "used_port (Some (ip, p)) = (if p = 0 then [] else [p])"

lemma parse_addr_text: "service_addr inet_ok (ip, p) \<Longrightarrow> parse_port_from_addr (addr_text (ip, p)) = int p"
  by (simp add: service_addr_def addr_text_def parse_port_from_addr_def)

lemma parse_optional_text:
  "\<forall>a. x = Some a \<longrightarrow> service_addr inet_ok a \<Longrightarrow>
   parse_port_from_addr (optional_text x) = (case used_port x of [] \<Rightarrow> 0 | p # _ \<Rightarrow> int p)"
proof (cases x)
  case (Some a)
  assume "\<forall>a. x = Some a \<longrightarrow> service_addr inet_ok a"
  with Some show ?thesis by (cases a) (simp add: parse_addr_text)
qed (simp add: parse_port_from_addr_def)

lemma valid_port_16: "p < 65536 \<Longrightarrow> is_valid_port (int p) \<longleftrightarrow> p \<noteq> 0 \<and> p \<noteq> 22"
proof -
  assume "p < 65536"
  then have "unat (word_of_nat p :: u16) = p" by (simp add: unat_word_of_nat)
  then show ?thesis
    by (auto simp: is_valid_port_def word_less_nat_alt word_unat_eq_iff)
qed

lemma service_addr_ok: "service_addr inet_ok a \<Longrightarrow> address_ok inet_ok (addr_text a)"
  by (auto simp: service_addr_def address_ok_def addr_text_def)

lemma optional_addr_ok:
  assumes "\<forall>a. x = Some a \<longrightarrow> service_addr inet_ok a"
  shows "address_ok inet_ok (optional_text x)" and "optional_port_ok (optional_text x) \<longleftrightarrow> 22 \<notin> set (used_port x)"
    and "\<forall>p \<in> set (used_port x). 0 < p" and "length (used_port x) \<le> 1"
proof -
  show "address_ok inet_ok (optional_text x)"
    using assms service_addr_ok by (cases x) (simp_all add: address_ok_def)
  show "optional_port_ok (optional_text x) \<longleftrightarrow> 22 \<notin> set (used_port x)"
  proof (cases x)
    case (Some a)
    then show ?thesis
      using assms valid_port_16 [of "snd a"] parse_addr_text [of inet_ok "fst a" "snd a"]
      by (cases a) (auto simp: optional_port_ok_def service_addr_def)
  qed (simp add: optional_port_ok_def parse_port_from_addr_def)
qed (cases x; auto split: if_splits)+

lemma router_addr_text: "CHR '':'' \<notin> set ip \<Longrightarrow> p < 2 ^ 31 \<Longrightarrow> router_addr_ok (addr_text (ip, p)) \<longleftrightarrow> 0 < p \<and> p < 65536"
  by (simp add: router_addr_ok_def addr_text_def)

text \<open>C34: The rules of a configuration, in its own terms. Take one whose service addresses are written
  \<open>ip:port\<close> with a valid IP and a port below 65536, ingress and metrics possibly left out, and whose
  routers are written \<open>host:port\<close>. The validator accepts it exactly when the node id is not 0, the type is
  ROUTER or WORKER, the cluster name has 1 to 255 letters, digits, underscores and dashes, the gossip
  and data ports are given, no service uses port 22, no two services use the same port, and every
  router's port is between 1 and 65535. (Its sixteen message slots never change the verdict. With a
  malformed service address it always rejects; with a port beyond 65535 it may miss a conflict.)\<close>

theorem config_validate_iff:
  assumes "gossip_addr (ports cfg) = addr_text g" and "data_addr (ports cfg) = addr_text d"
    and "ingress_addr (ports cfg) = optional_text i" and "metrics_addr (ports cfg) = optional_text m"
    and "routers cfg = map addr_text rs"
    and "service_addr inet_ok g" and "service_addr inet_ok d"
    and "\<forall>a. i = Some a \<longrightarrow> service_addr inet_ok a" and "\<forall>a. m = Some a \<longrightarrow> service_addr inet_ok a"
    and "\<forall>(host, p) \<in> set rs. CHR '':'' \<notin> set host \<and> p < 2 ^ 31"
    and "services = [snd g, snd d] @ used_port i @ used_port m"
  shows "fst (config_validate inet_ok cfg) =
    (if cfg_node_id cfg \<noteq> 0 \<and> cfg_node_type cfg \<in> {NODE_TYPE_ROUTER, NODE_TYPE_WORKER}
        \<and> cluster_name cfg \<noteq> [] \<and> length (cluster_name cfg) < 256
        \<and> (\<forall>c \<in> set (cluster_name cfg). isalnum c \<or> c \<in> {CHR ''_'', CHR ''-''})
        \<and> 0 \<notin> set services \<and> 22 \<notin> set services \<and> distinct services
        \<and> (\<forall>(host, p) \<in> set rs. 0 < p \<and> p < 65536)
     then 0 else -1)"
proof -
  obtain gi gp di dp where gd: "g = (gi, gp)" "d = (di, dp)" by (cases g, cases d) auto
  have p16: "gp < 65536" "dp < 65536" using assms(6,7) by (simp_all add: service_addr_def gd)
  note parse = parse_addr_text [OF assms(6) [unfolded gd]] parse_addr_text [OF assms(7) [unfolded gd]]
    parse_optional_text [OF assms(8)] parse_optional_text [OF assms(9)]
  have required: "required_port_ok (addr_text (gi, gp)) \<longleftrightarrow> gp \<notin> {0, 22}" "required_port_ok (addr_text (di, dp)) \<longleftrightarrow> dp \<notin> {0, 22}"
    using valid_port_16 [OF p16(1)] valid_port_16 [OF p16(2)] by (auto simp: required_port_ok_def parse)
  have name: "name_ok (cluster_name cfg) \<longleftrightarrow> cluster_name cfg \<noteq> [] \<and> length (cluster_name cfg) < 256
      \<and> (\<forall>c \<in> set (cluster_name cfg). isalnum c \<or> c \<in> {CHR ''_'', CHR ''-''})"
    by (simp add: name_ok_def name_char_def)
  have routers: "(\<forall>r \<in> set (routers cfg). router_addr_ok r) \<longleftrightarrow> (\<forall>(host, p) \<in> set rs. 0 < p \<and> p < 65536)"
    using assms(5,10) router_addr_text by fastforce
  have dist: "ports_distinct (ports cfg) \<longleftrightarrow> distinct services"
    using optional_addr_ok(3,4) [OF assms(8)] optional_addr_ok(3,4) [OF assms(9)]
    by (cases "used_port i"; cases "used_port m")
      (auto simp: ports_distinct_def assms(1-4,11) gd parse)
  have "valid_config inet_ok cfg \<longleftrightarrow> cfg_node_id cfg \<noteq> 0 \<and> cfg_node_type cfg \<in> {NODE_TYPE_ROUTER, NODE_TYPE_WORKER}
        \<and> cluster_name cfg \<noteq> [] \<and> length (cluster_name cfg) < 256
        \<and> (\<forall>c \<in> set (cluster_name cfg). isalnum c \<or> c \<in> {CHR ''_'', CHR ''-''})
        \<and> 0 \<notin> set services \<and> 22 \<notin> set services \<and> distinct services
        \<and> (\<forall>(host, p) \<in> set rs. 0 < p \<and> p < 65536)"
    using optional_addr_ok [OF assms(8)] optional_addr_ok [OF assms(9)]
      service_addr_ok [OF assms(6)] service_addr_ok [OF assms(7)]
    unfolding valid_config_def name routers dist
    by (auto simp: assms(1-4,11) gd required)
  then show ?thesis using config_validate_valid [of inet_ok cfg] by (simp add: config_validate_def Let_def)
qed

lemma port_wraps: "(65536 :: u16) = 0" "is_valid_port (int p + 65536) = is_valid_port (int p)"
proof -
  show wrap: "(65536 :: u16) = 0" by simp
  show "is_valid_port (int p + 65536) = is_valid_port (int p)"
    by (simp add: is_valid_port_def wrap)
qed

text \<open>The port check looks at the low 16 bits only. Take a configuration the validator accepts, and
  give the data service the gossip address with 65536 added to its port: the validator still accepts
  it (ports compare as different numbers), yet both addresses then parse to the same IP and port.\<close>

theorem port_conflict_missed:
  assumes "valid_config inet_ok cfg" and "gossip_addr (ports cfg) = ip @ CHR '':'' # utoa p" and "p < 65536"
    and "c_string ip" and "CHR '':'' \<notin> set ip" and "length ip < 16"
    and "cfg' = cfg\<lparr>ports := (ports cfg)\<lparr>data_addr := ip @ CHR '':'' # utoa (p + 65536)\<rparr>\<rparr>"
    and "int p + 65536 \<notin> {parse_port_from_addr (ingress_addr (ports cfg)), parse_port_from_addr (metrics_addr (ports cfg))}"
  shows "fst (config_validate inet_ok cfg') = 0
    \<and> config_parse_address (data_addr (ports cfg')) = config_parse_address (gossip_addr (ports cfg'))"
proof -
  have port: "parse_port_from_addr (ip @ CHR '':'' # utoa n) = int n" if "n < 2 ^ 31" for n
    using assms(5) that by (simp add: parse_port_from_addr_def)
  have gossip: "parse_port_from_addr (gossip_addr (ports cfg)) = int p" using assms(2,3) by (simp add: port)
  have "address_ok inet_ok (ip @ CHR '':'' # utoa (p + 65536))"
    using assms(1,2,5) by (auto simp: valid_config_def address_ok_def)
  moreover have "required_port_ok (ip @ CHR '':'' # utoa (p + 65536))"
    using assms(1,3) gossip by (auto simp: valid_config_def required_port_ok_def port port_wraps(2))
  moreover have "ports_distinct (ports cfg')"
    using assms(1,3,8) gossip by (auto simp: valid_config_def ports_distinct_def assms(7) port)
  ultimately have "valid_config inet_ok cfg'" using assms(1) by (auto simp: valid_config_def assms(7))
  moreover have parse: "config_parse_address (ip @ CHR '':'' # utoa n) = (ip, word_of_nat n)" if "n < 2 ^ 31" for n
  proof -
    have "length (utoa n) \<le> 10" using that by (intro utoa_length) simp_all
    then have "strcpy_to MAX_CONFIG_STRING (ip @ CHR '':'' # utoa n) = ip @ CHR '':'' # utoa n"
      using assms(4,6) c_string_utoa [of n] by (intro strcpy_to_short) (auto simp: c_string_def config_limits)
    then show ?thesis using assms(4-6) that by (simp add: config_parse_address_def)
  qed
  moreover have "(word_of_nat (p + 65536) :: u16) = word_of_nat p"
    by (simp add: port_wraps(1))
  ultimately show ?thesis
    using config_validate_valid [of inet_ok cfg'] assms(2,3) by (simp add: config_validate_def Let_def assms(7))
qed

lemma parse_port_printed: "CHR '':'' \<notin> set ip \<Longrightarrow> n < 2 ^ 31 \<Longrightarrow> parse_port_from_addr (ip @ CHR '':'' # utoa n) = int n"
  by (simp add: parse_port_from_addr_def)

definition two_services :: roole_config where
  "two_services = sample_config\<lparr>ports := \<lparr>gossip_addr = ''127.0.0.1'' @ CHR '':'' # utoa 7000,
     data_addr = ''127.0.0.1'' @ CHR '':'' # utoa 7001, ingress_addr = [], metrics_addr = []\<rparr>, routers := []\<rparr>"

lemma two_services_valid: "valid_config (\<lambda>ip. ip = ''127.0.0.1'') two_services"
proof -
  have p: "parse_port_from_addr (''127.0.0.1'' @ CHR '':'' # utoa 7000) = 7000"
      "parse_port_from_addr (''127.0.0.1'' @ CHR '':'' # utoa 7001) = 7001" "parse_port_from_addr [] = 0"
    using parse_port_printed [of "''127.0.0.1''" 7000] parse_port_printed [of "''127.0.0.1''" 7001]
    by (simp_all add: parse_port_from_addr_def)
  have a: "before_char (CHR '':'') (''127.0.0.1'' @ CHR '':'' # utoa n) = ''127.0.0.1''" for n
    by (rule before_char_split) simp
  have "name_ok ''test''" by (simp add: name_ok_def name_char_def isalnum_def)
  then show ?thesis
    unfolding valid_config_def two_services_def sample_config_def
    by (simp add: p a required_port_ok_def optional_port_ok_def ports_distinct_def address_ok_def is_valid_port_def
        del: append_Cons append_Nil)
qed

theorem config_validate_iff_witness:
  "fst (config_validate (\<lambda>ip. ip = ''127.0.0.1'') two_services) = 0"
proof -
  have "ports two_services = \<lparr>gossip_addr = addr_text (''127.0.0.1'', 7000), data_addr = addr_text (''127.0.0.1'', 7001),
      ingress_addr = optional_text None, metrics_addr = optional_text None\<rparr>" "routers two_services = map addr_text []"
    by (simp_all add: two_services_def addr_text_def)
  moreover have "cfg_node_id two_services \<noteq> 0" "cfg_node_type two_services \<in> {NODE_TYPE_ROUTER, NODE_TYPE_WORKER}"
    "cluster_name two_services = ''test''"
    by (simp_all add: two_services_def sample_config_def)
  ultimately show ?thesis
    using config_validate_iff [of two_services "(''127.0.0.1'', 7000)" "(''127.0.0.1'', 7001)" None None "[]"
        "\<lambda>ip. ip = ''127.0.0.1''" "[7000, 7001]"]
    by (simp add: service_addr_def isalnum_def)
qed

theorem port_conflict_missed_witness:
  "fst (config_validate (\<lambda>ip. ip = ''127.0.0.1'') (two_services\<lparr>ports := (ports two_services)
      \<lparr>data_addr := ''127.0.0.1'' @ CHR '':'' # utoa 72536\<rparr>\<rparr>)) = 0"
  using port_conflict_missed [OF two_services_valid, of "''127.0.0.1''" 7000
      "two_services\<lparr>ports := (ports two_services)\<lparr>data_addr := ''127.0.0.1'' @ CHR '':'' # utoa 72536\<rparr>\<rparr>"]
  by (simp add: two_services_def c_string_def parse_port_from_addr_def)

end
