(* ===== verification/Node_Bootstrap.thy ===== *)
theory Node_Bootstrap
  imports Gossip_Properties Config Node_State
begin

text \<open>
  src/node/node_bootstrap.c: how a node joins through a seed router of its configuration. It sends
  a WORKER_JOIN datagram, waits for the answer (src/cluster/gossip_engine.c sends it from
  \<open>handle_worker_join_message\<close>) and puts the routers the answer lists into its peer pool. What the
  operating system returns is \<open>bootstrap_io\<close>; \<open>rand()\<close> and the clock are arguments. The state is the
  node's identity, its peer pool, the engine behind its membership handle and the datagrams sent
  from the bootstrap socket; the engine operations used here do not touch the pool.
\<close>

datatype receive_result = Receive_timeout | Receive_failed | Datagram bytes

record bootstrap_io =
  socket_ok :: bool
  inet_ok :: "string \<Rightarrow> bool"
  sendto_ok :: bool
  answer :: receive_result
  peer_malloc_ok :: "node_id \<Rightarrow> bool"
  peer_socket :: "node_id \<Rightarrow> int"
  peer_buffers_ok :: "node_id \<Rightarrow> bool"
  peer_connect_ok :: "node_id \<Rightarrow> bool"
  peer_garbage :: "node_id \<Rightarrow> bytes"

record joining_node =
  jn_identity :: node_identity
  jn_pool :: peer_pool
  jn_gossip :: gossip_engine
  jn_sent :: "datagram list"

definition announce :: "u64 \<Rightarrow> joining_node \<Rightarrow> joining_node" where
  "announce now n = n\<lparr>jn_gossip := gossip_engine_announce_join now (jn_gossip n)\<rparr>"

definition join_update :: "u64 \<Rightarrow> node_identity \<Rightarrow> gossip_member_update" where
  "join_update now ident =
     \<lparr>u_node_id = id_node_id ident, u_node_type = NODE_TYPE_WORKER,
      u_ip_address = strcpy_to MAX_IP_LEN (bind_addr ident), u_gossip_port = id_gossip_port ident,
      u_data_port = id_data_port ident, u_status = NODE_STATUS_ALIVE, u_incarnation = 0,
      u_timestamp_ms = now\<rparr>"

definition join_message :: "u64 \<Rightarrow> node_identity \<Rightarrow> gossip_message" where
  "join_message now ident = make_message GOSSIP_MSG_WORKER_JOIN (id_node_id ident) 1 [join_update now ident]"

text \<open>The data channel to a router: an allocation, then \<open>rpc_client_connect\<close>; NULL when one fails.\<close>

definition open_channel :: "bootstrap_io \<Rightarrow> node_id \<Rightarrow> string \<Rightarrow> rpc_channel option" where
  "open_channel io peer ip =
     (if \<not> peer_malloc_ok io peer then None
      else rpc_client_connect (peer_socket io peer) RPC_CHANNEL_DATA 4096 (peer_buffers_ok io peer)
             (inet_ok io ip) (peer_connect_ok io peer) (peer_garbage io peer))"

definition add_bootstrap_peer :: "bootstrap_io \<Rightarrow> u64 \<Rightarrow> peer_pool \<Rightarrow> bootstrap_router \<Rightarrow> peer_pool" where
  "add_bootstrap_peer io now pool r =
     (case config_parse_address (b_gossip_addr r) of (_, peer_gossip_port) \<Rightarrow>
      case config_parse_address (b_data_addr r) of (peer_data_ip, peer_data_port) \<Rightarrow>
      case peer_pool_add now pool (b_node_id r) peer_data_ip peer_gossip_port peer_data_port of (result, pool1) \<Rightarrow>
        if result \<noteq> RESULT_OK then pool1
        else case peer_pool_get pool1 (b_node_id r) of
          None \<Rightarrow> pool1
        | Some peer \<Rightarrow>
            if p_data_channel peer \<noteq> None then pool1
            else snd (update_peer pool1 (b_node_id r)
                   (\<lambda>p. p\<lparr>p_data_channel := open_channel io (b_node_id r) peer_data_ip\<rparr>)))"

text \<open>The answer. The lines that log its updates read \<open>num_updates\<close> entries of the array of ten.\<close>

definition bootstrap_answer :: "bootstrap_io \<Rightarrow> u64 \<Rightarrow> bytes \<Rightarrow> joining_node \<Rightarrow> c_error + result_status \<times> joining_node" where
  "bootstrap_answer io now recv n =
     (case gossip_message_deserialize recv of
        Inl Out_of_bounds \<Rightarrow> Inl Out_of_bounds
      | Inl Returns_minus_one \<Rightarrow> Inr (RESULT_ERR_INVALID, announce now n)
      | Inr response \<Rightarrow>
          if msg_type response \<noteq> GOSSIP_MSG_JOIN_RESPONSE then Inr (RESULT_ERR_INVALID, announce now n)
          else if length (updates response) < unat (num_updates response) then Inl Out_of_bounds
          else let header_size = 16 + unat (num_updates response) * 44
            in if length recv < header_size then Inr (RESULT_ERR_INVALID, announce now n)
            else case gossip_deserialize_bootstrap_response (drop header_size recv) of
              Inl Out_of_bounds \<Rightarrow> Inl Out_of_bounds
            | Inl Returns_minus_one \<Rightarrow> Inr (RESULT_ERR_INVALID, announce now n)
            | Inr data \<Rightarrow>
                if length (resp_routers data) < unat (num_routers data) then Inl Out_of_bounds
                else Inr (RESULT_OK, n\<lparr>jn_pool := foldl (add_bootstrap_peer io now) (jn_pool n)
                       (take (unat (num_routers data)) (resp_routers data))\<rparr>))"

definition node_bootstrap_from_config_ex ::
  "bootstrap_io \<Rightarrow> u64 \<Rightarrow> nat \<Rightarrow> roole_config \<Rightarrow> joining_node \<Rightarrow> c_error + result_status \<times> joining_node" where
  "node_bootstrap_from_config_ex io now random config n =
     (if routers config = [] then Inr (RESULT_OK, announce now n)
      else case config_parse_address (routers config ! (random mod length (routers config))) of
        (router_ip, router_gossip_port) \<Rightarrow>
          if \<not> socket_ok io then Inr (RESULT_ERR_NETWORK, n)
          else case gossip_message_serialize (join_message now (jn_identity n)) GOSSIP_MAX_PAYLOAD_SIZE of
            Inl Out_of_bounds \<Rightarrow> Inl Out_of_bounds
          | Inl Returns_minus_one \<Rightarrow> Inr (RESULT_ERR_INVALID, n)
          | Inr buffer \<Rightarrow>
              if \<not> inet_ok io router_ip then Inr (RESULT_ERR_INVALID, n)
              else if \<not> sendto_ok io then Inr (RESULT_ERR_NETWORK, n)
              else let sender = n\<lparr>jn_sent := jn_sent n @ [\<lparr>d_bytes = buffer, d_ip = router_ip, d_port = router_gossip_port\<rparr>]\<rparr>
                in case answer io of
                  Receive_timeout \<Rightarrow> Inr (RESULT_ERR_TIMEOUT, announce now sender)
                | Receive_failed \<Rightarrow> Inr (RESULT_ERR_NETWORK, sender)
                | Datagram packet \<Rightarrow> bootstrap_answer io now (take GOSSIP_MAX_PAYLOAD_SIZE packet) sender)"

text \<open>The retry loop from attempt \<open>k\<close> on, with the attempts still allowed.\<close>

fun bootstrap_loop ::
  "(nat \<Rightarrow> bootstrap_io \<times> u64 \<times> nat) \<Rightarrow> nat \<Rightarrow> nat \<Rightarrow> roole_config \<Rightarrow> joining_node \<Rightarrow> c_error + bool \<times> joining_node" where
  "bootstrap_loop env k 0 config n = Inr (False, n)"
| "bootstrap_loop env k (Suc left) config n =
     (case env k of (io, now, random) \<Rightarrow>
        and_then (node_bootstrap_from_config_ex io now random config n) (\<lambda>(result, n).
          if result = RESULT_OK then Inr (True, n) else bootstrap_loop env (Suc k) left config n))"

definition node_bootstrap_with_retry_ex ::
  "(nat \<Rightarrow> bootstrap_io \<times> u64 \<times> nat) \<Rightarrow> u64 \<Rightarrow> int \<Rightarrow> roole_config \<Rightarrow> joining_node \<Rightarrow> c_error + result_status \<times> joining_node" where
  "node_bootstrap_with_retry_ex env now retries config n =
     (if routers config = [] then Inr (RESULT_OK, announce now n)
      else and_then (bootstrap_loop env 0 (nat retries) config n) (\<lambda>(joined, n).
        Inr (if joined then (RESULT_OK, n) else (RESULT_ERR_TIMEOUT, announce now n))))"

section \<open>The routers of an answer become peers\<close>

definition live_routers :: "cluster_view \<Rightarrow> cluster_member list" where
  "live_routers v = filter (\<lambda>m. m_node_type m = NODE_TYPE_ROUTER \<and> m_status m = NODE_STATUS_ALIVE) (members v)"

text \<open>What the pool holds for a router afterwards.\<close>

definition router_peer :: "bootstrap_io \<Rightarrow> u64 \<Rightarrow> cluster_member \<Rightarrow> peer_info" where
  "router_peer io now m =
     (new_peer now (m_node_id m) (m_ip_address m) (m_gossip_port m) (m_data_port m))
       \<lparr>p_data_channel := open_channel io (m_node_id m) (m_ip_address m)\<rparr>"

definition plain_address :: "cluster_member \<Rightarrow> bool" where
  "plain_address m \<longleftrightarrow> c_string (m_ip_address m) \<and> length (m_ip_address m) < 16 \<and> CHR '':'' \<notin> set (m_ip_address m)"

lemma router_peer_id [simp]: "p_node_id (router_peer io now m) = m_node_id m"
  by (simp add: router_peer_def)

lemma entry_addresses:
  assumes "plain_address m"
  shows "config_parse_address (b_gossip_addr (bootstrap_entry m)) = (m_ip_address m, m_gossip_port m)"
    and "config_parse_address (b_data_addr (bootstrap_entry m)) = (m_ip_address m, m_data_port m)"
    and "b_node_id (bootstrap_entry m) = m_node_id m"
proof -
  have port: "length (utoa (unat p)) \<le> 5" "unat p < 2 ^ 31" for p :: u16
    using unsigned_less [of p, where ?'a = nat] by (auto intro!: utoa_length)
  have addr: "take (MAX_CONFIG_STRING - 1) (m_ip_address m @ '':'' @ utoa (unat p)) =
      m_ip_address m @ CHR '':'' # utoa (unat p)" for p :: u16
    using assms port(1) [of p] by (intro trans [OF take_all]) (auto simp: plain_address_def config_limits)
  have "config_parse_address (m_ip_address m @ CHR '':'' # utoa (unat p)) = (m_ip_address m, p)" for p :: u16
    using assms port(2) [of p] by (simp add: plain_address_def parse_printed_address)
  then show "config_parse_address (b_gossip_addr (bootstrap_entry m)) = (m_ip_address m, m_gossip_port m)"
    "config_parse_address (b_data_addr (bootstrap_entry m)) = (m_ip_address m, m_data_port m)"
    unfolding bootstrap_entry_def by (simp_all only: bootstrap_router.simps addr)
  show "b_node_id (bootstrap_entry m) = m_node_id m" by (simp add: bootstrap_entry_def)
qed

lemma add_router:
  assumes "plain_address m" and "m_node_id m \<notin> p_node_id ` set (peers pool)"
    and "length (peers pool) < pool_capacity pool"
  shows "add_bootstrap_peer io now pool (bootstrap_entry m) = pool\<lparr>peers := peers pool @ [router_peer io now m]\<rparr>"
proof -
  let ?p = "new_peer now (m_node_id m) (m_ip_address m) (m_gossip_port m) (m_data_port m)"
  let ?pool = "pool\<lparr>peers := peers pool @ [?p]\<rparr>"
  have none: "peer_index pool (m_node_id m) = None"
    using assms(2) by (simp add: peer_index_None_iff)
  have "peer_index ?pool (m_node_id m) = Some (length (peers pool))"
    using assms(2) unfolding peer_index_def
    by (intro find_index_intro) (auto simp: nth_append intro: rev_image_eqI [OF nth_mem])
  with none assms(3) show ?thesis
    by (simp add: add_bootstrap_peer_def entry_addresses [OF assms(1)] peer_pool_add_def
        peer_pool_get_def update_peer_def router_peer_def) (simp add: new_peer_def)
qed

lemma add_routers:
  "distinct (map m_node_id ms) \<Longrightarrow> list_all plain_address ms \<Longrightarrow>
   \<forall>m \<in> set ms. m_node_id m \<notin> p_node_id ` set (peers pool) \<Longrightarrow>
   length (peers pool) + length ms \<le> pool_capacity pool \<Longrightarrow>
   foldl (add_bootstrap_peer io now) pool (map bootstrap_entry ms) =
     pool\<lparr>peers := peers pool @ map (router_peer io now) ms\<rparr>"
proof (induction ms arbitrary: pool)
  case (Cons m ms)
  then have "add_bootstrap_peer io now pool (bootstrap_entry m) = pool\<lparr>peers := peers pool @ [router_peer io now m]\<rparr>"
    by (intro add_router) simp_all
  moreover have "foldl (add_bootstrap_peer io now) (pool\<lparr>peers := peers pool @ [router_peer io now m]\<rparr>)
      (map bootstrap_entry ms) = pool\<lparr>peers := (peers pool @ [router_peer io now m]) @ map (router_peer io now) ms\<rparr>"
    using Cons.prems by (subst Cons.IH) (auto simp: image_iff)
  ultimately show ?case by simp
qed simp

text \<open>A router's answer is accepted and its first ten live routers are added.\<close>

lemma bootstrap_from_response:
  assumes "list_all member_wf (members (view e))" and "view_ok (view e)"
    and "list_all plain_address (live_routers (view e))"
    and "peers (jn_pool n) = []" and "10 \<le> pool_capacity (jn_pool n)"
  shows "bootstrap_answer io now (join_response e) n = Inr (RESULT_OK,
    n\<lparr>jn_pool := (jn_pool n)\<lparr>peers := map (router_peer io now) (take 10 (live_routers (view e)))\<rparr>\<rparr>)"
proof -
  let ?ms = "take 10 (live_routers (view e))"
  let ?m = "make_message GOSSIP_MSG_JOIN_RESPONSE (my_id e) (e_sequence_num e) []"
  let ?rs = "map bootstrap_entry ?ms"
  have entries: "bootstrap_routers (view e) = \<lparr>num_routers = word_of_nat (min (length (live_routers (view e))) 16),
      resp_routers = map bootstrap_entry (take 16 (live_routers (view e)))
        @ replicate (16 - min (length (live_routers (view e))) 16) zero_router\<rparr>"
    by (simp add: bootstrap_routers_def collect_upto_eq live_routers_def config_limits min.commute)
  have k: "min (unat (num_routers (bootstrap_routers (view e)))) 10 = length ?ms"
    by (simp add: entries unat_word_of_nat)
  have "take (length ?ms) (resp_routers (bootstrap_routers (view e))) = ?rs"
    by (simp add: entries take_map min_def)
  then have jr: "join_response e = message_bytes ?m @ word_of_nat (length ?rs) # concat (map serialize_router ?rs)"
    unfolding no_updates_bytes by (simp add: join_response_def Let_def k)
  have msg: "gossip_message_deserialize (join_response e) = Inr ?m"
    unfolding jr using message_deserialize_bytes [OF make_message_ok(1) [of "[]"]]
    by (simp add: received_make_message gossip_size_defs)
  have "set ?ms \<subseteq> set (members (view e))"
    by (auto simp: live_routers_def dest: in_set_takeD)
  with assms(1) have "list_all router_ok ?rs"
    by (auto simp: list_all_iff intro!: bootstrap_entry_ok)
  moreover have "drop 16 (join_response e) = word_of_nat (length ?rs) # concat (map serialize_router ?rs)"
    unfolding jr no_updates_bytes by simp
  ultimately have data: "gossip_deserialize_bootstrap_response (drop 16 (join_response e)) =
      Inr \<lparr>num_routers = word_of_nat (length ?rs), resp_routers = ?rs @ replicate (MAX_CONFIG_ROUTERS - length ?rs) zero_router\<rparr>"
    using bootstrap_deserialize_bytes [of ?rs] by (simp only: length_map length_take)
  have "distinct (map m_node_id ?ms)"
    using assms(2) by (auto simp: table_ok_def live_routers_def distinct_map_filter distinct_take simp flip: take_map)
  moreover have "list_all plain_address ?ms"
    using assms(3) by (auto simp: list_all_iff dest: in_set_takeD)
  ultimately have "foldl (add_bootstrap_peer io now) (jn_pool n) ?rs =
      (jn_pool n)\<lparr>peers := map (router_peer io now) ?ms\<rparr>"
    using add_routers [of ?ms "jn_pool n" io now] assms(4,5) by simp
  moreover have "unat (word_of_nat (length ?rs) :: u8) = length ?rs"
    by (simp add: unat_word_of_nat)
  moreover have "16 \<le> length (join_response e)"
    unfolding jr no_updates_bytes by simp
  ultimately show ?thesis
    using msg data by (simp add: bootstrap_answer_def Let_def)
      (simp add: make_message_def config_limits)
qed

section \<open>The join handshake\<close>

lemma join_update_ok: "update_ok (join_update now ident)"
  by (simp add: update_ok_def join_update_def)

lemma join_request:
  "gossip_message_serialize (join_message now ident) GOSSIP_MAX_PAYLOAD_SIZE = Inr (message_bytes (join_message now ident))"
  "gossip_message_deserialize (take GOSSIP_MAX_PAYLOAD_SIZE (message_bytes (join_message now ident))) =
     Inr (join_message now ident)"
  "16 \<le> length (take GOSSIP_MAX_PAYLOAD_SIZE (message_bytes (join_message now ident)))"
proof -
  let ?us = "[join_update now ident]"
  have us: "length ?us \<le> GOSSIP_MAX_PIGGYBACK_UPDATES" "list_all update_ok ?us"
    by (simp_all add: join_update_ok gossip_size_defs)
  note ser = serialize_make_message [OF us, of GOSSIP_MSG_WORKER_JOIN "id_node_id ident" 1]
  show "gossip_message_serialize (join_message now ident) GOSSIP_MAX_PAYLOAD_SIZE = Inr (message_bytes (join_message now ident))"
    unfolding join_message_def by (rule ser(1))
  have whole: "take GOSSIP_MAX_PAYLOAD_SIZE (message_bytes (join_message now ident)) = message_bytes (join_message now ident)"
    unfolding join_message_def by (rule take_all [OF ser(2)])
  show "16 \<le> length (take GOSSIP_MAX_PAYLOAD_SIZE (message_bytes (join_message now ident)))"
    unfolding whole unfolding join_message_def ser(3) by simp
  show "gossip_message_deserialize (take GOSSIP_MAX_PAYLOAD_SIZE (message_bytes (join_message now ident))) =
     Inr (join_message now ident)"
    unfolding whole unfolding join_message_def
    using message_deserialize_bytes [OF make_message_ok(1) [OF us], of GOSSIP_MSG_WORKER_JOIN "id_node_id ident" 1 "[]"]
      received_make_message [OF us] by simp
qed

text \<open>What a router that does not know the node does with its request.\<close>

lemma seed_step:
  assumes "my_type seed = NODE_TYPE_ROUTER" and "id_node_id ident \<noteq> my_id seed"
    and "cluster_view_get (view seed) (id_node_id ident) = None"
  shows "listener_step later connect (message_bytes (join_message now ident)) ip port seed =
    Inr (send_join_response ip port (worker_join_process later connect (False, 0) (join_update now ident) ip seed))"
  using assms join_request [of now ident]
  by (simp add: listener_step_def) (simp add: dispatch_message_def handle_worker_join_message_def
      worker_rejoin_def join_message_def make_message_def fill_updates_def gossip_msg_defs)

lemma join_process_view:
  assumes "cluster_view_get (view e) (u_node_id u) = None" and "length (members (view e)) < view_capacity (view e)"
  shows "view (worker_join_process now connect (False, 0) u ip e) = (view e)\<lparr>members := members (view e)
    @ [(worker_member now u ip (False, 0))\<lparr>m_last_seen_ms := now\<rparr>]\<rparr>"
proof -
  have "member_index (view e) (u_node_id u) = None"
    using assms(1) by (simp add: member_index_None_iff get_None_iff)
  with assms(2) show ?thesis
    by (simp add: worker_join_process_def Let_def add_member_def cluster_view_add_def worker_member_def)
qed

text \<open>C25: The join handshake, from the request to both tables. A node with an empty pool that bootstraps
  through a router, no call of the operating system failing, sends one datagram; the router, which did
  not know it and has room in its view, enters it under its id with the address the datagram came
  from, alive and as a WORKER whatever its configured type is; and the node that receives the
  router's answer finishes with success and a pool that holds exactly the first ten ALIVE routers of
  the router's view (not its DEAD or SUSPECT ones, and no eleventh), with their addresses, ports and
  data channels.\<close>

theorem join_handshake:
  assumes "engine_wf seed" and "my_type seed = NODE_TYPE_ROUTER" and "id_node_id (jn_identity n) \<noteq> my_id seed"
    and "cluster_view_get (view seed) (id_node_id (jn_identity n)) = None"
    and "length (members (view seed)) < view_capacity (view seed)"
    and "list_all plain_address (live_routers (view seed))"
    and "peers (jn_pool n) = []" and "10 \<le> pool_capacity (jn_pool n)"
    and "routers config \<noteq> []"
    and "config_parse_address (routers config ! (random mod length (routers config))) = (seed_ip, seed_port)"
    and "socket_ok io" and "inet_ok io seed_ip" and "sendto_ok io"
  shows "\<exists>request seed' n'.
    listener_step later connect request ip port seed = Inr seed'
    \<and> cluster_view_get (view seed') (id_node_id (jn_identity n)) = Some (worker_member later
        (join_update now (jn_identity n)) ip (False, 0))
    \<and> node_bootstrap_from_config_ex (io\<lparr>answer := Datagram (d_bytes (last (sent seed')))\<rparr>) now random config n
        = Inr (RESULT_OK, n')
    \<and> jn_sent n' = jn_sent n @ [\<lparr>d_bytes = request, d_ip = seed_ip, d_port = seed_port\<rparr>]
    \<and> peers (jn_pool n') = map (router_peer io now) (take 10 (live_routers (view seed)))"
proof -
  let ?id = "jn_identity n"
  let ?u = "join_update now ?id"
  let ?w = "(worker_member later ?u ip (False, 0))\<lparr>m_last_seen_ms := later\<rparr>"
  let ?e = "worker_join_process later connect (False, 0) ?u ip seed"
  let ?req = "message_bytes (join_message now ?id)"
  let ?sent = "n\<lparr>jn_sent := jn_sent n @ [\<lparr>d_bytes = ?req, d_ip = seed_ip, d_port = seed_port\<rparr>]\<rparr>"
  have u: "u_node_id ?u = id_node_id ?id" by (simp add: join_update_def)
  have v: "view ?e = (view seed)\<lparr>members := members (view seed) @ [?w]\<rparr>"
    using assms(4,5) by (intro join_process_view) (simp_all add: u)
  have wf: "engine_wf ?e" using assms(1) by (intro worker_join_process_wf join_update_ok)
  then have wf': "list_all member_wf (members (view ?e))" "view_ok (view ?e)" by (simp_all add: engine_wf_def)
  have live: "live_routers (view ?e) = live_routers (view seed)"
    by (simp add: v live_routers_def worker_member_def)
  have ans: "send_join_response ip port ?e = send_datagram (join_response ?e) ip port (bump_sequence ?e)"
    and small: "length (join_response ?e) \<le> GOSSIP_MAX_PAYLOAD_SIZE"
    by (rule send_join_response_eq [OF wf'(1)])+
  let ?io = "io\<lparr>answer := Datagram (join_response ?e)\<rparr>"
  have "router_peer ?io now = router_peer io now"
    by (rule ext) (simp add: router_peer_def open_channel_def)
  then have peers: "bootstrap_answer ?io now (join_response ?e) ?sent = Inr (RESULT_OK, ?sent\<lparr>jn_pool :=
      (jn_pool n)\<lparr>peers := map (router_peer io now) (take 10 (live_routers (view seed)))\<rparr>\<rparr>)"
    using bootstrap_from_response [OF wf', of ?sent ?io now] assms(6-8) by (simp add: live)
  have "node_bootstrap_from_config_ex ?io now random config n = bootstrap_answer ?io now (join_response ?e) ?sent"
    using assms(9-13) small
    by (simp add: node_bootstrap_from_config_ex_def join_request(1))
  with peers have boot: "node_bootstrap_from_config_ex ?io now random config n = Inr (RESULT_OK, ?sent\<lparr>jn_pool :=
      (jn_pool n)\<lparr>peers := map (router_peer io now) (take 10 (live_routers (view seed)))\<rparr>\<rparr>)" by simp
  have "m_node_id ?w = id_node_id ?id" "?w = worker_member later ?u ip (False, 0)"
    by (simp_all add: worker_member_def u)
  moreover have "first_with m_node_id (id_node_id ?id) (members (view seed)) = None"
    using assms(4) by (simp add: get_eq_first_with)
  ultimately have known: "cluster_view_get (view (send_join_response ip port ?e)) (id_node_id ?id)
      = Some (worker_member later ?u ip (False, 0))"
    by (simp add: ans send_datagram_def bump_sequence_def v get_eq_first_with first_with_append)
  have "listener_step later connect ?req ip port seed = Inr (send_join_response ip port ?e)"
    using assms(2-4) by (rule seed_step)
  moreover have "d_bytes (last (sent (send_join_response ip port ?e))) = join_response ?e"
    by (simp add: ans send_datagram_def)
  ultimately show ?thesis using known boot
    by (intro exI [of _ ?req] exI [of _ "send_join_response ip port ?e"] exI conjI) (assumption | simp)+
qed

definition seed_engine :: gossip_engine where
  "seed_engine = engine_with [mk_member 1 NODE_TYPE_ROUTER NODE_STATUS_ALIVE 0,
     mk_member 2 NODE_TYPE_WORKER NODE_STATUS_ALIVE 0, mk_member 3 NODE_TYPE_ROUTER NODE_STATUS_DEAD 0]"

definition good_io :: bootstrap_io where
  "good_io = \<lparr>socket_ok = True, inet_ok = (\<lambda>_. True), sendto_ok = True, answer = Receive_timeout,
     peer_malloc_ok = (\<lambda>_. True), peer_socket = (\<lambda>_. 9), peer_buffers_ok = (\<lambda>_. True),
     peer_connect_ok = (\<lambda>_. True), peer_garbage = (\<lambda>_. [])\<rparr>"

definition joiner :: joining_node where
  "joiner = \<lparr>jn_identity = \<lparr>id_node_id = 100, id_node_type = NODE_TYPE_ROUTER,
       id_cluster_name = ''test'', bind_addr = ''0.0.0.0'',
       id_gossip_port = 7100, id_data_port = 7101, id_ingress_port = 7102, id_metrics_port = 7103\<rparr>,
     jn_pool = \<lparr>peers = [], pool_capacity = 64, pp_closed = []\<rparr>, jn_gossip = engine_with [], jn_sent = []\<rparr>"

lemma seed_engine_facts:
  "engine_wf seed_engine" "my_type seed_engine = NODE_TYPE_ROUTER" "my_id seed_engine = 1"
  "cluster_view_get (view seed_engine) 100 = None" "length (members (view seed_engine)) < view_capacity (view seed_engine)"
  "list_all plain_address (live_routers (view seed_engine))"
  "live_routers (view seed_engine) = [mk_member 1 NODE_TYPE_ROUTER NODE_STATUS_ALIVE 0]"
  unfolding seed_engine_def
  by (intro engine_with_wf)
    (simp_all add: table_ok_def get_eq_first_with live_routers_def plain_address_def mk_member_def
      member_wf_def MAX_IP_LEN_def c_string_def)

lemma joiner_facts:
  "id_node_id (jn_identity joiner) = 100" "peers (jn_pool joiner) = []" "10 \<le> pool_capacity (jn_pool joiner)"
  "jn_sent joiner = []" "socket_ok good_io" "inet_ok good_io a" "sendto_ok good_io"
  by (simp_all add: joiner_def good_io_def)

theorem join_handshake_witness:
  "\<exists>request seed' n'.
    listener_step 50 None request ''10.0.0.9'' 7100 seed_engine = Inr seed'
    \<and> map_option m_node_type (cluster_view_get (view seed') 100) = Some NODE_TYPE_WORKER
    \<and> node_bootstrap_from_config_ex (good_io\<lparr>answer := Datagram (d_bytes (last (sent seed')))\<rparr>) 60 5 sample_config joiner
        = Inr (RESULT_OK, n')
    \<and> map p_node_id (peers (jn_pool n')) = [1]"
proof -
  have pre: "routers sample_config \<noteq> []" "id_node_id (jn_identity joiner) \<noteq> my_id seed_engine"
    "cluster_view_get (view seed_engine) (id_node_id (jn_identity joiner)) = None"
    by (simp_all add: sample_config_def joiner_facts seed_engine_facts)
  obtain seed_ip seed_port where addr:
    "config_parse_address (routers sample_config ! (5 mod length (routers sample_config))) = (seed_ip, seed_port)"
    by fastforce
  from join_handshake [OF seed_engine_facts(1,2) pre(2,3) seed_engine_facts(5,6) joiner_facts(2,3) pre(1) addr
      joiner_facts(5,6,7), of 50 None "''10.0.0.9''" 7100 60]
  obtain request seed' n' where h: "listener_step 50 None request ''10.0.0.9'' 7100 seed_engine = Inr seed'"
    "cluster_view_get (view seed') (id_node_id (jn_identity joiner)) = Some (worker_member 50
        (join_update 60 (jn_identity joiner)) ''10.0.0.9'' (False, 0))"
    "node_bootstrap_from_config_ex (good_io\<lparr>answer := Datagram (d_bytes (last (sent seed')))\<rparr>) 60 5 sample_config joiner
        = Inr (RESULT_OK, n')"
    "peers (jn_pool n') = map (router_peer good_io 60) (take 10 (live_routers (view seed_engine)))" by blast
  have "map p_node_id (peers (jn_pool n')) = [1]" unfolding h(4) seed_engine_facts by simp
  moreover have "map_option m_node_type (cluster_view_get (view seed') 100) = Some NODE_TYPE_WORKER"
    using h(2) by (simp add: joiner_facts worker_member_def)
  ultimately show ?thesis using h(1,3)
    by (intro exI [of _ request] exI [of _ seed'] exI [of _ n']) simp
qed

section \<open>Retrying\<close>

definition addresses_of_peer :: "peer_info \<Rightarrow> node_id \<times> string \<times> u16 \<times> u16" where
  "addresses_of_peer p = (p_node_id p, p_ip p, p_gossip_port p, p_data_port p)"

definition addresses_of_member :: "cluster_member \<Rightarrow> node_id \<times> string \<times> u16 \<times> u16" where
  "addresses_of_member m = (m_node_id m, m_ip_address m, m_gossip_port m, m_data_port m)"

text \<open>What comes of one attempt, whatever the operating system and the network do: it is lost (and the
  node has announced itself, or not), it delivers routers, or its reply is read out of bounds: it
  announces more entries than the arrays have, or holds an address without a terminating NUL.\<close>

datatype attempt = Lost bool | Overread | Found "bootstrap_router list"

definition reply_attempt :: "bytes \<Rightarrow> attempt" where
  "reply_attempt recv =
     (case gossip_message_deserialize recv of
        Inl _ \<Rightarrow> Lost True
      | Inr m \<Rightarrow>
          let header_size = 16 + unat (num_updates m) * 44
          in if msg_type m \<noteq> GOSSIP_MSG_JOIN_RESPONSE then Lost True
             else if GOSSIP_MAX_PIGGYBACK_UPDATES < unat (num_updates m) then Overread
             else if length recv < header_size then Lost True
             else (case gossip_deserialize_bootstrap_response (drop header_size recv) of
                 Inl e \<Rightarrow> if e = Out_of_bounds then Overread else Lost True
               | Inr data \<Rightarrow>
                   if MAX_CONFIG_ROUTERS < unat (num_routers data) then Overread
                   else Found (take (unat (num_routers data)) (resp_routers data))))"

definition attempt_of :: "roole_config \<Rightarrow> bootstrap_io \<times> u64 \<times> nat \<Rightarrow> attempt" where
  "attempt_of config = (\<lambda>(io, now, random).
     if \<not> socket_ok io \<or> \<not> inet_ok io (fst (config_parse_address (routers config ! (random mod length (routers config)))))
          \<or> \<not> sendto_ok io then Lost False
     else case answer io of
       Receive_timeout \<Rightarrow> Lost True
     | Receive_failed \<Rightarrow> Lost False
     | Datagram packet \<Rightarrow> reply_attempt (take GOSSIP_MAX_PAYLOAD_SIZE packet))"

definition announced :: "bool \<Rightarrow> u64 \<Rightarrow> gossip_engine \<Rightarrow> gossip_engine" where
  "announced b now g = (if b then gossip_engine_announce_join now g else g)"

lemma message_deserialize_total: "gossip_message_deserialize bs \<noteq> Inl Out_of_bounds"
  by (simp add: gossip_message_deserialize_def Let_def)

lemma deserialize_routers_length: "deserialize_routers n bs = Inr rs \<Longrightarrow> length rs \<le> n"
  by (induction n arbitrary: bs rs) (auto split: if_splits sum.splits)

lemma response_length:
  "gossip_deserialize_bootstrap_response bs = Inr data \<Longrightarrow> length (resp_routers data) = MAX_CONFIG_ROUTERS"
  by (auto simp: gossip_deserialize_bootstrap_response_def Let_def split: if_splits sum.splits
      dest!: deserialize_routers_length)

lemma reply_attempt_outcome:
  "case reply_attempt recv of
     Overread \<Rightarrow> bootstrap_answer io now recv n = Inl Out_of_bounds
   | Lost b \<Rightarrow> b \<and> bootstrap_answer io now recv n = Inr (RESULT_ERR_INVALID, announce now n)
   | Found rs \<Rightarrow> bootstrap_answer io now recv n
       = Inr (RESULT_OK, n\<lparr>jn_pool := foldl (add_bootstrap_peer io now) (jn_pool n) rs\<rparr>)"
proof (cases "gossip_message_deserialize recv")
  case (Inl e)
  with message_deserialize_total [of recv] show ?thesis
    by (cases e) (simp_all add: reply_attempt_def bootstrap_answer_def)
next
  case (Inr m)
  note len = deserialized_updates_ok [OF Inr]
  show ?thesis
  proof (cases "gossip_deserialize_bootstrap_response (drop (16 + unat (num_updates m) * 44) recv)")
    case (Inl e)
    with Inr len show ?thesis
      by (cases e) (simp_all add: reply_attempt_def bootstrap_answer_def Let_def)
  next
    case (Inr data)
    with \<open>gossip_message_deserialize recv = Inr m\<close> len response_length [OF Inr] show ?thesis
      by (simp add: reply_attempt_def bootstrap_answer_def Let_def)
  qed
qed

lemma attempt_outcome:
  assumes "routers config \<noteq> []"
  shows "case attempt_of config (io, now, random) of
     Overread \<Rightarrow> node_bootstrap_from_config_ex io now random config n = Inl Out_of_bounds
   | Lost b \<Rightarrow> \<exists>r n'. node_bootstrap_from_config_ex io now random config n = Inr (r, n') \<and> r \<noteq> RESULT_OK
       \<and> jn_pool n' = jn_pool n \<and> jn_gossip n' = announced b now (jn_gossip n)
   | Found rs \<Rightarrow> \<exists>n'. node_bootstrap_from_config_ex io now random config n = Inr (RESULT_OK, n')
       \<and> jn_gossip n' = jn_gossip n \<and> jn_pool n' = foldl (add_bootstrap_peer io now) (jn_pool n) rs"
proof (cases "\<exists>packet. socket_ok io \<and> inet_ok io (fst (config_parse_address (routers config ! (random mod length (routers config)))))
    \<and> sendto_ok io \<and> answer io = Datagram packet")
  case True
  then obtain packet where p: "socket_ok io" "inet_ok io (fst (config_parse_address (routers config ! (random mod length (routers config)))))"
    "sendto_ok io" "answer io = Datagram packet" by blast
  obtain ip port where a: "config_parse_address (routers config ! (random mod length (routers config))) = (ip, port)" by fastforce
  let ?recv = "take GOSSIP_MAX_PAYLOAD_SIZE packet"
  let ?n = "n\<lparr>jn_sent := jn_sent n @ [\<lparr>d_bytes = message_bytes (join_message now (jn_identity n)), d_ip = ip, d_port = port\<rparr>]\<rparr>"
  have "node_bootstrap_from_config_ex io now random config n = bootstrap_answer io now ?recv ?n"
    using p assms a by (simp add: node_bootstrap_from_config_ex_def join_request(1) Let_def)
  moreover have "attempt_of config (io, now, random) = reply_attempt ?recv" using p by (simp add: attempt_of_def)
  ultimately show ?thesis
    using reply_attempt_outcome [where recv = ?recv and io = io and now = now and n = ?n]
    by (auto simp: announce_def announced_def split: attempt.splits)
next
  case False
  then show ?thesis
    using assms by (auto simp: attempt_of_def node_bootstrap_from_config_ex_def join_request(1) Let_def announce_def announced_def
        split: prod.splits receive_result.splits)
qed

definition unanswered :: "roole_config \<Rightarrow> bootstrap_io \<times> u64 \<times> nat \<Rightarrow> bool" where
  "unanswered config x \<longleftrightarrow> (\<exists>b. attempt_of config x = Lost b)"

text \<open>The engine after lost attempts: it has announced itself in those that say so.\<close>

definition after_lost :: "roole_config \<Rightarrow> (bootstrap_io \<times> u64 \<times> nat) list \<Rightarrow> gossip_engine \<Rightarrow> gossip_engine" where
  "after_lost config xs g =
     foldl (\<lambda>g x. announced (attempt_of config x = Lost True) (fst (snd x)) g) g xs"

lemma bootstrap_loop_outcome:
  fixes env :: "nat \<Rightarrow> bootstrap_io \<times> u64 \<times> nat" and k left :: nat and config :: roole_config and n :: joining_node
  assumes "routers config \<noteq> []"
  defines "xs \<equiv> map env [k..<k + left]"
  defines "g \<equiv> after_lost config (takeWhile (unanswered config) xs) (jn_gossip n)"
  shows "case dropWhile (unanswered config) xs of
      [] \<Rightarrow> \<exists>n'. bootstrap_loop env k left config n = Inr (False, n') \<and> jn_pool n' = jn_pool n \<and> jn_gossip n' = g
    | (io, t, random) # later \<Rightarrow>
        (case attempt_of config (io, t, random) of
           Lost b \<Rightarrow> False
         | Overread \<Rightarrow> bootstrap_loop env k left config n = Inl Out_of_bounds
         | Found rs \<Rightarrow> \<exists>n'. bootstrap_loop env k left config n = Inr (True, n')
             \<and> jn_pool n' = foldl (add_bootstrap_peer io t) (jn_pool n) rs \<and> jn_gossip n' = g)"
  unfolding g_def xs_def
proof (induction left arbitrary: k n)
  case 0
  then show ?case by (simp add: after_lost_def)
next
  case (Suc left)
  obtain io now random where env: "env k = (io, now, random)" by (cases "env k") auto
  have range: "map env [k..<k + Suc left] = env k # map env [Suc k..<Suc k + left]"
    by (simp add: upt_conv_Cons del: upt_Suc)
  show ?case
  proof (cases "attempt_of config (io, now, random)")
    case (Lost b)
    with attempt_outcome [OF assms(1), of io now random n] obtain r n1 where n1:
      "node_bootstrap_from_config_ex io now random config n = Inr (r, n1)" "r \<noteq> RESULT_OK"
      "jn_pool n1 = jn_pool n" "jn_gossip n1 = announced b now (jn_gossip n)" by auto
    have step: "bootstrap_loop env k (Suc left) config n = bootstrap_loop env (Suc k) left config n1"
      using n1(1,2) by (simp add: env)
    have u: "unanswered config (env k)" using Lost by (simp add: unanswered_def env)
    then have "after_lost config (takeWhile (unanswered config) (env k # ys)) (jn_gossip n)
        = after_lost config (takeWhile (unanswered config) ys) (jn_gossip n1)"
      and "dropWhile (unanswered config) (env k # ys) = dropWhile (unanswered config) ys" for ys
      using Lost n1(4) by (simp_all add: after_lost_def env)
    then show ?thesis
      using Suc.IH [of "Suc k" n1] unfolding range step n1(3) by (simp only:)
  next
    case Overread
    then have "\<not> unanswered config (env k)" by (simp add: unanswered_def env)
    with Overread attempt_outcome [OF assms(1), of io now random n] show ?thesis unfolding range by (simp add: env del: upt_Suc)
  next
    case (Found rs)
    then have "\<not> unanswered config (env k)" by (simp add: unanswered_def env)
    with Found attempt_outcome [OF assms(1), of io now random n] show ?thesis
      unfolding range by (auto simp: env after_lost_def simp del: upt_Suc)
  qed
qed

text \<open>An attempt whose request gets the answer \<open>bs\<close>.\<close>

definition answers :: "bytes \<Rightarrow> bootstrap_io \<Rightarrow> bool" where
  "answers bs io \<longleftrightarrow> socket_ok io \<and> sendto_ok io \<and> inet_ok io = (\<lambda>_. True) \<and> answer io = Datagram bs"

lemma router_peer_addresses:
  assumes "list_all plain_address ms"
  shows "map (addresses_of_peer \<circ> router_peer io now) ms = map addresses_of_member ms"
  using assms by (auto simp: list_all_iff addresses_of_peer_def addresses_of_member_def router_peer_def
      new_peer_def plain_address_def MAX_IP_LEN_def)

lemma seed_attempt:
  assumes "engine_wf seed" and "list_all plain_address (live_routers (view seed))"
    and "answers (join_response seed) io" and "peers pool = []" and "10 \<le> pool_capacity pool"
  shows "\<exists>rs. attempt_of config (io, t, random) = Found rs \<and>
    map addresses_of_peer (peers (foldl (add_bootstrap_peer io t) pool rs)) =
      map addresses_of_member (take 10 (live_routers (view seed)))"
proof -
  have wf: "list_all member_wf (members (view seed))" "view_ok (view seed)" using assms(1) by (simp_all add: engine_wf_def)
  let ?n = "\<lparr>jn_identity = undefined, jn_pool = pool, jn_gossip = seed, jn_sent = []\<rparr>"
  let ?ms = "take 10 (live_routers (view seed))"
  have small: "take GOSSIP_MAX_PAYLOAD_SIZE (join_response seed) = join_response seed"
    using send_join_response_eq(2) [OF wf(1)] by simp
  have ans: "bootstrap_answer io t (join_response seed) ?n = Inr (RESULT_OK, ?n\<lparr>jn_pool := pool\<lparr>peers := map (router_peer io t) ?ms\<rparr>\<rparr>)"
    using bootstrap_from_response [OF wf assms(2), of ?n io t] assms(4,5) by simp
  obtain rs where rs: "reply_attempt (join_response seed) = Found rs"
    "foldl (add_bootstrap_peer io t) pool rs = pool\<lparr>peers := map (router_peer io t) ?ms\<rparr>"
    using reply_attempt_outcome [where recv = "join_response seed" and io = io and now = t and n = ?n] ans by (auto split: attempt.splits)
  have "list_all plain_address ?ms" using assms(2) by (auto simp: list_all_iff dest: in_set_takeD)
  then show ?thesis
    using rs assms(3) small by (simp add: attempt_of_def answers_def router_peer_addresses)
qed



end
