(* ===== verification/Metrics_Listener.thy ===== *)
theory Metrics_Listener
  imports Metrics_Server Gossip_Transport
begin

text \<open>
  The socket side of src/core/metrics_server.c: \<open>setup_server_socket\<close>, the loop of
  \<open>metrics_server_thread_fn\<close> with the connections it accepts, and what \<open>metrics_server_shutdown\<close>
  does to the socket. The open descriptors of the process are part of the state; the results of the
  socket calls are arguments. The structure the thread uses after the shutdown has freed it is the
  subject of \<open>Metrics_Server\<close>; here the thread ends in time.
\<close>

section \<open>The listening socket\<close>

record tcp_sockets =
  ts_open :: "int set"
  ts_listening :: "int \<Rightarrow> sockaddr_in option"

definition close_tcp :: "int \<Rightarrow> tcp_sockets \<Rightarrow> tcp_sockets" where
  "close_tcp fd k = k\<lparr>ts_open := ts_open k - {fd}, ts_listening := (ts_listening k)(fd := None)\<rparr>"

text \<open>\<open>SO_REUSEADDR\<close>, \<open>SO_REUSEPORT\<close> and \<open>O_NONBLOCK\<close> may fail without consequence.\<close>

record tcp_calls =
  tc_socket :: int
  tc_bind_ok :: bool
  tc_listen_ok :: bool

definition setup_server_socket :: "tcp_calls \<Rightarrow> string \<Rightarrow> u16 \<Rightarrow> tcp_sockets \<Rightarrow> int \<times> tcp_sockets" where
  "setup_server_socket calls bind_addr port k =
     (let server_fd = tc_socket calls in
      if server_fd < 0 then (-1, k)
      else
        let k = k\<lparr>ts_open := insert server_fd (ts_open k)\<rparr> in
        case inet_pton bind_addr of
          None \<Rightarrow> (-1, close_tcp server_fd k)
        | Some a \<Rightarrow>
            if \<not> tc_bind_ok calls then (-1, close_tcp server_fd k)
            else if \<not> tc_listen_ok calls then (-1, close_tcp server_fd k)
            else (server_fd, k\<lparr>ts_listening := (ts_listening k)(server_fd \<mapsto> socket_address a port)\<rparr>))"

section \<open>Clients\<close>

text \<open>A connection: its descriptor, what \<open>recv\<close> delivers, the registry at that time, and the results of
  the calls that answer it.\<close>

record http_client =
  hc_fd :: int
  hc_request :: "string option"
  hc_registry :: metrics_registry
  hc_malloc_ok :: bool
  hc_sent_header :: "nat option"
  hc_sent_body :: "nat option"

definition http_response :: "http_client \<Rightarrow> c_error + string" where
  "http_response c = handle_http_request (hc_malloc_ok c) (hc_registry c) (hc_request c) (hc_sent_header c) (hc_sent_body c)"

definition handle_client_connection :: "http_client \<Rightarrow> tcp_sockets \<Rightarrow> c_error + string \<times> tcp_sockets" where
  "handle_client_connection c k = and_then (http_response c) (\<lambda>out. Inr (out, close_tcp (hc_fd c) k))"

section \<open>The server thread\<close>

text \<open>The state of the server that is running, with what its clients have received.\<close>

record http_server =
  http_fd :: int
  http_shutdown :: bool
  http_sockets :: tcp_sockets
  http_sent :: "(int \<times> string) list"

text \<open>\<open>metrics_server_shutdown\<close> up to its wait: the thread that owns the server sets the flag and closes
  the socket.\<close>

definition request_shutdown :: "http_server \<Rightarrow> http_server" where
  "request_shutdown s =
     (let s = s\<lparr>http_shutdown := True\<rparr>
      in if 0 \<le> http_fd s then s\<lparr>http_sockets := close_tcp (http_fd s) (http_sockets s), http_fd := -1\<rparr> else s)"

datatype accept_result = Accept_again | Accept_interrupted | Accept_failed | Accepted http_client

datatype wait_result = Wait_interrupted | Wait_broken | Wait_timeout | Wait_ready accept_result

text \<open>A turn of the loop; the owner may shut the server down before it or while the thread waits.\<close>

record http_turn =
  owner_before :: bool
  owner_during :: bool
  wait_result :: wait_result

definition end_thread :: "http_server \<Rightarrow> http_server" where
  "end_thread s =
     (if 0 \<le> http_fd s then s\<lparr>http_sockets := close_tcp (http_fd s) (http_sockets s), http_fd := -1\<rparr> else s)"

fun http_loop :: "http_turn list \<Rightarrow> http_server \<Rightarrow> c_error + bool \<times> http_server" where
  "http_loop [] s = Inr (False, s)"
| "http_loop (t # ts) s =
     (let s = (if owner_before t then request_shutdown s else s)
      in if http_shutdown s then Inr (True, end_thread s)
         else
           let s = (if owner_during t then request_shutdown s else s)
           in case wait_result t of
                Wait_interrupted \<Rightarrow> http_loop ts s
              | Wait_broken \<Rightarrow> Inr (True, end_thread s)
              | Wait_timeout \<Rightarrow> http_loop ts s
              | Wait_ready r \<Rightarrow>
                  (case r of
                     Accept_again \<Rightarrow> http_loop ts s
                   | Accept_failed \<Rightarrow> if http_shutdown s then Inr (True, end_thread s) else http_loop ts s
                   | Accept_interrupted \<Rightarrow> if http_shutdown s then Inr (True, end_thread s) else http_loop ts s
                   | Accepted c \<Rightarrow>
                       let k = http_sockets s
                       in and_then (handle_client_connection c (k\<lparr>ts_open := insert (hc_fd c) (ts_open k)\<rparr>)) (\<lambda>(out, k).
                            http_loop ts (s\<lparr>http_sockets := k, http_sent := http_sent s @ [(hc_fd c, out)]\<rparr>))))"

definition metrics_server_thread_fn ::
  "tcp_calls \<Rightarrow> string \<Rightarrow> u16 \<Rightarrow> http_turn list \<Rightarrow> tcp_sockets \<Rightarrow> c_error + bool \<times> http_server" where
  "metrics_server_thread_fn calls bind_addr port turns k =
     (case setup_server_socket calls bind_addr port k of
        (server_fd, k) \<Rightarrow>
          let s = \<lparr>http_fd = server_fd, http_shutdown = False, http_sockets = k, http_sent = []\<rparr>
          in if server_fd < 0 then Inr (True, s) else http_loop turns s)"

section \<open>Every client is answered\<close>

text \<open>What a client sends in its first segment, the only one the server reads: nothing (or the read
  fails), less than a method and a path, or a request line of a method and a path, with anything behind
  it. The registry has to fit the rendering buffer when it is what the client asks for.\<close>

datatype http_ask = No_request | Broken_request | Request_line string string

definition renders :: "metrics_registry \<Rightarrow> bool" where
  "renders reg \<longleftrightarrow> length (exposition reg) + 2048 < 65536
     \<and> (\<forall>h \<in> set (histograms reg). length (labels_text (h_labels h)) < 512)"

definition asks :: "http_client \<Rightarrow> http_ask \<Rightarrow> bool" where
  "asks c a = (case a of
     No_request \<Rightarrow> hc_request c = None \<or> hc_request c = Some []
   | Broken_request \<Rightarrow> (\<exists>before w after rest. hc_request c = Some (before @ w @ after @ rest) \<and> before @ w @ after @ rest \<noteq> []
       \<and> (\<forall>x \<in> set (before @ after). isspace x) \<and> (\<forall>x \<in> set w. \<not> isspace x \<and> x \<noteq> NUL) \<and> length w \<le> 63
       \<and> (rest = [] \<or> hd rest = NUL))
   | Request_line m p \<Rightarrow> (\<exists>rest. hc_request c = Some (m @ CHR '' '' # p @ rest) \<and> no_space m \<and> c_string m \<and> length m \<le> 63
       \<and> no_space p \<and> c_string p \<and> length p \<le> 255 \<and> (rest = [] \<or> isspace (hd rest) \<or> hd rest = NUL)
       \<and> (m = ''GET'' \<and> p = ''/metrics'' \<and> hc_malloc_ok c \<longrightarrow> renders (hc_registry c))))"

text \<open>The response that belongs to it: status, content type and body.\<close>

definition response_to :: "http_client \<Rightarrow> http_ask \<Rightarrow> (string \<times> string \<times> string) option" where
  "response_to c a = (case a of
     No_request \<Rightarrow> None
   | Broken_request \<Rightarrow> Some (''400 Bad Request'', ''text/plain'', ''400 Bad Request'' @ [newline])
   | Request_line m p \<Rightarrow> Some
       (if m = ''GET'' \<and> p = ''/metrics'' \<and> \<not> hc_malloc_ok c
        then (''500 Internal Server Error'', ''text/plain'', ''500 Internal Server Error'' @ [newline])
        else http_answer (hc_registry c) m p))"

text \<open>What of a response reaches the client: the header and then the body are each given to the kernel
  once, and what it does not take is lost.\<close>

definition delivered :: "http_client \<Rightarrow> http_ask \<Rightarrow> string" where
  "delivered c a = (case response_to c a of
     None \<Rightarrow> []
   | Some (status, content_type, body) \<Rightarrow>
       (case hc_sent_header c of
          None \<Rightarrow> []
        | Some n \<Rightarrow> take n (http_header status content_type (length body))
            @ (case hc_sent_body c of None \<Rightarrow> [] | Some k \<Rightarrow> take k body)))"

lemma send_parts:
  assumes "length status \<le> 100" and "length content_type \<le> 100" and "length body < 10 ^ 10"
  shows "send_http_response status content_type body sent_header sent_body = (case sent_header of
      None \<Rightarrow> []
    | Some n \<Rightarrow> take n (http_header status content_type (length body)) @ (case sent_body of None \<Rightarrow> [] | Some k \<Rightarrow> take k body))"
proof -
  have "length (utoa (length body)) \<le> 10" using assms(3) by (intro utoa_length) simp_all
  then have "length (http_header status content_type (length body)) < 1024"
    using assms(1,2) by (simp add: http_header_def crlf_def)
  then show ?thesis by (auto simp: send_http_response_def split: option.split)
qed

abbreviation request_text :: "string \<Rightarrow> string" where
  "request_text request \<equiv> takeWhile (\<lambda>c. c \<noteq> NUL) (take (MAX_REQUEST_SIZE - 1) request)"

lemma text_of_line:
  assumes "c_string line" and "length line < 4095" and "rest = [] \<or> isspace (hd rest) \<or> hd rest = NUL"
  shows "\<exists>rest'. request_text (line @ rest) = line @ rest' \<and> (rest' = [] \<or> isspace (hd rest'))"
proof -
  let ?r = "take (4095 - length line) rest"
  have "request_text (line @ rest) = line @ takeWhile (\<lambda>c. c \<noteq> NUL) ?r"
    using assms(1,2) by (auto simp: MAX_REQUEST_SIZE_def c_string_def takeWhile_append)
  moreover have "takeWhile (\<lambda>c. c \<noteq> NUL) ?r = [] \<or> isspace (hd (takeWhile (\<lambda>c. c \<noteq> NUL) ?r))"
    using assms(2,3) by (cases rest; cases "4095 - length line") auto
  ultimately show ?thesis by blast
qed

lemma line_parsed:
  assumes "no_space m" "c_string m" "length m \<le> 63" "no_space p" "c_string p" "length p \<le> 255"
    and "rest = [] \<or> isspace (hd rest) \<or> hd rest = NUL"
  shows "parse_http_request (request_text (m @ CHR '' '' # p @ rest)) = Some (m, p)"
proof -
  have "c_string (m @ CHR '' '' # p)" "length (m @ CHR '' '' # p) < 4095"
    using assms(2,3,5,6) by (auto simp: c_string_def)
  from text_of_line [OF this assms(7)] obtain rest' where
    "request_text (m @ CHR '' '' # p @ rest) = m @ CHR '' '' # p @ rest'" "rest' = [] \<or> isspace (hd rest')" by auto
  with parse_request_line [OF assms(1,3,4,6), of rest'] show ?thesis by simp
qed

lemma blank_no_token: "\<forall>x \<in> set s. isspace x \<Longrightarrow> scan_token n s = None"
  by (simp add: scan_token_def Let_def dropWhile_eq_Nil_conv [THEN iffD2])

lemma broken_not_parsed:
  assumes "\<forall>x \<in> set (before @ after). isspace x" and "\<forall>x \<in> set w. \<not> isspace x \<and> x \<noteq> NUL" and "length w \<le> 63"
    and "rest = [] \<or> hd rest = NUL"
  shows "parse_http_request (request_text (before @ w @ after @ rest)) = None"
proof -
  have nul: "\<not> isspace NUL" by (simp add: isspace_def)
  let ?text = "request_text (before @ w @ after @ rest)"
  have all: "x \<noteq> NUL" if "x \<in> set (before @ w @ after)" for x using that assms(1,2) nul by auto
  have "\<exists>n. ?text = take n (before @ w @ after)"
  proof (cases "length (before @ w @ after) < 4095")
    case True
    have "takeWhile (\<lambda>c. c \<noteq> NUL) (take j rest) = []" for j using assms(4) by (cases rest; cases j) auto
    with True all have "?text = before @ w @ after"
      by (simp add: MAX_REQUEST_SIZE_def takeWhile_append)
    then show ?thesis by (intro exI [of _ "length (before @ w @ after)"]) simp
  next
    case False
    have "?text = takeWhile (\<lambda>c. c \<noteq> NUL) (take 4095 ((before @ w @ after) @ rest))" by (simp add: MAX_REQUEST_SIZE_def)
    also have "take 4095 ((before @ w @ after) @ rest) = take 4095 (before @ w @ after)" using False by simp
    also have "takeWhile (\<lambda>c. c \<noteq> NUL) (take 4095 (before @ w @ after)) = take 4095 (before @ w @ after)"
      using all by (subst takeWhile_eq_all_conv) (blast dest: in_set_takeD)
    finally show ?thesis by blast
  qed
  then obtain n where n: "?text = take n before @ take (n - length before) w @ take (n - length before - length w) after"
    by auto
  let ?w = "take (n - length before) w" and ?a = "take (n - length before - length w) after"
  have b: "\<forall>x \<in> set (take n before). isspace x" and a: "\<forall>x \<in> set ?a. isspace x"
    using assms(1) by (auto dest: in_set_takeD)
  have w: "\<forall>x \<in> set ?w. \<not> isspace x" "length ?w \<le> 63" using assms(2,3) by (auto dest: in_set_takeD)
  have skip: "scan_token k ?text = scan_token k (?w @ ?a)" for k
  proof -
    have "scan_token k (take n before @ ?w @ ?a) = scan_token k (?w @ ?a)"
      using b by (simp add: scan_token_def dropWhile_append2)
    then show ?thesis by (simp only: n)
  qed
  show ?thesis
  proof (cases "?w = []")
    case True
    with skip blank_no_token [OF a] show ?thesis by (simp add: parse_http_request_def)
  next
    case False
    then have "no_space ?w" using w(1) by (simp add: no_space_def)
    from scan_word [OF this w(2), of ?a] a have "scan_token 63 (?w @ ?a) = Some (?w, ?a)" by (cases ?a) auto
    with skip blank_no_token [OF a] show ?thesis by (simp add: parse_http_request_def)
  qed
qed

lemma response_of_request:
  assumes "asks c a"
  shows "http_response c = Inr (delivered c a)"
proof (cases a)
  case No_request
  with assms show ?thesis
    by (auto simp: asks_def http_response_def handle_http_request_def delivered_def response_to_def)
next
  case Broken_request
  with assms obtain before w after rest where r: "hc_request c = Some (before @ w @ after @ rest)"
      "before @ w @ after @ rest \<noteq> []" "\<forall>x \<in> set (before @ after). isspace x"
      "\<forall>x \<in> set w. \<not> isspace x \<and> x \<noteq> NUL" "length w \<le> 63" "rest = [] \<or> hd rest = NUL"
    by (auto simp: asks_def)
  have "http_response c = Inr (send_400_bad_request (hc_sent_header c) (hc_sent_body c))"
    using r(1,2) broken_not_parsed [OF r(3-6)] unfolding http_response_def handle_http_request_def
    by (simp only: option.case if_False)
  then show ?thesis
    by (simp add: send_400_bad_request_def send_parts delivered_def response_to_def Broken_request)
next
  case (Request_line m p)
  with assms obtain rest where r: "hc_request c = Some (m @ CHR '' '' # p @ rest)" "no_space m" "c_string m" "length m \<le> 63"
      "no_space p" "c_string p" "length p \<le> 255" "rest = [] \<or> isspace (hd rest) \<or> hd rest = NUL"
    and reg: "m = ''GET'' \<and> p = ''/metrics'' \<and> hc_malloc_ok c \<longrightarrow> renders (hc_registry c)"
    by (auto simp: asks_def)
  have routed: "http_response c =
      (if m = ''GET'' \<and> p = ''/metrics''
       then handle_metrics_request (hc_malloc_ok c) (hc_registry c) (hc_sent_header c) (hc_sent_body c)
       else if m = ''GET'' \<and> p = ''/''
       then Inr (send_http_response ''200 OK'' ''text/plain'' info_page (hc_sent_header c) (hc_sent_body c))
       else Inr (send_404_not_found (hc_sent_header c) (hc_sent_body c)))"
    using r(1) line_parsed [OF r(2-8)] by (simp add: http_response_def handle_http_request_def)
  have page: "length info_page < 10 ^ 10" by (simp add: info_page_def)
  show ?thesis
  proof (cases "m = ''GET'' \<and> p = ''/metrics''")
    case metrics: True
    show ?thesis
    proof (cases "hc_malloc_ok c")
      case True
      with metrics reg have fits: "renders (hc_registry c)" by simp
      then have "metrics_registry_render_prometheus True (hc_registry c) = Inr (Some (exposition (hc_registry c)))"
        unfolding renders_def by (intro render_full) simp_all
      moreover have "length (exposition (hc_registry c)) < 10 ^ 10" using fits by (simp add: renders_def)
      ultimately show ?thesis
        using metrics True Request_line
        by (simp add: routed handle_metrics_request_def send_parts delivered_def response_to_def http_answer_def)
    next
      case False
      with metrics Request_line show ?thesis
        by (simp add: routed handle_metrics_request_def metrics_registry_render_prometheus_def send_500_internal_error_def
            send_parts delivered_def response_to_def)
    qed
  next
    case False
    with Request_line page show ?thesis
      by (auto simp: routed send_404_not_found_def send_parts delivered_def response_to_def http_answer_def)
  qed
qed

text \<open>A kernel that takes all of it delivers the whole response.\<close>

lemma delivered_whole:
  assumes "response_to c a = Some (status, content_type, body)"
    and "hc_sent_header c = Some n" "length (http_header status content_type (length body)) \<le> n"
    and "hc_sent_body c = Some k" "length body \<le> k"
  shows "delivered c a = http_header status content_type (length body) @ body"
  using assms by (simp add: delivered_def)

text \<open>The clients of a run: those accepted before the shutdown or a failure of the wait.\<close>

fun accepted_in :: "http_turn list \<Rightarrow> http_client list" where
  "accepted_in [] = []"
| "accepted_in (t # ts) =
     (if owner_before t then []
      else (case wait_result t of Wait_ready (Accepted c) \<Rightarrow> [c] | _ \<Rightarrow> [])
        @ (if owner_during t \<or> wait_result t = Wait_broken then [] else accepted_in ts))"

definition tcp_ok :: "tcp_sockets \<Rightarrow> bool" where
  "tcp_ok k \<longleftrightarrow> dom (ts_listening k) \<subseteq> ts_open k"

definition listening_at :: "int \<Rightarrow> sockaddr_in \<Rightarrow> tcp_sockets \<Rightarrow> tcp_sockets" where
  "listening_at fd a k = k\<lparr>ts_open := insert fd (ts_open k), ts_listening := (ts_listening k)(fd \<mapsto> a)\<rparr>"

lemma close_opened:
  assumes "tcp_ok k" and "fd \<notin> ts_open k"
  shows "close_tcp fd (k\<lparr>ts_open := insert fd (ts_open k)\<rparr>) = k" and "close_tcp fd (listening_at fd a k) = k"
proof -
  have "ts_listening k fd = None" using assms by (auto simp: tcp_ok_def)
  then have "(ts_listening k)(fd := None) = ts_listening k" by auto
  with assms(2) show "close_tcp fd (k\<lparr>ts_open := insert fd (ts_open k)\<rparr>) = k" "close_tcp fd (listening_at fd a k) = k"
    by (simp_all add: close_tcp_def listening_at_def)
qed

text \<open>The server either listens on its socket, or has given it back.\<close>

definition server_state :: "int \<Rightarrow> sockaddr_in \<Rightarrow> tcp_sockets \<Rightarrow> http_server \<Rightarrow> bool" where
  "server_state fd a k s \<longleftrightarrow>
     (if http_shutdown s then http_fd s = -1 \<and> http_sockets s = k else http_fd s = fd \<and> http_sockets s = listening_at fd a k)"

lemma loop_after_shutdown: "http_shutdown s \<Longrightarrow> http_fd s = -1 \<Longrightarrow> \<exists>ended. http_loop ts s = Inr (ended, s)"
  by (cases ts) (auto simp: end_thread_def request_shutdown_def Let_def)

lemma shutdown_closes:
  assumes "tcp_ok k" and "fd \<notin> ts_open k" and "0 \<le> fd" and "http_fd s = fd" and "http_sockets s = listening_at fd a k"
  shows "request_shutdown s = s\<lparr>http_shutdown := True, http_fd := -1, http_sockets := k\<rparr>"
    and "end_thread s = s\<lparr>http_fd := -1, http_sockets := k\<rparr>"
  using assms close_opened(2) [OF assms(1,2)] by (simp_all add: request_shutdown_def end_thread_def)

lemma serve_clients:
  assumes "tcp_ok k" and "fd \<notin> ts_open k" and "0 \<le> fd" and "server_state fd a k s" and "\<not> http_shutdown s"
    and "list_all (\<lambda>c. hc_fd c \<notin> insert fd (ts_open k)) (accepted_in ts)"
    and "list_all2 asks (accepted_in ts) rs"
  shows "\<exists>ended s'. http_loop ts s = Inr (ended, s')
    \<and> http_sent s' = http_sent s @ map2 (\<lambda>c r. (hc_fd c, delivered c r)) (accepted_in ts) rs
    \<and> http_sockets s' = (if http_fd s' = -1 then k else listening_at fd a k)
    \<and> (ended \<longrightarrow> http_fd s' = -1)"
  using assms(4-7)
proof (induction ts arbitrary: s rs)
  case Nil
  then show ?case using assms(3) by (auto simp: server_state_def)
next
  case (Cons t ts)
  have s: "http_fd s = fd" "http_sockets s = listening_at fd a k"
    using Cons.prems(1,2) by (simp_all add: server_state_def)
  note closes = shutdown_closes [OF assms(1-3)]
  show ?case
  proof (cases "owner_before t")
    case True
    with Cons.prems(4) show ?thesis by (auto simp: closes [OF s] end_thread_def)
  next
    case running: False
    define s1 where "s1 = (if owner_during t then request_shutdown s else s)"
    have s1: "server_state fd a k s1" "http_sent s1 = http_sent s"
        "http_shutdown s1 = owner_during t"
      using Cons.prems(1,2) closes [OF s] by (auto simp: s1_def server_state_def)
    have here: "server_state fd a k s2 \<Longrightarrow> http_shutdown s2 \<Longrightarrow> http_fd s2 = -1 \<and> http_sockets s2 = k"
        "server_state fd a k s2 \<Longrightarrow> \<not> http_shutdown s2 \<Longrightarrow> http_fd s2 = fd \<and> http_sockets s2 = listening_at fd a k" for s2
      by (simp_all add: server_state_def)
    let ?later = "if owner_during t then [] else accepted_in ts"
    have continue: "\<exists>ended s'. http_loop ts s2 = Inr (ended, s')
        \<and> http_sent s' = http_sent s2 @ map2 (\<lambda>c r. (hc_fd c, delivered c r)) ?later rs'
        \<and> http_sockets s' = (if http_fd s' = -1 then k else listening_at fd a k) \<and> (ended \<longrightarrow> http_fd s' = -1)"
      if "server_state fd a k s2" "http_shutdown s2 = owner_during t" "list_all2 asks ?later rs'"
        "list_all (\<lambda>c. hc_fd c \<notin> insert fd (ts_open k)) ?later" for s2 rs'
      using Cons.IH [of s2 rs'] loop_after_shutdown [of s2 ts] here that by (cases "owner_during t") auto
    have ending: "http_sockets (end_thread s1) = k \<and> http_fd (end_thread s1) = -1 \<and> http_sent (end_thread s1) = http_sent s"
      using here [OF s1(1)] s1 closes(2) [of s1]
      by (cases "http_shutdown s1") (auto simp: end_thread_def)
    have loop: "http_loop (t # ts) s = (case wait_result t of Wait_interrupted \<Rightarrow> http_loop ts s1
        | Wait_broken \<Rightarrow> Inr (True, end_thread s1) | Wait_timeout \<Rightarrow> http_loop ts s1
        | Wait_ready r \<Rightarrow> (case r of Accept_again \<Rightarrow> http_loop ts s1
            | Accept_failed \<Rightarrow> if owner_during t then Inr (True, end_thread s1) else http_loop ts s1
            | Accept_interrupted \<Rightarrow> if owner_during t then Inr (True, end_thread s1) else http_loop ts s1
            | Accepted c \<Rightarrow> let k = http_sockets s1
                in and_then (handle_client_connection c (k\<lparr>ts_open := insert (hc_fd c) (ts_open k)\<rparr>)) (\<lambda>(out, k).
                     http_loop ts (s1\<lparr>http_sockets := k, http_sent := http_sent s1 @ [(hc_fd c, out)]\<rparr>))))"
      using running Cons.prems(2) s1(3)
      by (simp add: s1_def Let_def split: wait_result.split accept_result.split)
    show ?thesis
    proof (cases "\<exists>c. wait_result t = Wait_ready (Accepted c)")
      case True
      then obtain c where c: "wait_result t = Wait_ready (Accepted c)" by blast
      with running Cons.prems(3,4) obtain r rs' where rs: "rs = r # rs'" "asks c r" "list_all2 asks ?later rs'"
        and fresh: "hc_fd c \<notin> insert fd (ts_open k)" "list_all (\<lambda>c. hc_fd c \<notin> insert fd (ts_open k)) ?later"
        by (cases rs) (auto split: if_splits)
      let ?k = "http_sockets s1"
      let ?s2 = "s1\<lparr>http_sockets := ?k, http_sent := http_sent s1 @ [(hc_fd c, delivered c r)]\<rparr>"
      have "tcp_ok ?k" "hc_fd c \<notin> ts_open ?k"
        using here [OF s1(1)] assms(1) fresh(1)
        by (cases "http_shutdown s1"; force simp: listening_at_def tcp_ok_def)+
      then have "close_tcp (hc_fd c) (?k\<lparr>ts_open := insert (hc_fd c) (ts_open ?k)\<rparr>) = ?k" by (rule close_opened(1))
      then have "http_loop (t # ts) s = http_loop ts ?s2"
        unfolding loop using c response_of_request [OF rs(2)] by (simp add: handle_client_connection_def)
      moreover have "server_state fd a k ?s2" "http_shutdown ?s2 = owner_during t"
        using s1 by (simp_all add: server_state_def)
      ultimately show ?thesis
        using continue [OF _ _ rs(3) fresh(2)] c running s1(2) rs(1) by fastforce
    next
      case False
      then have none: "accepted_in (t # ts) = (if wait_result t = Wait_broken then [] else ?later)"
        using running by (auto split: wait_result.split accept_result.split)
      consider (ended) "http_loop (t # ts) s = Inr (True, end_thread s1)" "wait_result t = Wait_broken \<or> owner_during t"
        | (on) "http_loop (t # ts) s = http_loop ts s1" "wait_result t \<noteq> Wait_broken"
      proof (cases "wait_result t")
        case (Wait_ready r)
        with False that loop show ?thesis by (cases r; cases "owner_during t") simp_all
      qed (use that loop in simp_all)
      then show ?thesis
      proof cases
        case ended
        then have "accepted_in (t # ts) = []" unfolding none by auto
        with ended(1) ending Cons.prems(4) show ?thesis by auto
      next
        case on
        then have "accepted_in (t # ts) = ?later" unfolding none by simp
        with on(1) continue [OF s1(1,3), of rs] Cons.prems(3,4) s1(2) show ?thesis by simp
      qed
    qed
  qed
qed

text \<open>C35: The metrics endpoint as its clients see it, for a server thread that ends before its owner frees
  the server (later it runs on freed memory). However the waits of the thread end and whenever its owner
  shuts it down, every client it has accepted is answered by what its first segment asks, in order, and
  its connection is closed: the exposition of the registry for \<open>GET /metrics\<close> (500 when there is no
  memory to render it; a registry that does not fit the 64K buffer is excluded), the info page for
  \<open>GET /\<close>, 404 for any other request line whose method has at most 63 and whose path at most 255
  characters, 400 for less than a method and a path, nothing to a client that sent nothing. What it
  receives is what the kernel takes of the header and then of the body in one send each, all of the
  response when the kernel takes all. While the thread runs the process holds the listening socket and no
  other descriptor of the server, and when the thread has ended, or the socket could not be set up, none.\<close>

theorem http_clients_answered:
  assumes "tcp_ok k" and "tc_socket calls \<notin> ts_open k"
    and "list_all (\<lambda>c. hc_fd c \<notin> insert (tc_socket calls) (ts_open k)) (accepted_in ts)"
    and "list_all2 asks (accepted_in ts) rs"
  shows "(case inet_pton bind_addr of
      Some a \<Rightarrow> if 0 \<le> tc_socket calls \<and> tc_bind_ok calls \<and> tc_listen_ok calls
        then (\<exists>ended s'. metrics_server_thread_fn calls bind_addr port ts k = Inr (ended, s')
          \<and> http_sent s' = map2 (\<lambda>c r. (hc_fd c, delivered c r)) (accepted_in ts) rs
          \<and> http_sockets s' = (if http_fd s' = -1 then k else listening_at (tc_socket calls) (socket_address a port) k)
          \<and> (ended \<longrightarrow> http_fd s' = -1))
        else metrics_server_thread_fn calls bind_addr port ts k =
          Inr (True, \<lparr>http_fd = -1, http_shutdown = False, http_sockets = k, http_sent = []\<rparr>)
    | None \<Rightarrow> metrics_server_thread_fn calls bind_addr port ts k =
        Inr (True, \<lparr>http_fd = -1, http_shutdown = False, http_sockets = k, http_sent = []\<rparr>))"
proof -
  let ?fd = "tc_socket calls"
  note closed = close_opened [OF assms(1,2)]
  have failed: "metrics_server_thread_fn calls bind_addr port ts k =
      Inr (True, \<lparr>http_fd = -1, http_shutdown = False, http_sockets = k, http_sent = []\<rparr>)"
    if "setup_server_socket calls bind_addr port k = (-1, k)"
    using that by (simp add: metrics_server_thread_fn_def)
  have run: "\<exists>ended s'. metrics_server_thread_fn calls bind_addr port ts k = Inr (ended, s')
      \<and> http_sent s' = map2 (\<lambda>c r. (hc_fd c, delivered c r)) (accepted_in ts) rs
      \<and> http_sockets s' = (if http_fd s' = -1 then k else listening_at ?fd (socket_address a port) k)
      \<and> (ended \<longrightarrow> http_fd s' = -1)"
    if "0 \<le> ?fd" "setup_server_socket calls bind_addr port k = (?fd, listening_at ?fd (socket_address a port) k)" for a
  proof -
    let ?s = "\<lparr>http_fd = ?fd, http_shutdown = False, http_sockets = listening_at ?fd (socket_address a port) k, http_sent = []\<rparr>"
    have "server_state ?fd (socket_address a port) k ?s" by (simp add: server_state_def)
    from serve_clients [OF assms(1,2) that(1) this _ assms(3,4)] that show ?thesis
      by (simp add: metrics_server_thread_fn_def)
  qed
  show ?thesis
  proof (cases "inet_pton bind_addr")
    case None
    then have "setup_server_socket calls bind_addr port k = (-1, k)"
      using closed(1) by (simp add: setup_server_socket_def Let_def)
    with None failed show ?thesis by simp
  next
    case (Some a)
    show ?thesis
    proof (cases "0 \<le> ?fd \<and> tc_bind_ok calls \<and> tc_listen_ok calls")
      case True
      with Some have "setup_server_socket calls bind_addr port k = (?fd, listening_at ?fd (socket_address a port) k)"
        by (simp add: setup_server_socket_def Let_def listening_at_def)
      with True Some run show ?thesis by simp
    next
      case False
      with Some have "setup_server_socket calls bind_addr port k = (-1, k)"
        using closed(1) by (auto simp: setup_server_socket_def Let_def)
      with False Some failed show ?thesis by auto
    qed
  qed
qed

definition page_client :: http_client where
  "page_client = \<lparr>hc_fd = 9, hc_request = Some ''GET / HTTP/1.1'', hc_registry = empty_registry, hc_malloc_ok = True,
     hc_sent_header = Some 1000, hc_sent_body = Some 20\<rparr>"

definition broken_client :: http_client where
  "broken_client = page_client\<lparr>hc_fd := 10, hc_request := Some ''GET ''\<rparr>"

definition silent_client :: http_client where
  "silent_client = page_client\<lparr>hc_fd := 11, hc_request := None\<rparr>"

definition no_tcp :: tcp_sockets where "no_tcp = \<lparr>ts_open = {}, ts_listening = (\<lambda>_. None)\<rparr>"

definition quiet_turn :: "wait_result \<Rightarrow> http_turn" where
  "quiet_turn w = \<lparr>owner_before = False, owner_during = False, wait_result = w\<rparr>"

definition http_turns :: "http_turn list" where
  "http_turns = [quiet_turn Wait_timeout, quiet_turn (Wait_ready (Accepted page_client)),
     quiet_turn (Wait_ready (Accepted broken_client)), quiet_turn (Wait_ready (Accepted silent_client)),
     (quiet_turn (Wait_ready Accept_failed))\<lparr>owner_during := True\<rparr>]"

theorem http_clients_answered_witness:
  "\<exists>ended s'. metrics_server_thread_fn \<lparr>tc_socket = 5, tc_bind_ok = True, tc_listen_ok = True\<rparr> ''127.0.0.1'' 7002
      http_turns no_tcp = Inr (ended, s')
    \<and> http_sent s' = [(9, delivered page_client (Request_line ''GET'' ''/'')), (10, delivered broken_client Broken_request),
        (11, [])]
    \<and> (ended \<longrightarrow> http_fd s' = -1)"
proof -
  have "asks page_client (Request_line ''GET'' ''/'')"
    unfolding asks_def page_client_def http_ask.case
    by (rule exI [of _ "'' HTTP/1.1''"]) (simp add: no_space_def isspace_def c_string_def)
  moreover have "asks broken_client Broken_request"
    unfolding asks_def broken_client_def http_ask.case
    by (rule exI [of _ "[]"], rule exI [of _ "''GET''"], rule exI [of _ "'' ''"], rule exI [of _ "[]"])
      (simp add: isspace_def)
  moreover have "asks silent_client No_request" "delivered silent_client No_request = []"
    by (simp_all add: asks_def silent_client_def delivered_def response_to_def)
  moreover have "accepted_in http_turns = [page_client, broken_client, silent_client]"
    by (simp add: http_turns_def quiet_turn_def)
  moreover have "inet_pton ''127.0.0.1'' = Some [127, 0, 0, 1]" by (simp add: inet_pton_def isdigit_def)
  ultimately show ?thesis
    using http_clients_answered [of no_tcp "\<lparr>tc_socket = 5, tc_bind_ok = True, tc_listen_ok = True\<rparr>" http_turns
        "[Request_line ''GET'' ''/'', Broken_request, No_request]" "''127.0.0.1''" 7002]
    by (auto simp: tcp_ok_def no_tcp_def page_client_def broken_client_def silent_client_def)
qed

end
