(* ===== verification/Introspection.thy ===== *)
theory Introspection
  imports Node_Service Config_Validator
begin

text \<open>
  What the program logs about itself: the dumps of the cluster view (src/cluster/membership.c), the
  service registry (src/core/service_registry.c), the capabilities of a node
  (src/node/node_capabilities.c) and the result of a validation (src/core/config_validator.c). A dump
  is the list of its lines; \<open>%p\<close> prints what the C library makes of a pointer, an argument here.
\<close>

definition bar :: string where "bar = replicate 40 (CHR ''='')"

section \<open>The cluster view\<close>

definition status_text :: "node_status \<Rightarrow> string" where
  "status_text st = (if st = NODE_STATUS_ALIVE then ''ALIVE'' else if st = NODE_STATUS_SUSPECT then ''SUSPECT'' else ''DEAD'')"

definition member_line :: "nat \<Rightarrow> cluster_member \<Rightarrow> string" where
  "member_line i m = ''  ['' @ utoa i @ ''] node_id='' @ utoa (unat (m_node_id m))
     @ '' type='' @ (if m_node_type m = NODE_TYPE_ROUTER then ''ROUTER'' else ''WORKER'')
     @ '' status='' @ status_text (m_status m)
     @ '' ip='' @ m_ip_address m @ '':'' @ utoa (unat (m_gossip_port m)) @ '' data='' @ utoa (unat (m_data_port m))
     @ '' inc='' @ utoa (unat (m_incarnation m)) @ '' last_seen='' @ utoa (unat (m_last_seen_ms m))"

definition cluster_view_dump :: "string option \<Rightarrow> cluster_view \<Rightarrow> string list" where
  "cluster_view_dump label v =
     [bar, ''Cluster View Dump: '' @ (case label of None \<Rightarrow> [] | Some l \<Rightarrow> l), bar,
      ''Total members: '' @ utoa (length (members v)) @ '' (capacity: '' @ utoa (view_capacity v) @ '')'']
     @ (if members v = [] then [''  (empty)'']
        else map (\<lambda>(i, m). member_line i m) (enumerate 0 (members v)))
     @ [bar]"

text \<open>After an update of a member the dump changes in that member's line only, if it does at all.\<close>

lemma dump_of_update:
  assumes "i < length (members v)"
  shows "cluster_view_dump label (v\<lparr>members := (members v)[i := m]\<rparr>) =
    (cluster_view_dump label v)[4 + i := member_line i m]"
proof -
  have "map (\<lambda>(i, m). member_line i m) (enumerate 0 ((members v)[i := m]))
      = (map (\<lambda>(i, m). member_line i m) (enumerate 0 (members v)))[i := member_line i m]"
    using assms by (intro nth_equalityI) (simp_all add: nth_enumerate_eq nth_list_update)
  with assms show ?thesis
    by (auto simp: cluster_view_dump_def list_update_append numeral_eq_Suc)
qed

section \<open>The service registry\<close>

definition service_types :: "service_type list" where
  "service_types = [SERVICE_TYPE_NODE_STATE, SERVICE_TYPE_RPC_SERVER, SERVICE_TYPE_EVENT_BUS, SERVICE_TYPE_METRICS,
     SERVICE_TYPE_DAG_CATALOG, SERVICE_TYPE_CLUSTER_VIEW, SERVICE_TYPE_PEER_POOL, SERVICE_TYPE_EXECUTOR_POOL]"

fun service_type_to_string :: "service_type \<Rightarrow> string" where
  "service_type_to_string SERVICE_TYPE_NODE_STATE = ''NODE_STATE''"
| "service_type_to_string SERVICE_TYPE_RPC_SERVER = ''RPC_SERVER''"
| "service_type_to_string SERVICE_TYPE_EVENT_BUS = ''EVENT_BUS''"
| "service_type_to_string SERVICE_TYPE_METRICS = ''METRICS''"
| "service_type_to_string SERVICE_TYPE_DAG_CATALOG = ''DAG_CATALOG''"
| "service_type_to_string SERVICE_TYPE_CLUSTER_VIEW = ''CLUSTER_VIEW''"
| "service_type_to_string SERVICE_TYPE_PEER_POOL = ''PEER_POOL''"
| "service_type_to_string SERVICE_TYPE_EXECUTOR_POOL = ''EXECUTOR_POOL''"

definition service_line :: "(nat \<Rightarrow> string) \<Rightarrow> service_entry \<Rightarrow> string" where
  "service_line ptr_text e = ''  - '' @ service_name e @ '' -> '' @ ptr_text (service_ptr e)"

definition dump_services :: "(nat \<Rightarrow> string) \<Rightarrow> service_registry \<Rightarrow> service_type \<Rightarrow> string list" where
  "dump_services ptr_text reg ty =
     (case filter service_active (services reg ty) of
        [] \<Rightarrow> []
      | es \<Rightarrow> (''['' @ service_type_to_string ty @ '']'') # map (service_line ptr_text) es)"

definition service_registry_dump :: "(nat \<Rightarrow> string) \<Rightarrow> service_registry option \<Rightarrow> string list" where
  "service_registry_dump ptr_text registry =
     (case registry of
        None \<Rightarrow> [''Service registry: NULL'']
      | Some reg \<Rightarrow> [bar, ''Service Registry Dump'', bar] @ concat (map (dump_services ptr_text reg) service_types) @ [bar])"

lemma all_service_types: "ty \<in> set service_types"
  by (cases ty) (simp_all add: service_types_def)

text \<open>Every service that can be looked up is in the dump, under its name.\<close>

lemma dump_shows_services:
  assumes "service_registry_get reg ty name \<noteq> 0"
  shows "(''  - '' @ name @ '' -> '' @ ptr_text (service_registry_get reg ty name))
    \<in> set (service_registry_dump ptr_text (Some reg))"
proof -
  obtain i where i: "slot_of service_active service_name name (services reg ty) = Some i"
      "service_registry_get reg ty name = service_ptr (services reg ty ! i)"
    using assms by (auto simp: service_registry_get_def split: option.splits)
  then have e: "services reg ty ! i \<in> set (filter service_active (services reg ty))"
      "service_name (services reg ty ! i) = name"
    using slot_of_SomeD [OF i(1)] by auto
  then have "service_line ptr_text (services reg ty ! i) \<in> set (dump_services ptr_text reg ty)"
    by (cases "filter service_active (services reg ty)") (auto simp: dump_services_def)
  then have "service_line ptr_text (services reg ty ! i) \<in> set (concat (map (dump_services ptr_text reg) service_types))"
    using all_service_types [of ty] by auto
  then show ?thesis using e(2) i(2) by (simp add: service_registry_dump_def service_line_def)
qed

section \<open>Capabilities\<close>

definition enabled_text :: "int \<Rightarrow> string" where
  "enabled_text flag = (if flag \<noteq> 0 then ''ENABLED'' else ''DISABLED'')"

definition node_print_capabilities_ex :: "node_capabilities \<Rightarrow> node_identity \<Rightarrow> string list" where
  "node_print_capabilities_ex caps ident =
     [bar, ''Node Capabilities Summary:'',
      ''  Ingress:   '' @ enabled_text (has_ingress caps)
        @ (if has_ingress caps \<noteq> 0 then (if 0 < id_ingress_port ident then [] else '' (port invalid)'') else []),
      ''  Execute:   '' @ enabled_text (can_execute caps),
      ''  Route:     '' @ enabled_text (can_route caps),
      (if has_ingress caps \<noteq> 0 \<and> can_execute caps \<noteq> 0 then ''  Node Type: HYBRID (ingress + execution)''
       else if has_ingress caps \<noteq> 0 then ''  Node Type: EDGE (ingress only)''
       else if can_execute caps \<noteq> 0 then ''  Node Type: COMPUTE (execution only)''
       else ''  Node Type: RELAY (routing only)''),
      bar]"

text \<open>Only two of the four kinds occur, and the port of an ingress is never reported as invalid.\<close>

lemma printed_kind:
  assumes "node_detect_capabilities_ex config ident = (caps, ident')"
  shows "node_print_capabilities_ex caps ident' ! 5 =
    (if has_ingress caps \<noteq> 0 then ''  Node Type: HYBRID (ingress + execution)''
     else ''  Node Type: COMPUTE (execution only)'')
    \<and> node_print_capabilities_ex caps ident' ! 2 = ''  Ingress:   '' @ enabled_text (has_ingress caps)"
  using assms
  by (auto simp: node_detect_capabilities_ex_def node_print_capabilities_ex_def Let_def split: if_splits prod.splits)

section \<open>The result of a validation\<close>

definition severity_text :: "nat \<Rightarrow> string" where
  "severity_text sev = (if sev = 0 then ''WARN'' else if sev = 1 then ''ERROR'' else ''FATAL'')"

definition validation_result_print :: "validation_result \<Rightarrow> (log_level \<times> string) list" where
  "validation_result_print result =
     (if vr_valid result \<and> vr_errors result = [] then [(LOG_LEVEL_INFO, ''Configuration validation: PASSED'')]
      else map (Pair LOG_LEVEL_WARN)
        ([bar, ''Configuration Validation Issues'', bar]
         @ map (\<lambda>e. ''['' @ severity_text (severity e) @ ''] '' @ err_message e) (vr_errors result)
         @ [bar, ''Status: '' @ (if vr_valid result then ''PASSED (with warnings)'' else ''FAILED''), bar]))"

text \<open>An error that is added while there is room is printed and makes the status FAILED.\<close>

lemma added_error_printed:
  assumes "length (vr_errors r) < MAX_VALIDATION_ERRORS" and "1 \<le> sev" and "length msg < MAX_ERROR_MESSAGE_LEN" and "c_string msg"
  shows "(LOG_LEVEL_WARN, ''['' @ severity_text sev @ ''] '' @ msg) \<in> set (validation_result_print (validation_add_error sev msg r))
    \<and> (LOG_LEVEL_WARN, ''Status: FAILED'') \<in> set (validation_result_print (validation_add_error sev msg r))"
  using assms by (simp add: validation_result_print_def validation_add_error_def)

end
