(* ===== verification/Results_Clock.thy ===== *)
theory Results_Clock
  imports Complex_Main C_Strings
begin

text \<open>
  The clock of src/core/common.c and the result values of include/roole/common.h: a result carries a
  code, a message and the place it comes from; the macros that build, propagate and replace results
  are functions here, with what they log. The arguments \<open>__FILE__\<close>, \<open>__LINE__\<close> and \<open>__func__\<close> are
  explicit, and \<open>text\<close> is the formatted message.
\<close>

section \<open>The clock\<close>

record timespec =
  tv_sec :: int
  tv_nsec :: int

definition time_now_ms :: "timespec \<Rightarrow> u64" where
  "time_now_ms ts = word_of_int (tv_sec ts) * 1000 + word_of_int (tv_nsec ts) div 1000000"

definition time_now_us :: "timespec \<Rightarrow> u64" where
  "time_now_us ts = word_of_int (tv_sec ts) * 1000000 + word_of_int (tv_nsec ts) div 1000"

definition time_diff_us :: "(rat \<Rightarrow> rat) \<Rightarrow> timespec \<Rightarrow> timespec \<Rightarrow> rat" where
  "time_diff_us rnd start end_ts =
     rnd (rnd (of_int (tv_sec end_ts - tv_sec start) * 1000000) + rnd (of_int (tv_nsec end_ts - tv_nsec start) / 1000))"

text \<open>The time in nanoseconds, and the readings the kernel gives.\<close>

definition nanos :: "timespec \<Rightarrow> int" where "nanos ts = tv_sec ts * 10 ^ 9 + tv_nsec ts"

definition reading :: "timespec \<Rightarrow> bool" where
  "reading ts \<longleftrightarrow> 0 \<le> tv_sec ts \<and> 0 \<le> tv_nsec ts \<and> tv_nsec ts < 10 ^ 9 \<and> tv_sec ts < 2 ^ 50"

lemma now_ms_nanos:
  assumes "reading ts"
  shows "uint (time_now_ms ts) = nanos ts div 10 ^ 6"
proof -
  have "uint (word_of_int (tv_nsec ts) div 1000000 :: u64) = tv_nsec ts div 1000000"
    using assms by (simp add: uint_div uint_word_of_int_eq take_bit_int_eq_self reading_def)
  then have "(word_of_int (tv_nsec ts) div 1000000 :: u64) = word_of_int (tv_nsec ts div 1000000)"
    by (metis word_of_int_uint)
  then have ms: "time_now_ms ts = word_of_int (tv_sec ts * 1000 + tv_nsec ts div 1000000)"
    by (simp add: time_now_ms_def)
  have "nanos ts div 10 ^ 6 = tv_sec ts * 1000 + tv_nsec ts div 1000000"
    by (simp add: nanos_def div_mult_self4 algebra_simps)
  moreover have "0 \<le> tv_sec ts * 1000 + tv_nsec ts div 1000000" "tv_sec ts * 1000 + tv_nsec ts div 1000000 < 2 ^ 64"
    using assms by (auto simp: reading_def)
  ultimately show ?thesis unfolding ms by (subst uint_word_of_int_eq, subst take_bit_int_eq_self) simp_all
qed

text \<open>A time-out as the program tests it, \<open>now - since > limit\<close> in 64 bits, is never early and at most a
  millisecond late.\<close>

lemma timeout_accuracy:
  assumes "reading since" and "reading now" and "nanos since \<le> nanos now"
  shows "limit < time_now_ms now - time_now_ms since \<Longrightarrow> int (unat limit) * 10 ^ 6 < nanos now - nanos since"
    and "(int (unat limit) + 1) * 10 ^ 6 \<le> nanos now - nanos since - 10 ^ 6 \<Longrightarrow>
      limit < time_now_ms now - time_now_ms since"
proof -
  have le: "uint (time_now_ms since) \<le> uint (time_now_ms now)"
    using assms by (simp add: now_ms_nanos zdiv_mono1)
  then have d: "uint (time_now_ms now - time_now_ms since) = nanos now div 10 ^ 6 - nanos since div 10 ^ 6"
    using assms by (simp add: uint_sub_lem [THEN iffD1] now_ms_nanos)
  have lim: "limit < time_now_ms now - time_now_ms since \<longleftrightarrow> int (unat limit) < nanos now div 10 ^ 6 - nanos since div 10 ^ 6"
    by (simp add: word_less_def d flip: uint_nat)
  show "limit < time_now_ms now - time_now_ms since \<Longrightarrow> int (unat limit) * 10 ^ 6 < nanos now - nanos since"
    unfolding lim by simp
  show "(int (unat limit) + 1) * 10 ^ 6 \<le> nanos now - nanos since - 10 ^ 6 \<Longrightarrow>
      limit < time_now_ms now - time_now_ms since"
    unfolding lim by simp
qed

section \<open>Copies of strings\<close>

definition free_strdup :: "bool \<Rightarrow> string option \<Rightarrow> string option" where
  "free_strdup malloc_ok s = (case s of None \<Rightarrow> None | Some s \<Rightarrow> if malloc_ok then Some s else None)"

section \<open>Results\<close>

record result =
  rs_code :: int
  rs_message :: string
  source_file :: "string option"
  source_line :: int
  rs_function :: "string option"

definition result_success :: result where
  "result_success = \<lparr>rs_code = 0, rs_message = [], source_file = None, source_line = 0, rs_function = None\<rparr>"

definition result_error_simple :: "int \<Rightarrow> string \<Rightarrow> int \<Rightarrow> string \<Rightarrow> result" where
  "result_error_simple code file line func =
     \<lparr>rs_code = code, rs_message = [], source_file = Some file, source_line = line, rs_function = Some func\<rparr>"

text \<open>\<open>RESULT_ERROR\<close> prints its message into a second, unnamed result.\<close>

definition result_error :: "int \<Rightarrow> string \<Rightarrow> string \<Rightarrow> int \<Rightarrow> string \<Rightarrow> result \<times> result" where
  "result_error code msg file line func =
     (result_error_simple code file line func, (result_error_simple code file line func)\<lparr>rs_message := take 255 msg\<rparr>)"

definition result_is_ok :: "result \<Rightarrow> bool" where "result_is_ok r \<longleftrightarrow> rs_code r = 0"

definition result_is_error :: "result \<Rightarrow> bool" where "result_is_error r \<longleftrightarrow> rs_code r \<noteq> 0"

definition result_code :: "result \<Rightarrow> int" where "result_code r = rs_code r"

definition result_from_int :: "int \<Rightarrow> result" where
  "result_from_int code = \<lparr>rs_code = code, rs_message = [], source_file = None, source_line = 0, rs_function = None\<rparr>"

definition or_unknown :: "string option \<Rightarrow> string" where
  "or_unknown s = (case s of None \<Rightarrow> ''unknown'' | Some s \<Rightarrow> s)"

definition result_log_error :: "result \<Rightarrow> string list" where
  "result_log_error r =
     (if result_is_error r
      then [''['' @ or_unknown (source_file r) @ '':'' @ itoa (source_line r) @ '' in '' @ or_unknown (rs_function r)
            @ ''()] Error '' @ itoa (rs_code r) @ (if rs_message r \<noteq> [] then '': '' @ rs_message r else [])]
      else [])"

text \<open>The macros that leave a function: what is logged, and the result of the function if it is left
  there, or of the code that follows.\<close>

definition return_error :: "int \<Rightarrow> string \<Rightarrow> string \<Rightarrow> int \<Rightarrow> string \<Rightarrow> string list \<times> result" where
  "return_error code msg file line func =
     (let err = (result_error_simple code file line func)\<lparr>rs_message := take 255 msg\<rparr> in (result_log_error err, err))"

definition return_if_false ::
  "bool \<Rightarrow> int \<Rightarrow> string \<Rightarrow> string \<Rightarrow> int \<Rightarrow> string \<Rightarrow> string list \<times> result \<Rightarrow> string list \<times> result" where
  "return_if_false cond code msg file line func rest = (if \<not> cond then return_error code msg file line func else rest)"

definition propagate_error :: "result \<Rightarrow> string list \<times> result \<Rightarrow> string list \<times> result" where
  "propagate_error r rest = (if result_is_error r then (result_log_error r, r) else rest)"

definition check_result ::
  "result \<Rightarrow> int \<Rightarrow> string \<Rightarrow> string \<Rightarrow> int \<Rightarrow> string \<Rightarrow> string list \<times> result \<Rightarrow> string list \<times> result" where
  "check_result r code msg file line func rest =
     (if result_is_error r then return_error code msg file line func else rest)"

text \<open>An error that a macro creates is logged once with its message and returned with it, and is logged
  again, unchanged, by every function that propagates it; \<open>RESULT_ERROR\<close> alone loses its message.\<close>

lemma errors_keep_message:
  assumes "code \<noteq> 0" and "length msg < 256"
  shows "rs_message (snd (return_if_false False code msg file line func rest)) = msg"
    and "fst (propagate_error (snd (return_if_false False code msg file line func rest)) rest')
      = fst (return_if_false False code msg file line func rest)"
    and "rs_message (fst (result_error code msg file line func)) = []"
  using assms
  by (simp_all add: return_if_false_def return_error_def propagate_error_def result_error_def result_is_error_def
      result_error_simple_def Let_def)

lemma int_results_convert: "result_code (result_from_int n) = n \<and> (result_is_ok (result_from_int n) \<longleftrightarrow> n = 0)"
  by (simp add: result_code_def result_from_int_def result_is_ok_def)

end
