(* ===== verification/Spec2Isabelle.thy ===== *)
theory Spec2Isabelle
  imports Gossip_Properties Client_Session Membership Failure_Detection Catalog_Sync Executor_Loop
    Service_Registry Config_Validator Node_Bootstrap Node_Service Node_Metrics Metrics_Listener Introspection Results_Clock
begin

text \<open>
  A verification library for Roole, a distributed executor of DAGs of processing steps written in
  C (src/ with its headers in src/include/roole).

  \<^bold>\<open>The program.\<close> A Roole node is one process. Its \<^emph>\<open>gossip engine\<close> (src/src/cluster) runs the SWIM
  protocol over UDP: a listener thread handles datagrams, a protocol thread pings members, suspects
  the silent ones and declares them dead; both work on a \<^emph>\<open>cluster view\<close> that the whole process
  shares, and on a router also on the \<^emph>\<open>peer pool\<close> of the workers it can send work to. Nodes with an
  ingress port (routers) take client requests over the \<^emph>\<open>RPC server\<close> of src/src/core/rpc.c: submit a
  message for a DAG, ask for a status, list or register DAGs. A submission enters the
  \<^emph>\<open>execution tracker\<close> and the \<^emph>\<open>message queue\<close>; \<^emph>\<open>executor threads\<close> take it from there, run the steps of
  the DAG in dependency order and report the status to the tracker of the node the message came
  from. A registered DAG enters the \<^emph>\<open>catalog\<close> and is sent to every worker. A new worker joins by a
  datagram to a router and learns the other routers from the answer. Around this stand the event
  bus, the metrics with their HTTP endpoint, the configuration with its validator, the logger and
  the registry of services.

  \<^bold>\<open>Theories and code.\<close> Paths are relative to src/src; records mirror the structs of the headers field
  by field, functions keep the names of the code.

  Shared base:
  \<^item> \<open>Roole_Prelude\<close>: machine integers, \<open>c_error + 'a\<close> for code that may leave an array, list functions
    for the loops every component repeats, the collections \<open>wf_intros\<close> and \<open>frame_simps\<close>.
  \<^item> \<open>Tables\<close>, \<open>Slots\<close>, \<open>Bounded_Fifo\<close>, \<open>Runs\<close>: the contracts components share, as locales (below);
    \<open>Threads\<close>: thread handles and the faults of joining them; \<open>Wire\<close>: byte order and the codec contract;
    \<open>C_Strings\<close>: the string functions of the C library that the text code calls.
  \<^item> \<open>Roole_Common\<close>: the strings and hashes of core/common.c; \<open>Results_Clock\<close>: its clock, and the results of
    include/roole/common.h with their macros.

  Cluster:
  \<^item> \<open>Cluster_View\<close>: the view of cluster/membership.c, a list of members with its capacity.
  \<^item> \<open>Gossip_Protocol\<close>: cluster/gossip_protocol.c, the datagrams byte for byte.
  \<^item> \<open>Gossip_Engine\<close> (state, update queue, pending acknowledgements), \<open>Gossip_Handlers\<close> (listener side),
    \<open>Gossip_Rounds\<close> (protocol side and public functions): cluster/gossip_engine.c. The engine is one
    record; every handler, timeout check and round is a function on it, sends are recorded in \<open>sent\<close>.
  \<^item> \<open>Gossip_Transport\<close>: cluster/gossip_transport.c and the listener loop. \<open>Membership\<close>: the handle of
    cluster/membership.c with the socket and threads of its engine.
  \<^item> \<open>Gossip_Invariant\<close>, \<open>Gossip_Properties\<close>, \<open>Failure_Detection\<close>: the invariant of an engine, clusters
    of engines, and what the protocol promises across nodes.

  Requests:
  \<^item> \<open>Rpc\<close>: framing, channels and the work for one ready connection; \<open>Rpc_Server\<close>: listeners, accept and
    the epoll loop of core/rpc.c with every descriptor; \<open>Remote_Calls\<close>: both with the handlers;
    \<open>Node_Serving\<close>: all of it from the configuration of a node on; \<open>Client_Session\<close>: a client that submits
    a message, the executor that runs it, and the answer to the client's question.
  \<^item> \<open>Peer_Pool\<close>, \<open>Message_Queue\<close>, \<open>Exec_Tracker\<close>: node/peer_pool.c, node/message_queue.c,
    node/execution_tracker.c.
  \<^item> \<open>Dag\<close>, \<open>Dag_Serial\<close>, \<open>Dag_Exec\<close>: dag/dag_catalog.c and dag/dag_executor.c.
  \<^item> \<open>Node_State\<close> (include/roole/node_state.h), \<open>Node_Handlers\<close> (node/node_handlers.c), \<open>Node_Executor\<close>
    and \<open>Executor_Loop\<close> (node/node_executor.c), \<open>Node_Service\<close> (node/node_capabilities.c, node/node_rpc.c
    and the dispatch of core/rpc.c), \<open>Node_Bootstrap\<close> (node/node_bootstrap.c), \<open>Node_Metrics\<close>
    (node/node_metrics.c); \<open>Node_Properties\<close>, \<open>Dag_Registration\<close> and \<open>Catalog_Sync\<close> prove properties that cross them.

  Services: \<open>Event_Bus\<close>, \<open>Service_Registry\<close>, \<open>Logger\<close>, \<open>Config\<close>, \<open>Config_Validator\<close>, \<open>Metrics\<close>,
  \<open>Metrics_Server\<close> and \<open>Metrics_Listener\<close>, each the file of core/ with its name; \<open>Introspection\<close> holds
  the dumps that several files log.

  \<^bold>\<open>How code becomes definitions.\<close> A section under a lock is one function, a handler is one atomic step;
  interleavings are sequences of steps. Results of system calls, of allocation, of the clock and of
  \<open>rand\<close> are arguments. Integers keep their width (\<open>u8\<close> to \<open>u64\<close>) where the code can wrap or truncate.
  Access outside an array is the value \<open>Inl\<close>, a wait on a condition variable is \<open>None\<close>, a fault of
  thread handles is \<open>thread_fault\<close>, a handler that blocks or faults is \<open>Blocked\<close> or \<open>Fault\<close>. Rounding of
  floating point is a parameter. A thread is a function over the list of its turns, so a statement
  about every such list is one about every run.

  \<^bold>\<open>Contracts.\<close> \<open>keyed_table\<close> (view, pool, catalog), \<open>slot_store\<close> and \<open>slot_table\<close> (tracker, services,
  metrics), \<open>bounded_fifo\<close> (update, message and event queue), \<open>codec\<close> (integers, member updates,
  routers) and \<open>run_invariant\<close> (request server, cluster, membership handle) are locales; each is
  interpreted on the definitions of every component that provides it, and the properties use the
  facts of these interpretations.

  \<^bold>\<open>What is shown.\<close> Each property states its conditions in the text before it; in short:
  \<^item> Membership: the engine keeps its invariant over any run, and only a datagram that announces more
    than ten updates can make it leave an array; a cluster of nodes running this code never sends one.
    A member that stays silent, while the listener receives nothing, is suspected and then declared
    dead; an answered ping clears a suspicion, over the sockets. Joining gives a node the first ten
    ALIVE routers of its seed, and retrying ends whatever comes back. From start to shutdown no socket
    or thread is lost.
  \<^item> Requests: however TCP cuts a stream of calls whose bursts fit the receive buffer, each handler runs
    once, in order, and the replies are those of the handlers run on whole calls; a router holds
    exactly its own descriptors and those of its connections; a node without an ingress port rejects
    client calls.
  \<^item> Executions: the queue is a bounded FIFO, ids are never reused, the tracker touches only what it is
    told to; a DAG runs in dependency order, to success exactly when an order exists, and among acyclic
    DAGs of a legal size the valid ones are those that run; executors count each message once, with
    messages arriving meanwhile; starting them is all or nothing. A DAG survives serialisation,
    registration reaches each worker, and what a worker then stores is the DAG that was sent. A message
    submitted over a connection to an idle node is answered with its id, and with its outcome once it
    has run, if the sender id of its context is the node's own (the RPC layer never sets it).
  \<^item> Services: every accepted event is dispatched to its subscribers, service lookup, configuration
    round trip, validation in terms of ids, names and ports, histograms, complete scrapes, HTTP answers
    for whatever a client sends and the kernel takes, log lines.
  \<^item> Where the code falls short of its intent, a theorem says when: overruns by counts and lengths
    that are not checked, incarnations compared with the wrong number, contexts and servers used
    after they were freed.

  \<^bold>\<open>Bounds.\<close> Capacities are those of the headers: 10 updates in a message, 256 queued updates, 64
  pending acknowledgements, 128 steps, 16 dependencies, buffers of 4096 bytes, 1024 events, 256
  metrics. No definition uses fuel: every loop of the code is a structural recursion or has a
  termination proof (\<open>execute_loop\<close> by the steps left to complete, \<open>rpc_frames\<close> by the bytes left), and
  loops that only end at a shutdown flag recurse over their turns.

  \<^bold>\<open>Not modelled.\<close> The implementation of include/roole/node_state.h (creation and destruction of a
  node, its cleanup thread) is not part of src; its accessors return fields of the record. The
  allocation wrappers of core/common.c are arguments; so are clock readings, as the 64-bit
  milliseconds that \<open>Results_Clock\<close> relates to the clock. Sockets, epoll and files are their
  results. Log output is modelled where it is computed (line formats, dumps), the other LOG macros
  are left out. The programs of src/test are clients of the protocol and not part of a node.
\<close>

end
